(* ===== verification/NTFS_Prelude.thy ===== *)
theory NTFS_Prelude
  imports Main "HOL-Library.Word"
begin

text \<open>
  What the components share: the C integer types and their conversions, the error
  values (\<open>errno\<close> codes and results), little-endian byte fields, buffers read and
  written by index, and the two generic interfaces (an encoder with its decoder, a
  transition system with an invariant) whose lemmas the components reuse through
  interpretations.
\<close>

named_theorems le_simps \<open>little-endian fields of byte buffers\<close>
named_theorems buf_simps \<open>reads and writes of buffers by index\<close>

section \<open>Machine types and error values\<close>

type_synonym u8 = "8 word"
type_synonym u16 = "16 word"
type_synonym u32 = "32 word"
type_synonym u64 = "64 word"

text \<open>A C buffer is the list of its bytes.\<close>

type_synonym bytes = "u8 list"

datatype errno =
    EPERM | ENOENT | EINTR | EIO | EBADF | ENOMEM | EACCES | EEXIST | EINVAL | ENOSPC | EROFS
  | ERANGE | ENAMETOOLONG | EILSEQ | EOVERFLOW | EOPNOTSUPP | EBUSY | ESPIPE | ENOTTY

text \<open>
  The outcome of a call: it returns a value, it fails with \<open>errno\<close> set, or it
  leaves the buffer it was given (an access the C standard leaves undefined).
\<close>

datatype 'a result = Ok 'a | Err errno | Fault

fun res_bind :: "'a result \<Rightarrow> ('a \<Rightarrow> 'b result) \<Rightarrow> 'b result" where
  "res_bind (Ok x) f = f x"
| "res_bind (Err e) f = Err e"
| "res_bind Fault f = Fault"

lemma res_bind_Ok_conv [simp]:
  "res_bind m f = Ok y \<longleftrightarrow> (\<exists>x. m = Ok x \<and> f x = Ok y)"
  by (cases m) auto

lemma res_bind_Fault_conv [simp]:
  "res_bind m f = Fault \<longleftrightarrow> m = Fault \<or> (\<exists>x. m = Ok x \<and> f x = Fault)"
  by (cases m) auto

text \<open>Truncation of an integer to the signed 64-bit and 32-bit range (two's complement).\<close>

definition s64 :: "int \<Rightarrow> int" where
  "s64 x = (x + 2 ^ 63) mod 2 ^ 64 - 2 ^ 63"

definition s32 :: "int \<Rightarrow> int" where
  "s32 x = (x + 2 ^ 31) mod 2 ^ 32 - 2 ^ 31"

definition in_s64 :: "int \<Rightarrow> bool" where
  "in_s64 x \<longleftrightarrow> - (2 ^ 63) \<le> x \<and> x < 2 ^ 63"

lemma s64_id [simp]: "in_s64 x \<Longrightarrow> s64 x = x"
  by (simp add: s64_def in_s64_def)

lemma s64_in_s64 [simp, intro]: "in_s64 (s64 x)"
  using pos_mod_bound [of "2 ^ 64" "x + 2 ^ 63"] pos_mod_sign [of "2 ^ 64" "x + 2 ^ 63"]
  by (simp add: s64_def in_s64_def)

section \<open>Little-endian fields\<close>

fun le_val :: "bytes \<Rightarrow> nat" where
  "le_val [] = 0"
| "le_val (b # bs) = unat b + 256 * le_val bs"

fun le_bytes :: "nat \<Rightarrow> nat \<Rightarrow> bytes" where
  "le_bytes 0 v = []"
| "le_bytes (Suc n) v = word_of_nat (v mod 256) # le_bytes n (v div 256)"

lemma length_le_bytes [simp]: "length (le_bytes n v) = n"
  by (induction n arbitrary: v) auto

lemma unat_u8_less [simp]: "unat (b :: u8) < 256"
  using unsigned_less [of b] by simp

lemma le_val_le_bytes [le_simps]: "le_val (le_bytes n v) = v mod 256 ^ n"
proof (induction n arbitrary: v)
  case 0
  show ?case by simp
next
  case (Suc n)
  have "le_val (le_bytes (Suc n) v) = v mod 256 + 256 * (v div 256 mod 256 ^ n)"
    by (simp add: Suc unat_of_nat)
  also have "\<dots> = v mod (256 * 256 ^ n)"
    by (simp add: mod_mult2_eq)
  finally show ?case by simp
qed

lemma le_val_bound: "le_val bs < 256 ^ length bs"
proof (induction bs)
  case (Cons b bs)
  then have "le_val bs + 1 \<le> 256 ^ length bs" by simp
  then have "256 * (le_val bs + 1) \<le> 256 * 256 ^ length bs" by (rule mult_le_mono2)
  then show ?case using unat_u8_less [of b] by (simp del: unat_u8_less)
qed simp

lemma le_bytes_le_val [le_simps]: "n = length bs \<Longrightarrow> le_bytes n (le_val bs) = bs"
  by (induction bs arbitrary: n) auto

section \<open>Buffers\<close>

text \<open>
  A read of a byte of a buffer; the components state where they rely on the buffer
  being long enough. Reads outside the list give 0, and no theorem depends on it.
\<close>

definition byte_at :: "bytes \<Rightarrow> nat \<Rightarrow> u8" where
  "byte_at bs i = (if i < length bs then bs ! i else 0)"

definition le_at :: "nat \<Rightarrow> bytes \<Rightarrow> nat \<Rightarrow> nat" where
  "le_at n bs i = le_val (map (byte_at bs) [i..<i + n])"

text \<open>\<open>memcpy (buf + i, src, length src)\<close>.\<close>

definition put_at :: "bytes \<Rightarrow> nat \<Rightarrow> bytes \<Rightarrow> bytes" where
  "put_at buf i src = take i buf @ src @ drop (i + length src) buf"

lemma length_put_at [simp]:
  "i + length src \<le> length buf \<Longrightarrow> length (put_at buf i src) = length buf"
  by (simp add: put_at_def)

lemma nth_put_at [buf_simps]:
  assumes "i + length src \<le> length buf" and "j < length buf"
  shows "put_at buf i src ! j =
    (if i \<le> j \<and> j < i + length src then src ! (j - i) else buf ! j)"
  using assms by (auto simp: put_at_def nth_append min_def)

lemma byte_at_put_at [buf_simps]:
  assumes "i + length src \<le> length buf"
  shows "byte_at (put_at buf i src) j =
    (if i \<le> j \<and> j < i + length src then src ! (j - i) else byte_at buf j)"
  using assms by (auto simp: byte_at_def nth_put_at)

lemma take_drop_put_at [buf_simps]:
  assumes "i + length src \<le> length buf"
  shows "take (length src) (drop i (put_at buf i src)) = src"
  using assms by (simp add: put_at_def)

lemma le_at_bound: "le_at n bs i < 256 ^ n"
  using le_val_bound [of "map (byte_at bs) [i..<i + n]"] by (simp add: le_at_def)

lemma le_at_put_at_same [buf_simps]:
  assumes "i + n \<le> length buf"
  shows "le_at n (put_at buf i (le_bytes n v)) i = v mod 256 ^ n"
proof -
  have "map (byte_at (put_at buf i (le_bytes n v))) [i..<i + n] = le_bytes n v"
    using assms by (intro nth_equalityI) (auto simp: byte_at_put_at)
  then show ?thesis by (simp add: le_at_def le_val_le_bytes)
qed

lemma le_at_put_at_other [buf_simps]:
  assumes "i + length src \<le> length buf" and "j + n \<le> i \<or> i + length src \<le> j"
  shows "le_at n (put_at buf i src) j = le_at n buf j"
proof -
  have "map (byte_at (put_at buf i src)) [j..<j + n] = map (byte_at buf) [j..<j + n]"
    using assms by (intro map_cong) (auto simp: byte_at_put_at)
  then show ?thesis by (simp only: le_at_def)
qed

lemma put_at_put_at:
  assumes "d + length xs + length ys \<le> length out"
  shows "put_at (put_at out d xs) (d + length xs) ys = put_at out d (xs @ ys)"
  using assms by (simp add: put_at_def ac_simps)

text \<open>The bytes \<open>bs\<close> stand in the buffer at position \<open>p\<close>.\<close>

definition has_bytes :: "bytes \<Rightarrow> nat \<Rightarrow> bytes \<Rightarrow> bool" where
  "has_bytes attr p bs \<longleftrightarrow> p + length bs \<le> length attr \<and> take (length bs) (drop p attr) = bs"

lemma has_bytes_append:
  "has_bytes attr p (xs @ ys) \<longleftrightarrow> has_bytes attr p xs \<and> has_bytes attr (p + length xs) ys"
  unfolding has_bytes_def length_append take_add drop_drop
  by (auto simp: add.commute append_eq_append_conv add.left_commute)

lemma has_bytes_take: "has_bytes attr p bs \<Longrightarrow> has_bytes attr p (take k bs)"
  by (metis append_take_drop_id has_bytes_append)

lemma has_bytes_at: "has_bytes attr p bs \<Longrightarrow> i < length bs \<Longrightarrow> byte_at attr (p + i) = bs ! i"
  unfolding has_bytes_def byte_at_def by (metis add_less_cancel_left less_le_trans nth_drop nth_take add_leD1 le_add1)

lemma has_bytes_Cons:
  "has_bytes attr p (x # xs) \<longleftrightarrow> p < length attr \<and> byte_at attr p = x \<and> has_bytes attr (Suc p) xs"
  using has_bytes_append [of attr p "[x]" xs]
  by (auto simp: has_bytes_def byte_at_def take_Suc hd_drop_conv_nth Suc_le_eq)

lemma has_bytes_le_at:
  assumes "has_bytes attr i bs" and "n = length bs"
  shows "le_at n attr i = le_val bs"
proof -
  have "map (byte_at attr) [i..<i + n] = bs"
    using assms by (intro nth_equalityI) (auto simp: has_bytes_at)
  then show ?thesis by (simp add: le_at_def)
qed

lemma has_bytes_prefix: "has_bytes a p bs \<Longrightarrow> has_bytes (a @ c) p bs"
  by (auto simp: has_bytes_def)

section \<open>An encoder and its decoder\<close>

locale codec =
  fixes enc :: "'a \<Rightarrow> 'b"
    and dec :: "'b \<Rightarrow> 'a option"
    and valid :: "'a \<Rightarrow> bool"
  assumes dec_enc: "valid x \<Longrightarrow> dec (enc x) = Some x"
begin

lemma enc_inject: "valid x \<Longrightarrow> valid y \<Longrightarrow> enc x = enc y \<longleftrightarrow> x = y"
  by (metis dec_enc option.inject)

lemma dec_enc_ran: "valid x \<Longrightarrow> \<exists>y. dec (enc x) = Some y \<and> enc y = enc x"
  by (simp add: dec_enc)

end

section \<open>Transition systems with an invariant\<close>

locale invariant_system =
  fixes init :: "'s \<Rightarrow> bool"
    and step :: "'s \<Rightarrow> 's \<Rightarrow> bool"
    and inv :: "'s \<Rightarrow> bool"
  assumes init_inv: "init s \<Longrightarrow> inv s"
    and step_inv: "step s t \<Longrightarrow> inv s \<Longrightarrow> inv t"
begin

lemma steps_inv: "step\<^sup>*\<^sup>* s t \<Longrightarrow> inv s \<Longrightarrow> inv t"
  by (induction rule: rtranclp_induct) (auto intro: step_inv)

lemma reachable_inv: "init s \<Longrightarrow> step\<^sup>*\<^sup>* s t \<Longrightarrow> inv t"
  by (blast intro: init_inv steps_inv)

end

end
