(* ===== verification/Vdfuse.thy ===== *)
theory Vdfuse
  imports NTFS_Prelude
begin

text \<open>
  The FUSE front end that shows a virtual disk image as a flat directory of partitions
  (\<open>src/vdfuseloop/vdfuse/src/vdfuse.c\<close>): the MBR and EBR parser, the partition
  table, and the FUSE callbacks. The VirtualBox disk library (\<open>VDRead\<close>, \<open>VDWrite\<close>,
  \<dots>) is a parameter of every operation that calls it, \<^typ>\<open>'d\<close> being the disk handle.
  The host is little-endian, as the raw \<open>uint16_t\<close> and \<open>uint32_t\<close> reads of
  the code require.
\<close>

unbundle bit_operations_syntax

section \<open>Data\<close>

record MBRentry =
  m_status :: u8
  m_shead :: u8
  m_ssector :: u8
  m_sbits :: u8
  m_type :: u8
  m_ehead :: u8
  m_esector :: u8
  m_ebits :: u8
  m_offset :: u32
  m_size :: u32

record Partition =
  p_name :: string
  p_offset :: u64
  p_size :: u64
  p_no :: int
  p_descriptor :: MBRentry

record stat =
  st_mode :: u32
  st_nlink :: nat
  st_size :: u64
  st_blocks :: u64
  st_uid :: u32
  st_gid :: u32
  st_mtime :: int

text \<open>
  The library calls: whether \<open>RT_SUCCESS\<close> holds of the return code, with the bytes
  the buffer holds after the call or the disk after it.
\<close>

record 'd vd_api =
  VDRead :: "'d \<Rightarrow> u64 \<Rightarrow> u64 \<Rightarrow> bool \<times> bytes"
  VDWrite :: "'d \<Rightarrow> u64 \<Rightarrow> bytes \<Rightarrow> bool \<times> 'd"
  VDGetSize :: "'d \<Rightarrow> u64"
  VDFlush :: "'d \<Rightarrow> 'd"
  VDCloseAll :: "'d \<Rightarrow> 'd"

text \<open>
  The globals. \<open>past_table_no\<close> is the \<open>int\<close> at the address of
  \<open>partitionTable[HOSTPARTITION_MAX + 1].no\<close>, one element past the array.
\<close>

record 'd vd_state =
  hdDisk :: 'd
  partitionTable :: "Partition list"
  past_table_no :: int
  lastPartition :: nat
  entireDiskOpened :: bool
  partitionOpened :: bool
  opened :: int
  readonly :: bool
  allowall :: bool
  allowallw :: bool
  VDfile_stat :: stat

text \<open>\<open>usageAndExit\<close> ends the process: a call either comes back or has exited.\<close>

datatype 'a run = Done 'a | Exited string

definition BLOCKSIZE :: u64 where "BLOCKSIZE = 512"
definition UNALLOCATED :: int where "UNALLOCATED = -1"
definition HOSTPARTITION_MAX :: nat where "HOSTPARTITION_MAX = 100"
definition MBR_START :: nat where "MBR_START = 446"
definition EBR_START :: nat where "EBR_START = 446"
definition ENTIRE_DISK_STR :: string where "ENTIRE_DISK_STR = ''EntireDisk''"

definition PARTTYPE_IS_EXTENDED :: "u8 \<Rightarrow> bool" where
  "PARTTYPE_IS_EXTENDED x \<longleftrightarrow> x = 0x05 \<or> x = 0x0f \<or> x = 0x85"

lemmas vd_consts = BLOCKSIZE_def UNALLOCATED_def HOSTPARTITION_MAX_def MBR_START_def EBR_START_def

definition zero_entry :: MBRentry where
  "zero_entry = \<lparr>m_status = 0, m_shead = 0, m_ssector = 0, m_sbits = 0, m_type = 0,
     m_ehead = 0, m_esector = 0, m_ebits = 0, m_offset = 0, m_size = 0\<rparr>"

definition zero_partition :: Partition where
  "zero_partition = \<lparr>p_name = '''', p_offset = 0, p_size = 0, p_no = 0,
     p_descriptor = zero_entry\<rparr>"

text \<open>A packed 16-byte \<open>MBRentry\<close> at byte \<open>o\<close> of a sector buffer.\<close>

definition read_MBRentry :: "bytes \<Rightarrow> nat \<Rightarrow> MBRentry" where
  "read_MBRentry b i = \<lparr>m_status = byte_at b i, m_shead = byte_at b (i + 1),
     m_ssector = byte_at b (i + 2), m_sbits = byte_at b (i + 3), m_type = byte_at b (i + 4),
     m_ehead = byte_at b (i + 5), m_esector = byte_at b (i + 6), m_ebits = byte_at b (i + 7),
     m_offset = word_of_nat (le_at 4 b (i + 8)), m_size = word_of_nat (le_at 4 b (i + 12))\<rparr>"

text \<open>
  \<open>MBRblock\<close>: \<open>fill[446]\<close>, four descriptors, the signature. \<open>EBRentry\<close>:
  \<open>fill[446]\<close>, the descriptor, the chain descriptor, two unused ones, the signature.
\<close>

definition mbr_descriptor :: "bytes \<Rightarrow> nat \<Rightarrow> MBRentry" where
  "mbr_descriptor b k = read_MBRentry b (MBR_START + 16 * k)"

definition mbr_signature :: "bytes \<Rightarrow> nat" where
  "mbr_signature b = le_at 2 b (MBR_START + 64)"

definition ebr_descriptor :: "bytes \<Rightarrow> MBRentry" where
  "ebr_descriptor b = read_MBRentry b EBR_START"

definition ebr_chain :: "bytes \<Rightarrow> MBRentry" where
  "ebr_chain b = read_MBRentry b (EBR_START + 16)"

definition ebr_signature :: "bytes \<Rightarrow> nat" where
  "ebr_signature b = le_at 2 b (EBR_START + 64)"

section \<open>The partition table\<close>

definition upd_part :: "nat \<Rightarrow> (Partition \<Rightarrow> Partition) \<Rightarrow> 'd vd_state \<Rightarrow> 'd vd_state" where
  "upd_part i f st =
     st\<lparr>partitionTable := (partitionTable st)[i := f (partitionTable st ! i)]\<rparr>"

text \<open>
  \<open>partitionTable[i].no = UNALLOCATED\<close>: an index one past the array writes the
  object that follows it.
\<close>

definition mark_unallocated :: "nat \<Rightarrow> 'd vd_state \<Rightarrow> 'd vd_state" where
  "mark_unallocated i st =
     (if i < length (partitionTable st) then upd_part i (\<lambda>p. p\<lparr>p_no := UNALLOCATED\<rparr>) st
      else if i = length (partitionTable st) then st\<lparr>past_table_no := UNALLOCATED\<rparr>
      else st)"

fun mbr_loop :: "bytes \<Rightarrow> nat list \<Rightarrow> int \<Rightarrow> 'd vd_state \<Rightarrow> (int \<times> 'd vd_state) run" where
  "mbr_loop mbrb [] entendedFlag st = Done (entendedFlag, st)"
| "mbr_loop mbrb (i # is) entendedFlag st =
     (let d = mbr_descriptor mbrb (i - 1);
          st1 = upd_part i (\<lambda>p. p\<lparr>p_descriptor := d\<rparr>) st
      in if m_type d = 0 then mbr_loop mbrb is entendedFlag st1
         else if PARTTYPE_IS_EXTENDED (m_type d) then
           (if entendedFlag \<noteq> UNALLOCATED
            then Exited ''More than one extended partition in MBR''
            else mbr_loop mbrb is (int i) st1)
         else mbr_loop mbrb is entendedFlag
           (upd_part i (\<lambda>p. p\<lparr>p_no := int i, p_offset := ucast (m_offset d) * BLOCKSIZE,
                            p_size := ucast (m_size d) * BLOCKSIZE\<rparr>)
              (st1\<lparr>lastPartition := i\<rparr>)))"

function ebr_loop ::
    "'d vd_api \<Rightarrow> u64 \<Rightarrow> u64 \<Rightarrow> nat \<Rightarrow> 'd vd_state \<Rightarrow> 'd vd_state run" where
  "ebr_loop api uStart uOffset i st =
     (if HOSTPARTITION_MAX < i then Done st
      else
        let ebr = snd (VDRead api (hdDisk st) (uStart + uOffset + of_nat EBR_START) 512);
            d = ebr_descriptor ebr
        in if ebr_signature ebr \<noteq> 0xaa55 then Exited ''Invalid EBR signature found on image''
           else if m_type d = 0 then Exited ''Logical partition with type 0 encountered''
           else if m_offset d = 0
             then Exited ''Logical partition invalid partition start offset encountered''
           else
             let st' = upd_part i (\<lambda>p. p\<lparr>p_descriptor := d, p_no := int i,
                           p_offset := uStart + uOffset + ucast (m_offset d) * BLOCKSIZE,
                           p_size := ucast (m_size d) * BLOCKSIZE\<rparr>)
                         (st\<lparr>lastPartition := i\<rparr>)
             in if m_type (ebr_chain ebr) = 0 then Done st'
                else if \<not> PARTTYPE_IS_EXTENDED (m_type (ebr_chain ebr))
                  then Exited ''Logical partition chain broken''
                else ebr_loop api uStart (ucast (m_offset (ebr_chain ebr))) (Suc i) st')"
  by pat_completeness auto
termination
  by (relation "measure (\<lambda>(api, uStart, uOffset, i, st). Suc HOSTPARTITION_MAX - i)") auto

declare ebr_loop.simps [simp del]

text \<open>\<open>sprintf (p->name, "Partition%d", i)\<close>.\<close>

fun dec_string :: "nat \<Rightarrow> string" where
  "dec_string n =
     (if n < 10 then [char_of (48 + n)] else dec_string (n div 10) @ [char_of (48 + n mod 10)])"

declare dec_string.simps [simp del]

definition part_name :: "nat \<Rightarrow> string" where
  "part_name i = ''Partition'' @ dec_string i"

definition name_part :: "nat \<Rightarrow> 'd vd_state \<Rightarrow> 'd vd_state" where
  "name_part i st =
     (if p_no (partitionTable st ! i) \<noteq> UNALLOCATED
      then upd_part i (\<lambda>p. p\<lparr>p_name := part_name i\<rparr>) st else st)"

definition name_loop :: "'d vd_state \<Rightarrow> 'd vd_state" where
  "name_loop st = fold name_part [1..<Suc (lastPartition st)] st"

text \<open>The table after the \<open>memset\<close>, the loop over \<open>no\<close> and the setup of entry 0.\<close>

definition clear_table :: "'d vd_api \<Rightarrow> 'd vd_state \<Rightarrow> 'd vd_state" where
  "clear_table api st =
     upd_part 0 (\<lambda>p. p\<lparr>p_no := 0, p_offset := 0, p_size := VDGetSize api (hdDisk st),
                      p_name := ENTIRE_DISK_STR\<rparr>)
       (fold mark_unallocated [0..<HOSTPARTITION_MAX + 2]
         (st\<lparr>partitionTable := replicate (HOSTPARTITION_MAX + 1) zero_partition\<rparr>))"

definition initialisePartitionTable :: "'d vd_api \<Rightarrow> 'd vd_state \<Rightarrow> 'd vd_state run" where
  "initialisePartitionTable api st =
     (let st0 = clear_table api st;
          mbrb = snd (VDRead api (hdDisk st) 0 512)
      in if mbr_signature mbrb = 0 then Done st0
         else if mbr_signature mbrb \<noteq> 0xaa55
           then Exited ''Invalid MBR found on image with signature''
         else
           (case mbr_loop mbrb [1, 2, 3, 4] UNALLOCATED st0 of
              Exited m \<Rightarrow> Exited m
            | Done (ext, st1) \<Rightarrow>
                if ext = UNALLOCATED then Done (name_loop st1)
                else
                  let uStart = ucast (m_offset (p_descriptor (partitionTable st1 ! nat ext)))
                        * BLOCKSIZE
                  in if uStart = 0
                     then Exited ''Inconsistency for logical partition start. Aborting''
                     else (case ebr_loop api uStart 0 5 st1 of
                             Exited m \<Rightarrow> Exited m
                           | Done st2 \<Rightarrow> Done (name_loop st2))))"

text \<open>The serial search of \<open>findPartition\<close> over \<open>0 .. lastPartition\<close>.\<close>

fun find_from :: "Partition list \<Rightarrow> string \<Rightarrow> nat list \<Rightarrow> int" where
  "find_from t nm [] = -1"
| "find_from t nm (i # is) =
     (if p_no (t ! i) \<noteq> UNALLOCATED \<and> nm = p_name (t ! i) then int i else find_from t nm is)"

definition findPartition :: "'d vd_state \<Rightarrow> string \<Rightarrow> int" where
  "findPartition st filename =
     find_from (partitionTable st) (drop 1 filename) [0..<Suc (lastPartition st)]"

text \<open>\<open>detectDiskType\<close> on the eight bytes read from the front of the image file.\<close>

definition detectDiskType :: "string \<Rightarrow> string run" where
  "detectDiskType buf =
     (if take 8 buf = ''conectix'' then Done ''VHD''
      else if take 4 buf = ''VMDK'' then Done ''VMDK''
      else if take 4 buf = ''KDMV'' then Done ''VMDK''
      else if take 3 buf = ''<<<'' then Done ''VDI''
      else Exited ''cannot autodetect disk type'')"

section \<open>FUSE callbacks\<close>

definition S_IFDIR :: u32 where "S_IFDIR = 0x4000"
definition S_IFREG :: u32 where "S_IFREG = 0x8000"
definition S_IRUSR :: u32 where "S_IRUSR = 0x100"
definition S_IWUSR :: u32 where "S_IWUSR = 0x80"
definition S_IXUSR :: u32 where "S_IXUSR = 0x40"
definition S_IRGRP :: u32 where "S_IRGRP = 0x20"
definition S_IWGRP :: u32 where "S_IWGRP = 0x10"
definition S_IXGRP :: u32 where "S_IXGRP = 0x8"
definition S_IROTH :: u32 where "S_IROTH = 0x4"
definition S_IWOTH :: u32 where "S_IWOTH = 0x2"

lemmas mode_consts = S_IFDIR_def S_IFREG_def S_IRUSR_def S_IWUSR_def S_IXUSR_def S_IRGRP_def
  S_IWGRP_def S_IXGRP_def S_IROTH_def S_IWOTH_def

definition VD_destroy :: "'d vd_api \<Rightarrow> 'd vd_state \<Rightarrow> 'd vd_state" where
  "VD_destroy api st = st\<lparr>hdDisk := VDCloseAll api (hdDisk st)\<rparr>"

definition VD_flush :: "'d vd_api \<Rightarrow> 'd vd_state \<Rightarrow> 'd vd_state" where
  "VD_flush api st = st\<lparr>hdDisk := VDFlush api (hdDisk st)\<rparr>"

definition VD_getattr :: "'d vd_state \<Rightarrow> string \<Rightarrow> stat result" where
  "VD_getattr st p =
     (let isFileRoot = (p = ''/''); n = findPartition st p
      in if \<not> isFileRoot \<and> n = -1 then Err ENOENT
         else
           let sb = VDfile_stat st;
               sb = (if isFileRoot then
                       sb\<lparr>st_mode := (S_IFDIR OR S_IRUSR OR S_IXUSR OR S_IRGRP OR S_IXGRP)
                                        OR (if allowall st then S_IROTH else 0),
                          st_size := 0, st_blocks := 2\<rparr>
                     else
                       let sz = p_size (partitionTable st ! nat n)
                       in sb\<lparr>st_mode := (S_IFREG OR S_IRUSR OR S_IWUSR)
                                OR (if allowall st then S_IRGRP OR S_IROTH else 0)
                                OR (if allowallw st then S_IWGRP OR S_IWOTH else 0),
                             st_size := sz, st_blocks := (sz + BLOCKSIZE - 1) div BLOCKSIZE\<rparr>);
               sb = (if readonly st
                     then sb\<lparr>st_mode := st_mode sb AND NOT (S_IWUSR OR S_IWGRP OR S_IWOTH)\<rparr>
                     else sb)
           in Ok (sb\<lparr>st_nlink := 1\<rparr>))"

text \<open>
  \<open>VD_open\<close> tests the two exclusion flags and only then sets them; the mutex covers
  the counter alone. The two halves are named, since other threads can run between them.
\<close>

definition VD_open_check :: "'d vd_state \<Rightarrow> string \<Rightarrow> u32 \<Rightarrow> int result" where
  "VD_open_check st cName flags =
     (let n = findPartition st cName
      in if n = -1 \<or> (entireDiskOpened st \<and> 0 < n) \<or> (partitionOpened st \<and> n = 0)
         then Err ENOENT
         else if readonly st \<and> flags AND (1 OR 2) \<noteq> 0 then Err EROFS
         else Ok n)"

definition VD_open_commit :: "'d vd_state \<Rightarrow> int \<Rightarrow> 'd vd_state" where
  "VD_open_commit st n =
     (if n = 0 then st\<lparr>entireDiskOpened := True\<rparr> else st\<lparr>partitionOpened := True\<rparr>)
       \<lparr>opened := opened st + 1\<rparr>"

definition VD_open :: "'d vd_state \<Rightarrow> string \<Rightarrow> u32 \<Rightarrow> int result \<times> 'd vd_state" where
  "VD_open st cName flags =
     (case VD_open_check st cName flags of
        Ok n \<Rightarrow> (Ok 0, VD_open_commit st n)
      | Err e \<Rightarrow> (Err e, st)
      | Fault \<Rightarrow> (Fault, st))"

definition VD_release :: "'d vd_api \<Rightarrow> 'd vd_state \<Rightarrow> 'd vd_state run" where
  "VD_release api st =
     (let st1 = st\<lparr>opened := opened st - 1\<rparr>
      in if opened st1 = 0 then
           (case initialisePartitionTable api st1 of
              Exited m \<Rightarrow> Exited m
            | Done st2 \<Rightarrow> Done (st2\<lparr>entireDiskOpened := False, partitionOpened := False\<rparr>))
         else Done st1)"

text \<open>
  The clamp that \<open>VD_read\<close> and \<open>VD_write\<close> share; the comparison is on
  \<open>uint64_t\<close>, so \<open>offset + len\<close> wraps.
\<close>

definition clamp_len :: "Partition \<Rightarrow> u64 \<Rightarrow> u64 \<Rightarrow> u64" where
  "clamp_len p len offset = (if p_size p < offset + len then p_size p - offset else len)"

definition VD_read ::
    "'d vd_api \<Rightarrow> 'd vd_state \<Rightarrow> string \<Rightarrow> u64 \<Rightarrow> u64 \<Rightarrow> (int \<times> bytes) result" where
  "VD_read api st c len offset =
     (let n = findPartition st c
      in if n < 0 then Err ENOENT
         else if (if n = 0 then partitionOpened st else entireDiskOpened st) then Err EIO
         else
           let p = partitionTable st ! nat n
           in if p_size p \<le> offset then Ok (0, [])
              else
                let len = clamp_len p len offset;
                    (ok, out) = VDRead api (hdDisk st) (offset + p_offset p) len
                in if ok then Ok (s32 (uint len), out) else Err EIO)"

definition VD_readdir :: "'d vd_state \<Rightarrow> string \<Rightarrow> string list result" where
  "VD_readdir st p =
     (if p \<noteq> ''/'' then Err ENOENT
      else Ok ([''.'', ''..''] @
        map p_name (filter (\<lambda>q. p_no q \<noteq> UNALLOCATED)
          (map (\<lambda>n. partitionTable st ! n) [0..<Suc (lastPartition st)]))))"

definition VD_write ::
    "'d vd_api \<Rightarrow> 'd vd_state \<Rightarrow> string \<Rightarrow> bytes \<Rightarrow> u64 \<Rightarrow> u64 \<Rightarrow> int result \<times> 'd vd_state" where
  "VD_write api st c inb len offset =
     (let n = findPartition st c
      in if n < 0 then (Err ENOENT, st)
         else if (if n = 0 then partitionOpened st else entireDiskOpened st) then (Err EIO, st)
         else
           let p = partitionTable st ! nat n
           in if p_size p \<le> offset then (Ok 0, st)
              else
                let len = clamp_len p len offset;
                    (ok, d) = VDWrite api (hdDisk st) (offset + p_offset p) (take (unat len) inb);
                    st' = st\<lparr>hdDisk := d\<rparr>
                in (if ok then Ok (s32 (uint len)) else Err EIO, st'))"

section \<open>What the callbacks rely on in the disk library\<close>

text \<open>
  The documented behaviour of \<open>VDRead\<close> and \<open>VDWrite\<close> on a range inside the disk,
  \<open>content\<close> being the bytes the guest sees: a read succeeds and delivers that range, a
  write succeeds and replaces that range only.
\<close>

definition vd_read_law :: "'d vd_api \<Rightarrow> ('d \<Rightarrow> bytes) \<Rightarrow> bool" where
  "vd_read_law api content \<longleftrightarrow>
     (\<forall>d off n. unat off + unat n \<le> length (content d) \<longrightarrow>
        VDRead api d off n = (True, take (unat n) (drop (unat off) (content d))))"

definition vd_write_law :: "'d vd_api \<Rightarrow> ('d \<Rightarrow> bytes) \<Rightarrow> bool" where
  "vd_write_law api content \<longleftrightarrow>
     (\<forall>d off bs. unat off + length bs \<le> length (content d) \<longrightarrow>
        (\<exists>d'. VDWrite api d off bs = (True, d') \<and> content d' = put_at (content d) (unat off) bs))"

text \<open>A flat image held in memory, the instance the examples use.\<close>

definition flat_api :: "bytes vd_api" where
  "flat_api = \<lparr>
     VDRead = (\<lambda>d off n. if unat off + unat n \<le> length d
                 then (True, take (unat n) (drop (unat off) d))
                 else (False, replicate (unat n) 0)),
     VDWrite = (\<lambda>d off bs. if unat off + length bs \<le> length d
                 then (True, put_at d (unat off) bs) else (False, d)),
     VDGetSize = (\<lambda>d. of_nat (length d)),
     VDFlush = (\<lambda>d. d),
     VDCloseAll = (\<lambda>d. d)\<rparr>"

lemma flat_api_laws: "vd_read_law flat_api (\<lambda>d. d)" "vd_write_law flat_api (\<lambda>d. d)"
  by (simp_all add: vd_read_law_def vd_write_law_def flat_api_def)

definition flat_state :: "bytes \<Rightarrow> bytes vd_state" where
  "flat_state d = \<lparr>hdDisk = d, partitionTable = [], past_table_no = 7, lastPartition = 0,
     entireDiskOpened = False, partitionOpened = False, opened = 0, readonly = False,
     allowall = False, allowallw = False,
     VDfile_stat = \<lparr>st_mode = 0, st_nlink = 1, st_size = 0, st_blocks = 0, st_uid = 0,
       st_gid = 0, st_mtime = 0\<rparr>\<rparr>"

text \<open>
  A two-sector image: the MBR names one primary partition (type 7, first sector 1, one
  sector long), and that sector is filled with ones.
\<close>

definition demo_image :: bytes where
  "demo_image = replicate 446 0 @ [0, 0, 0, 0, 7, 0, 0, 0] @ [1, 0, 0, 0] @ [1, 0, 0, 0] @
     replicate 48 0 @ [0x55, 0xaa] @ replicate 512 1"

end
