(* ===== verification/Vdfuse_Table.thy ===== *)
theory Vdfuse_Table
  imports Vdfuse
begin

text \<open>
  The partition table built by \<open>initialisePartitionTable\<close>: its well-formedness
  invariant, that every path of the parser establishes it, that the names are distinct
  and \<open>findPartition\<close> inverts them, and what the parser does with extended boot
  records.
\<close>

section \<open>Frames and updates\<close>

lemma upd_part_simps [simp]:
  "length (partitionTable (upd_part i f st)) = length (partitionTable st)"
  "lastPartition (upd_part i f st) = lastPartition st"
  "hdDisk (upd_part i f st) = hdDisk st"
  "j < length (partitionTable st) \<Longrightarrow>
     partitionTable (upd_part i f st) ! j =
       (if j = i then f (partitionTable st ! i) else partitionTable st ! j)"
  by (auto simp: upd_part_def)

text \<open>Only the table and \<open>lastPartition\<close> change.\<close>

definition same_but_table :: "'d vd_state \<Rightarrow> 'd vd_state \<Rightarrow> bool" where
  "same_but_table st st' \<longleftrightarrow>
     st' = st\<lparr>partitionTable := partitionTable st', lastPartition := lastPartition st'\<rparr>"

lemma same_but_table_refl [simp]: "same_but_table st st"
  by (simp add: same_but_table_def)

lemma same_but_table_trans [trans]:
  "same_but_table a b \<Longrightarrow> same_but_table b c \<Longrightarrow> same_but_table a c"
  by (cases a; cases b; cases c) (simp add: same_but_table_def)

lemma same_but_table_upd [simp]:
  "same_but_table st (upd_part i f st)"
  "same_but_table st (upd_part i f (upd_part j g st\<lparr>lastPartition := k\<rparr>))"
  "same_but_table st (upd_part i f (st\<lparr>lastPartition := k\<rparr>))"
  by (cases st, simp add: same_but_table_def upd_part_def)+

section \<open>The invariant of the table\<close>

definition slots_ok :: "'d vd_state \<Rightarrow> bool" where
  "slots_ok st \<longleftrightarrow> length (partitionTable st) = 101 \<and> lastPartition st \<le> 100 \<and>
     (\<forall>i. 1 \<le> i \<longrightarrow> i < 101 \<longrightarrow>
        p_no (partitionTable st ! i) = UNALLOCATED \<or>
        (p_no (partitionTable st ! i) = int i \<and> i \<le> lastPartition st))"

definition free_from :: "nat \<Rightarrow> 'd vd_state \<Rightarrow> bool" where
  "free_from i st \<longleftrightarrow> (\<forall>j. i \<le> j \<longrightarrow> j < 101 \<longrightarrow> p_no (partitionTable st ! j) = UNALLOCATED)"

definition table_ok :: "'d vd_api \<Rightarrow> 'd vd_state \<Rightarrow> bool" where
  "table_ok api st \<longleftrightarrow> slots_ok st \<and>
     p_no (partitionTable st ! 0) = 0 \<and> p_name (partitionTable st ! 0) = ENTIRE_DISK_STR \<and>
     p_offset (partitionTable st ! 0) = 0 \<and>
     p_size (partitionTable st ! 0) = VDGetSize api (hdDisk st) \<and>
     (\<forall>i. 1 \<le> i \<longrightarrow> i < 101 \<longrightarrow> p_no (partitionTable st ! i) \<noteq> UNALLOCATED \<longrightarrow>
        p_name (partitionTable st ! i) = part_name i)"

lemma free_from_mono: "free_from i st \<Longrightarrow> i \<le> k \<Longrightarrow> free_from k st"
  by (auto simp: free_from_def)

lemma slots_ok_alloc:
  assumes "slots_ok st" and "free_from i st" and "1 \<le> i" and "i \<le> 100"
    and "\<And>p. p_no (f p) = int i"
  shows "slots_ok (upd_part i f (st\<lparr>lastPartition := i\<rparr>))"
    and "free_from (Suc i) (upd_part i f (st\<lparr>lastPartition := i\<rparr>))"
proof -
  have before: "j < i" if "1 \<le> j" "j < 101" "p_no (partitionTable st ! j) \<noteq> UNALLOCATED" for j
    using assms(2) that by (meson free_from_def not_le)
  show "slots_ok (upd_part i f (st\<lparr>lastPartition := i\<rparr>))"
    using assms before by (auto simp: slots_ok_def less_imp_le)
  show "free_from (Suc i) (upd_part i f (st\<lparr>lastPartition := i\<rparr>))"
    using assms(1,2) by (auto simp: free_from_def slots_ok_def)
qed

lemma slots_ok_descr:
  assumes "slots_ok st"
  shows "slots_ok (upd_part i (\<lambda>p. p\<lparr>p_descriptor := d\<rparr>) st)"
    and "free_from k (upd_part i (\<lambda>p. p\<lparr>p_descriptor := d\<rparr>) st) = free_from k st"
  using assms by (auto simp: slots_ok_def free_from_def)

section \<open>Clearing the table\<close>

lemma fold_mark_unallocated:
  "k \<le> length (partitionTable st) \<Longrightarrow>
   fold mark_unallocated [0..<k] st =
     st\<lparr>partitionTable := map (\<lambda>p. p\<lparr>p_no := UNALLOCATED\<rparr>) (take k (partitionTable st)) @
        drop k (partitionTable st)\<rparr>"
proof (induction k)
  case (Suc k)
  then show ?case
    by (cases st)
      (auto simp: mark_unallocated_def upd_part_def take_Suc_conv_app_nth nth_append
        list_update_append Cons_nth_drop_Suc [symmetric])
qed simp

lemma clear_table_state:
  "clear_table api st = st\<lparr>past_table_no := UNALLOCATED, partitionTable :=
     zero_partition\<lparr>p_no := 0, p_offset := 0, p_size := VDGetSize api (hdDisk st),
                     p_name := ENTIRE_DISK_STR\<rparr>
       # replicate 100 (zero_partition\<lparr>p_no := UNALLOCATED\<rparr>)\<rparr>"
proof -
  let ?st = "st\<lparr>partitionTable := replicate 101 zero_partition\<rparr>"
  let ?f = "\<lambda>p. p\<lparr>p_no := UNALLOCATED\<rparr>"
  have upt: "[0..<102] = [0..<101] @ [101::nat]"
    using upt_Suc_append [of 0 101] by simp
  have "fold mark_unallocated [0..<102] ?st =
      mark_unallocated 101 (?st\<lparr>partitionTable := replicate 101 (?f zero_partition)\<rparr>)"
    by (simp add: upt fold_mark_unallocated)
  also have "\<dots> = st\<lparr>past_table_no := UNALLOCATED,
      partitionTable := ?f zero_partition # replicate 100 (?f zero_partition)\<rparr>"
    using replicate_Suc [of 100 "?f zero_partition"]
    by (simp add: mark_unallocated_def del: replicate_Suc)
  finally show ?thesis
    by (simp add: clear_table_def HOSTPARTITION_MAX_def upd_part_def del: upt_rec_numeral)

qed

lemma clear_table_slots:
  "lastPartition st \<le> 100 \<Longrightarrow> slots_ok (clear_table api st)"
  "free_from 1 (clear_table api st)"
  by (auto simp: clear_table_state slots_ok_def free_from_def nth_Cons split: nat.splits)

section \<open>The two parsing loops\<close>

lemma mbr_loop_slots:
  assumes "mbr_loop b is ext st = Done (ext', st')"
    and "slots_ok st" and "sorted_wrt (<) is" and "free_from (Min (insert 5 (set is))) st"
    and "\<forall>i \<in> set is. 1 \<le> i \<and> i < 5"
  shows "slots_ok st' \<and> free_from 5 st' \<and> same_but_table st st' \<and>
    partitionTable st' ! 0 = partitionTable st ! 0"
  using assms
proof (induction "is" arbitrary: ext st)
  case Nil
  then show ?case by simp
next
  case (Cons i "is")
  define d where "d = mbr_descriptor b (i - 1)"
  define st1 where "st1 = upd_part i (\<lambda>p. p\<lparr>p_descriptor := d\<rparr>) st"
  define st2 where "st2 = upd_part i (\<lambda>p. p\<lparr>p_no := int i,
      p_offset := ucast (m_offset d) * BLOCKSIZE, p_size := ucast (m_size d) * BLOCKSIZE\<rparr>)
      (st1\<lparr>lastPartition := i\<rparr>)"
  have i: "1 \<le> i" "i < 5" and len: "length (partitionTable st) = 101"
    using Cons.prems by (auto simp: slots_ok_def)
  have le: "i \<le> Min (insert 5 (set is))" "Suc i \<le> Min (insert 5 (set is))"
    using Cons.prems i by (auto simp: Suc_le_eq)
  have "Min (insert 5 (set (i # is))) = i"
    using le i by (intro Min_eqI) auto
  then have fr: "free_from i st" using Cons.prems by simp
  have ok1: "slots_ok st1" "free_from i st1"
    using Cons.prems(2) fr by (simp_all add: st1_def slots_ok_descr)
  have ok2: "slots_ok st2" "free_from (Suc i) st2"
    unfolding st2_def using ok1 i by (auto intro!: slots_ok_alloc)
  have fr': "free_from (Min (insert 5 (set is))) st1" "free_from (Min (insert 5 (set is))) st2"
    using ok1(2) ok2(2) le by (blast intro: free_from_mono)+
  have keep: "same_but_table st st1" "same_but_table st st2"
    "partitionTable st1 ! 0 = partitionTable st ! 0"
    "partitionTable st2 ! 0 = partitionTable st ! 0"
    using i len by (auto simp: st1_def st2_def)
  have IH: "slots_ok st' \<and> free_from 5 st' \<and> same_but_table s st' \<and>
      partitionTable st' ! 0 = partitionTable s ! 0"
    if "mbr_loop b is e s = Done (ext', st')" "s = st1 \<or> s = st2" for e s
    using Cons.IH [OF that(1)] that(2) Cons.prems(3,5) ok1 ok2 fr' by auto
  from Cons.prems(1) have "\<exists>e s. mbr_loop b is e s = Done (ext', st') \<and> (s = st1 \<or> s = st2)"
    unfolding mbr_loop.simps Let_def d_def [symmetric] st1_def [symmetric] st2_def [symmetric]
    by (auto split: if_splits)
  then show ?case using IH keep by (metis same_but_table_trans)
qed

lemma ebr_loop_slots:
  assumes "ebr_loop api uStart uOffset i st = Done st'"
    and "slots_ok st" and "free_from i st" and "1 \<le> i"
  shows "slots_ok st' \<and> same_but_table st st' \<and>
    partitionTable st' ! 0 = partitionTable st ! 0"
  using assms
proof (induction api uStart uOffset i st rule: ebr_loop.induct)
  case (1 api uStart uOffset i st)
  show ?case
  proof (cases "HOSTPARTITION_MAX < i")
    case True
    with "1.prems" show ?thesis by (simp add: ebr_loop.simps)
  next
    case False
    define ebr where "ebr = snd (VDRead api (hdDisk st) (uStart + uOffset + of_nat EBR_START) 512)"
    define d where "d = ebr_descriptor ebr"
    define st1 where "st1 = upd_part i (\<lambda>p. p\<lparr>p_descriptor := d, p_no := int i,
        p_offset := uStart + uOffset + ucast (m_offset d) * BLOCKSIZE,
        p_size := ucast (m_size d) * BLOCKSIZE\<rparr>) (st\<lparr>lastPartition := i\<rparr>)"
    have ok: "slots_ok st1" "free_from (Suc i) st1"
      unfolding st1_def using "1.prems" False
      by (auto intro!: slots_ok_alloc simp: HOSTPARTITION_MAX_def)
    have keep: "same_but_table st st1" "partitionTable st1 ! 0 = partitionTable st ! 0"
      using "1.prems"(2,4) by (auto simp: st1_def slots_ok_def)
    note unf = ebr_loop.simps [of api uStart uOffset i st, folded ebr_def, folded d_def,
        unfolded Let_def, folded ebr_def, folded d_def, folded st1_def]
    consider "Done st1 = Done st'"
      | "ebr_loop api uStart (ucast (m_offset (ebr_chain ebr))) (Suc i) st1 = Done st'"
        "ebr_signature ebr = 0xaa55" "m_type d \<noteq> 0" "m_offset d \<noteq> 0"
        "m_type (ebr_chain ebr) \<noteq> 0" "PARTTYPE_IS_EXTENDED (m_type (ebr_chain ebr))"
      using "1.prems"(1) False by (auto simp: unf split: if_splits)
    then show ?thesis
    proof cases
      case 1
      with ok keep show ?thesis by simp
    next
      case 2
      have "slots_ok st' \<and> same_but_table st1 st' \<and>
          partitionTable st' ! 0 = partitionTable st1 ! 0"
        by (rule "1.IH" [OF False ebr_def d_def])
          (use 2 ok in \<open>simp_all add: st1_def\<close>)
      with keep show ?thesis by (metis same_but_table_trans)
    qed
  qed
qed

section \<open>Names\<close>

definition undec :: "string \<Rightarrow> nat" where
  "undec s = foldl (\<lambda>a c. 10 * a + (of_char c - 48)) 0 s"

lemma undec_dec_string: "undec (dec_string n) = n"
proof (induction n rule: dec_string.induct)
  case (1 n)
  show ?case
  proof (cases "n < 10")
    case True
    then show ?thesis by (simp add: dec_string.simps [of n] undec_def of_char_of)
  next
    case False
    with 1 have "undec (dec_string (n div 10)) = n div 10" by simp
    moreover have "(48 + n mod 10) mod 256 = 48 + n mod 10"
      by (rule mod_less) (use mod_less_divisor [of 10 n] in simp)
    ultimately show ?thesis
      using False by (simp add: dec_string.simps [of n] undec_def of_char_of)
  qed
qed

interpretation part_names: codec part_name "\<lambda>s. Some (undec (drop 9 s))" "\<lambda>_. True"
  by unfold_locales (simp add: part_name_def undec_dec_string)

lemma part_name_neq_disk [simp]: "part_name i \<noteq> ENTIRE_DISK_STR" "ENTIRE_DISK_STR \<noteq> part_name i"
  by (simp_all add: part_name_def ENTIRE_DISK_STR_def)

lemma fold_name_part:
  "same_but_table st (fold name_part is st) \<and>
   lastPartition (fold name_part is st) = lastPartition st \<and>
   length (partitionTable (fold name_part is st)) = length (partitionTable st) \<and>
   (\<forall>j < length (partitionTable st). partitionTable (fold name_part is st) ! j =
      (if j \<in> set is \<and> p_no (partitionTable st ! j) \<noteq> UNALLOCATED
       then (partitionTable st ! j)\<lparr>p_name := part_name j\<rparr> else partitionTable st ! j))"
proof (induction "is" arbitrary: st)
  case (Cons i "is")
  have 1: "same_but_table st (name_part i st)" "lastPartition (name_part i st) = lastPartition st"
    "length (partitionTable (name_part i st)) = length (partitionTable st)"
    by (simp_all add: name_part_def)
  have 2: "partitionTable (name_part i st) ! j =
      (if j = i \<and> p_no (partitionTable st ! j) \<noteq> UNALLOCATED
       then (partitionTable st ! j)\<lparr>p_name := part_name j\<rparr> else partitionTable st ! j)"
    if "j < length (partitionTable st)" for j
    using that by (auto simp: name_part_def)
  show ?case
    using Cons.IH [of "name_part i st"] 1 2 same_but_table_trans [OF 1(1)] by auto
qed simp

lemma name_loop_ok:
  assumes "slots_ok st"
  shows "slots_ok (name_loop st)" and "same_but_table st (name_loop st)"
    and "partitionTable (name_loop st) ! 0 = partitionTable st ! 0"
    and "\<lbrakk>1 \<le> i; i < 101; p_no (partitionTable (name_loop st) ! i) \<noteq> UNALLOCATED\<rbrakk>
      \<Longrightarrow> p_name (partitionTable (name_loop st) ! i) = part_name i"
  using assms fold_name_part [of st "[1..<Suc (lastPartition st)]"]
  by (auto simp: slots_ok_def name_loop_def le_simps simp del: upt_Suc)

section \<open>What the parser establishes\<close>

lemma initialisePartitionTable_Done:
  assumes "initialisePartitionTable api st = Done st'" and "lastPartition st \<le> 100"
  shows "\<exists>st1. slots_ok st1 \<and> same_but_table (clear_table api st) st1 \<and>
      partitionTable st1 ! 0 = partitionTable (clear_table api st) ! 0 \<and>
      (st' = name_loop st1 \<or> st' = st1 \<and> free_from 1 st1)"
proof (cases "mbr_signature (snd (VDRead api (hdDisk st) 0 512)) = 0")
  case True
  with assms clear_table_slots(1) [of st api] clear_table_slots(2) [of api st] show ?thesis
    by (intro exI [of _ "clear_table api st"])
      (simp add: initialisePartitionTable_def)
next
  case False
  define b where "b = snd (VDRead api (hdDisk st) 0 512)"
  from assms(1) False obtain ext st1 where
    loop: "mbr_loop b [1, 2, 3, 4] UNALLOCATED (clear_table api st) = Done (ext, st1)"
    and fin: "st' = name_loop st1 \<or> (\<exists>u st2. ebr_loop api u 0 5 st1 = Done st2 \<and> st' = name_loop st2)"
    by (auto simp: initialisePartitionTable_def b_def Let_def simp del: mbr_loop.simps
        split: if_splits run.splits prod.splits)
  have "slots_ok st1 \<and> free_from 5 st1 \<and> same_but_table (clear_table api st) st1 \<and>
      partitionTable st1 ! 0 = partitionTable (clear_table api st) ! 0"
    by (rule mbr_loop_slots [OF loop clear_table_slots(1) [OF assms(2)]])
      (simp_all add: clear_table_slots(2) [simplified])
  note st1 = this
  have "slots_ok st2 \<and> same_but_table (clear_table api st) st2 \<and>
      partitionTable st2 ! 0 = partitionTable (clear_table api st) ! 0"
    if "ebr_loop api u 0 5 st1 = Done st2" for u st2
    using ebr_loop_slots [OF that] st1 same_but_table_trans [of "clear_table api st" st1 st2]
    by simp
  with fin st1 show ?thesis by blast
qed

lemma slots_free_named:
  "free_from 1 st \<Longrightarrow> 1 \<le> i \<Longrightarrow> i < 101 \<Longrightarrow> p_no (partitionTable st ! i) = UNALLOCATED"
  by (simp add: free_from_def)

lemma same_but_table_fields:
  "same_but_table st st' \<Longrightarrow> hdDisk st' = hdDisk st \<and> past_table_no st' = past_table_no st \<and>
     entireDiskOpened st' = entireDiskOpened st \<and> partitionOpened st' = partitionOpened st \<and>
     opened st' = opened st \<and> readonly st' = readonly st"
  by (cases st; cases st') (simp add: same_but_table_def)

lemma initialisePartitionTable_frame:
  assumes "initialisePartitionTable api st = Done st'" and "lastPartition st \<le> 100"
  shows "same_but_table (clear_table api st) st'"
proof -
  obtain st1 where "slots_ok st1" "same_but_table (clear_table api st) st1"
      "st' = name_loop st1 \<or> st' = st1"
    using initialisePartitionTable_Done [OF assms] by blast
  then show ?thesis
    by (metis name_loop_ok(2) same_but_table_trans)
qed

lemma parsed_table_ok:
  assumes "initialisePartitionTable api st = Done st'" and "lastPartition st \<le> 100"
  shows "table_ok api st'"
proof -
  obtain st1 where st1: "slots_ok st1" "same_but_table (clear_table api st) st1"
      "partitionTable st1 ! 0 = partitionTable (clear_table api st) ! 0"
      "st' = name_loop st1 \<or> st' = st1 \<and> free_from 1 st1"
    using initialisePartitionTable_Done [OF assms] by blast
  have slot0: "partitionTable st' ! 0 = partitionTable (clear_table api st) ! 0"
    and ok: "slots_ok st'" and disk: "hdDisk st' = hdDisk st"
    using st1 name_loop_ok(1-3) [OF st1(1)]
    by (auto simp: clear_table_state dest!: same_but_table_fields)
  have names: "p_name (partitionTable st' ! i) = part_name i"
    if "1 \<le> i" "i < 101" "p_no (partitionTable st' ! i) \<noteq> UNALLOCATED" for i
    using st1(4) name_loop_ok(4) [OF st1(1)] that slots_free_named by blast
  show ?thesis
    using ok slot0 disk names by (simp add: table_ok_def clear_table_state zero_partition_def)
qed

text \<open>(C1) Whatever bytes the image holds, when the MBR and EBR parser returns, the
  partition table is well formed: it has its 101 slots, slot 0 is \<open>EntireDisk\<close> over
  the whole disk, every other slot is unallocated or carries its own number, lies at or
  below \<open>lastPartition\<close>, and is named \<open>Partition<i>\<close>.\<close>

theorem initialisePartitionTable_ok:
  assumes "initialisePartitionTable api st = Done st'" and "lastPartition st \<le> 100"
  shows "table_ok api st'"
  using assms by (rule parsed_table_ok)

section \<open>A mounted example\<close>

lemma byte_at_take [simp]: "i < n \<Longrightarrow> byte_at (take n bs) i = byte_at bs i"
  by (simp add: byte_at_def)

lemma demo_sector: "snd (VDRead flat_api demo_image 0 512) = take 512 demo_image"
  by (simp add: flat_api_def demo_image_def)

lemma demo_mbr:
  "mbr_signature (take 512 demo_image) = 0xaa55"
  "mbr_descriptor (take 512 demo_image) 0 = zero_entry\<lparr>m_type := 7, m_offset := 1, m_size := 1\<rparr>"
  "mbr_descriptor (take 512 demo_image) (Suc 0) = zero_entry"
  "mbr_descriptor (take 512 demo_image) 2 = zero_entry"
  "mbr_descriptor (take 512 demo_image) 3 = zero_entry"
  by (simp_all add: mbr_signature_def mbr_descriptor_def read_MBRentry_def zero_entry_def
      MBR_START_def le_at_def byte_at_def demo_image_def nth_append)

definition demo_mounted :: "bytes vd_state" where
  "demo_mounted =
     (case initialisePartitionTable flat_api (flat_state demo_image) of
        Done st \<Rightarrow> st | Exited _ \<Rightarrow> flat_state [])"

lemmas demo_eval = initialisePartitionTable_def Let_def demo_sector demo_mbr zero_entry_def
  PARTTYPE_IS_EXTENDED_def flat_state_def

lemma demo_init: "initialisePartitionTable flat_api (flat_state demo_image) = Done demo_mounted"
  unfolding demo_mounted_def by (simp add: demo_eval)

lemma demo_partition:
  "partitionTable demo_mounted ! Suc 0 = \<lparr>p_name = ''Partition1'', p_offset = 512, p_size = 512,
     p_no = 1, p_descriptor = zero_entry\<lparr>m_type := 7, m_offset := 1, m_size := 1\<rparr>\<rparr>"
  "lastPartition demo_mounted = Suc 0"
  unfolding demo_mounted_def
  by (simp_all add: demo_eval)
    (simp_all add: name_loop_def name_part_def clear_table_state vd_consts zero_partition_def
      zero_entry_def part_name_def dec_string.simps char_of_def bit_0 del: nth_Cons_Suc)

lemma demo_fields:
  "hdDisk demo_mounted = demo_image" "entireDiskOpened demo_mounted = False"
  "partitionOpened demo_mounted = False" "opened demo_mounted = 0"
  "readonly demo_mounted = False"
proof -
  have "same_but_table (clear_table flat_api (flat_state demo_image)) demo_mounted"
    by (rule initialisePartitionTable_frame [OF demo_init]) (simp add: flat_state_def)
  from same_but_table_fields [OF this]
  show "hdDisk demo_mounted = demo_image" "entireDiskOpened demo_mounted = False"
    "partitionOpened demo_mounted = False" "opened demo_mounted = 0"
    "readonly demo_mounted = False"
    by (simp_all add: clear_table_state flat_state_def)
qed

theorem initialisePartitionTable_ok_witness: "table_ok flat_api demo_mounted"
  by (rule initialisePartitionTable_ok [OF demo_init]) (simp add: flat_state_def)

lemma demo_table_ok: "table_ok flat_api demo_mounted"
  by (rule parsed_table_ok [OF demo_init]) (simp add: flat_state_def)

section \<open>Looking a file name up\<close>

lemma find_from_cases:
  "find_from t nm is = -1 \<or>
   (\<exists>i \<in> set is. find_from t nm is = int i \<and> p_no (t ! i) \<noteq> UNALLOCATED \<and> p_name (t ! i) = nm)"
  by (induction "is") auto

lemma find_from_unique:
  assumes "i \<in> set is" and "p_no (t ! i) \<noteq> UNALLOCATED" and "p_name (t ! i) = nm"
    and "\<And>j. j \<in> set is \<Longrightarrow> p_no (t ! j) \<noteq> UNALLOCATED \<Longrightarrow> p_name (t ! j) = nm \<Longrightarrow> j = i"
  shows "find_from t nm is = int i"
proof -
  have "find_from t nm is \<noteq> -1"
    using assms(1) by (induction "is") (use assms(2,3) in auto)
  then show ?thesis
    using find_from_cases [of t nm "is"] assms(4) by blast
qed

lemma findPartition_cases:
  "findPartition st c = -1 \<or>
   (\<exists>i \<le> lastPartition st. findPartition st c = int i \<and>
      p_no (partitionTable st ! i) \<noteq> UNALLOCATED \<and> p_name (partitionTable st ! i) = drop 1 c)"
  using find_from_cases [of "partitionTable st" "drop 1 c" "[0..<Suc (lastPartition st)]"]
  by (simp add: findPartition_def Bex_def less_Suc_eq_le del: upt_Suc)

lemma table_names_distinct:
  assumes "table_ok api st" "i < 101" "j < 101"
    and "p_no (partitionTable st ! i) \<noteq> UNALLOCATED" "p_no (partitionTable st ! j) \<noteq> UNALLOCATED"
    and "p_name (partitionTable st ! i) = p_name (partitionTable st ! j)"
  shows "i = j"
proof -
  have nm: "p_name (partitionTable st ! k) = (if k = 0 then ENTIRE_DISK_STR else part_name k)"
    if "k < 101" "p_no (partitionTable st ! k) \<noteq> UNALLOCATED" for k
    using assms(1) that by (auto simp: table_ok_def)
  show ?thesis
    using assms(6) nm [OF assms(2,4)] nm [OF assms(3,5)] part_names.enc_inject [of i j]
    by (auto split: if_splits)
qed

text \<open>(C2) The names the mounted directory lists are lossless: on a well-formed table the
  path \<open>/<name>\<close> of any allocated slot is found again at exactly that slot.\<close>

theorem findPartition_roundtrip:
  assumes "table_ok api st" and "i \<le> lastPartition st"
    and "p_no (partitionTable st ! i) \<noteq> UNALLOCATED"
  shows "findPartition st (CHR ''/'' # p_name (partitionTable st ! i)) = int i"
proof -
  have last: "lastPartition st \<le> 100"
    using assms(1) by (simp add: table_ok_def slots_ok_def)
  show ?thesis
    unfolding findPartition_def
    using assms last table_names_distinct [OF assms(1)]
    by (intro find_from_unique) (auto simp del: upt_Suc)
qed

theorem findPartition_roundtrip_witness:
  "findPartition demo_mounted ''/Partition1'' = 1"
  using findPartition_roundtrip [OF demo_table_ok, of 1]
  by (simp add: demo_partition UNALLOCATED_def)

section \<open>Where the code does not do what it means to\<close>

text \<open>The loop that marks the table unallocated runs one element too far: whatever
  the \<open>int\<close> behind the array held before, every successful run of the parser has
  overwritten it.\<close>

theorem initialisePartitionTable_overruns:
  assumes "initialisePartitionTable api st = Done st'" and "lastPartition st \<le> 100"
  shows "past_table_no st' = UNALLOCATED"
  using same_but_table_fields [OF initialisePartitionTable_frame [OF assms]]
  by (simp add: clear_table_state)

theorem initialisePartitionTable_overruns_witness:
  "past_table_no (flat_state demo_image) = 7 \<and> past_table_no demo_mounted = UNALLOCATED"
  using initialisePartitionTable_overruns [OF demo_init] by (simp add: flat_state_def)

text \<open>An extended boot record is read at byte 446 of its sector into a structure that
  itself starts with 446 bytes of fill, so its signature is taken from bytes 956 and 957,
  in the sector that follows: unless those two bytes happen to be \<open>55 AA\<close>, the
  program exits, however well formed the boot record is.\<close>

theorem ebr_signature_misread:
  assumes law: "vd_read_law api content" and i: "i \<le> HOSTPARTITION_MAX"
    and pos: "unat uStart + unat uOffset = p" "p + 958 \<le> length (content (hdDisk st))"
      "p + 958 < 2 ^ 64"
    and sig: "\<not> (content (hdDisk st) ! (p + 956) = 0x55 \<and> content (hdDisk st) ! (p + 957) = 0xaa)"
  shows "ebr_loop api uStart uOffset i st = Exited ''Invalid EBR signature found on image''"
proof -
  let ?o = "uStart + uOffset + of_nat EBR_START"
  let ?c = "content (hdDisk st)"
  have off: "unat ?o = p + 446"
    using pos by (simp add: unat_word_ariths EBR_START_def)
  have "VDRead api (hdDisk st) ?o 512 = (True, take 512 (drop (p + 446) ?c))"
    using law pos off by (simp add: vd_read_law_def del: of_nat_numeral)
  then have "ebr_signature (snd (VDRead api (hdDisk st) ?o 512)) =
      unat (?c ! (p + 956)) + 256 * unat (?c ! (p + 957))"
    using pos by (simp add: ebr_signature_def EBR_START_def le_at_def byte_at_def add.commute)
  moreover have "\<dots> \<noteq> 0xaa55"
  proof
    assume eq: "unat (?c ! (p + 956)) + 256 * unat (?c ! (p + 957)) = 0xaa55"
    then have "unat (?c ! (p + 956)) = 0x55" "unat (?c ! (p + 957)) = 0xaa"
      using unat_u8_less [of "?c ! (p + 956)"] by (arith, arith)
    then show False using sig by (simp add: word_unat_eq_iff)
  qed
  ultimately show ?thesis
    using i by (simp add: ebr_loop.simps Let_def)
qed

text \<open>A disk whose second sector is a well-formed boot record of one logical partition.\<close>

definition ebr_image :: bytes where
  "ebr_image = replicate 958 0 @ [0, 0, 0, 0, 7, 0, 0, 0] @ [1, 0, 0, 0] @ [1, 0, 0, 0] @
     replicate 48 0 @ [0x55, 0xaa] @ replicate 512 0"

theorem ebr_signature_misread_witness:
  "ebr_signature (take 512 (drop 512 ebr_image)) = 0xaa55 \<and>
   ebr_loop flat_api 512 0 5 (flat_state ebr_image) =
     Exited ''Invalid EBR signature found on image''"
proof
  show "ebr_signature (take 512 (drop 512 ebr_image)) = 0xaa55"
    by (simp add: ebr_signature_def EBR_START_def le_at_def byte_at_def ebr_image_def nth_append)
  show "ebr_loop flat_api 512 0 5 (flat_state ebr_image) =
     Exited ''Invalid EBR signature found on image''"
    by (rule ebr_signature_misread [OF flat_api_laws(1), where p = 512])
      (simp_all add: HOSTPARTITION_MAX_def flat_state_def ebr_image_def nth_append)
qed

end
