(* ===== verification/Vdfuse_Callbacks.thy ===== *)
theory Vdfuse_Callbacks
  imports Vdfuse_Table
begin

text \<open>
  The FUSE callbacks on a mounted image: reads and writes reach exactly the bytes of the
  partition they name, the attributes honour \<open>-r\<close>, and the flags that keep the
  whole-disk file and the partition files from being open together, first when every
  callback runs alone and then when two opens interleave.
\<close>

unbundle bit_operations_syntax

section \<open>Reads and writes\<close>

text \<open>The bytes of a partition, and a partition that lies inside the disk.\<close>

definition partition_data :: "bytes \<Rightarrow> Partition \<Rightarrow> bytes" where
  "partition_data c p = take (unat (p_size p)) (drop (unat (p_offset p)) c)"

definition inside_disk :: "bytes \<Rightarrow> Partition \<Rightarrow> bool" where
  "inside_disk c p \<longleftrightarrow> unat (p_offset p) + unat (p_size p) \<le> length c \<and> length c < 2 ^ 64"

definition may_access :: "'d vd_state \<Rightarrow> int \<Rightarrow> bool" where
  "may_access st n \<longleftrightarrow> \<not> (if n = 0 then partitionOpened st else entireDiskOpened st)"

lemma unat_clamp_len:
  assumes "offset < p_size p" and "unat offset + unat len < 2 ^ 64"
  shows "unat (clamp_len p len offset) = min (unat len) (unat (p_size p) - unat offset)"
proof -
  have "unat (offset + len) = unat offset + unat len"
    using assms(2) by (simp add: unat_word_ariths)
  then show ?thesis
    using assms by (auto simp: clamp_len_def word_less_nat_alt unat_sub word_le_nat_alt)
qed

lemma clamped_range:
  assumes "inside_disk c p" and "offset < p_size p" and "unat offset + unat len < 2 ^ 64"
  shows "unat (offset + p_offset p) = unat offset + unat (p_offset p)"
    and "unat offset + unat (p_offset p) + unat (clamp_len p len offset) \<le> length c"
proof -
  have lt: "unat offset < unat (p_size p)"
    using assms(2) by (simp add: word_less_nat_alt)
  with assms(1) show "unat (offset + p_offset p) = unat offset + unat (p_offset p)"
    by (simp add: unat_word_ariths inside_disk_def)
  show "unat offset + unat (p_offset p) + unat (clamp_len p len offset) \<le> length c"
    unfolding unat_clamp_len [OF assms(2,3)] using assms(1) lt by (auto simp: inside_disk_def)
qed

lemma slice_of_partition:
  assumes "inside_disk c p" and "k \<le> unat (p_size p)"
  shows "take (min n (unat (p_size p) - k)) (drop (k + unat (p_offset p)) c) =
    take n (drop k (partition_data c p))"
  by (simp add: partition_data_def drop_take add.commute)

lemma length_partition_data:
  "inside_disk c p \<Longrightarrow> length (partition_data c p) = unat (p_size p)"
  by (auto simp: partition_data_def inside_disk_def)

lemma s32_small:
  assumes "unat (len :: u64) < 2 ^ 31"
  shows "s32 (uint len) = int (unat len)"
proof -
  have "uint len < 2 ^ 31"
    using assms of_nat_less_iff [where 'a = int, of "unat len" "2 ^ 31"] by simp
  then show ?thesis by (simp add: s32_def)
qed

text \<open>(C3) A read delivers exactly the bytes of the partition: the slice at \<open>offset\<close>
  cut to \<open>len\<close> and to the partition's end (empty past it), with its length as the
  return value. No byte outside the partition is delivered.\<close>

theorem VD_read_slice:
  assumes law: "vd_read_law api content"
    and n: "findPartition st c = int n" "may_access st (int n)"
    and inside: "inside_disk (content (hdDisk st)) (partitionTable st ! n)"
    and len: "unat len < 2 ^ 31" "unat offset + unat len < 2 ^ 64"
  shows "VD_read api st c len offset =
    (let out = take (unat len) (drop (unat offset)
                 (partition_data (content (hdDisk st)) (partitionTable st ! n)))
     in Ok (int (length out), out))"
proof -
  let ?p = "partitionTable st ! n"
  let ?c = "content (hdDisk st)"
  have acc: "\<not> (if int n = 0 then partitionOpened st else entireDiskOpened st)"
    using n(2) by (simp add: may_access_def)
  show ?thesis
  proof (cases "p_size ?p \<le> offset")
    case True
    then have "drop (unat offset) (partition_data ?c ?p) = []"
      by (simp add: partition_data_def word_le_nat_alt)
    with True acc show ?thesis by (simp add: VD_read_def n(1))
  next
    case False
    then have lt: "offset < p_size ?p" "unat offset \<le> unat (p_size ?p)"
      by (simp_all add: word_less_nat_alt word_le_nat_alt)
    note rng = clamped_range [OF inside lt(1) len(2)]
    have cl: "unat (clamp_len ?p len offset) = min (unat len) (unat (p_size ?p) - unat offset)"
      by (rule unat_clamp_len [OF lt(1) len(2)])
    let ?out = "take (unat len) (drop (unat offset) (partition_data ?c ?p))"
    have rd: "VDRead api (hdDisk st) (offset + p_offset ?p) (clamp_len ?p len offset) = (True, ?out)"
      using law rng by (simp add: vd_read_law_def cl slice_of_partition [OF inside lt(2)])
    have "length ?out = unat (clamp_len ?p len offset)"
      by (simp add: cl length_partition_data [OF inside] min.commute)
    moreover have "s32 (uint (clamp_len ?p len offset)) = int (unat (clamp_len ?p len offset))"
      by (rule s32_small) (use len(1) in \<open>simp add: cl\<close>)
    ultimately show ?thesis
      using False acc rd by (simp add: VD_read_def n(1) Let_def)
  qed
qed

lemma demo_slot0:
  "p_name (partitionTable demo_mounted ! 0) = ENTIRE_DISK_STR" "p_no (partitionTable demo_mounted ! 0) = 0"
  using demo_table_ok by (simp_all add: table_ok_def)

lemma demo_find: "findPartition demo_mounted ''/Partition1'' = int 1"
  by (simp add: findPartition_def demo_partition demo_slot0 UNALLOCATED_def ENTIRE_DISK_STR_def)

theorem VD_read_slice_witness:
  "VD_read flat_api demo_mounted ''/Partition1'' 4 510 = Ok (2, [1, 1])"
proof -
  have "replicate 2 (1 :: u8) = [1, 1]" by (simp add: numeral_2_eq_2)
  then show ?thesis
    using VD_read_slice [OF flat_api_laws(1) demo_find, of 4 510]
    by (simp add: may_access_def demo_fields demo_partition inside_disk_def demo_image_def
        partition_data_def)
qed

lemma VD_write_put:
  assumes law: "vd_write_law api content"
    and n: "findPartition st c = int n" "may_access st (int n)"
    and inside: "inside_disk (content (hdDisk st)) (partitionTable st ! n)"
    and len: "unat len < 2 ^ 31" "unat offset + unat len < 2 ^ 64" "length inb = unat len"
    and off: "offset < p_size (partitionTable st ! n)"
    and k: "k = min (unat len) (unat (p_size (partitionTable st ! n)) - unat offset)"
  shows "\<exists>d. VD_write api st c inb len offset = (Ok (int k), st\<lparr>hdDisk := d\<rparr>) \<and>
    content d = put_at (content (hdDisk st))
      (unat (p_offset (partitionTable st ! n)) + unat offset) (take k inb)"
proof -
  let ?p = "partitionTable st ! n"
  have acc: "\<not> (if int n = 0 then partitionOpened st else entireDiskOpened st)"
    using n(2) by (simp add: may_access_def)
  note rng = clamped_range [OF inside off len(2)]
  have cl: "unat (clamp_len ?p len offset) = k"
    using unat_clamp_len [OF off len(2)] k by simp
  have "length (take k inb) = k" using len(3) k by simp
  then obtain d where wr: "VDWrite api (hdDisk st) (offset + p_offset ?p) (take k inb) = (True, d)"
    and d: "content d = put_at (content (hdDisk st)) (unat (offset + p_offset ?p)) (take k inb)"
    using law rng unfolding vd_write_law_def by (metis cl)
  have "s32 (uint (clamp_len ?p len offset)) = int k"
    using s32_small [of "clamp_len ?p len offset"] len(1) k cl by simp
  then show ?thesis
    using acc wr d rng(1) off [unfolded not_le [symmetric]]
    by (intro exI [of _ d]) (simp add: VD_write_def Let_def n(1) cl add.commute)
qed

lemma nth_partition_data:
  assumes "inside_disk c p" and "j < unat (p_size p)"
  shows "partition_data c p ! j = c ! (unat (p_offset p) + j)"
  using assms by (simp add: partition_data_def inside_disk_def)

text \<open>(C4) A write inside a partition changes the bytes it names and nothing else: the
  call returns the number of bytes that fit, reading them back gives the data written, no
  other global changes, and every byte of the disk outside the partition keeps its value.\<close>

theorem VD_write_isolated:
  assumes "vd_write_law api content"
    and "findPartition st c = int n" and "may_access st (int n)"
    and "inside_disk (content (hdDisk st)) (partitionTable st ! n)"
    and "unat len < 2 ^ 31" and "unat offset + unat len < 2 ^ 64" and "length inb = unat len"
    and "offset < p_size (partitionTable st ! n)"
  defines "k \<equiv> min (unat len) (unat (p_size (partitionTable st ! n)) - unat offset)"
  shows "\<exists>d. VD_write api st c inb len offset = (Ok (int k), st\<lparr>hdDisk := d\<rparr>) \<and>
    length (content d) = length (content (hdDisk st)) \<and>
    take k (drop (unat offset) (partition_data (content d) (partitionTable st ! n))) = take k inb \<and>
    (\<forall>j < length (content d).
       \<not> (unat (p_offset (partitionTable st ! n)) \<le> j \<and>
          j < unat (p_offset (partitionTable st ! n)) + unat (p_size (partitionTable st ! n)))
       \<longrightarrow> content d ! j = content (hdDisk st) ! j)"
proof -
  let ?p = "partitionTable st ! n" and ?c = "content (hdDisk st)"
  let ?at = "unat (p_offset ?p) + unat offset"
  obtain d where d: "VD_write api st c inb len offset = (Ok (int k), st\<lparr>hdDisk := d\<rparr>)"
    "content d = put_at ?c ?at (take k inb)"
    using VD_write_put [OF assms(1-8) meta_eq_to_obj_eq [OF k_def]] by blast
  have lt: "unat offset < unat (p_size ?p)"
    using assms(8) by (simp add: word_less_nat_alt)
  have len: "length (take k inb) = k" "?at + k \<le> unat (p_offset ?p) + unat (p_size ?p)"
    using assms(7) lt by (auto simp: k_def)
  have fit: "?at + length (take k inb) \<le> length ?c"
    using len assms(4) by (simp add: inside_disk_def)
  have same: "length (content d) = length ?c"
    using d(2) fit by simp
  have ins: "inside_disk (content d) ?p"
    using assms(4) same by (simp add: inside_disk_def)
  have readback: "take k (drop (unat offset) (partition_data (content d) ?p)) = take k inb"
  proof (rule nth_equalityI)
    show "length (take k (drop (unat offset) (partition_data (content d) ?p))) = length (take k inb)"
      using length_partition_data [OF ins] len lt by (simp add: k_def)
    fix j assume "j < length (take k (drop (unat offset) (partition_data (content d) ?p)))"
    then have j: "j < k" "unat offset + j < unat (p_size ?p)"
      by (auto simp: length_partition_data [OF ins])
    show "take k (drop (unat offset) (partition_data (content d) ?p)) ! j = take k inb ! j"
      using j fit len nth_partition_data [OF ins j(2)] ins length_partition_data [OF ins]
      by (simp add: d(2) nth_put_at)
  qed
  have "content d ! j = ?c ! j"
    if "j < length (content d)" "\<not> (unat (p_offset ?p) \<le> j \<and> j < unat (p_offset ?p) + unat (p_size ?p))" for j
    using that fit len same by (auto simp: d(2) nth_put_at)
  with d same readback show ?thesis by blast
qed

theorem VD_write_isolated_witness:
  "\<exists>d. VD_write flat_api demo_mounted ''/Partition1'' [7, 8, 9] 3 510 =
     (Ok 2, demo_mounted\<lparr>hdDisk := d\<rparr>) \<and>
   take 2 (drop 510 (partition_data d (partitionTable demo_mounted ! 1))) = [7, 8]"
  using VD_write_isolated [OF flat_api_laws(2) demo_find, of 3 510 "[7, 8, 9]"]
  by (simp add: may_access_def demo_fields demo_partition inside_disk_def demo_image_def)
    (metis (no_types, lifting))

section \<open>Attributes\<close>

text \<open>\<open>VD_getattr\<close> succeeds exactly on the root and on files \<open>findPartition\<close>
  knows, reports the partition's size, and on a read-only mount reports no write bit for
  anyone.\<close>

theorem VD_getattr_spec:
  "(VD_getattr st p = Err ENOENT \<longleftrightarrow> p \<noteq> ''/'' \<and> findPartition st p = -1) \<and>
   (\<forall>sb. VD_getattr st p = Ok sb \<longrightarrow>
      st_nlink sb = 1 \<and>
      (p \<noteq> ''/'' \<longrightarrow> st_size sb = p_size (partitionTable st ! nat (findPartition st p))) \<and>
      (readonly st \<longrightarrow> st_mode sb AND (S_IWUSR OR S_IWGRP OR S_IWOTH) = 0))"
  by (auto simp: VD_getattr_def Let_def mode_consts)

theorem VD_getattr_spec_witness:
  "\<exists>sb. VD_getattr (demo_mounted\<lparr>readonly := True\<rparr>) ''/'' = Ok sb \<and>
     st_mode sb AND (S_IWUSR OR S_IWGRP OR S_IWOTH) = 0"
proof -
  obtain sb where "VD_getattr (demo_mounted\<lparr>readonly := True\<rparr>) ''/'' = Ok sb"
    by (simp add: VD_getattr_def Let_def)
  with VD_getattr_spec [of "demo_mounted\<lparr>readonly := True\<rparr>" "''/''"] show ?thesis by auto
qed

section \<open>Exclusion of the whole disk and its partitions\<close>

text \<open>
  Callbacks that run one after the other. The second component lists the partition
  numbers of the files that are open; FUSE releases only files it has opened.
\<close>

inductive vd_call ::
    "'d vd_api \<Rightarrow> 'd vd_state \<times> int list \<Rightarrow> 'd vd_state \<times> int list \<Rightarrow> bool" for api where
  call_open: "VD_open_check st nm fl = Ok n \<Longrightarrow> VD_open st nm fl = (Ok r, st') \<Longrightarrow>
    vd_call api (st, hs) (st', n # hs)"
| call_refused: "VD_open st nm fl = (Err e, st') \<Longrightarrow> vd_call api (st, hs) (st', hs)"
| call_release: "h \<in> set hs \<Longrightarrow> VD_release api st = Done st' \<Longrightarrow>
    vd_call api (st, hs) (st', remove1 h hs)"
| call_write: "VD_write api st nm bs len off = (r, st') \<Longrightarrow> vd_call api (st, hs) (st', hs)"
| call_flush: "vd_call api (st, hs) (VD_flush api st, hs)"

inductive_cases vd_callE: "vd_call api (st, hs) t"

fun mounted :: "'d vd_state \<times> int list \<Rightarrow> bool" where
  "mounted (st, hs) \<longleftrightarrow> hs = [] \<and> opened st = 0 \<and> \<not> entireDiskOpened st \<and>
     \<not> partitionOpened st \<and> lastPartition st \<le> 100"

fun open_inv :: "'d vd_state \<times> int list \<Rightarrow> bool" where
  "open_inv (st, hs) \<longleftrightarrow> lastPartition st \<le> 100 \<and> opened st = int (length hs) \<and>
     (if hs = [] then \<not> entireDiskOpened st \<and> \<not> partitionOpened st
      else entireDiskOpened st \<and> \<not> partitionOpened st \<and> (\<forall>h \<in> set hs. h = 0) \<or>
           \<not> entireDiskOpened st \<and> partitionOpened st \<and> (\<forall>h \<in> set hs. 0 < h))"

lemma findPartition_ge: "-1 \<le> findPartition st c"
  using findPartition_cases [of st c] by auto

lemma VD_open_check_Ok:
  "VD_open_check st nm fl = Ok n \<longleftrightarrow>
     n = findPartition st nm \<and> n \<noteq> -1 \<and> \<not> (entireDiskOpened st \<and> 0 < n) \<and>
     \<not> (partitionOpened st \<and> n = 0) \<and> (readonly st \<longrightarrow> fl AND (1 OR 2) = 0)"
  by (auto simp: VD_open_check_def Let_def)

lemma VD_open_commit_simps [simp]:
  "lastPartition (VD_open_commit st n) = lastPartition st"
  "partitionTable (VD_open_commit st n) = partitionTable st"
  "opened (VD_open_commit st n) = opened st + 1"
  "entireDiskOpened (VD_open_commit st n) = (n = 0 \<or> entireDiskOpened st)"
  "partitionOpened (VD_open_commit st n) = (n \<noteq> 0 \<or> partitionOpened st)"
  by (auto simp: VD_open_commit_def)

lemma open_inv_open:
  assumes "open_inv (st, hs)" and "VD_open_check st nm fl = Ok n"
  shows "open_inv (VD_open_commit st n, n # hs)"
proof -
  have n: "0 \<le> n" "\<not> (entireDiskOpened st \<and> 0 < n)" "\<not> (partitionOpened st \<and> n = 0)"
    using assms(2) findPartition_ge [of st nm] by (auto simp: VD_open_check_Ok)
  show ?thesis
    using assms(1) n by (auto split: if_splits)
qed

lemma VD_release_Done:
  assumes "VD_release api st = Done st'" and "lastPartition st \<le> 100"
  shows "opened st' = opened st - 1 \<and> lastPartition st' \<le> 100 \<and>
    entireDiskOpened st' = (opened st \<noteq> 1 \<and> entireDiskOpened st) \<and>
    partitionOpened st' = (opened st \<noteq> 1 \<and> partitionOpened st)"
proof (cases "opened st = 1")
  case True
  then obtain st2 where
    init: "initialisePartitionTable api (st\<lparr>opened := opened st - 1\<rparr>) = Done st2"
    and st': "st' = st2\<lparr>entireDiskOpened := False, partitionOpened := False\<rparr>"
    using assms(1) by (auto simp: VD_release_def Let_def split: run.splits)
  have last: "lastPartition (st\<lparr>opened := opened st - 1\<rparr>) \<le> 100"
    using assms(2) by simp
  show ?thesis
    using True st' parsed_table_ok [OF init last]
      same_but_table_fields [OF initialisePartitionTable_frame [OF init last]]
    by (simp add: table_ok_def slots_ok_def clear_table_state)
next
  case False
  with assms show ?thesis by (auto simp: VD_release_def Let_def)
qed

lemma open_inv_release:
  assumes inv: "open_inv (st, hs)" and h: "h \<in> set hs" and rel: "VD_release api st = Done st'"
  shows "open_inv (st', remove1 h hs)"
proof -
  have last: "lastPartition st \<le> 100" using inv by simp
  note r = VD_release_Done [OF rel last]
  have len: "length (remove1 h hs) = length hs - 1" "0 < length hs"
    using h by (auto simp: length_remove1)
  show ?thesis
  proof (cases "length hs = 1")
    case True
    then have "hs = [h]" using h by (cases hs) auto
    with r inv show ?thesis by simp
  next
    case False
    have "length (remove1 h hs) \<noteq> 0" using False len by linarith
    then have ne: "remove1 h hs \<noteq> []" "hs \<noteq> []" using len(2) by auto
    have cnt: "opened st' = int (length (remove1 h hs))"
      using r inv len by (simp only: open_inv.simps)
    have sub: "set (remove1 h hs) \<subseteq> set hs" by (rule set_remove1_subset)
    have "opened st \<noteq> 1" using inv False by simp
    with r inv ne sub show ?thesis by (auto simp: subset_iff cnt simp del: length_remove1)
  qed
qed

lemma VD_write_frame: "VD_write api st nm bs len off = (r, st') \<Longrightarrow> \<exists>d. st' = st\<lparr>hdDisk := d\<rparr>"
  by (cases st) (auto simp: VD_write_def Let_def split: if_splits prod.splits)

lemma open_inv_disk [simp]: "open_inv (st\<lparr>hdDisk := d\<rparr>, hs) = open_inv (st, hs)"
  by simp

declare open_inv.simps [simp del]

interpretation vd_seq: invariant_system mounted "vd_call api" open_inv for api :: "'d vd_api"
proof unfold_locales
  show "open_inv s" if "mounted s" for s :: "'d vd_state \<times> int list"
    using that by (cases s) (auto simp: open_inv.simps)
  show "open_inv t" if "vd_call api s t" "open_inv s" for s t :: "'d vd_state \<times> int list"
    using that
  proof (induction rule: vd_call.induct)
    case (call_open st nm fl n r st' hs)
    then show ?case using open_inv_open [of st hs nm fl n] by (simp add: VD_open_def)
  next
    case (call_refused st nm fl e st' hs)
    then show ?case by (auto simp: VD_open_def split: result.splits)
  next
    case (call_release h hs st st')
    then show ?case by (blast intro: open_inv_release)
  next
    case (call_write st nm bs len off r st' hs)
    then show ?case using VD_write_frame open_inv_disk by metis
  next
    case (call_flush st hs)
    then show ?case by (simp add: VD_flush_def)
  qed
qed

text \<open>(C5) As long as the callbacks run one at a time, from the mount on: the whole-disk
  file and a partition file are never open together, \<open>opened\<close> counts the open files,
  and no open file is ever refused a read or write with \<open>EIO\<close> by the exclusion flags.\<close>

theorem vd_exclusion:
  assumes "mounted (st, hs)" and "(vd_call api)\<^sup>*\<^sup>* (st, hs) (st', hs')"
  shows "\<not> (entireDiskOpened st' \<and> partitionOpened st') \<and> opened st' = int (length hs') \<and>
    (\<forall>h \<in> set hs'. may_access st' h)"
  using vd_seq.reachable_inv [OF assms]
  by (auto simp: open_inv.simps may_access_def split: if_splits)

lemma demo_mounted_init: "mounted (demo_mounted, [])"
  by (simp add: demo_fields demo_partition)

theorem vd_exclusion_witness:
  "\<exists>st'. (vd_call flat_api)\<^sup>*\<^sup>* (demo_mounted, []) (st', [1]) \<and> partitionOpened st' \<and>
     \<not> (entireDiskOpened st' \<and> partitionOpened st') \<and> may_access st' 1"
proof -
  have chk: "VD_open_check demo_mounted ''/Partition1'' 0 = Ok 1"
    using demo_find by (simp add: VD_open_check_Ok demo_fields)
  have call: "vd_call flat_api (demo_mounted, []) (VD_open_commit demo_mounted 1, [1])"
    by (rule call_open [OF chk, of 0]) (simp add: VD_open_def chk)
  then have "(vd_call flat_api)\<^sup>*\<^sup>* (demo_mounted, []) (VD_open_commit demo_mounted 1, [1])"
    by simp
  from this vd_exclusion [OF demo_mounted_init this] show ?thesis
    by (intro exI [of _ "VD_open_commit demo_mounted 1"]) auto
qed

text \<open>
  Two threads of the FUSE loop inside \<open>VD_open\<close>: the test of the flags and the
  assignment to them are separate steps, and \<open>pending\<close> holds the opens between the two.
\<close>

inductive vd_open_step ::
    "'d vd_state \<times> int list \<Rightarrow> 'd vd_state \<times> int list \<Rightarrow> bool" where
  thread_check: "VD_open_check st nm fl = Ok n \<Longrightarrow> vd_open_step (st, pending) (st, n # pending)"
| thread_commit: "n \<in> set pending \<Longrightarrow>
    vd_open_step (st, pending) (VD_open_commit st n, remove1 n pending)"

text \<open>(C6) The exclusion is not thread safe: from every mounted table with at least one
  partition, an interleaving of two opens lets both succeed, and afterwards every read of
  the whole-disk file and of the partition is refused with \<open>EIO\<close>.\<close>

theorem vd_open_race:
  assumes "table_ok api st" and "mounted (st, [])"
    and "1 \<le> i" and "i \<le> lastPartition st" and "p_no (partitionTable st ! i) \<noteq> UNALLOCATED"
  shows "\<exists>st'. vd_open_step\<^sup>*\<^sup>* (st, []) (st', []) \<and> entireDiskOpened st' \<and> partitionOpened st' \<and>
    opened st' = 2 \<and>
    VD_read api st' (CHR ''/'' # ENTIRE_DISK_STR) len offset = Err EIO \<and>
    VD_read api st' (CHR ''/'' # part_name i) len offset = Err EIO"
proof -
  have names: "p_name (partitionTable st ! 0) = ENTIRE_DISK_STR" "p_no (partitionTable st ! 0) \<noteq> UNALLOCATED"
    "p_name (partitionTable st ! i) = part_name i" "lastPartition st \<le> 100"
    using assms by (auto simp: table_ok_def slots_ok_def UNALLOCATED_def)
  have find: "findPartition st (CHR ''/'' # p_name (partitionTable st ! k)) = int k"
    if "k \<le> lastPartition st" "p_no (partitionTable st ! k) \<noteq> UNALLOCATED" for k
    unfolding findPartition_def
    using that names(4) table_names_distinct [OF assms(1)]
    by (intro find_from_unique) (auto simp del: upt_Suc)
  have f0: "findPartition st (CHR ''/'' # ENTIRE_DISK_STR) = 0"
    and fi: "findPartition st (CHR ''/'' # part_name i) = int i"
    using find [of 0] find [OF assms(4,5)] names by auto
  have clear: "\<not> entireDiskOpened st" "\<not> partitionOpened st" "opened st = 0"
    using assms(2) by auto
  let ?n = "int i"
  let ?st = "VD_open_commit (VD_open_commit st 0) ?n"
  have "vd_open_step (st, []) (st, [0])"
    by (rule thread_check [where fl = 0 and nm = "CHR ''/'' # ENTIRE_DISK_STR"]) (use f0 clear in \<open>simp add: VD_open_check_Ok\<close>)
  moreover have "vd_open_step (st, [0]) (st, [?n, 0])"
    by (rule thread_check [where fl = 0 and nm = "CHR ''/'' # part_name i"]) (use fi clear in \<open>simp add: VD_open_check_Ok\<close>)
  moreover have "vd_open_step (st, [?n, 0]) (VD_open_commit st 0, [?n])"
    using thread_commit [of 0 "[?n, 0]" st] assms(3) by simp
  moreover have "vd_open_step (VD_open_commit st 0, [?n]) (?st, [])"
    using thread_commit [of ?n "[?n]" "VD_open_commit st 0"] by simp
  ultimately have "vd_open_step\<^sup>*\<^sup>* (st, []) (?st, [])"
    by (meson converse_rtranclp_into_rtranclp rtranclp.rtrancl_refl)
  moreover have "findPartition ?st c = findPartition st c" for c
    by (simp add: findPartition_def)
  ultimately show ?thesis
    using f0 fi clear assms(3) by (intro exI [of _ ?st]) (simp add: VD_read_def)
qed

theorem vd_open_race_witness:
  "\<exists>st'. vd_open_step\<^sup>*\<^sup>* (demo_mounted, []) (st', []) \<and> entireDiskOpened st' \<and> partitionOpened st'"
  using vd_open_race [OF demo_table_ok demo_mounted_init, of 1]
  by (auto simp: demo_partition UNALLOCATED_def)

end
