(* ===== verification/Runlist.thy ===== *)
theory Runlist
  imports NTFS_Prelude
begin

text \<open>
  Runlists (\<open>libntfs-3g/runlist.c\<close>, \<open>include/ntfs-3g/runlist.h\<close>): the in-memory
  array that maps the virtual clusters of an attribute to logical clusters of the volume.
  A C array is the list of its elements; \<open>malloc\<close> and \<open>realloc\<close> are allowed to
  fail, which the predicate \<open>mem\<close> on the requested size decides. Cluster numbers are
  unbounded integers here; \<open>Mapping_Pairs\<close>, where they come from untrusted bytes, keeps
  them at 64 bits.
\<close>

section \<open>Elements and special cluster numbers\<close>

record runlist_element =
  rl_vcn :: int
  rl_lcn :: int
  rl_length :: int

type_synonym runlist = "runlist_element list"

definition LCN_HOLE :: int where "LCN_HOLE = -1"
definition LCN_RL_NOT_MAPPED :: int where "LCN_RL_NOT_MAPPED = -2"
definition LCN_ENOENT :: int where "LCN_ENOENT = -3"
definition LCN_EINVAL :: int where "LCN_EINVAL = -4"

lemmas lcn_defs = LCN_HOLE_def LCN_RL_NOT_MAPPED_def LCN_ENOENT_def LCN_EINVAL_def

text \<open>Fresh memory; no result below depends on what it holds.\<close>

definition rl_uninit :: runlist_element where
  "rl_uninit = \<lparr>rl_vcn = 0, rl_lcn = 0, rl_length = 0\<rparr>"

definition rl_get :: "runlist \<Rightarrow> nat \<Rightarrow> runlist_element" where
  "rl_get rl i = (if i < length rl then rl ! i else rl_uninit)"

definition rl_upd :: "nat \<Rightarrow> (runlist_element \<Rightarrow> runlist_element) \<Rightarrow> runlist \<Rightarrow> runlist" where
  "rl_upd i f rl = rl[i := f (rl_get rl i)]"

section \<open>Moving, copying and reallocating\<close>

definition ntfs_rl_mm :: "runlist \<Rightarrow> nat \<Rightarrow> nat \<Rightarrow> nat \<Rightarrow> runlist" where
  "ntfs_rl_mm base dst src sz =
     (if dst \<noteq> src \<and> 0 < sz
      then take dst base @ take sz (drop src base) @ drop (dst + sz) base
      else base)"

definition ntfs_rl_mc :: "runlist \<Rightarrow> nat \<Rightarrow> runlist \<Rightarrow> nat \<Rightarrow> nat \<Rightarrow> runlist" where
  "ntfs_rl_mc dstbase dst srcbase src sz =
     (if 0 < sz
      then take dst dstbase @ take sz (drop src srcbase) @ drop (dst + sz) dstbase
      else dstbase)"

text \<open>Sizes are rounded up to 4 KiB; an element has 24 bytes.\<close>

definition rl_bytes :: "nat \<Rightarrow> nat" where
  "rl_bytes n = (n * 24 + 0xfff) div 0x1000 * 0x1000"

definition ntfs_rl_realloc :: "(nat \<Rightarrow> bool) \<Rightarrow> runlist \<Rightarrow> nat \<Rightarrow> nat \<Rightarrow> runlist option" where
  "ntfs_rl_realloc mem rl old_size new_size =
     (if rl_bytes old_size = rl_bytes new_size \<or> mem (rl_bytes new_size)
      then Some (rl @ replicate (new_size - length rl) rl_uninit)
      else None)"

section \<open>Merging runs\<close>

definition ntfs_rl_are_mergeable :: "runlist_element \<Rightarrow> runlist_element \<Rightarrow> bool" where
  "ntfs_rl_are_mergeable dst src =
     (if rl_lcn dst = LCN_RL_NOT_MAPPED \<and> rl_lcn src = LCN_RL_NOT_MAPPED then True
      else if rl_vcn dst + rl_length dst \<noteq> rl_vcn src then False
      else if 0 \<le> rl_lcn dst \<and> 0 \<le> rl_lcn src \<and> rl_lcn dst + rl_length dst = rl_lcn src then True
      else if rl_lcn dst = LCN_HOLE \<and> rl_lcn src = LCN_HOLE then True
      else False)"

definition rl_merge :: "runlist_element \<Rightarrow> runlist_element \<Rightarrow> runlist_element" where
  "rl_merge dst src = dst\<lparr>rl_length := rl_length dst + rl_length src\<rparr>"

definition ntfs_rl_append ::
    "(nat \<Rightarrow> bool) \<Rightarrow> runlist \<Rightarrow> nat \<Rightarrow> runlist \<Rightarrow> nat \<Rightarrow> nat \<Rightarrow> runlist result" where
  "ntfs_rl_append mem dst dsize src ssize loc =
     (let right = (loc + 1 < dsize \<and>
            ntfs_rl_are_mergeable (rl_get src (ssize - 1)) (rl_get dst (loc + 1)));
          r = (if right then 1 else 0)
      in case ntfs_rl_realloc mem dst dsize (dsize + ssize - r) of
           None \<Rightarrow> Err ENOMEM
         | Some dst \<Rightarrow>
             let src = (if right
                   then rl_upd (ssize - 1) (\<lambda>e. rl_merge e (rl_get dst (loc + 1))) src else src);
                 marker = loc + ssize + 1;
                 dst = ntfs_rl_mm dst marker (loc + 1 + r) (dsize - loc - 1 - r);
                 dst = ntfs_rl_mc dst (loc + 1) src 0 ssize;
                 dst = rl_upd loc
                   (\<lambda>e. e\<lparr>rl_length := rl_vcn (rl_get dst (loc + 1)) - rl_vcn e\<rparr>) dst;
                 dst = (if rl_lcn (rl_get dst marker) = LCN_ENOENT
                   then rl_upd marker (\<lambda>e. e\<lparr>rl_vcn := rl_vcn (rl_get dst (marker - 1)) +
                          rl_length (rl_get dst (marker - 1))\<rparr>) dst
                   else dst)
             in Ok dst)"

definition ntfs_rl_insert ::
    "(nat \<Rightarrow> bool) \<Rightarrow> runlist \<Rightarrow> nat \<Rightarrow> runlist \<Rightarrow> nat \<Rightarrow> nat \<Rightarrow> runlist result" where
  "ntfs_rl_insert mem dst dsize src ssize loc =
     (let left = (loc \<noteq> 0 \<and> ntfs_rl_are_mergeable (rl_get dst (loc - 1)) (rl_get src 0));
          merged_length = rl_length (rl_get dst (loc - 1)) +
            (if left then rl_length (rl_get src 0) else 0);
          disc = (if loc = 0 then 0 < rl_vcn (rl_get src 0)
                  else rl_vcn (rl_get dst (loc - 1)) + merged_length < rl_vcn (rl_get src 0));
          l = (if left then 1 else 0); d = (if disc then 1 else 0)
      in case ntfs_rl_realloc mem dst dsize (dsize + ssize - l + d) of
           None \<Rightarrow> Err ENOMEM
         | Some dst \<Rightarrow>
             let dst = (if left then rl_upd (loc - 1) (\<lambda>e. rl_merge e (rl_get src 0)) dst else dst);
                 marker = loc + ssize - l + d;
                 dst = ntfs_rl_mm dst marker loc (dsize - loc);
                 dst = ntfs_rl_mc dst (loc + d) src l (ssize - l);
                 dst = rl_upd marker (\<lambda>e. e\<lparr>rl_vcn := rl_vcn (rl_get dst (marker - 1)) +
                         rl_length (rl_get dst (marker - 1))\<rparr>) dst;
                 dst = (if rl_lcn (rl_get dst marker) = LCN_HOLE \<or>
                           rl_lcn (rl_get dst marker) = LCN_RL_NOT_MAPPED
                   then rl_upd marker (\<lambda>e. e\<lparr>rl_length :=
                          rl_vcn (rl_get dst (marker + 1)) - rl_vcn e\<rparr>) dst
                   else dst);
                 dst = (if disc then
                     rl_upd loc (\<lambda>e. e\<lparr>rl_lcn := LCN_RL_NOT_MAPPED\<rparr>)
                       (if 0 < loc then
                          let v = rl_vcn (rl_get dst (loc - 1)) + rl_length (rl_get dst (loc - 1))
                          in rl_upd loc (\<lambda>e. e\<lparr>rl_vcn := v,
                               rl_length := rl_vcn (rl_get dst (loc + 1)) - v\<rparr>) dst
                        else rl_upd loc (\<lambda>e. e\<lparr>rl_vcn := 0,
                               rl_length := rl_vcn (rl_get dst (loc + 1))\<rparr>) dst)
                   else dst)
             in Ok dst)"

definition ntfs_rl_replace ::
    "(nat \<Rightarrow> bool) \<Rightarrow> runlist \<Rightarrow> nat \<Rightarrow> runlist \<Rightarrow> nat \<Rightarrow> nat \<Rightarrow> runlist result" where
  "ntfs_rl_replace mem dst dsize src ssize loc =
     (let right = (loc + 1 < dsize \<and>
            ntfs_rl_are_mergeable (rl_get src (ssize - 1)) (rl_get dst (loc + 1)));
          left = (0 < loc \<and> ntfs_rl_are_mergeable (rl_get dst (loc - 1)) (rl_get src 0));
          r = (if right then 1 else 0); l = (if left then 1 else 0)
      in case (if 1 + l + r < ssize
               then ntfs_rl_realloc mem dst dsize (dsize + (ssize - 1 - l - r)) else Some dst) of
           None \<Rightarrow> Err ENOMEM
         | Some dst \<Rightarrow>
             let src = (if right
                   then rl_upd (ssize - 1) (\<lambda>e. rl_merge e (rl_get dst (loc + 1))) src else src);
                 dst = (if left then rl_upd (loc - 1) (\<lambda>e. rl_merge e (rl_get src 0)) dst else dst);
                 tail = loc + r + 1;
                 marker = loc + ssize - l;
                 dst = ntfs_rl_mm dst marker tail (dsize - tail);
                 dst = ntfs_rl_mc dst loc src l (ssize - l);
                 dst = (if tail < dsize \<and> rl_lcn (rl_get dst marker) = LCN_ENOENT
                   then rl_upd marker (\<lambda>e. e\<lparr>rl_vcn := rl_vcn (rl_get dst (marker - 1)) +
                          rl_length (rl_get dst (marker - 1))\<rparr>) dst
                   else dst)
             in Ok dst)"

definition ntfs_rl_split ::
    "(nat \<Rightarrow> bool) \<Rightarrow> runlist \<Rightarrow> nat \<Rightarrow> runlist \<Rightarrow> nat \<Rightarrow> nat \<Rightarrow> runlist result" where
  "ntfs_rl_split mem dst dsize src ssize loc =
     (case ntfs_rl_realloc mem dst dsize (dsize + ssize + 1) of
        None \<Rightarrow> Err ENOMEM
      | Some dst \<Rightarrow>
          let dst = ntfs_rl_mm dst (loc + 1 + ssize) loc (dsize - loc);
              dst = ntfs_rl_mc dst (loc + 1) src 0 ssize;
              dst = rl_upd loc
                (\<lambda>e. e\<lparr>rl_length := rl_vcn (rl_get dst (loc + 1)) - rl_vcn e\<rparr>) dst;
              dst = rl_upd (loc + ssize + 1) (\<lambda>e. e\<lparr>rl_vcn := rl_vcn (rl_get dst (loc + ssize)) +
                      rl_length (rl_get dst (loc + ssize))\<rparr>) dst;
              dst = rl_upd (loc + ssize + 1) (\<lambda>e. e\<lparr>rl_length :=
                      rl_vcn (rl_get dst (loc + ssize + 2)) - rl_vcn e\<rparr>) dst
          in Ok dst)"

section \<open>Merging runlists\<close>

text \<open>The scans of \<open>ntfs_runlists_merge_i\<close>.\<close>

function scan_end :: "runlist \<Rightarrow> nat \<Rightarrow> nat" where
  "scan_end rl i = (if i < length rl \<and> rl_length (rl ! i) \<noteq> 0 then scan_end rl (Suc i) else i)"
  by pat_completeness auto
termination
  by (relation "measure (\<lambda>(rl, i). length rl - i)") auto

function skip_unmapped :: "runlist \<Rightarrow> nat \<Rightarrow> nat" where
  "skip_unmapped rl i =
     (if i < length rl \<and> rl_length (rl ! i) \<noteq> 0 \<and> rl_lcn (rl ! i) < LCN_HOLE
      then skip_unmapped rl (Suc i) else i)"
  by pat_completeness auto
termination
  by (relation "measure (\<lambda>(rl, i). length rl - i)") auto

function skip_before :: "runlist \<Rightarrow> int \<Rightarrow> nat \<Rightarrow> nat" where
  "skip_before rl v i =
     (if i < length rl \<and> rl_length (rl ! i) \<noteq> 0 \<and> \<not> v < rl_vcn (rl ! i) + rl_length (rl ! i)
      then skip_before rl v (Suc i) else i)"
  by pat_completeness auto
termination
  by (relation "measure (\<lambda>(rl, v, i). length rl - i)") auto

declare scan_end.simps [simp del] skip_unmapped.simps [simp del] skip_before.simps [simp del]

fun scan_final :: "runlist \<Rightarrow> nat \<Rightarrow> int" where
  "scan_final rl 0 = (if rl_lcn (rl_get rl 0) < LCN_HOLE then -1 else 0)"
| "scan_final rl (Suc i) =
     (if rl_lcn (rl_get rl (Suc i)) < LCN_HOLE then scan_final rl i else int (Suc i))"

text \<open>The code after the four cases, when the source runlist ended in \<open>LCN_ENOENT\<close>.\<close>

definition merge_marker :: "(nat \<Rightarrow> bool) \<Rightarrow> runlist \<Rightarrow> nat \<Rightarrow> int \<Rightarrow> runlist result" where
  "merge_marker mem drl dend marker_vcn =
     (let ds = scan_end drl dend
      in if rl_vcn (rl_get drl ds) \<le> marker_vcn then
           if rl_vcn (rl_get drl ds) = marker_vcn
           then Ok (rl_upd ds (\<lambda>e. e\<lparr>rl_lcn := LCN_ENOENT\<rparr>) drl)
           else
             let (ds, slots) =
                   (if rl_lcn (rl_get drl ds) = LCN_ENOENT then (ds - 1, 1) else (ds, 0 :: nat));
                 added =
                   (if rl_lcn (rl_get drl ds) \<noteq> LCN_RL_NOT_MAPPED then
                      case (if slots = 0 then ntfs_rl_realloc mem drl ds (ds + 2) else Some drl) of
                        None \<Rightarrow> None
                      | Some drl \<Rightarrow>
                          let slots' = (if slots = 0 then 2 else slots);
                              drl = (if slots' \<noteq> 1
                                then rl_upd (ds + 1) (\<lambda>e. e\<lparr>rl_vcn := rl_vcn (rl_get drl ds) +
                                       rl_length (rl_get drl ds)\<rparr>) drl
                                else drl)
                          in Some (rl_upd (ds + 1) (\<lambda>e. e\<lparr>rl_lcn := LCN_RL_NOT_MAPPED\<rparr>) drl,
                                   ds + 1, slots' - 1)
                    else Some (drl, ds, slots))
             in case added of
                  None \<Rightarrow> Fault
                | Some (drl, ds, slots) \<Rightarrow>
                    let drl = rl_upd ds (\<lambda>e. e\<lparr>rl_length := marker_vcn - rl_vcn e\<rparr>) drl
                    in case (if slots = 0 then ntfs_rl_realloc mem drl (ds + 1) (ds + 2)
                             else Some drl) of
                         None \<Rightarrow> Fault
                       | Some drl \<Rightarrow> Ok (rl_upd (ds + 1) (\<lambda>e. \<lparr>rl_vcn = marker_vcn,
                           rl_lcn = LCN_ENOENT, rl_length = 0\<rparr>) drl)
         else Ok drl)"

definition ntfs_runlists_merge_i ::
    "(nat \<Rightarrow> bool) \<Rightarrow> runlist option \<Rightarrow> runlist option \<Rightarrow> runlist option result" where
  "ntfs_runlists_merge_i mem drl0 srl0 =
     (case srl0 of None \<Rightarrow> Ok drl0
      | Some srl \<Rightarrow>
     (case drl0 of
        None \<Rightarrow>
          if rl_vcn (rl_get srl 0) \<noteq> 0 then
            let dend = scan_end srl 0 + 1
            in case ntfs_rl_realloc mem srl dend (dend + 1) of
                 None \<Rightarrow> Err ENOMEM
               | Some drl \<Rightarrow>
                   let drl = ntfs_rl_mm drl 1 0 dend
                   in Ok (Some (rl_upd 0 (\<lambda>e. \<lparr>rl_vcn = 0, rl_lcn = LCN_RL_NOT_MAPPED,
                        rl_length = rl_vcn (rl_get drl 1)\<rparr>) drl))
          else Ok (Some srl)
      | Some drl \<Rightarrow>
          let sstart = skip_unmapped srl 0
          in if rl_length (rl_get srl sstart) = 0 then Err EINVAL
             else
               let dins = skip_before drl (rl_vcn (rl_get srl sstart)) 0;
                   d = rl_get drl dins
               in if rl_vcn d = rl_vcn (rl_get srl sstart) \<and> 0 \<le> rl_lcn d \<and>
                     0 \<le> rl_lcn (rl_get srl sstart)
                  then Err ERANGE
                  else
                    let send = scan_end srl sstart;
                        dend = scan_end drl dins;
                        has_end = (rl_lcn (rl_get srl send) = LCN_ENOENT);
                        marker = (if has_end then send else 0);
                        marker_vcn = (if has_end then rl_vcn (rl_get srl send) else 0);
                        sfinal = scan_final srl send;
                        ds = dend + 1;
                        ss = nat (sfinal - int sstart + 1);
                        last = rl_get srl (send - 1);
                        start = (rl_lcn d < LCN_RL_NOT_MAPPED \<or>
                                 rl_vcn d = rl_vcn (rl_get srl sstart));
                        finish = (LCN_RL_NOT_MAPPED \<le> rl_lcn d \<and>
                                  rl_vcn d + rl_length d \<le> rl_vcn last + rl_length last);
                        ss = (if finish \<and> rl_length d = 0 then ss + 1 else ss);
                        finish = (if marker \<noteq> 0 \<and> rl_vcn last < rl_vcn d + rl_length d
                                  then False else finish);
                        src = drop sstart srl
                    in case (if start then
                               (if finish then ntfs_rl_replace mem drl ds src ss dins
                                else ntfs_rl_insert mem drl ds src ss dins)
                             else
                               (if finish then ntfs_rl_append mem drl ds src ss dins
                                else ntfs_rl_split mem drl ds src ss dins)) of
                         Err e \<Rightarrow> Err e
                       | Fault \<Rightarrow> Fault
                       | Ok drl' \<Rightarrow>
                           (if marker \<noteq> 0
                            then (case merge_marker mem drl' dend marker_vcn of
                                    Ok rl \<Rightarrow> Ok (Some rl) | Err e \<Rightarrow> Err e | Fault \<Rightarrow> Fault)
                            else Ok (Some drl'))))"

definition ntfs_runlists_merge ::
    "(nat \<Rightarrow> bool) \<Rightarrow> runlist option \<Rightarrow> runlist option \<Rightarrow> runlist option result" where
  "ntfs_runlists_merge mem drl srl = ntfs_runlists_merge_i mem drl srl"

section \<open>Looking up, truncating, measuring\<close>

fun rl_vcn_to_lcn_from :: "runlist \<Rightarrow> int \<Rightarrow> int" where
  "rl_vcn_to_lcn_from [] vcn = LCN_ENOENT"
| "rl_vcn_to_lcn_from (e # rest) vcn =
     (if rl_length e \<noteq> 0 then
        (if vcn < rl_vcn (rl_get (e # rest) 1) then
           (if 0 \<le> rl_lcn e then rl_lcn e + (vcn - rl_vcn e) else rl_lcn e)
         else rl_vcn_to_lcn_from rest vcn)
      else if rl_lcn e < 0 then rl_lcn e else LCN_ENOENT)"

definition ntfs_rl_vcn_to_lcn :: "runlist option \<Rightarrow> int \<Rightarrow> int" where
  "ntfs_rl_vcn_to_lcn rl0 vcn =
     (if vcn < 0 then LCN_EINVAL
      else case rl0 of None \<Rightarrow> LCN_RL_NOT_MAPPED
         | Some rl \<Rightarrow>
             if vcn < rl_vcn (rl_get rl 0) then LCN_ENOENT else rl_vcn_to_lcn_from rl vcn)"

fun rl_truncate_from :: "runlist \<Rightarrow> int \<Rightarrow> runlist result" where
  "rl_truncate_from [] start_vcn = Fault"
| "rl_truncate_from (e # rest) start_vcn =
     (if rl_length e = 0 then Err EIO
      else if start_vcn < rl_vcn (rl_get (e # rest) 1) then
        let len = start_vcn - rl_vcn e
        in if len \<noteq> 0 then
             (case rest of
                [] \<Rightarrow> Fault
              | n # ns \<Rightarrow> Ok (e\<lparr>rl_length := len\<rparr> #
                  n\<lparr>rl_vcn := start_vcn, rl_length := 0, rl_lcn := LCN_ENOENT\<rparr> # ns))
           else Ok (e\<lparr>rl_length := len, rl_lcn := LCN_ENOENT\<rparr> # rest)
      else res_bind (rl_truncate_from rest start_vcn) (\<lambda>rest'. Ok (e # rest')))"

definition ntfs_rl_truncate :: "runlist option \<Rightarrow> int \<Rightarrow> runlist result" where
  "ntfs_rl_truncate arl start_vcn =
     (case arl of None \<Rightarrow> Err EINVAL
      | Some rl \<Rightarrow> if start_vcn < rl_vcn (rl_get rl 0) then Err EINVAL
          else rl_truncate_from rl start_vcn)"

fun rl_sparse_from :: "runlist \<Rightarrow> int result" where
  "rl_sparse_from [] = Fault"
| "rl_sparse_from (e # rest) =
     (if rl_length e = 0 then Ok 0
      else if rl_lcn e < 0 then (if rl_lcn e \<noteq> LCN_HOLE then Err EINVAL else Ok 1)
      else rl_sparse_from rest)"

definition ntfs_rl_sparse :: "runlist option \<Rightarrow> int result" where
  "ntfs_rl_sparse rl0 = (case rl0 of None \<Rightarrow> Err EINVAL | Some rl \<Rightarrow> rl_sparse_from rl)"

fun rl_real_clusters :: "runlist \<Rightarrow> int \<Rightarrow> int result" where
  "rl_real_clusters [] ret = Fault"
| "rl_real_clusters (e # rest) ret =
     (if rl_length e = 0 then Ok ret
      else if rl_lcn e < 0 then
        (if rl_lcn e \<noteq> LCN_HOLE then Err EINVAL else rl_real_clusters rest ret)
      else rl_real_clusters rest (ret + rl_length e))"

definition ntfs_rl_get_compressed_size :: "nat \<Rightarrow> runlist option \<Rightarrow> int result" where
  "ntfs_rl_get_compressed_size cluster_size_bits rl0 =
     (case rl0 of None \<Rightarrow> Err EINVAL
      | Some rl \<Rightarrow> res_bind (rl_real_clusters rl 0) (\<lambda>ret. Ok (push_bit cluster_size_bits ret)))"

text \<open>
  \<open>ntfs_rl_extend\<close>: room for more entries behind the terminator, keeping the position
  \<open>irl\<close> of the caller's element; the attribute's runlist is the first argument.
\<close>

definition ntfs_rl_extend ::
    "(nat \<Rightarrow> bool) \<Rightarrow> runlist option \<Rightarrow> nat option \<Rightarrow> nat \<Rightarrow> (runlist \<times> nat) result" where
  "ntfs_rl_extend mem na_rl rl more_entries =
     (case (na_rl, rl) of
        (Some nrl, Some irl) \<Rightarrow>
          let last = scan_end nrl irl
          in (case ntfs_rl_realloc mem nrl (last + 1) (last + more_entries + 1) of
                None \<Rightarrow> Err ENOMEM
              | Some newrl \<Rightarrow> Ok (newrl, irl))
      | _ \<Rightarrow> Err EIO)"

end
