(* ===== verification/Mapping_Pairs.thy ===== *)
theory Mapping_Pairs
  imports Runlist
begin

text \<open>
  Mapping pairs arrays (\<open>libntfs-3g/runlist.c\<close>): the compressed on-disk form of a
  runlist. The attribute record is the list of its bytes, read through the offsets of
  \<open>ATTR_RECORD\<close> in \<open>layout.h\<close>; it is untrusted, so cluster numbers are kept at 64 bits
  (\<open>s64\<close>) and a read past the end of the bytes is a \<open>Fault\<close>. The destination of the
  builder is a buffer of \<open>dst_len\<close> bytes, its pointers are offsets into it, and a pointer
  into a runlist is the part of the list it starts.
\<close>

section \<open>The non-resident attribute record\<close>

definition attr_length :: "bytes \<Rightarrow> nat" where "attr_length attr = le_at 4 attr 4"
definition attr_non_resident :: "bytes \<Rightarrow> bool" where "attr_non_resident attr = (byte_at attr 8 \<noteq> 0)"
definition attr_lowest_vcn :: "bytes \<Rightarrow> int" where "attr_lowest_vcn attr = s64 (int (le_at 8 attr 16))"
definition attr_highest_vcn :: "bytes \<Rightarrow> int" where "attr_highest_vcn attr = s64 (int (le_at 8 attr 24))"
definition attr_mapping_pairs_offset :: "bytes \<Rightarrow> nat" where
  "attr_mapping_pairs_offset attr = le_at 2 attr 32"
definition attr_allocated_size :: "bytes \<Rightarrow> int" where
  "attr_allocated_size attr = s64 (int (le_at 8 attr 40))"

section \<open>Decompression\<close>

text \<open>
  \<open>for (deltaxcn = (s8)buf[b--]; b > b2; b--) deltaxcn = (deltaxcn << 8) + buf[b];\<close>
\<close>

fun deltaxcn_loop :: "bytes \<Rightarrow> nat \<Rightarrow> nat \<Rightarrow> nat \<Rightarrow> int \<Rightarrow> int" where
  "deltaxcn_loop attr buf b2 0 deltaxcn = deltaxcn"
| "deltaxcn_loop attr buf b2 (Suc b) deltaxcn =
     (if b2 < Suc b
      then deltaxcn_loop attr buf b2 b (s64 (s64 (deltaxcn * 256) + uint (byte_at attr (buf + Suc b))))
      else deltaxcn)"

definition read_deltaxcn :: "bytes \<Rightarrow> nat \<Rightarrow> nat \<Rightarrow> nat \<Rightarrow> int" where
  "read_deltaxcn attr buf b2 b =
     deltaxcn_loop attr buf b2 (b - 1) (sint (byte_at attr (buf + b)))"

text \<open>An element stored at \<open>rl[rlpos]\<close>; the list is the part of the array written so far.\<close>

definition rl_put :: "runlist \<Rightarrow> nat \<Rightarrow> runlist_element \<Rightarrow> runlist" where
  "rl_put rl rlpos e = (if rlpos < length rl then rl[rlpos := e] else rl @ [e])"

definition rlpos_next :: "nat \<Rightarrow> nat" where
  "rlpos_next rlpos = (rlpos + 1) mod 65536"

record mp_state =
  mp_buf :: nat
  mp_vcn :: int
  mp_lcn :: int
  mp_rl :: runlist
  mp_rlpos :: nat
  mp_rlsize :: nat

text \<open>One round of the loop: a header byte, the run length, the change of the cluster number.\<close>

definition mp_step :: "(nat \<Rightarrow> bool) \<Rightarrow> bytes \<Rightarrow> nat \<Rightarrow> mp_state \<Rightarrow> mp_state result" where
  "mp_step mem attr attr_end s =
     (let buf = mp_buf s; hdr = unat (byte_at attr buf);
          lo = hdr mod 16; hi = hdr div 16;
          grow = (mp_rlsize s < (mp_rlpos s + 3) * 24);
          rlsize = (if grow then mp_rlsize s + 0x1000 else mp_rlsize s)
      in if grow \<and> \<not> mem rlsize then Err ENOMEM
         else if lo \<noteq> 0 \<and> attr_end < buf + lo then Err EIO
         else if lo \<noteq> 0 \<and> length attr \<le> buf + lo then Fault
         else
           let len = (if lo \<noteq> 0 then read_deltaxcn attr buf 0 lo else -1)
           in if len < 0 then Err EIO
              else if hi \<noteq> 0 \<and> attr_end < buf + (lo + hi) then Err EIO
              else if hi \<noteq> 0 \<and> length attr \<le> buf + (lo + hi) then Fault
              else
                let lcn = (if hi \<noteq> 0 then s64 (mp_lcn s + read_deltaxcn attr buf lo (lo + hi))
                           else mp_lcn s)
                in if hi \<noteq> 0 \<and> lcn < -1 then Err EIO
                   else Ok \<lparr>mp_buf = buf + lo + hi + 1, mp_vcn = s64 (mp_vcn s + len), mp_lcn = lcn,
                     mp_rl = rl_put (mp_rl s) (mp_rlpos s) \<lparr>rl_vcn = mp_vcn s,
                       rl_lcn = (if hi \<noteq> 0 then lcn else LCN_HOLE), rl_length = len\<rparr>,
                     mp_rlpos = rlpos_next (mp_rlpos s), mp_rlsize = rlsize\<rparr>)"

lemma mp_step_buf: "mp_step mem attr attr_end s = Ok t \<Longrightarrow> mp_buf s < mp_buf t"
  by (auto simp: mp_step_def Let_def split: if_splits)

function mp_loop :: "(nat \<Rightarrow> bool) \<Rightarrow> bytes \<Rightarrow> nat \<Rightarrow> mp_state \<Rightarrow> mp_state result" where
  "mp_loop mem attr attr_end s =
     (if mp_buf s < attr_end then
        (if length attr \<le> mp_buf s then Fault
         else if byte_at attr (mp_buf s) \<noteq> 0 then
           (case mp_step mem attr attr_end s of
              Ok t \<Rightarrow> mp_loop mem attr attr_end t
            | Err e \<Rightarrow> Err e | Fault \<Rightarrow> Fault)
         else Ok s)
      else Ok s)"
  by pat_completeness auto
termination
  by (relation "measure (\<lambda>(mem, attr, attr_end, s). attr_end - mp_buf s)") (auto dest: mp_step_buf)

declare mp_loop.simps [simp del]

text \<open>The checks after the loop and the terminating elements.\<close>

definition mp_finish ::
    "nat \<Rightarrow> nat \<Rightarrow> bytes \<Rightarrow> nat \<Rightarrow> mp_state \<Rightarrow> runlist result" where
  "mp_finish cluster_size cluster_size_bits attr attr_end s =
     (let vcn = mp_vcn s; deltaxcn = attr_highest_vcn attr
      in if attr_end \<le> mp_buf s then Err EIO
         else if deltaxcn \<noteq> 0 \<and> s64 (vcn - 1) \<noteq> deltaxcn then Err EIO
         else if attr_lowest_vcn attr = 0 then
           if length attr < 48 then Fault else
           let num_clusters =
                 s64 (attr_allocated_size attr + int cluster_size - 1) div 2 ^ cluster_size_bits
           in if vcn < num_clusters then
                let rl = rl_put (mp_rl s) (mp_rlpos s) \<lparr>rl_vcn = vcn, rl_lcn = LCN_RL_NOT_MAPPED,
                      rl_length = s64 (num_clusters - vcn)\<rparr>
                in Ok (rl_put rl (rlpos_next (mp_rlpos s)) \<lparr>rl_vcn = s64 (vcn + s64 (num_clusters - vcn)),
                     rl_lcn = LCN_ENOENT, rl_length = 0\<rparr>)
              else if num_clusters < vcn then Err EIO
              else Ok (rl_put (mp_rl s) (mp_rlpos s)
                     \<lparr>rl_vcn = vcn, rl_lcn = LCN_ENOENT, rl_length = 0\<rparr>)
         else Ok (rl_put (mp_rl s) (mp_rlpos s)
                \<lparr>rl_vcn = vcn, rl_lcn = LCN_RL_NOT_MAPPED, rl_length = 0\<rparr>))"

text \<open>The fields of the header are read where the code reads them, each inside the bytes or a \<open>Fault\<close>.\<close>

definition mp_start :: "bytes \<Rightarrow> mp_state" where
  "mp_start attr =
     (let vcn = attr_lowest_vcn attr
      in \<lparr>mp_buf = attr_mapping_pairs_offset attr, mp_vcn = vcn, mp_lcn = 0,
          mp_rl = (if vcn \<noteq> 0
            then [\<lparr>rl_vcn = 0, rl_lcn = LCN_RL_NOT_MAPPED, rl_length = vcn\<rparr>] else []),
          mp_rlpos = (if vcn \<noteq> 0 then 1 else 0), mp_rlsize = 0x1000\<rparr>)"

definition ntfs_mapping_pairs_decompress_i ::
    "(nat \<Rightarrow> bool) \<Rightarrow> nat \<Rightarrow> nat \<Rightarrow> bytes option \<Rightarrow> runlist option \<Rightarrow> runlist option result" where
  "ntfs_mapping_pairs_decompress_i mem cluster_size cluster_size_bits attr0 old_rl =
     (case attr0 of None \<Rightarrow> Err EINVAL
      | Some attr \<Rightarrow>
          if length attr < 9 then Fault
          else if \<not> attr_non_resident attr then Err EINVAL
          else if length attr < 24 then Fault
          else if attr_lowest_vcn attr < 0 then Err EINVAL
          else if length attr < 34 then Fault
          else if attr_length attr < attr_mapping_pairs_offset attr then Err EIO
          else if \<not> mem 0x1000 then Err ENOMEM
          else res_bind (mp_loop mem attr (attr_length attr) (mp_start attr)) (\<lambda>s.
            res_bind (mp_finish cluster_size cluster_size_bits attr (attr_length attr) s) (\<lambda>rl.
              if old_rl = None then Ok (Some rl)
              else ntfs_runlists_merge mem old_rl (Some rl))))"

definition ntfs_mapping_pairs_decompress ::
    "(nat \<Rightarrow> bool) \<Rightarrow> nat \<Rightarrow> nat \<Rightarrow> bytes option \<Rightarrow> runlist option \<Rightarrow> runlist option result" where
  "ntfs_mapping_pairs_decompress mem cluster_size cluster_size_bits attr old_rl =
     ntfs_mapping_pairs_decompress_i mem cluster_size cluster_size_bits attr old_rl"

section \<open>Sizes\<close>

function sig_shift :: "int \<Rightarrow> nat \<Rightarrow> nat" where
  "sig_shift l i = (let i = i + 1; l = l div 256 in if 0 < l then sig_shift l i else i)"
  by pat_completeness auto
termination
  by (relation "measure (\<lambda>(l, i). nat l)") auto

declare sig_shift.simps [simp del]

definition ntfs_get_nr_significant_bytes :: "int \<Rightarrow> nat" where
  "ntfs_get_nr_significant_bytes n =
     (let l = (if n < 0 then - n - 1 else n)
      in if 128 \<le> l then sig_shift (l div 128) 1 else 1)"

text \<open>\<open>while (rl->length && start_vcn >= rl[1].vcn) rl++;\<close>\<close>

fun skip_to_vcn :: "runlist \<Rightarrow> int \<Rightarrow> runlist" where
  "skip_to_vcn [] start_vcn = []"
| "skip_to_vcn (e # rest) start_vcn =
     (if rl_length e \<noteq> 0 \<and> rl_vcn (rl_get (e # rest) 1) \<le> start_vcn
      then skip_to_vcn rest start_vcn else e # rest)"

definition mp_err :: "runlist_element \<Rightarrow> errno" where
  "mp_err e = (if rl_lcn e = LCN_RL_NOT_MAPPED then EINVAL else EIO)"

text \<open>The loop over the full runs of \<open>ntfs_get_size_for_mapping_pairs\<close>.\<close>

fun mp_size_runs :: "int \<Rightarrow> runlist \<Rightarrow> int \<Rightarrow> int \<Rightarrow> int \<Rightarrow> int result" where
  "mp_size_runs major_ver [] prev_lcn rls max_size = Fault"
| "mp_size_runs major_ver (e # rest) prev_lcn rls max_size =
     (if rl_length e \<noteq> 0 \<and> rls \<le> max_size then
        (if rl_length e < 0 \<or> rl_lcn e < LCN_HOLE then Err (mp_err e)
         else
           let rls = rls + 1 + int (ntfs_get_nr_significant_bytes (rl_length e))
           in if 0 \<le> rl_lcn e \<or> major_ver < 3
              then mp_size_runs major_ver rest (rl_lcn e)
                     (rls + int (ntfs_get_nr_significant_bytes (rl_lcn e - prev_lcn))) max_size
              else mp_size_runs major_ver rest prev_lcn rls max_size)
      else Ok rls)"

definition ntfs_get_size_for_mapping_pairs ::
    "int \<Rightarrow> runlist option \<Rightarrow> int \<Rightarrow> int \<Rightarrow> int result" where
  "ntfs_get_size_for_mapping_pairs major_ver rl0 start_vcn max_size =
     (if start_vcn < 0 then Err EINVAL
      else case rl0 of
        None \<Rightarrow> if start_vcn \<noteq> 0 then Err EINVAL else Ok 1
      | Some rl0 \<Rightarrow>
          (case skip_to_vcn rl0 start_vcn of
             [] \<Rightarrow> Fault
           | e # rest \<Rightarrow>
               if (rl_length e = 0 \<and> rl_vcn e < start_vcn) \<or> start_vcn < rl_vcn e then Err EINVAL
               else if rl_vcn e < start_vcn then
                 (if rl_length e < 0 \<or> rl_lcn e < LCN_HOLE then Err (mp_err e)
                  else
                    let delta = start_vcn - rl_vcn e;
                        rls = 1 + 1 + int (ntfs_get_nr_significant_bytes (rl_length e - delta))
                    in if 0 \<le> rl_lcn e \<or> major_ver < 3 then
                         let prev_lcn = (if 0 \<le> rl_lcn e then rl_lcn e + delta else rl_lcn e)
                         in mp_size_runs major_ver rest prev_lcn
                              (rls + int (ntfs_get_nr_significant_bytes prev_lcn)) max_size
                       else mp_size_runs major_ver rest 0 rls max_size)
               else mp_size_runs major_ver (e # rest) 0 1 max_size))"

section \<open>Building\<close>

text \<open>The while loop of \<open>ntfs_write_significant_bytes\<close>; \<open>None\<close> is the return value -1.\<close>

function write_sig_loop :: "bytes \<Rightarrow> int \<Rightarrow> int \<Rightarrow> int \<Rightarrow> nat \<Rightarrow> bytes \<times> nat option" where
  "write_sig_loop out dst dst_max l i =
     (if 0x7f < l \<or> l < -0x80 then
        (if dst_max < dst then (out, None)
         else write_sig_loop (out[nat dst := word_of_int (l div 256)]) (dst + 1) dst_max (l div 256) (i + 1))
      else (out, Some i))"
  by pat_completeness auto
termination
  by (relation "measure (\<lambda>(out, dst, dst_max, l, i). nat \<bar>l\<bar>)") auto

declare write_sig_loop.simps [simp del]

definition ntfs_write_significant_bytes :: "bytes \<Rightarrow> int \<Rightarrow> int \<Rightarrow> int \<Rightarrow> bytes \<times> nat option" where
  "ntfs_write_significant_bytes out dst dst_max n =
     (if dst_max < dst then (out, None)
      else write_sig_loop (out[nat dst := word_of_int n]) (dst + 1) dst_max n 1)"

text \<open>
  One mapping pair: the length, the change of the cluster number unless it is left out,
  then the header. \<open>None\<close> is the jump to \<open>size_err\<close>.
\<close>

definition mp_put_pair :: "bytes \<Rightarrow> int \<Rightarrow> int \<Rightarrow> int \<Rightarrow> int option \<Rightarrow> bytes \<times> int option" where
  "mp_put_pair out dst dst_max len lcn =
     (case ntfs_write_significant_bytes out (dst + 1) dst_max len of
        (out, None) \<Rightarrow> (out, None)
      | (out, Some len_len) \<Rightarrow>
          (case (case lcn of None \<Rightarrow> (out, Some 0)
                 | Some l \<Rightarrow> ntfs_write_significant_bytes out (dst + 1 + int len_len) dst_max l) of
             (out, None) \<Rightarrow> (out, None)
           | (out, Some lcn_len) \<Rightarrow>
               let dst_next = dst + int len_len + int lcn_len + 1
               in if dst_max < dst_next then (out, None)
                  else (out[nat dst := word_of_nat (16 * lcn_len + len_len)], Some dst_next)))"

text \<open>
  What \<open>ntfs_mapping_pairs_build\<close> leaves: \<open>errno\<close> when it returns -1, the destination
  buffer and the position stored through \<open>stop_rl\<close>, if any.
\<close>

record mp_built =
  mb_errno :: "errno option"
  mb_dst :: bytes
  mb_stop :: "runlist option"

text \<open>The terminator byte is written where \<open>dst\<close> points, checked against the buffer by nothing.\<close>

definition mp_terminate :: "errno option \<Rightarrow> bytes \<Rightarrow> int \<Rightarrow> runlist \<Rightarrow> mp_built result" where
  "mp_terminate err out dst stop =
     (if nat dst < length out
      then Ok \<lparr>mb_errno = err, mb_dst = out[nat dst := 0], mb_stop = Some stop\<rparr> else Fault)"

fun mp_build_runs ::
    "int \<Rightarrow> runlist \<Rightarrow> int \<Rightarrow> bytes \<Rightarrow> int \<Rightarrow> int \<Rightarrow> mp_built result" where
  "mp_build_runs major_ver [] prev_lcn out dst dst_max = Fault"
| "mp_build_runs major_ver (e # rest) prev_lcn out dst dst_max =
     (if rl_length e \<noteq> 0 then
        (if rl_length e < 0 \<or> rl_lcn e < LCN_HOLE
         then Ok \<lparr>mb_errno = Some (mp_err e), mb_dst = out, mb_stop = None\<rparr>
         else
           let stored = (0 \<le> rl_lcn e \<or> major_ver < 3)
           in (case mp_put_pair out dst dst_max (rl_length e)
                      (if stored then Some (rl_lcn e - prev_lcn) else None) of
                 (out, None) \<Rightarrow> mp_terminate (Some ENOSPC) out dst (e # rest)
               | (out, Some dst) \<Rightarrow>
                   mp_build_runs major_ver rest (if stored then rl_lcn e else prev_lcn) out dst dst_max))
      else mp_terminate None out dst (e # rest))"

definition ntfs_mapping_pairs_build ::
    "int \<Rightarrow> bytes \<Rightarrow> runlist option \<Rightarrow> int \<Rightarrow> mp_built result" where
  "ntfs_mapping_pairs_build major_ver dst_buf rl0 start_vcn =
     (let dst_len = length dst_buf; dst_max = int dst_len - 1;
          fail = (\<lambda>e out. Ok \<lparr>mb_errno = Some e, mb_dst = out, mb_stop = None\<rparr>)
      in if start_vcn < 0 then fail EINVAL dst_buf
         else case rl0 of
           None \<Rightarrow>
             if start_vcn \<noteq> 0 then fail EINVAL dst_buf
             else if dst_len < 1 then fail ENOSPC dst_buf
             else Ok \<lparr>mb_errno = None, mb_dst = dst_buf[0 := 0], mb_stop = None\<rparr>
         | Some rl0 \<Rightarrow>
             (case skip_to_vcn rl0 start_vcn of
                [] \<Rightarrow> Fault
              | e # rest \<Rightarrow>
                  if (rl_length e = 0 \<and> rl_vcn e < start_vcn) \<or> start_vcn < rl_vcn e
                  then fail EINVAL dst_buf
                  else if rl_vcn e < start_vcn then
                    (if rl_length e < 0 \<or> rl_lcn e < LCN_HOLE then fail (mp_err e) dst_buf
                     else
                       let delta = start_vcn - rl_vcn e;
                           stored = (0 \<le> rl_lcn e \<or> major_ver < 3);
                           prev_lcn = (if stored then
                             (if 0 \<le> rl_lcn e then rl_lcn e + delta else rl_lcn e) else 0)
                       in (case mp_put_pair dst_buf 0 dst_max (rl_length e - delta)
                                  (if stored then Some prev_lcn else None) of
                             (out, None) \<Rightarrow> mp_terminate (Some ENOSPC) out 0 (e # rest)
                           | (out, Some dst) \<Rightarrow>
                               mp_build_runs major_ver rest prev_lcn out dst dst_max))
                  else mp_build_runs major_ver (e # rest) 0 dst_buf 0 dst_max))"

end
