(* ===== verification/Runlist_Cells.thy ===== *)
theory Runlist_Cells
  imports Runlist
begin

text \<open>
  The meaning of a runlist: the list of what each virtual cluster maps to. A
  well-formed runlist is a contiguous sequence of non-empty runs and a terminator; the
  lookup, the truncation and the size functions are characterised by the cells.
\<close>

section \<open>Cells and well-formedness\<close>

definition run_cells :: "runlist_element \<Rightarrow> int list" where
  "run_cells e = map (\<lambda>k. if 0 \<le> rl_lcn e then rl_lcn e + int k else rl_lcn e)
     [0..<nat (rl_length e)]"

definition cells :: "runlist \<Rightarrow> int list" where
  "cells rs = concat (map run_cells rs)"

definition rl_runs :: "runlist \<Rightarrow> runlist" where
  "rl_runs rl = takeWhile (\<lambda>e. rl_length e \<noteq> 0) rl"

definition rl_end :: "runlist \<Rightarrow> runlist_element" where
  "rl_end rl = rl_get rl (length (rl_runs rl))"

definition rl_cells :: "runlist \<Rightarrow> int list" where
  "rl_cells rl = cells (rl_runs rl)"

fun runs_from :: "int \<Rightarrow> runlist \<Rightarrow> bool" where
  "runs_from v [] = True"
| "runs_from v (e # es) = (rl_vcn e = v \<and> 0 < rl_length e \<and> LCN_RL_NOT_MAPPED \<le> rl_lcn e \<and>
     runs_from (v + rl_length e) es)"

definition runs_len :: "runlist \<Rightarrow> int" where
  "runs_len rs = sum_list (map rl_length rs)"

definition wf_rl :: "int \<Rightarrow> runlist \<Rightarrow> bool" where
  "wf_rl v rl \<longleftrightarrow> length (rl_runs rl) < length rl \<and> runs_from v (rl_runs rl) \<and>
     rl_vcn (rl_end rl) = v + runs_len (rl_runs rl) \<and> rl_lcn (rl_end rl) < LCN_HOLE"

lemma cells_simps [simp]:
  "cells [] = []" "cells (e # es) = run_cells e @ cells es" "cells (xs @ ys) = cells xs @ cells ys"
  by (simp_all add: cells_def)

lemma runs_len_simps [simp]:
  "runs_len [] = 0" "runs_len (e # es) = rl_length e + runs_len es"
  "runs_len (xs @ ys) = runs_len xs + runs_len ys"
  by (simp_all add: runs_len_def)

lemma length_run_cells [simp]: "length (run_cells e) = nat (rl_length e)"
  by (simp add: run_cells_def)

lemma runs_from_append [simp]:
  "runs_from v (xs @ ys) \<longleftrightarrow> runs_from v xs \<and> runs_from (v + runs_len xs) ys"
  by (induction xs arbitrary: v) (auto simp: add.assoc)

lemma runs_len_nonneg: "runs_from v rs \<Longrightarrow> 0 \<le> runs_len rs"
  by (induction rs arbitrary: v) force+

lemma length_cells: "runs_from v rs \<Longrightarrow> int (length (cells rs)) = runs_len rs"
  by (induction rs arbitrary: v) (auto simp: runs_len_nonneg)

lemma runs_from_nonzero: "runs_from v rs \<Longrightarrow> e \<in> set rs \<Longrightarrow> 0 < rl_length e"
  by (induction rs arbitrary: v) auto

text \<open>The shape a well-formed runlist has.\<close>

lemma rl_runs_shape:
  assumes "runs_from v rs" and "rl_length t = 0"
  shows "rl_runs (rs @ t # rest) = rs" and "rl_end (rs @ t # rest) = t"
    and "rl_cells (rs @ t # rest) = cells rs"
proof -
  have "\<forall>e \<in> set rs. rl_length e \<noteq> 0"
    using runs_from_nonzero [OF assms(1)] by force
  then show runs: "rl_runs (rs @ t # rest) = rs"
    using assms(2) by (simp add: rl_runs_def takeWhile_append2 takeWhile_eq_all_conv)
  then show "rl_end (rs @ t # rest) = t" "rl_cells (rs @ t # rest) = cells rs"
    by (simp_all add: rl_end_def rl_get_def rl_cells_def)
qed

lemma wf_rlI:
  assumes "runs_from v rs" and "rl_length t = 0" and "rl_vcn t = v + runs_len rs"
    and "rl_lcn t < LCN_HOLE"
  shows "wf_rl v (rs @ t # rest)"
  using assms rl_runs_shape [OF assms(1,2), of rest] by (simp add: wf_rl_def)

lemma wf_rlE:
  assumes "wf_rl v rl"
  obtains rs t rest where "rl = rs @ t # rest" and "runs_from v rs" and "rl_length t = 0"
    and "rl_vcn t = v + runs_len rs" and "rl_lcn t < LCN_HOLE" and "rs = rl_runs rl" and "t = rl_end rl"
proof -
  let ?n = "length (rl_runs rl)"
  have n: "?n < length rl" using assms by (simp add: wf_rl_def)
  have take_runs: "take ?n rl = rl_runs rl"
    by (simp add: rl_runs_def takeWhile_eq_take [symmetric])
  have split: "rl = rl_runs rl @ rl ! ?n # drop (Suc ?n) rl"
    using id_take_nth_drop [OF n] take_runs by simp
  have zero: "rl_length (rl ! ?n) = 0"
    using nth_length_takeWhile [of "\<lambda>e. rl_length e \<noteq> 0" rl] n by (simp add: rl_runs_def)
  have fin: "rl_end rl = rl ! ?n" using n by (simp add: rl_end_def rl_get_def)
  show thesis
    by (rule that [OF split]) (use assms zero fin in \<open>simp_all add: wf_rl_def\<close>)
qed

section \<open>Lookup\<close>

lemma nth_run_cells:
  "int k < rl_length e \<Longrightarrow>
     run_cells e ! k = (if 0 \<le> rl_lcn e then rl_lcn e + int k else rl_lcn e)"
  by (simp add: run_cells_def)

lemma rl_get_1: "rl_get (e # rs) (Suc 0) = (case rs of [] \<Rightarrow> rl_uninit | r # _ \<Rightarrow> r)"
  by (auto simp: rl_get_def split: list.splits)

lemma rl_vcn_to_lcn_from_cells:
  assumes "runs_from v rs" and "rl_length t = 0" and "rl_vcn t = v + runs_len rs"
    and "rl_lcn t < LCN_HOLE" and "v \<le> x"
  shows "rl_vcn_to_lcn_from (rs @ t # rest) x =
    (if nat (x - v) < length (cells rs) then cells rs ! nat (x - v) else rl_lcn t)"
  using assms
proof (induction rs arbitrary: v)
  case Nil
  then show ?case by (simp add: LCN_HOLE_def)
next
  case (Cons e rs)
  have next_vcn: "rl_vcn (rl_get (e # rs @ t # rest) 1) = v + rl_length e"
    using Cons.prems by (cases rs) (auto simp: rl_get_1)
  show ?case
  proof (cases "x < v + rl_length e")
    case True
    have "nat (x - v) < nat (rl_length e)" "int (nat (x - v)) = x - v"
      using True Cons.prems by auto
    then have "cells (e # rs) ! nat (x - v) =
        (if 0 \<le> rl_lcn e then rl_lcn e + (x - rl_vcn e) else rl_lcn e)"
      using True Cons.prems by (auto simp: nth_append nth_run_cells)
    then show ?thesis
      using True Cons.prems next_vcn by auto
  next
    case False
    have pos: "nat (x - v) = nat (rl_length e) + nat (x - (v + rl_length e))"
      using False Cons.prems(1) by auto
    have "rl_vcn_to_lcn_from (rs @ t # rest) x =
        (if nat (x - (v + rl_length e)) < length (cells rs)
         then cells rs ! nat (x - (v + rl_length e)) else rl_lcn t)"
      by (rule Cons.IH) (use Cons.prems False in auto)
    then show ?thesis
      using False Cons.prems(1) next_vcn by (simp add: nth_append pos)
  qed
qed

text \<open>On a well-formed runlist \<open>ntfs_rl_vcn_to_lcn\<close> is indexing: the cell of the
  virtual cluster, the terminator's code past the last one, and \<open>LCN_EINVAL\<close> for a
  negative number.\<close>

theorem ntfs_rl_vcn_to_lcn_cells:
  assumes "wf_rl 0 rl"
  shows "ntfs_rl_vcn_to_lcn (Some rl) x =
    (if x < 0 then LCN_EINVAL
     else if nat x < length (rl_cells rl) then rl_cells rl ! nat x
     else rl_lcn (rl_end rl))"
proof -
  obtain rs t rest where rl: "rl = rs @ t # rest" "runs_from 0 rs" "rl_length t = 0"
    "rl_vcn t = 0 + runs_len rs" "rl_lcn t < LCN_HOLE"
    by (rule wf_rlE [OF assms])
  have first: "rl_vcn (rl_get rl 0) = 0"
    using rl by (cases rs) (auto simp: rl_get_def)
  show ?thesis
    using rl_vcn_to_lcn_from_cells [OF rl(2-5), of x rest] rl_runs_shape [OF rl(2,3), of rest]
    by (simp add: ntfs_rl_vcn_to_lcn_def first) (simp add: rl(1))
qed

text \<open>A file of two runs with a hole between them.\<close>

definition demo_rl :: runlist where
  "demo_rl = [\<lparr>rl_vcn = 0, rl_lcn = 100, rl_length = 2\<rparr>, \<lparr>rl_vcn = 2, rl_lcn = LCN_HOLE, rl_length = 3\<rparr>,
     \<lparr>rl_vcn = 5, rl_lcn = 50, rl_length = 1\<rparr>, \<lparr>rl_vcn = 6, rl_lcn = LCN_ENOENT, rl_length = 0\<rparr>]"

lemma demo_rl_wf: "wf_rl 0 demo_rl"
  by (simp add: wf_rl_def demo_rl_def rl_runs_def rl_end_def rl_get_def lcn_defs)

lemma demo_rl_cells: "rl_cells demo_rl = [100, 101, -1, -1, -1, 50]"
  by (simp add: rl_cells_def rl_runs_def demo_rl_def run_cells_def lcn_defs upt_rec)

theorem ntfs_rl_vcn_to_lcn_cells_witness:
  "ntfs_rl_vcn_to_lcn (Some demo_rl) 1 = 101 \<and> ntfs_rl_vcn_to_lcn (Some demo_rl) 7 = LCN_ENOENT"
  using ntfs_rl_vcn_to_lcn_cells [OF demo_rl_wf, of 1] ntfs_rl_vcn_to_lcn_cells [OF demo_rl_wf, of 7]
  by (simp add: demo_rl_cells) (simp add: rl_end_def rl_get_def rl_runs_def demo_rl_def)

section \<open>Truncation\<close>

lemma take_run_cells:
  assumes "0 \<le> l" and "l \<le> rl_length e"
  shows "take (nat l) (run_cells e) = run_cells (e\<lparr>rl_length := l\<rparr>)"
  using assms by (simp add: run_cells_def take_map take_upt)

lemma rl_truncate_from_ok:
  assumes "runs_from v rs" and "rl_length t = 0" and "rl_vcn t = v + runs_len rs"
    and "v \<le> x" and "x < v + runs_len rs"
  shows "\<exists>rs' t' rest'. rl_truncate_from (rs @ t # rest) x = Ok (rs' @ t' # rest') \<and>
    runs_from v rs' \<and> runs_len rs' = x - v \<and> cells rs' = take (nat (x - v)) (cells rs) \<and>
    rl_length t' = 0 \<and> rl_vcn t' = x \<and> rl_lcn t' = LCN_ENOENT"
  using assms
proof (induction rs arbitrary: v)
  case Nil
  then show ?case by simp
next
  case (Cons e rs)
  have nxt: "rl_vcn (rl_get (e # rs @ t # rest) 1) = v + rl_length e"
    using Cons.prems by (cases rs) (auto simp: rl_get_1)
  show ?case
  proof (cases "x < v + rl_length e")
    case True
    show ?thesis
    proof (cases "x = v")
      case same: True
      then show ?thesis
        using True nxt Cons.prems
        by (intro exI [of _ "[]"] exI [of _ "e\<lparr>rl_length := 0, rl_lcn := LCN_ENOENT\<rparr>"]
            exI [of _ "rs @ t # rest"]) auto
    next
      case False
      obtain n ns where n: "rs @ t # rest = n # ns" by (cases rs) auto
      have "cells [e\<lparr>rl_length := x - v\<rparr>] = take (nat (x - v)) (cells (e # rs))"
        using take_run_cells [of "x - v" e] True Cons.prems by (simp add: nat_diff_distrib)
      then show ?thesis
        using True False nxt Cons.prems n
        by (intro exI [of _ "[e\<lparr>rl_length := x - v\<rparr>]"]
            exI [of _ "n\<lparr>rl_vcn := x, rl_length := 0, rl_lcn := LCN_ENOENT\<rparr>"] exI [of _ ns])
          auto
    qed
  next
    case False
    obtain rs' t' rest' where IH:
      "rl_truncate_from (rs @ t # rest) x = Ok (rs' @ t' # rest')"
      "runs_from (v + rl_length e) rs'" "runs_len rs' = x - (v + rl_length e)"
      "cells rs' = take (nat (x - (v + rl_length e))) (cells rs)"
      "rl_length t' = 0" "rl_vcn t' = x" "rl_lcn t' = LCN_ENOENT"
      using Cons.IH [of "v + rl_length e"] Cons.prems False by auto
    have "nat (x - v) = nat (rl_length e) + nat (x - (v + rl_length e))"
      using False Cons.prems(1) by auto
    then show ?thesis
      using IH False nxt Cons.prems(1)
      by (intro exI [of _ "e # rs'"] exI [of _ t'] exI [of _ rest']) auto
  qed
qed

lemma rl_truncate_from_past:
  assumes "runs_from v rs" and "rl_length t = 0" and "rl_vcn t = v + runs_len rs"
    and "v + runs_len rs \<le> x"
  shows "rl_truncate_from (rs @ t # rest) x = Err EIO"
  using assms
proof (induction rs arbitrary: v)
  case (Cons e rs)
  have "rl_vcn (rl_get (e # rs @ t # rest) 1) = v + rl_length e"
    using Cons.prems by (cases rs) (auto simp: rl_get_1)
  moreover have "\<not> x < v + rl_length e"
    using Cons.prems runs_len_nonneg [of "v + rl_length e" rs] by auto
  moreover have "rl_truncate_from (rs @ t # rest) x = Err EIO"
    by (rule Cons.IH) (use Cons.prems in auto)
  ultimately show ?case using Cons.prems(1) by simp
qed simp

text \<open>Truncating a well-formed runlist at a virtual cluster it maps keeps exactly the
  cells below it, leaves a well-formed runlist and ends it with \<open>LCN_ENOENT\<close>; truncating
  at or past its end fails with \<open>EIO\<close> and before its start with \<open>EINVAL\<close>.\<close>

theorem ntfs_rl_truncate_cells:
  assumes "wf_rl 0 rl"
  shows "(x < 0 \<longrightarrow> ntfs_rl_truncate (Some rl) x = Err EINVAL) \<and>
    (int (length (rl_cells rl)) \<le> x \<longrightarrow> ntfs_rl_truncate (Some rl) x = Err EIO) \<and>
    (0 \<le> x \<and> x < int (length (rl_cells rl)) \<longrightarrow>
      (\<exists>rl'. ntfs_rl_truncate (Some rl) x = Ok rl' \<and> wf_rl 0 rl' \<and>
        rl_cells rl' = take (nat x) (rl_cells rl) \<and> rl_lcn (rl_end rl') = LCN_ENOENT))"
proof -
  obtain rs t rest where rl: "rl = rs @ t # rest" "runs_from 0 rs" "rl_length t = 0"
    "rl_vcn t = 0 + runs_len rs"
    by (rule wf_rlE [OF assms])
  have first: "rl_vcn (rl_get rl 0) = 0"
    using rl by (cases rs) (auto simp: rl_get_def)
  have c: "rl_cells rl = cells rs" "int (length (rl_cells rl)) = runs_len rs"
    using rl_runs_shape [OF rl(2,3), of rest] length_cells [OF rl(2)] by (simp_all add: rl(1))
  have "\<exists>rl'. ntfs_rl_truncate (Some rl) x = Ok rl' \<and> wf_rl 0 rl' \<and>
        rl_cells rl' = take (nat x) (rl_cells rl) \<and> rl_lcn (rl_end rl') = LCN_ENOENT"
    if x: "0 \<le> x" "x < runs_len rs"
  proof -
    obtain rs' t' rest' where tr: "rl_truncate_from rl x = Ok (rs' @ t' # rest')"
      "runs_from 0 rs'" "runs_len rs' = x" "cells rs' = take (nat x) (cells rs)"
      "rl_length t' = 0" "rl_vcn t' = x" "rl_lcn t' = LCN_ENOENT"
      using rl_truncate_from_ok [OF rl(2-4), of x rest] x by (auto simp: rl(1))
    have "wf_rl 0 (rs' @ t' # rest')"
      by (rule wf_rlI [OF tr(2,5)]) (use tr in \<open>simp_all add: lcn_defs\<close>)
    then show ?thesis
      using tr x rl_runs_shape [OF tr(2,5), of rest'] by (simp add: ntfs_rl_truncate_def first c)
  qed
  then show ?thesis
    using rl_truncate_from_past [OF rl(2-4), of x rest] runs_len_nonneg [OF rl(2)]
    by (auto simp: c(2) ntfs_rl_truncate_def first rl(1) [symmetric])
qed

theorem ntfs_rl_truncate_cells_witness:
  "\<exists>rl'. ntfs_rl_truncate (Some demo_rl) 3 = Ok rl' \<and> rl_cells rl' = [100, 101, -1]"
  using ntfs_rl_truncate_cells [OF demo_rl_wf, of 3] by (auto simp: demo_rl_cells)

section \<open>Sparse runs and sizes\<close>

lemma set_run_cells_neg:
  "0 < rl_length e \<Longrightarrow> rl_lcn e < 0 \<Longrightarrow> set (run_cells e) = {rl_lcn e}"
  by (simp add: run_cells_def image_constant_conv)

lemma set_run_cells_pos: "0 \<le> rl_lcn e \<Longrightarrow> c \<in> set (run_cells e) \<Longrightarrow> 0 \<le> c"
  by (auto simp: run_cells_def)

lemma filter_run_cells:
  "filter ((\<le>) 0) (run_cells e) = (if 0 \<le> rl_lcn e then run_cells e else [])"
  by (auto simp: run_cells_def filter_map o_def filter_empty_conv intro!: filter_True)

lemma rl_real_clusters_cells:
  assumes "runs_from v rs" and "rl_length t = 0"
  shows "rl_real_clusters (rs @ t # rest) k =
    (if \<exists>c \<in> set (cells rs). c < LCN_HOLE then Err EINVAL
     else Ok (k + int (length (filter ((\<le>) 0) (cells rs)))))"
  using assms
proof (induction rs arbitrary: v k)
  case (Cons e rs)
  have pos: "0 < rl_length e" using Cons.prems by simp
  have IH: "rl_real_clusters (rs @ t # rest) j =
      (if \<exists>c \<in> set (cells rs). c < LCN_HOLE then Err EINVAL
       else Ok (j + int (length (filter ((\<le>) 0) (cells rs)))))" for j
    by (rule Cons.IH) (use Cons.prems in auto)
  show ?case
  proof (cases "0 \<le> rl_lcn e")
    case True
    then have "\<not> (\<exists>c \<in> set (run_cells e). c < LCN_HOLE)"
      using set_run_cells_pos by (force simp: LCN_HOLE_def)
    then show ?thesis
      using True pos by (auto simp: IH filter_run_cells)
  next
    case False
    then show ?thesis
      using pos set_run_cells_neg [OF pos] by (auto simp: IH filter_run_cells LCN_HOLE_def)
  qed
qed simp

lemma rl_sparse_from_cells:
  assumes "runs_from v rs" and "rl_length t = 0" and "\<forall>c \<in> set (cells rs). LCN_HOLE \<le> c"
  shows "rl_sparse_from (rs @ t # rest) = Ok (if LCN_HOLE \<in> set (cells rs) then 1 else 0)"
  using assms
proof (induction rs arbitrary: v)
  case (Cons e rs)
  have pos: "0 < rl_length e" using Cons.prems by simp
  have IH: "rl_sparse_from (rs @ t # rest) = Ok (if LCN_HOLE \<in> set (cells rs) then 1 else 0)"
    by (rule Cons.IH) (use Cons.prems in auto)
  show ?case
  proof (cases "0 \<le> rl_lcn e")
    case True
    then have "LCN_HOLE \<notin> set (run_cells e)"
      using set_run_cells_pos by (force simp: LCN_HOLE_def)
    then show ?thesis using True pos IH by simp
  next
    case False
    then show ?thesis
      using pos set_run_cells_neg [OF pos] Cons.prems(3) by (auto simp: LCN_HOLE_def)
  qed
qed simp

text \<open>The compressed size of a runlist is the cluster size times the number of cells
  that are really allocated, and an error if part of it is not mapped; \<open>ntfs_rl_sparse\<close>
  tells whether a fully mapped runlist has a hole.\<close>

theorem rl_compressed_size_cells:
  assumes "wf_rl 0 rl"
  shows "ntfs_rl_get_compressed_size bits (Some rl) =
      (if \<exists>c \<in> set (rl_cells rl). c < LCN_HOLE then Err EINVAL
       else Ok (int (length (filter ((\<le>) 0) (rl_cells rl))) * 2 ^ bits)) \<and>
    ((\<forall>c \<in> set (rl_cells rl). LCN_HOLE \<le> c) \<longrightarrow>
       ntfs_rl_sparse (Some rl) = Ok (if LCN_HOLE \<in> set (rl_cells rl) then 1 else 0))"
proof -
  obtain rs t rest where rl: "rl = rs @ t # rest" "runs_from 0 rs" "rl_length t = 0"
    by (rule wf_rlE [OF assms])
  have c: "rl_cells rl = cells rs"
    using rl_runs_shape [OF rl(2,3), of rest] by (simp add: rl(1))
  show ?thesis
    using rl_real_clusters_cells [OF rl(2,3), of rest 0] rl_sparse_from_cells [OF rl(2,3), of rest]
    unfolding c ntfs_rl_get_compressed_size_def ntfs_rl_sparse_def
    by (simp add: rl(1) push_bit_eq_mult)
qed

theorem rl_compressed_size_cells_witness:
  "ntfs_rl_get_compressed_size 12 (Some demo_rl) = Ok 12288 \<and> ntfs_rl_sparse (Some demo_rl) = Ok 1"
  using rl_compressed_size_cells [OF demo_rl_wf, of 12] by (simp add: demo_rl_cells lcn_defs)

end
