(* ===== verification/Mapping_Pairs_Codec.thy ===== *)
theory Mapping_Pairs_Codec
  imports Mapping_Pairs Runlist_Cells
begin

text \<open>
  The byte form of a number and of a runlist, the builder and the size computation
  characterised by it, and the decompressor as its inverse.
\<close>

section \<open>Signed numbers in the fewest bytes\<close>

function sig_bytes :: "int \<Rightarrow> bytes" where
  "sig_bytes n = word_of_int n # (if 0x7f < n \<or> n < -0x80 then sig_bytes (n div 256) else [])"
  by pat_completeness auto
termination
  by (relation "measure (\<lambda>n. nat \<bar>n\<bar>)") auto

declare sig_bytes.simps [simp del]

fun sval :: "bytes \<Rightarrow> int" where
  "sval [] = 0"
| "sval [b] = sint b"
| "sval (b # bs) = uint b + 256 * sval bs"

lemma sval_Cons: "bs \<noteq> [] \<Longrightarrow> sval (b # bs) = uint b + 256 * sval bs"
  by (cases bs) auto

lemma sig_bytes_nonempty [simp]: "sig_bytes n \<noteq> []" "0 < length (sig_bytes n)"
  by (simp_all add: sig_bytes.simps [of n])

lemma sint_byte: "-128 \<le> n \<Longrightarrow> n \<le> 127 \<Longrightarrow> sint (word_of_int n :: u8) = n"
  by (simp add: signed_of_int signed_take_bit_int_eq_self)

lemma sval_sig_bytes: "sval (sig_bytes n) = n"
proof (induction n rule: sig_bytes.induct)
  case (1 n)
  show ?case
  proof (cases "0x7f < n \<or> n < -0x80")
    case True
    have "uint (word_of_int n :: u8) = n mod 256" by (simp add: uint_word_of_int)
    with 1 [OF True] True show ?thesis
      by (simp add: sig_bytes.simps [of n] sval_Cons)
  next
    case False
    then show ?thesis by (simp add: sig_bytes.simps [of n] sint_byte)
  qed
qed

lemma sig_bytes_bound:
  "- (128 * 256 ^ k) \<le> n \<Longrightarrow> n < 128 * 256 ^ k \<Longrightarrow> length (sig_bytes n) \<le> Suc k"
proof (induction k arbitrary: n)
  case 0
  then show ?case by (simp add: sig_bytes.simps [of n])
next
  case (Suc k)
  have "- (128 * 256 ^ k) \<le> n div 256" "n div 256 < 128 * 256 ^ k"
    using Suc.prems by (simp_all add: div_less_iff_less_mult)
  then have "length (sig_bytes (n div 256)) \<le> Suc k"
    by (rule Suc.IH)
  then show ?case by (simp add: sig_bytes.simps [of n])
qed

lemma sig_bytes_s64: "in_s64 n \<Longrightarrow> length (sig_bytes n) \<le> 8"
  using sig_bytes_bound [of 7 n] by (simp add: in_s64_def)

lemma in_s64_div: "in_s64 n \<Longrightarrow> in_s64 (n div 256)"
  by (simp add: in_s64_def) linarith

lemma sval_drop_sig_bytes:
  "in_s64 n \<Longrightarrow> in_s64 (sval (drop k (sig_bytes n)))"
proof (induction k arbitrary: n)
  case 0
  then show ?case by (simp add: sval_sig_bytes)
next
  case (Suc k)
  then show ?case
    using Suc.IH [OF in_s64_div [OF Suc.prems]]
    by (simp add: sig_bytes.simps [of n]) (simp add: in_s64_def)
qed

lemma sig_shift_bytes:
  "0 \<le> l \<Longrightarrow> 128 * l \<le> m \<Longrightarrow> m < 128 * (l + 1) \<Longrightarrow> 0 < l \<Longrightarrow>
     sig_shift l i + 1 = i + length (sig_bytes m)"
proof (induction l i arbitrary: m rule: sig_shift.induct)
  case (1 l i)
  show ?case
  proof (cases "0 < l div 256")
    case True
    have "sig_shift (l div 256) (i + 1) + 1 = i + 1 + length (sig_bytes (m div 256))"
      by (rule 1) (use 1 True in auto)
    with True show ?thesis
      using 1 by (simp add: sig_shift.simps [of l] sig_bytes.simps [of m] Let_def)
  next
    case False
    have "l \<le> 255" using False by linarith
    then have "m < 32768" "0 \<le> m" using 1(2-) by auto
    then have "m div 256 \<le> 127" "0 \<le> m div 256" by auto
    then have "sig_bytes (m div 256) = [word_of_int (m div 256)]"
      by (simp add: sig_bytes.simps [of "m div 256"])
    then show ?thesis
      using 1 False by (simp add: sig_shift.simps [of l] sig_bytes.simps [of m] Let_def)
  qed
qed

lemma length_sig_bytes_compl: "length (sig_bytes (- n - 1)) = length (sig_bytes n)"
proof (induction n rule: sig_bytes.induct)
  case (1 n)
  have "(- n - 1) div 256 = - (n div 256) - 1" by linarith
  with 1 show ?case
    by (auto simp: sig_bytes.simps [of n] sig_bytes.simps [of "- n - 1"])
qed

lemma nr_significant_bytes: "ntfs_get_nr_significant_bytes n = length (sig_bytes n)"
proof -
  define l where "l = (if n < 0 then - n - 1 else n)"
  have l: "0 \<le> l" "length (sig_bytes n) = length (sig_bytes l)"
    using length_sig_bytes_compl [of n] by (auto simp: l_def)
  have "ntfs_get_nr_significant_bytes n = (if 128 \<le> l then sig_shift (l div 128) 1 else 1)"
    by (simp add: ntfs_get_nr_significant_bytes_def l_def Let_def)
  also have "\<dots> = length (sig_bytes l)"
    using sig_shift_bytes [of "l div 128" l 1] l(1)
    by (cases "128 \<le> l") (auto simp: sig_bytes.simps [of l])
  finally show ?thesis by (simp add: l(2))
qed

section \<open>Writing numbers and pairs\<close>

lemma put_at_step:
  assumes "d < length out"
  shows "put_at (out[d := x]) (Suc d) xs = put_at out d (x # xs)"
  using assms by (simp add: put_at_def take_Suc_conv_app_nth drop_update_cancel)

text \<open>A write that does not fit may leave bytes behind \<open>d\<close>, but touches nothing before it.\<close>

definition kept :: "nat \<Rightarrow> bytes \<Rightarrow> bytes \<Rightarrow> bool" where
  "kept d out out' \<longleftrightarrow> length out' = length out \<and> take d out' = take d out"

lemma kept_refl [simp]: "kept d out out"
  by (simp add: kept_def)

lemma kept_trans: "kept d a b \<Longrightarrow> kept e b c \<Longrightarrow> d \<le> e \<Longrightarrow> kept d a c"
  unfolding kept_def by (metis min.absorb1 take_take)

lemma kept_update: "d \<le> i \<Longrightarrow> kept d out (out[i := x])"
  by (simp add: kept_def)

lemma kept_put_at: "d \<le> i \<Longrightarrow> i + length xs \<le> length out \<Longrightarrow> kept d out (put_at out i xs)"
  by (simp add: kept_def put_at_def)

lemma write_sig_loop_spec:
  "d < length out \<Longrightarrow> (Suc d + length (tl (sig_bytes n)) \<le> length out \<longrightarrow>
      write_sig_loop out (int (Suc d)) (int (length out) - 1) n i =
        (put_at out (Suc d) (tl (sig_bytes n)), Some (i + length (tl (sig_bytes n))))) \<and>
    (length out < Suc d + length (tl (sig_bytes n)) \<longrightarrow>
      (\<exists>out'. write_sig_loop out (int (Suc d)) (int (length out) - 1) n i = (out', None) \<and>
        kept (Suc d) out out'))"
proof (induction n arbitrary: d out i rule: sig_bytes.induct)
  case (1 n)
  show ?case
  proof (cases "0x7f < n \<or> n < -0x80")
    case big: True
    define x :: u8 where "x = word_of_int (n div 256)"
    define xs where "xs = tl (sig_bytes (n div 256))"
    have tl_n: "tl (sig_bytes n) = x # xs"
      using big by (simp add: sig_bytes.simps [of n] x_def xs_def)
        (simp add: sig_bytes.simps [of "n div 256"])
    have step: "write_sig_loop out (int (Suc d)) (int (length out) - 1) n i =
        (if length out \<le> Suc d then (out, None)
         else write_sig_loop (out[Suc d := x]) (int (Suc (Suc d)))
                (int (length (out[Suc d := x])) - 1) (n div 256) (i + 1))"
      using big by (simp add: write_sig_loop.simps [of out _ _ n] x_def)
        (auto simp: nat_add_distrib add.commute)
    show ?thesis
    proof (cases "length out \<le> Suc d")
      case True
      then show ?thesis using "1.prems" unfolding step tl_n by simp
    next
      case False
      note IH = "1.IH" [OF big, of "Suc d" "out[Suc d := x]" "i + 1", folded xs_def]
      show ?thesis
        using False IH put_at_step [of "Suc d" out x xs] kept_update [of "Suc d" "Suc d" out x]
          kept_trans [of "Suc d" out "out[Suc d := x]" "Suc (Suc d)"]
        unfolding step tl_n by fastforce
    qed
  next
    case False
    then show ?thesis
      using "1.prems" by (simp add: sig_bytes.simps [of n] write_sig_loop.simps [of out _ _ n] put_at_def)
  qed
qed

lemma write_significant_bytes_fits:
  assumes "d + length (sig_bytes n) \<le> length out"
  shows "ntfs_write_significant_bytes out (int d) (int (length out) - 1) n =
    (put_at out d (sig_bytes n), Some (length (sig_bytes n)))"
proof -
  obtain xs where xs: "sig_bytes n = word_of_int n # xs"
    by (simp add: sig_bytes.simps [of n])
  have "write_sig_loop (out[d := word_of_int n]) (int (Suc d)) (int (length out) - 1) n 1 =
      (put_at (out[d := word_of_int n]) (Suc d) xs, Some (1 + length xs))"
    using write_sig_loop_spec [of d "out[d := word_of_int n]" n 1] assms by (simp add: xs)
  also have "put_at (out[d := word_of_int n]) (Suc d) xs = put_at out d (word_of_int n # xs)"
    using assms by (intro put_at_step) (simp add: xs)
  finally show ?thesis
    using assms by (simp add: ntfs_write_significant_bytes_def xs add.commute)
qed

lemma write_significant_bytes_full:
  assumes "length out < d + length (sig_bytes n)"
  obtains out' where
    "ntfs_write_significant_bytes out (int d) (int (length out) - 1) n = (out', None)"
    "kept d out out'"
proof (cases "length out \<le> d")
  case True
  then show thesis by (intro that [of out]) (simp_all add: ntfs_write_significant_bytes_def)
next
  case False
  obtain xs where xs: "sig_bytes n = word_of_int n # xs"
    by (simp add: sig_bytes.simps [of n])
  obtain out' where
    "write_sig_loop (out[d := word_of_int n]) (int (Suc d)) (int (length out) - 1) n 1 = (out', None)"
    "kept (Suc d) (out[d := word_of_int n]) out'"
    using write_sig_loop_spec [of d "out[d := word_of_int n]" n 1] assms False by (auto simp: xs)
  then show thesis
    using False kept_trans [OF kept_update [of d d out "word_of_int n"], of "Suc d" out']
    by (intro that [of out']) (simp_all add: ntfs_write_significant_bytes_def add.commute)
qed

definition pair_bytes :: "int \<Rightarrow> int option \<Rightarrow> bytes" where
  "pair_bytes len lcn =
     (let a = sig_bytes len; b = (case lcn of None \<Rightarrow> [] | Some l \<Rightarrow> sig_bytes l)
      in word_of_nat (16 * length b + length a) # a @ b)"

lemma put_at_header:
  assumes "d + 1 + length xs \<le> length out"
  shows "(put_at out (Suc d) xs)[d := x] = put_at out d (x # xs)"
  using assms by (simp add: put_at_def take_Suc_conv_app_nth list_update_append)

lemma mp_put_pair_fits:
  assumes "d + length (pair_bytes len lcn) < length out"
  shows "mp_put_pair out (int d) (int (length out) - 1) len lcn =
    (put_at out d (pair_bytes len lcn), Some (int (d + length (pair_bytes len lcn))))"
proof -
  let ?a = "sig_bytes len" and ?b = "case lcn of None \<Rightarrow> [] | Some l \<Rightarrow> sig_bytes l"
  let ?h = "word_of_nat (16 * length ?b + length ?a) :: u8"
  have room: "d + 1 + length ?a + length ?b < length out"
    using assms by (simp add: pair_bytes_def Let_def)
  have first: "ntfs_write_significant_bytes out (int d + 1) (int (length out) - 1) len =
      (put_at out (Suc d) ?a, Some (length ?a))"
    using write_significant_bytes_fits [of "Suc d" len out] room by (simp add: add.commute)
  have second: "(case lcn of None \<Rightarrow> (put_at out (Suc d) ?a, Some 0)
      | Some l \<Rightarrow> ntfs_write_significant_bytes (put_at out (Suc d) ?a) (int d + 1 + int (length ?a))
          (int (length out) - 1) l) = (put_at out (Suc d) (?a @ ?b), Some (length ?b))"
  proof (cases lcn)
    case (Some l)
    have "int (Suc d + length ?a) = int d + 1 + int (length ?a)" by simp
    moreover have "ntfs_write_significant_bytes (put_at out (Suc d) ?a) (int (Suc d + length ?a))
        (int (length out) - 1) l = (put_at out (Suc d) (?a @ ?b), Some (length ?b))"
      using write_significant_bytes_fits [of "Suc d + length ?a" l "put_at out (Suc d) ?a"] room
        put_at_put_at [of "Suc d" ?a ?b out] by (simp add: Some)
    ultimately show ?thesis by (simp only: Some option.case)
  qed simp
  have "(put_at out (Suc d) (?a @ ?b))[d := ?h] = put_at out d (pair_bytes len lcn)"
    using put_at_header [of d "?a @ ?b" out ?h] room by (simp add: pair_bytes_def Let_def)
  then show ?thesis
    using room unfolding mp_put_pair_def first prod.case option.case second
    by (simp add: Let_def pair_bytes_def algebra_simps)
qed

lemma mp_put_pair_full:
  assumes "length out \<le> d + length (pair_bytes len lcn)"
  shows "\<exists>out'. mp_put_pair out (int d) (int (length out) - 1) len lcn = (out', None) \<and> kept d out out'"
proof -
  let ?a = "sig_bytes len" and ?b = "case lcn of None \<Rightarrow> [] | Some l \<Rightarrow> sig_bytes l"
  have full: "length out \<le> d + 1 + length ?a + length ?b"
    using assms by (simp add: pair_bytes_def Let_def)
  show ?thesis
  proof (cases "length out < Suc d + length ?a")
    case True
    then obtain out' where
      "ntfs_write_significant_bytes out (int (Suc d)) (int (length out) - 1) len = (out', None)"
      "kept (Suc d) out out'"
      by (rule write_significant_bytes_full)
    then show ?thesis
      using kept_trans [of d out out "Suc d" out']
      by (intro exI [of _ out']) (simp_all add: mp_put_pair_def add.commute)
  next
    case fits: False
    define out1 where "out1 = put_at out (Suc d) ?a"
    have len1: "length out1 = length out" using fits by (simp add: out1_def)
    have kept1: "kept d out out1" unfolding out1_def by (rule kept_put_at) (use fits in auto)
    have first: "ntfs_write_significant_bytes out (int d + 1) (int (length out) - 1) len =
        (out1, Some (length ?a))"
      using write_significant_bytes_fits [of "Suc d" len out] fits
      by (simp add: out1_def add.commute)
    show ?thesis
    proof (cases "\<exists>l. lcn = Some l \<and> length out < Suc d + length ?a + length ?b")
      case True
      then obtain l where l: "lcn = Some l" "length out1 < Suc d + length ?a + length (sig_bytes l)"
        by (auto simp: len1)
      obtain out' where "ntfs_write_significant_bytes out1 (int (Suc d + length ?a)) (int (length out1) - 1) l
          = (out', None)" "kept (Suc d + length ?a) out1 out'"
        by (rule write_significant_bytes_full [OF l(2)])
      then show ?thesis
        using first kept_trans [OF kept1, of "Suc d + length ?a" out'] l(1)
        by (intro exI [of _ out']) (simp_all add: mp_put_pair_def len1 algebra_simps)
    next
      case False
      define out2 where "out2 = (case lcn of None \<Rightarrow> out1
        | Some l \<Rightarrow> put_at out1 (Suc d + length ?a) (sig_bytes l))"
      have second: "(case lcn of None \<Rightarrow> (out1, Some 0)
          | Some l \<Rightarrow> ntfs_write_significant_bytes out1 (int d + 1 + int (length ?a))
              (int (length out) - 1) l) = (out2, Some (length ?b))"
        using False write_significant_bytes_fits [of "Suc d + length ?a" _ out1]
        by (cases lcn) (auto simp: out2_def len1 algebra_simps)
      have "kept d out1 out2"
        using False by (cases lcn) (auto simp: out2_def len1 intro: kept_put_at)
      with kept1 have "kept d out out2" by (rule kept_trans) simp
      then show ?thesis
        using full unfolding mp_put_pair_def first prod.case option.case second
        by (intro exI [of _ out2]) (simp_all add: Let_def)
    qed
  qed
qed

section \<open>The builder\<close>

fun mp_encode :: "int \<Rightarrow> int \<Rightarrow> runlist \<Rightarrow> bytes" where
  "mp_encode major_ver prev [] = []"
| "mp_encode major_ver prev (e # es) =
     (if 0 \<le> rl_lcn e \<or> major_ver < 3
      then pair_bytes (rl_length e) (Some (rl_lcn e - prev)) @ mp_encode major_ver (rl_lcn e) es
      else pair_bytes (rl_length e) None @ mp_encode major_ver prev es)"

definition mapped_runs :: "runlist \<Rightarrow> bool" where
  "mapped_runs rs \<longleftrightarrow> (\<forall>e \<in> set rs. 0 < rl_length e \<and> LCN_HOLE \<le> rl_lcn e)"

lemma mapped_runs_simps [simp]:
  "mapped_runs []" "mapped_runs (e # es) \<longleftrightarrow> 0 < rl_length e \<and> LCN_HOLE \<le> rl_lcn e \<and> mapped_runs es"
  "mapped_runs (xs @ ys) \<longleftrightarrow> mapped_runs xs \<and> mapped_runs ys"
  by (auto simp: mapped_runs_def)

text \<open>
  The result of building \<open>rs\<close>: the pairs of the longest prefix \<open>rs1\<close> that leaves room
  for the terminator byte, the terminator, and the position of the first run left out.
\<close>

definition built_prefix ::
    "int \<Rightarrow> int \<Rightarrow> runlist \<Rightarrow> runlist \<Rightarrow> nat \<Rightarrow> bytes \<Rightarrow> mp_built result \<Rightarrow> bool" where
  "built_prefix major_ver prev rs rest d out r \<longleftrightarrow>
     (\<exists>rs1 rs2 out'. rs = rs1 @ rs2 \<and>
        r = Ok \<lparr>mb_errno = (if rs2 = [] then None else Some ENOSPC), mb_dst = out',
             mb_stop = Some (rs2 @ rest)\<rparr> \<and>
        kept d out out' \<and> d + length (mp_encode major_ver prev rs1) < length out \<and>
        take (length (mp_encode major_ver prev rs1) + 1) (drop d out') =
          mp_encode major_ver prev rs1 @ [0] \<and>
        (rs2 \<noteq> [] \<longrightarrow>
           length out \<le> d + length (mp_encode major_ver prev (rs1 @ [hd rs2]))))"

lemma mp_terminate_built:
  assumes "kept d out out'" and "d < length out"
  shows "mp_terminate err out' (int d) stop =
      Ok \<lparr>mb_errno = err, mb_dst = out'[d := 0], mb_stop = Some stop\<rparr> \<and>
    kept d out (out'[d := 0]) \<and> take 1 (drop d (out'[d := 0])) = [0]"
  using assms by (cases "drop d out'") (auto simp: mp_terminate_def kept_def drop_update_swap)

lemma take_drop_kept:
  assumes "kept (d + length xs) (put_at out d xs) out'" and "d + length xs \<le> length out"
  shows "kept d out out'" and "take (length xs) (drop d out') = xs"
proof -
  have "kept d out (put_at out d xs)" by (rule kept_put_at) (use assms in auto)
  then show "kept d out out'" by (rule kept_trans [OF _ assms(1)]) simp
  have "take (length xs) (drop d out') = drop d (take (d + length xs) out')"
    by (simp add: take_drop add.commute)
  also have "\<dots> = xs" using assms by (simp add: kept_def put_at_def)
  finally show "take (length xs) (drop d out') = xs" .
qed

lemma mp_build_runs_prefix:
  assumes "mapped_runs rs" and "rl_length t = 0" and "d < length out"
  shows "built_prefix major_ver prev rs (t # rest) d out
    (mp_build_runs major_ver (rs @ t # rest) prev out (int d) (int (length out) - 1))"
  using assms
proof (induction rs arbitrary: prev out d)
  case Nil
  then show ?case
    using mp_terminate_built [of d out out None "t # rest"] by (simp add: built_prefix_def)
next
  case (Cons e rs)
  define stored where "stored = (0 \<le> rl_lcn e \<or> major_ver < 3)"
  define pb where "pb = pair_bytes (rl_length e) (if stored then Some (rl_lcn e - prev) else None)"
  define nxt where "nxt = (if stored then rl_lcn e else prev)"
  have enc: "mp_encode major_ver prev (e # es) = pb @ mp_encode major_ver nxt es" for es
    by (simp add: pb_def nxt_def stored_def)
  have head: "mp_build_runs major_ver (e # rs @ t # rest) prev out (int d) (int (length out) - 1) =
     (case mp_put_pair out (int d) (int (length out) - 1) (rl_length e)
             (if stored then Some (rl_lcn e - prev) else None) of
        (out, None) \<Rightarrow> mp_terminate (Some ENOSPC) out (int d) (e # rs @ t # rest)
      | (out', Some dst) \<Rightarrow>
          mp_build_runs major_ver (rs @ t # rest) nxt out' dst (int (length out) - 1))"
    using Cons.prems(1) unfolding nxt_def stored_def by (simp add: Let_def)
  show ?case
  proof (cases "d + length pb < length out")
    case True
    define out1 where "out1 = put_at out d pb"
    have len1: "length out1 = length out" using True by (simp add: out1_def)
    define r where "r = mp_build_runs major_ver (rs @ t # rest) nxt out1 (int (d + length pb))
      (int (length out1) - 1)"
    have "built_prefix major_ver nxt rs (t # rest) (d + length pb) out1 r"
      unfolding r_def by (rule Cons.IH) (use Cons.prems True len1 in auto)
    then obtain rs1 rs2 out' where IH: "rs = rs1 @ rs2"
      "r = Ok \<lparr>mb_errno = (if rs2 = [] then None else Some ENOSPC), mb_dst = out',
             mb_stop = Some (rs2 @ t # rest)\<rparr>"
      "kept (d + length pb) out1 out'"
      "d + length pb + length (mp_encode major_ver nxt rs1) < length out1"
      "take (length (mp_encode major_ver nxt rs1) + 1) (drop (d + length pb) out') =
          mp_encode major_ver nxt rs1 @ [0]"
      "rs2 \<noteq> [] \<longrightarrow>
           length out1 \<le> d + length pb + length (mp_encode major_ver nxt (rs1 @ [hd rs2]))"
      unfolding built_prefix_def by blast
    have r: "mp_build_runs major_ver ((e # rs) @ t # rest) prev out (int d) (int (length out) - 1) = r"
      using head mp_put_pair_fits [of d "rl_length e" _ out] True
      by (simp add: pb_def out1_def len1 r_def)
    have tk: "kept d out out'" "take (length pb) (drop d out') = pb"
      using take_drop_kept [of d pb out out'] IH(3) True by (simp_all add: out1_def)
    have "take (length (mp_encode major_ver prev (e # rs1)) + 1) (drop d out') =
        take (length pb) (drop d out') @
        take (length (mp_encode major_ver nxt rs1) + 1) (drop (length pb) (drop d out'))"
      unfolding enc length_append add.assoc take_add ..
    also have "\<dots> = mp_encode major_ver prev (e # rs1) @ [0]"
      unfolding enc using IH(5) tk(2) by (simp add: add.commute)
    finally show ?thesis
      unfolding built_prefix_def r using IH tk len1
      by (intro exI [of _ "e # rs1"] exI [of _ rs2] exI [of _ out'])
        (auto simp: enc simp del: mp_encode.simps)
  next
    case False
    then obtain out' where pp: "mp_put_pair out (int d) (int (length out) - 1) (rl_length e)
        (if stored then Some (rl_lcn e - prev) else None) = (out', None)" "kept d out out'"
      using mp_put_pair_full [of out d "rl_length e" "if stored then Some (rl_lcn e - prev) else None"]
      unfolding pb_def not_less by blast
    show ?thesis
      unfolding built_prefix_def
      using mp_terminate_built [OF pp(2) Cons.prems(3), of "Some ENOSPC" "e # rs @ t # rest"]
        Cons.prems(3) False head pp(1)
      by (intro exI [of _ "[]"] exI [of _ "e # rs"] exI [of _ "out'[d := 0]"]) (auto simp: pb_def stored_def)
  qed
qed

section \<open>Starting in the middle of a runlist\<close>

fun runs_at :: "int \<Rightarrow> runlist \<Rightarrow> runlist" where
  "runs_at x [] = []"
| "runs_at x (e # es) =
     (if rl_vcn e + rl_length e \<le> x then runs_at x es
      else if rl_vcn e < x then \<lparr>rl_vcn = x,
          rl_lcn = (if 0 \<le> rl_lcn e then rl_lcn e + (x - rl_vcn e) else rl_lcn e),
          rl_length = rl_length e - (x - rl_vcn e)\<rparr> # es
      else e # es)"

lemma drop_run_cells:
  assumes "0 \<le> k" and "k \<le> rl_length e"
  shows "drop (nat k) (run_cells e) = run_cells \<lparr>rl_vcn = v,
    rl_lcn = (if 0 \<le> rl_lcn e then rl_lcn e + k else rl_lcn e), rl_length = rl_length e - k\<rparr>"
  by (rule nth_equalityI) (use assms in \<open>auto simp: run_cells_def nat_diff_distrib\<close>)

lemma runs_at_cells:
  assumes "runs_from v rs" and "v \<le> x" and "x \<le> v + runs_len rs"
  shows "runs_from x (runs_at x rs) \<and> runs_len (runs_at x rs) = v + runs_len rs - x \<and>
    cells (runs_at x rs) = drop (nat (x - v)) (cells rs)"
  using assms
proof (induction rs arbitrary: v)
  case (Cons e es)
  show ?case
  proof (cases "v + rl_length e \<le> x")
    case True
    have "nat (x - v) = nat (rl_length e) + nat (x - (v + rl_length e))"
      using True Cons.prems(1) by auto
    with Cons.IH [of "v + rl_length e"] Cons.prems True show ?thesis by auto
  next
    case False
    then show ?thesis
      using Cons.prems drop_run_cells [of "x - v" e x] by (auto simp: nat_le_iff add.commute)
  qed
qed simp

lemma mapped_runs_at: "mapped_runs rs \<Longrightarrow> mapped_runs (runs_at x rs)"
  by (induction rs) (auto simp: LCN_HOLE_def)

text \<open>Where the skip loop stops, and what is left of the run there.\<close>

lemma skip_to_vcn_at:
  assumes "runs_from v rs" and "rl_length t = 0" and "rl_vcn t = v + runs_len rs"
    and "v \<le> x" and "x \<le> v + runs_len rs"
  shows "\<exists>e es. skip_to_vcn (rs @ t # rest) x = e # es \<and> rl_vcn e \<le> x \<and>
    (if rl_vcn e = x then e # es = runs_at x rs @ t # rest
     else x < rl_vcn e + rl_length e \<and> (mapped_runs rs \<longrightarrow> LCN_HOLE \<le> rl_lcn e) \<and>
       \<lparr>rl_vcn = x, rl_lcn = (if 0 \<le> rl_lcn e then rl_lcn e + (x - rl_vcn e) else rl_lcn e),
          rl_length = rl_length e - (x - rl_vcn e)\<rparr> # es = runs_at x rs @ t # rest)"
  using assms
proof (induction rs arbitrary: v)
  case (Cons e rs)
  have nxt: "rl_vcn (rl_get (e # rs @ t # rest) 1) = v + rl_length e"
    using Cons.prems by (cases rs) (auto simp: rl_get_1)
  show ?case
  proof (cases "v + rl_length e \<le> x")
    case True
    with Cons.IH [of "v + rl_length e"] Cons.prems nxt show ?thesis by force
  next
    case False
    then show ?thesis using Cons.prems nxt by auto
  qed
qed auto

lemma mp_size_runs_encode:
  assumes "mapped_runs rs" and "rl_length t = 0"
  shows "\<exists>rs1 rs2. rs = rs1 @ rs2 \<and>
    mp_size_runs major_ver (rs @ t # rest) prev k max_size =
      Ok (k + int (length (mp_encode major_ver prev rs1))) \<and>
    (rs2 \<noteq> [] \<longrightarrow> max_size < k + int (length (mp_encode major_ver prev rs1)))"
  using assms
proof (induction rs arbitrary: prev k)
  case (Cons e rs)
  define stored where "stored = (0 \<le> rl_lcn e \<or> major_ver < 3)"
  define pb where "pb = pair_bytes (rl_length e) (if stored then Some (rl_lcn e - prev) else None)"
  define nxt where "nxt = (if stored then rl_lcn e else prev)"
  have enc: "mp_encode major_ver prev (e # es) = pb @ mp_encode major_ver nxt es" for es
    by (simp add: pb_def nxt_def stored_def)
  show ?case
  proof (cases "k \<le> max_size")
    case True
    have "mp_size_runs major_ver ((e # rs) @ t # rest) prev k max_size =
        mp_size_runs major_ver (rs @ t # rest) nxt (k + int (length pb)) max_size"
      using True Cons.prems(1)
      by (simp add: Let_def stored_def pb_def nxt_def nr_significant_bytes pair_bytes_def
          algebra_simps not_less)
    moreover obtain rs1 rs2 where "rs = rs1 @ rs2"
      "mp_size_runs major_ver (rs @ t # rest) nxt (k + int (length pb)) max_size =
        Ok (k + int (length pb) + int (length (mp_encode major_ver nxt rs1)))"
      "rs2 \<noteq> [] \<longrightarrow> max_size < k + int (length pb) + int (length (mp_encode major_ver nxt rs1))"
      using Cons.IH [of nxt "k + int (length pb)"] Cons.prems mapped_runs_simps(2) by blast
    ultimately show ?thesis
      by (intro exI [of _ "e # rs1"] exI [of _ rs2]) (auto simp: enc simp del: mp_encode.simps)
  next
    case False
    then show ?thesis by (intro exI [of _ "[]"] exI [of _ "e # rs"]) simp
  qed
qed simp

section \<open>Building from a virtual cluster on\<close>

lemma size_at:
  assumes rs: "runs_from 0 rs" "rl_length t = 0" "rl_vcn t = runs_len rs" "mapped_runs rs"
    and x: "0 \<le> x" "x \<le> runs_len rs" and "1 \<le> max_size"
  shows "ntfs_get_size_for_mapping_pairs major_ver (Some (rs @ t # rest)) x max_size =
    mp_size_runs major_ver (runs_at x rs @ t # rest) 0 1 max_size"
proof -
  obtain e es where e: "skip_to_vcn (rs @ t # rest) x = e # es" "rl_vcn e \<le> x"
    "if rl_vcn e = x then e # es = runs_at x rs @ t # rest
     else x < rl_vcn e + rl_length e \<and> (mapped_runs rs \<longrightarrow> LCN_HOLE \<le> rl_lcn e) \<and>
       \<lparr>rl_vcn = x, rl_lcn = (if 0 \<le> rl_lcn e then rl_lcn e + (x - rl_vcn e) else rl_lcn e),
          rl_length = rl_length e - (x - rl_vcn e)\<rparr> # es = runs_at x rs @ t # rest"
    using skip_to_vcn_at [OF rs(1,2), of x rest] rs(3) x by auto
  show ?thesis
  proof (cases "rl_vcn e = x")
    case True
    then have tail: "runs_at x rs @ t # rest = e # es" using e(3) by simp
    show ?thesis
      using True e(1) x unfolding tail by (simp add: ntfs_get_size_for_mapping_pairs_def)
  next
    case False
    then have tail: "runs_at x rs @ t # rest = \<lparr>rl_vcn = x,
        rl_lcn = (if 0 \<le> rl_lcn e then rl_lcn e + (x - rl_vcn e) else rl_lcn e),
        rl_length = rl_length e - (x - rl_vcn e)\<rparr> # es"
      and "x < rl_vcn e + rl_length e" "LCN_HOLE \<le> rl_lcn e"
      using e(3) rs(4) by auto
    then show ?thesis
      using False e(1,2) assms(5-7) unfolding tail
      by (simp add: ntfs_get_size_for_mapping_pairs_def Let_def LCN_HOLE_def)
  qed
qed

lemma build_at:
  assumes rs: "runs_from 0 rs" "rl_length t = 0" "rl_vcn t = runs_len rs" "mapped_runs rs"
    and x: "0 \<le> x" "x \<le> runs_len rs" and buf: "buf \<noteq> []"
  shows "\<exists>rs1 rs2 b. runs_at x rs = rs1 @ rs2 \<and>
    ntfs_mapping_pairs_build major_ver buf (Some (rs @ t # rest)) x = Ok b \<and>
    mb_errno b = (if rs2 = [] then None else Some ENOSPC) \<and> length (mb_dst b) = length buf \<and>
    length (mp_encode major_ver 0 rs1) < length buf \<and>
    take (length (mp_encode major_ver 0 rs1) + 1) (mb_dst b) = mp_encode major_ver 0 rs1 @ [0] \<and>
    (rs1 \<noteq> [] \<or> rs2 = [] \<longrightarrow> mb_stop b = Some (rs2 @ t # rest)) \<and>
    (rs2 \<noteq> [] \<longrightarrow> length buf \<le> length (mp_encode major_ver 0 (rs1 @ [hd rs2])))"
proof -
  obtain e es where e: "skip_to_vcn (rs @ t # rest) x = e # es" "rl_vcn e \<le> x"
    "if rl_vcn e = x then e # es = runs_at x rs @ t # rest
     else x < rl_vcn e + rl_length e \<and> (mapped_runs rs \<longrightarrow> LCN_HOLE \<le> rl_lcn e) \<and>
       \<lparr>rl_vcn = x, rl_lcn = (if 0 \<le> rl_lcn e then rl_lcn e + (x - rl_vcn e) else rl_lcn e),
          rl_length = rl_length e - (x - rl_vcn e)\<rparr> # es = runs_at x rs @ t # rest"
    using skip_to_vcn_at [OF rs(1,2), of x rest] rs(3) x by auto
  define r where "r = mp_build_runs major_ver (runs_at x rs @ t # rest) 0 buf 0 (int (length buf) - 1)"
  have pre: "built_prefix major_ver 0 (runs_at x rs) (t # rest) 0 buf r"
    unfolding r_def
    using mp_build_runs_prefix [OF mapped_runs_at [OF rs(4)] rs(2), of 0 buf major_ver 0 x rest] buf
    by simp
  have same: "ntfs_mapping_pairs_build major_ver buf (Some (rs @ t # rest)) x = r \<or>
    (\<exists>out stop. ntfs_mapping_pairs_build major_ver buf (Some (rs @ t # rest)) x =
        Ok \<lparr>mb_errno = Some ENOSPC, mb_dst = out, mb_stop = stop\<rparr> \<and>
      r = Ok \<lparr>mb_errno = Some ENOSPC, mb_dst = out, mb_stop = Some (runs_at x rs @ t # rest)\<rparr>)"
  proof (cases "rl_vcn e = x")
    case True
    then have tail: "runs_at x rs @ t # rest = e # es" using e(3) by simp
    show ?thesis
      using True e(1) x unfolding r_def tail by (simp add: ntfs_mapping_pairs_build_def Let_def)
  next
    case False
    define stored where "stored = (0 \<le> rl_lcn e \<or> major_ver < 3)"
    define l where "l = (if 0 \<le> rl_lcn e then rl_lcn e + (x - rl_vcn e) else rl_lcn e)"
    define pp where "pp = mp_put_pair buf 0 (int (length buf) - 1) (rl_length e - (x - rl_vcn e))
      (if stored then Some l else None)"
    have tail: "runs_at x rs @ t # rest =
        \<lparr>rl_vcn = x, rl_lcn = l, rl_length = rl_length e - (x - rl_vcn e)\<rparr> # es"
      and le: "x < rl_vcn e + rl_length e" "LCN_HOLE \<le> rl_lcn e"
      using e(3) rs(4) False by (auto simp: l_def)
    have l: "0 \<le> l \<longleftrightarrow> 0 \<le> rl_lcn e" "LCN_HOLE \<le> l"
      using e(2) le(2) by (auto simp: l_def)
    have r: "r = (case pp of (out, None) \<Rightarrow> mp_terminate (Some ENOSPC) out 0 (runs_at x rs @ t # rest)
        | (out, Some dst) \<Rightarrow> mp_build_runs major_ver es (if stored then l else 0) out dst (int (length buf) - 1))"
      unfolding r_def tail pp_def stored_def using l le by (simp add: Let_def)
    have b: "ntfs_mapping_pairs_build major_ver buf (Some (rs @ t # rest)) x =
      (case pp of (out, None) \<Rightarrow> mp_terminate (Some ENOSPC) out 0 (e # es)
        | (out, Some dst) \<Rightarrow> mp_build_runs major_ver es (if stored then l else 0) out dst (int (length buf) - 1))"
      using False e(1,2) x le unfolding pp_def stored_def l_def
      by (simp add: ntfs_mapping_pairs_build_def Let_def cong: if_cong)
    show ?thesis
    proof (cases "snd pp")
      case None
      then obtain out where pp: "pp = (out, None)" by (cases pp) auto
      have "length out = length buf"
      proof (cases "length (pair_bytes (rl_length e - (x - rl_vcn e)) (if stored then Some l else None)) < length buf")
        case True
        then show ?thesis using pp mp_put_pair_fits [of 0 _ _ buf] by (simp add: pp_def)
      next
        case False
        then show ?thesis
          using pp mp_put_pair_full [of buf 0 "rl_length e - (x - rl_vcn e)" "if stored then Some l else None"]
          by (auto simp: pp_def kept_def)
      qed
      then show ?thesis unfolding r b pp using buf by (simp add: mp_terminate_def)
    qed (use r b in \<open>auto simp: split: prod.splits\<close>)
  qed
  obtain rs1 rs2 out' where p: "runs_at x rs = rs1 @ rs2"
      "r = Ok \<lparr>mb_errno = (if rs2 = [] then None else Some ENOSPC), mb_dst = out',
             mb_stop = Some (rs2 @ t # rest)\<rparr>"
      "kept 0 buf out'" "0 + length (mp_encode major_ver 0 rs1) < length buf"
      "take (length (mp_encode major_ver 0 rs1) + 1) (drop 0 out') = mp_encode major_ver 0 rs1 @ [0]"
      "rs2 \<noteq> [] \<longrightarrow> length buf \<le> 0 + length (mp_encode major_ver 0 (rs1 @ [hd rs2]))"
    using pre unfolding built_prefix_def by blast
  show ?thesis
    using same p by (intro exI [of _ rs1] exI [of _ rs2]) (auto simp: kept_def split: if_splits)
qed

fun prev_after :: "int \<Rightarrow> int \<Rightarrow> runlist \<Rightarrow> int" where
  "prev_after major_ver prev [] = prev"
| "prev_after major_ver prev (e # es) =
     prev_after major_ver (if 0 \<le> rl_lcn e \<or> major_ver < 3 then rl_lcn e else prev) es"

lemma mp_encode_append:
  "mp_encode major_ver prev (xs @ ys) =
     mp_encode major_ver prev xs @ mp_encode major_ver (prev_after major_ver prev xs) ys"
  by (induction xs arbitrary: prev) auto

lemma mp_encode_prefix_le:
  "length (mp_encode major_ver prev xs) \<le> length (mp_encode major_ver prev (xs @ ys))"
  by (simp add: mp_encode_append)

lemma build_at_rl:
  assumes "wf_rl 0 rl" and "mapped_runs (rl_runs rl)" and "0 \<le> x" and "x \<le> int (length (rl_cells rl))"
    and "buf \<noteq> []"
  shows "\<exists>rs1 rs2 b. runs_at x (rl_runs rl) = rs1 @ rs2 \<and>
    ntfs_mapping_pairs_build major_ver buf (Some rl) x = Ok b \<and>
    mb_errno b = (if rs2 = [] then None else Some ENOSPC) \<and> length (mb_dst b) = length buf \<and>
    length (mp_encode major_ver 0 rs1) < length buf \<and>
    take (length (mp_encode major_ver 0 rs1) + 1) (mb_dst b) = mp_encode major_ver 0 rs1 @ [0] \<and>
    (rs1 \<noteq> [] \<or> rs2 = [] \<longrightarrow> mb_stop b = Some (rs2 @ drop (length (rl_runs rl)) rl)) \<and>
    (rs2 \<noteq> [] \<longrightarrow> length buf \<le> length (mp_encode major_ver 0 (rs1 @ [hd rs2])))"
proof -
  obtain rs t rest where rl: "rl = rs @ t # rest" "runs_from 0 rs" "rl_length t = 0"
    "rl_vcn t = 0 + runs_len rs" "rs = rl_runs rl"
    by (rule wf_rlE [OF assms(1)])
  have m: "mapped_runs rs" and x: "x \<le> runs_len rs"
    using assms(2,4) length_cells [OF rl(2)] unfolding rl_cells_def rl(5) [symmetric] by simp_all
  have "drop (length rs) rl = t # rest" by (simp add: rl(1))
  then show ?thesis
    using build_at [OF rl(2,3) _ m assms(3) x assms(5), of major_ver rest] rl(4)
    unfolding rl(5) [symmetric] rl(1) [symmetric] by simp
qed

text \<open>(C11) The size computation is exact: on a fully mapped well-formed runlist, building the
  mapping pairs from any virtual cluster succeeds in a buffer exactly when the size computed for
  it fits (otherwise it fails with \<open>ENOSPC\<close>), and then the array with its terminator takes
  exactly the computed number of bytes.\<close>

theorem mapping_pairs_size_exact:
  assumes "wf_rl 0 rl" and "mapped_runs (rl_runs rl)" and "0 \<le> x" and "x \<le> int (length (rl_cells rl))"
    and "buf \<noteq> []"
  shows "\<exists>n b. ntfs_get_size_for_mapping_pairs major_ver (Some rl) x (int (length buf)) = Ok n \<and>
    ntfs_mapping_pairs_build major_ver buf (Some rl) x = Ok b \<and>
    mb_errno b = (if n \<le> int (length buf) then None else Some ENOSPC) \<and>
    (n \<le> int (length buf) \<longrightarrow>
       take (nat n) (mb_dst b) = mp_encode major_ver 0 (runs_at x (rl_runs rl)) @ [0])"
proof -
  obtain rs t rest where rl: "rl = rs @ t # rest" "runs_from 0 rs" "rl_length t = 0"
    "rl_vcn t = 0 + runs_len rs" "rs = rl_runs rl"
    by (rule wf_rlE [OF assms(1)])
  have x: "x \<le> runs_len rs"
    using assms(4) length_cells [OF rl(2)] unfolding rl_cells_def rl(5) [symmetric] by simp
  let ?R = "runs_at x rs"
  obtain r1 r2 where size: "?R = r1 @ r2"
    "mp_size_runs major_ver (?R @ t # rest) 0 1 (int (length buf)) =
       Ok (1 + int (length (mp_encode major_ver 0 r1)))"
    "r2 \<noteq> [] \<longrightarrow> int (length buf) < 1 + int (length (mp_encode major_ver 0 r1))"
    using mp_size_runs_encode [OF mapped_runs_at rl(3), of rs x major_ver rest 0 1] assms(2)
    unfolding rl(5) [symmetric] by blast
  obtain s1 s2 b where build: "?R = s1 @ s2" "ntfs_mapping_pairs_build major_ver buf (Some rl) x = Ok b"
    "mb_errno b = (if s2 = [] then None else Some ENOSPC)"
    "length (mp_encode major_ver 0 s1) < length buf"
    "take (length (mp_encode major_ver 0 s1) + 1) (mb_dst b) = mp_encode major_ver 0 s1 @ [0]"
    "s2 \<noteq> [] \<longrightarrow> length buf \<le> length (mp_encode major_ver 0 (s1 @ [hd s2]))"
    using build_at_rl [OF assms, of major_ver] unfolding rl(5) [symmetric] by blast
  have "length (mp_encode major_ver 0 (s1 @ [hd s2])) \<le> length (mp_encode major_ver 0 ?R)" if "s2 \<noteq> []"
    using that mp_encode_prefix_le [of major_ver 0 "s1 @ [hd s2]" "tl s2"] by (simp add: build(1))
  then have big: "length buf \<le> length (mp_encode major_ver 0 ?R)" if "s2 \<noteq> []"
    using that build(6) by (meson order.trans)
  have "length (mp_encode major_ver 0 r1) \<le> length (mp_encode major_ver 0 ?R)"
    using mp_encode_prefix_le [of major_ver 0 r1 r2] by (simp only: size(1))
  then have "s2 = [] \<longleftrightarrow> 1 + int (length (mp_encode major_ver 0 r1)) \<le> int (length buf)"
    using size(1,3) build(1,4) big by (cases "s2 = []"; cases "r2 = []") simp_all
  moreover have "r2 = []" if "1 + int (length (mp_encode major_ver 0 r1)) \<le> int (length buf)"
    using that size(3) by (meson not_le)
  moreover have "ntfs_get_size_for_mapping_pairs major_ver (Some rl) x (int (length buf)) =
      mp_size_runs major_ver (?R @ t # rest) 0 1 (int (length buf))"
    using size_at [OF rl(2,3) _ _ assms(3) x, of "int (length buf)" major_ver rest] rl(4) assms(2,5)
    unfolding rl(5) [symmetric] rl(1) [symmetric] by (cases buf) simp_all
  ultimately show ?thesis
    using size(1,2) build(1-3,5) unfolding rl(5) [symmetric] by (auto simp: nat_add_distrib)
qed

lemma demo_rl_mapped: "mapped_runs (rl_runs demo_rl)"
  by (simp add: demo_rl_def rl_runs_def lcn_defs)

theorem mapping_pairs_size_exact_witness:
  "\<exists>n b. ntfs_get_size_for_mapping_pairs 3 (Some demo_rl) 1 24 = Ok n \<and>
    ntfs_mapping_pairs_build 3 (replicate 24 0) (Some demo_rl) 1 = Ok b \<and>
    mb_errno b = (if n \<le> 24 then None else Some ENOSPC)"
  using mapping_pairs_size_exact [OF demo_rl_wf demo_rl_mapped, of 1 "replicate 24 0" 3]
  by (auto simp: demo_rl_cells)

end
