(* ===== verification/Runlist_Merge.thy ===== *)
theory Runlist_Merge
  imports Runlist_Cells
begin

text \<open>
  Merging of runlists (\<open>ntfs_rl_replace\<close>, \<open>ntfs_rl_insert\<close>, \<open>ntfs_rl_append\<close>,
  \<open>ntfs_rl_split\<close> and \<open>ntfs_runlists_merge\<close>): in terms of cells, the new runs are
  written over the hole they fill and everything else keeps its place.
\<close>

section \<open>Arrays with a gap opened in the middle\<close>

lemma rl_get_append:
  "rl_get (xs @ ys) i = (if i < length xs then xs ! i else rl_get ys (i - length xs))"
  by (auto simp: rl_get_def nth_append)

lemma rl_get_simps [simp]:
  "rl_get (e # es) 0 = e"
  "rl_get (e # es) (Suc i) = rl_get es i"
  "rl_get (xs @ e # es) (length xs) = e"
  "rl_get (xs @ e # es) (Suc (length xs)) = rl_get es 0"
  by (auto simp: rl_get_def nth_append Suc_diff_le)

lemma rl_upd_at [simp]:
  "rl_upd (length xs) f (xs @ e # es) = xs @ f e # es"
  "rl_upd 0 f (e # es) = f e # es"
  by (simp_all add: rl_upd_def)

lemma rl_move_copy:
  assumes "length P + length S + length B \<le> length (P @ Q @ B @ J)"
  shows "ntfs_rl_mc (ntfs_rl_mm (P @ Q @ B @ J) (length P + length S) (length P + length Q) (length B))
      (length P) (U @ S @ V) (length U) (length S) =
    P @ S @ B @ drop (length P + length S + length B) (P @ Q @ B @ J)"
proof -
  let ?base = "P @ Q @ B @ J"
  let ?mm = "ntfs_rl_mm ?base (length P + length S) (length P + length Q) (length B)"
  have "take (length P) ?mm = P \<and> drop (length P + length S) ?mm =
      B @ drop (length P + length S + length B) ?base"
  proof (cases "length S = length Q \<or> B = []")
    case True
    then show ?thesis by (auto simp: ntfs_rl_mm_def)
  next
    case False
    then have mm: "?mm = take (length P + length S) ?base @ B @
        drop (length P + length S + length B) ?base"
      by (simp add: ntfs_rl_mm_def)
    define pre where "pre = take (length P + length S) ?base"
    have pre: "length pre = length P + length S" "take (length P) pre = P"
      using assms by (simp_all add: pre_def)
    show ?thesis
      unfolding mm pre_def [symmetric] using pre by simp
  qed
  note mm = this
  show ?thesis
  proof (cases "S = []")
    case True
    have "?mm = P @ B @ drop (length P + length S + length B) ?base"
      using mm append_take_drop_id [of "length P" ?mm] True by simp
    with True show ?thesis by (simp add: ntfs_rl_mc_def)
  next
    case False
    with mm show ?thesis by (simp add: ntfs_rl_mc_def)
  qed
qed

lemma rl_move_copyI:
  assumes "m = length P + length S" and "q = length P + length Q" and "b = length B"
    and "p = length P" and "u = length U" and "n = length S" and "src = U @ S @ V"
    and "length P + length S + length B \<le> length (P @ Q @ B @ J)"
  shows "\<exists>J'. ntfs_rl_mc (ntfs_rl_mm (P @ Q @ B @ J) m q b) p src u n = P @ S @ B @ J'"
  unfolding assms(1-7) rl_move_copy [OF assms(8)] by blast

lemma ntfs_rl_realloc_cases:
  obtains "ntfs_rl_realloc mem rl old new = None" and "\<not> (\<forall>n. mem n)"
  | "ntfs_rl_realloc mem rl old new = Some (rl @ replicate (new - length rl) rl_uninit)"
  by (cases "rl_bytes old = rl_bytes new \<or> mem (rl_bytes new)") (auto simp: ntfs_rl_realloc_def)

section \<open>Joining runs\<close>

lemma mergeable_aligned:
  assumes "ntfs_rl_are_mergeable a b" and "rl_vcn b = rl_vcn a + rl_length a"
    and "0 < rl_length a" and "0 \<le> rl_length b"
  shows "run_cells (rl_merge a b) = run_cells a @ run_cells b"
proof -
  have len: "nat (rl_length a + rl_length b) = nat (rl_length a) + nat (rl_length b)"
    using assms by (simp add: nat_add_distrib)
  consider "rl_lcn a < 0" "rl_lcn b = rl_lcn a"
    | "0 \<le> rl_lcn a" "rl_lcn b = rl_lcn a + rl_length a"
    using assms(1) by (auto simp: ntfs_rl_are_mergeable_def lcn_defs split: if_splits)
  then show ?thesis
  proof cases
    case 1
    then show ?thesis
      by (simp add: run_cells_def rl_merge_def len upt_add_eq_append [of 0, simplified]
          map_replicate_const replicate_add)
  next
    case 2
    have "map (\<lambda>k. rl_lcn a + int k) [nat (rl_length a)..<nat (rl_length a) + nat (rl_length b)] =
        map (\<lambda>k. rl_lcn a + rl_length a + int k) [0..<nat (rl_length b)]"
      using assms(3) by (intro nth_equalityI) auto
    with 2 assms(3) show ?thesis
      by (simp add: run_cells_def rl_merge_def len upt_add_eq_append [of 0, simplified])
  qed
qed

lemma mergeable_same_kind:
  "ntfs_rl_are_mergeable a b \<Longrightarrow> rl_lcn b < LCN_HOLE \<Longrightarrow> rl_lcn a < LCN_HOLE"
  by (auto simp: ntfs_rl_are_mergeable_def lcn_defs split: if_splits)

definition join_left :: "runlist \<Rightarrow> runlist \<Rightarrow> runlist" where
  "join_left A S =
     (if A \<noteq> [] \<and> S \<noteq> [] \<and> ntfs_rl_are_mergeable (last A) (hd S)
      then butlast A @ rl_merge (last A) (hd S) # tl S else A @ S)"

lemma runs_join_left:
  assumes "runs_from v (A @ S)"
  shows "runs_from v (join_left A S) \<and> runs_len (join_left A S) = runs_len (A @ S) \<and>
    cells (join_left A S) = cells (A @ S)"
proof (cases "A \<noteq> [] \<and> S \<noteq> [] \<and> ntfs_rl_are_mergeable (last A) (hd S)")
  case True
  then obtain A0 a s S1 where AS: "A = A0 @ [a]" "S = s # S1"
    by (metis append_butlast_last_id list.exhaust)
  with True have mg: "ntfs_rl_are_mergeable a s" by simp
  have "run_cells (rl_merge a s) = run_cells a @ run_cells s"
    by (rule mergeable_aligned [OF mg]) (use assms AS in auto)
  with True AS assms show ?thesis
    by (simp add: join_left_def) (auto simp: rl_merge_def algebra_simps)
qed (use assms in \<open>auto simp: join_left_def\<close>)

lemma rl_upd_last:
  "xs \<noteq> [] \<Longrightarrow> rl_upd (length xs - Suc 0) f (xs @ ys) = butlast xs @ f (last xs) # ys"
proof -
  assume "xs \<noteq> []"
  then obtain zs z where "xs = zs @ [z]" by (metis append_butlast_last_id)
  then show ?thesis by simp
qed

lemma rl_get_last: "xs \<noteq> [] \<Longrightarrow> rl_get (xs @ ys) (length xs - Suc 0) = last xs"
  by (auto simp: rl_get_append last_conv_nth)

lemma rl_upd_same:
  "i < length rl \<Longrightarrow> f (rl_get rl i) = rl_get rl i \<Longrightarrow> rl_upd i f rl = rl"
  by (simp add: rl_upd_def rl_get_def)

lemma join_left_Nil2 [simp]: "join_left A [] = A"
  by (simp add: join_left_def)

lemma join_left_append:
  "S \<noteq> [] \<Longrightarrow> join_left A (S @ B) = join_left A S @ B"
  by (simp add: join_left_def)

text \<open>
  The vcn of an \<open>LCN_ENOENT\<close> element is recomputed from the element before it; in a
  well-formed result it is already right.
\<close>

definition end_fixed :: "runlist \<Rightarrow> runlist \<Rightarrow> bool" where
  "end_fixed X B \<longleftrightarrow> X \<noteq> [] \<and> B \<noteq> [] \<and>
     (rl_lcn (hd B) = LCN_ENOENT \<longrightarrow> rl_vcn (hd B) = rl_vcn (last X) + rl_length (last X))"

lemma end_fix_id:
  assumes "end_fixed X B"
  shows "(if c \<and> rl_lcn (rl_get (X @ B @ J) (length X)) = LCN_ENOENT
     then rl_upd (length X) (\<lambda>e. e\<lparr>rl_vcn := rl_vcn (rl_get (X @ B @ J) (length X - 1)) +
            rl_length (rl_get (X @ B @ J) (length X - 1))\<rparr>) (X @ B @ J)
     else X @ B @ J) = X @ B @ J"
proof -
  obtain b B' where B: "B = b # B'" using assms by (cases B) (auto simp: end_fixed_def)
  have get: "rl_get (X @ B @ J) (length X) = b" "rl_get (X @ B @ J) (length X - 1) = last X"
    using assms rl_get_last [of X "B @ J"] by (simp_all add: end_fixed_def B)
  show ?thesis
  proof (cases "rl_lcn b = LCN_ENOENT")
    case True
    then have "b\<lparr>rl_vcn := rl_vcn (last X) + rl_length (last X)\<rparr> = b"
      using assms B by (simp add: end_fixed_def)
    then have "rl_upd (length X) (\<lambda>e. e\<lparr>rl_vcn := rl_vcn (last X) + rl_length (last X)\<rparr>)
        (X @ B @ J) = X @ B @ J" by (simp add: B)
    then show ?thesis unfolding get by simp
  qed (simp add: get)
qed

lemma ntfs_rl_replace_list:
  assumes S: "S \<noteq> []" and B: "B \<noteq> []"
    and right: "right = ntfs_rl_are_mergeable (last S) (hd B)"
    and left: "left = (A \<noteq> [] \<and> ntfs_rl_are_mergeable (last A) (hd S))"
    and S': "S' = (if right then butlast S @ [rl_merge (last S) (hd B)] else S)"
    and B': "B' = (if right then tl B else B)"
    and P: "P = (if left then butlast A @ [rl_merge (last A) (hd S')] else A)"
    and N: "N = (if left then tl S' else S')"
    and fixed: "end_fixed (P @ N) B'"
  shows "ntfs_rl_replace mem (A @ h # B @ R) (length A + 1 + length B) (S @ T) (length S) (length A)
      = Err ENOMEM \<and> \<not> (\<forall>n. mem n) \<or>
    (\<exists>J. ntfs_rl_replace mem (A @ h # B @ R) (length A + 1 + length B) (S @ T) (length S) (length A)
      = Ok ((P @ N) @ B' @ J))"
proof -
  let ?dst = "A @ h # B @ R" and ?ds = "length A + 1 + length B"
  let ?r = "if right then 1 else 0 :: nat" and ?l = "if left then 1 else 0 :: nat"
  have r_eq: "(length A + 1 < ?ds \<and>
      ntfs_rl_are_mergeable (rl_get (S @ T) (length S - 1)) (rl_get ?dst (length A + 1))) = right"
    using S B by (cases B) (simp_all add: right rl_get_last)
  have l_eq: "(0 < length A \<and>
      ntfs_rl_are_mergeable (rl_get ?dst (length A - 1)) (rl_get (S @ T) 0)) = left"
    using S by (cases S) (auto simp: left rl_get_last)
  let ?alloc = "if 1 + ?l + ?r < length S
      then ntfs_rl_realloc mem ?dst ?ds (?ds + (length S - 1 - ?l - ?r)) else Some ?dst"
  consider (no) "?alloc = None" "\<not> (\<forall>n. mem n)"
    | (yes) K where "?alloc = Some (A @ h # B @ R @ K)" "?ds + (length S - 1 - ?l - ?r) \<le> length (A @ h # B @ R @ K)"
    by (cases "1 + ?l + ?r < length S";
        rule ntfs_rl_realloc_cases [of mem ?dst ?ds "?ds + (length S - 1 - ?l - ?r)"]) auto
  then show ?thesis
  proof cases
    case no
    then show ?thesis
      unfolding ntfs_rl_replace_def r_eq l_eq Let_def by simp
  next
    case (yes K)
    let ?d1 = "A @ h # B @ R @ K"
    have src: "(if right then rl_upd (length S - 1) (\<lambda>e. rl_merge e (rl_get ?d1 (length A + 1))) (S @ T)
        else S @ T) = S' @ T"
      using S B by (cases B) (simp_all add: S' rl_upd_last)
    have S'ne: "S' \<noteq> []" and S'len: "length S' = length S" using S by (auto simp: S')
    have hdS': "rl_get (S' @ T) 0 = hd S'" using S'ne by (cases S') auto
    define Q where "Q = (if right then [h, hd B] else [h])"
    define U where "U = (if left then [hd S'] else [])"
    have dst: "(if left then rl_upd (length A - 1) (\<lambda>e. rl_merge e (rl_get (S' @ T) 0)) ?d1
        else ?d1) = P @ Q @ B' @ (R @ K)"
      using B left hdS' by (cases B) (auto simp: P Q_def B' rl_upd_last)
    have srcU: "S' @ T = U @ N @ T" using S'ne by (simp add: U_def N)
    have lenP: "length P = length A"
      using left by (auto simp: P)
    have lenN: "length N = length S - ?l" "length U = ?l" "length B' = length B - ?r" "length Q = 1 + ?r"
      using S'len by (auto simp: N U_def B' Q_def)
    have mk: "length A + length S - ?l = length (P @ N)"
      using lenN lenP S by (cases S) simp_all
    have "\<exists>J. ntfs_rl_mc (ntfs_rl_mm (P @ Q @ B' @ R @ K) (length A + length S - ?l)
          (length A + ?r + 1) (?ds - (length A + ?r + 1))) (length A) (S' @ T) ?l (length S - ?l) =
        P @ N @ B' @ J"
    proof (rule rl_move_copyI [where U = U and V = T])
      show "length P + length N + length B' \<le> length (P @ Q @ B' @ R @ K)"
        using yes(2) lenN lenP S B by (cases "1 + ?l + ?r < length S") auto
    qed (use lenN lenP mk srcU B in \<open>auto split: if_splits\<close>)
    then obtain J where mv: "ntfs_rl_mc (ntfs_rl_mm (P @ Q @ B' @ R @ K) (length A + length S - ?l)
          (length A + ?r + 1) (?ds - (length A + ?r + 1))) (length A) (S' @ T) ?l (length S - ?l) =
        P @ N @ B' @ J" by blast
    have "ntfs_rl_replace mem ?dst ?ds (S @ T) (length S) (length A) = Ok ((P @ N) @ B' @ J)"
      unfolding ntfs_rl_replace_def r_eq l_eq Let_def yes(1) option.case src dst mv
      unfolding mk append_assoc [of P N, symmetric] end_fix_id [OF fixed] by (rule refl)
    then show ?thesis by blast
  qed
qed

lemma rl_move_gap:
  assumes "B \<noteq> []" and "length P + 1 + length S + length B \<le> length (P @ B @ J)"
    and "m = length P + 1 + length S" and "q = length P" and "b = length B"
    and "p = length P + 1" and "u = length U" and "n = length S" and "src = U @ S @ V"
  shows "\<exists>J'. ntfs_rl_mc (ntfs_rl_mm (P @ B @ J) m q b) p src u n = P @ hd B # S @ B @ J'"
proof -
  define base where "base = P @ B @ J"
  define pre where "pre = take m base"
  have pre: "length pre = m" "take (length P + 1) pre = P @ [hd B]"
    using assms by (cases B; simp add: pre_def base_def)+
  have mm: "ntfs_rl_mm base m q b = pre @ B @ drop (m + b) base"
    using assms by (simp add: ntfs_rl_mm_def pre_def base_def)
  have "ntfs_rl_mc (ntfs_rl_mm base m q b) p src u n = P @ hd B # S @ B @ drop (m + b) base"
    unfolding mm using pre assms by (cases "S = []") (simp_all add: ntfs_rl_mc_def)
  then show ?thesis by (auto simp: base_def)
qed

lemma ntfs_rl_append_list:
  assumes S: "S \<noteq> []" and B: "B \<noteq> []"
    and right: "right = ntfs_rl_are_mergeable (last S) (hd B)"
    and S': "S' = (if right then butlast S @ [rl_merge (last S) (hd B)] else S)"
    and B': "B' = (if right then tl B else B)"
    and h': "h' = h\<lparr>rl_length := rl_vcn (hd S') - rl_vcn h\<rparr>"
    and fixed: "end_fixed (A @ h' # S') B'"
  shows "ntfs_rl_append mem (A @ h # B @ R) (length A + 1 + length B) (S @ T) (length S) (length A)
      = Err ENOMEM \<and> \<not> (\<forall>n. mem n) \<or>
    (\<exists>J. ntfs_rl_append mem (A @ h # B @ R) (length A + 1 + length B) (S @ T) (length S) (length A)
      = Ok ((A @ h' # S') @ B' @ J))"
proof -
  let ?dst = "A @ h # B @ R" and ?ds = "length A + 1 + length B"
  let ?r = "if right then 1 else 0 :: nat"
  have r_eq: "(length A + 1 < ?ds \<and>
      ntfs_rl_are_mergeable (rl_get (S @ T) (length S - 1)) (rl_get ?dst (length A + 1))) = right"
    using S B by (cases B) (simp_all add: right rl_get_last)
  consider (no) "ntfs_rl_realloc mem ?dst ?ds (?ds + length S - ?r) = None" "\<not> (\<forall>n. mem n)"
    | (yes) K where "ntfs_rl_realloc mem ?dst ?ds (?ds + length S - ?r) = Some (A @ h # B @ R @ K)"
        "?ds + length S - ?r \<le> length (A @ h # B @ R @ K)"
    by (rule ntfs_rl_realloc_cases [of mem ?dst ?ds "?ds + length S - ?r"]) auto
  then show ?thesis
  proof cases
    case no
    then show ?thesis unfolding ntfs_rl_append_def r_eq Let_def by simp
  next
    case (yes K)
    let ?d1 = "A @ h # B @ R @ K"
    have src: "(if right then rl_upd (length S - 1) (\<lambda>e. rl_merge e (rl_get ?d1 (length A + 1))) (S @ T)
        else S @ T) = S' @ T"
      using S B by (cases B) (simp_all add: S' rl_upd_last)
    have S'ne: "S' \<noteq> []" and S'len: "length S' = length S" using S by (auto simp: S')
    define Q where "Q = (if right then [hd B] else [])"
    have d1: "?d1 = (A @ [h]) @ Q @ B' @ (R @ K)"
      using B by (cases B) (auto simp: Q_def B')
    have lens: "length B' = length B - ?r" "length Q = ?r" by (auto simp: B' Q_def)
    have "\<exists>J. ntfs_rl_mc (ntfs_rl_mm ((A @ [h]) @ Q @ B' @ (R @ K)) (length A + length S + 1)
        (length A + 1 + ?r) (?ds - length A - 1 - ?r)) (length A + 1) (S' @ T) 0 (length S)
        = (A @ [h]) @ S' @ B' @ J"
      by (rule rl_move_copyI [where U = "[]" and V = T])
        (use lens S'len yes(2) B in \<open>auto split: if_splits\<close>)
    then obtain J where mv: "ntfs_rl_mc (ntfs_rl_mm ?d1 (length A + length S + 1)
        (length A + 1 + ?r) (?ds - length A - 1 - ?r)) (length A + 1) (S' @ T) 0 (length S)
        = A @ h # S' @ B' @ J"
      unfolding d1 by auto
    have upd: "rl_upd (length A) (\<lambda>e. e\<lparr>rl_length := rl_vcn (rl_get (A @ h # S' @ B' @ J) (length A + 1)) - rl_vcn e\<rparr>)
        (A @ h # S' @ B' @ J) = (A @ h' # S') @ B' @ J"
      using S'ne by (cases S') (simp_all add: h')
    have mk: "length A + length S + 1 = length (A @ h' # S')"
      using S'len by simp
    have "ntfs_rl_append mem ?dst ?ds (S @ T) (length S) (length A) = Ok ((A @ h' # S') @ B' @ J)"
      unfolding ntfs_rl_append_def r_eq Let_def yes(1) option.case src mv upd
      unfolding mk using end_fix_id [OF fixed, of True J] by (simp only: simp_thms)
    then show ?thesis by blast
  qed
qed

lemma ntfs_rl_split_list:
  assumes S: "S \<noteq> []" and B: "B \<noteq> []"
    and h1: "h1 = h\<lparr>rl_length := rl_vcn (hd S) - rl_vcn h\<rparr>"
    and h2: "h2 = h\<lparr>rl_vcn := rl_vcn (last S) + rl_length (last S),
       rl_length := rl_vcn (hd B) - (rl_vcn (last S) + rl_length (last S))\<rparr>"
  shows "ntfs_rl_split mem (A @ h # B @ R) (length A + 1 + length B) (S @ T) (length S) (length A)
      = Err ENOMEM \<and> \<not> (\<forall>n. mem n) \<or>
    (\<exists>J. ntfs_rl_split mem (A @ h # B @ R) (length A + 1 + length B) (S @ T) (length S) (length A)
      = Ok (A @ h1 # S @ h2 # B @ J))"
proof -
  let ?dst = "A @ h # B @ R" and ?ds = "length A + 1 + length B"
  consider (no) "ntfs_rl_realloc mem ?dst ?ds (?ds + length S + 1) = None" "\<not> (\<forall>n. mem n)"
    | (yes) K where "ntfs_rl_realloc mem ?dst ?ds (?ds + length S + 1) = Some (A @ h # B @ R @ K)"
        "?ds + length S + 1 \<le> length (A @ h # B @ R @ K)"
    by (rule ntfs_rl_realloc_cases [of mem ?dst ?ds "?ds + length S + 1"]) auto
  then show ?thesis
  proof cases
    case no
    then show ?thesis unfolding ntfs_rl_split_def by simp
  next
    case (yes K)
    have "\<exists>J. ntfs_rl_mc (ntfs_rl_mm (A @ (h # B) @ (R @ K)) (length A + 1 + length S) (length A)
        (?ds - length A)) (length A + 1) (S @ T) 0 (length S) = A @ hd (h # B) # S @ (h # B) @ J"
      by (rule rl_move_gap [where U = "[]" and V = T]) (use yes(2) in auto)
    then obtain J where mv: "ntfs_rl_mc (ntfs_rl_mm (A @ h # B @ R @ K) (length A + 1 + length S) (length A)
        (?ds - length A)) (length A + 1) (S @ T) 0 (length S) = A @ h # S @ h # B @ J"
      by auto
    obtain S0 s where Ss: "S = S0 @ [s]" using S by (metis append_butlast_last_id)
    obtain b B1 where Bb: "B = b # B1" using B by (cases B) auto
    have u1: "rl_upd (length A) (\<lambda>e. e\<lparr>rl_length := rl_vcn (rl_get (A @ h # S @ h # B @ J) (length A + 1)) - rl_vcn e\<rparr>)
        (A @ h # S @ h # B @ J) = (A @ h1 # S) @ h # B @ J"
      using S by (cases S) (simp_all add: h1)
    have mk: "length A + length S + 1 = length (A @ h1 # S)" by simp
    have g: "rl_get ((A @ h1 # S) @ h # B @ J) (length A + length S) = last S"
      "rl_get ((A @ h1 # S) @ e # B @ J) (length A + length S + 2) = hd B" for e
      using rl_get_append [of "A @ h1 # S0" "s # h # B @ J" "length A + length S"]
        rl_get_append [of "A @ h1 # S" "e # B @ J" "length A + length S + 2"]
      by (simp_all add: Ss Bb)
    have "ntfs_rl_split mem ?dst ?ds (S @ T) (length S) (length A) = Ok ((A @ h1 # S) @ h2 # B @ J)"
      unfolding ntfs_rl_split_def yes(1) option.case Let_def mv u1 g
      unfolding mk rl_upd_at g [unfolded mk] by (simp add: h2 g)
    then show ?thesis by auto
  qed
qed

definition insert_tail :: "runlist \<Rightarrow> runlist_element \<Rightarrow> runlist \<Rightarrow> runlist_element" where
  "insert_tail X h B =
     (let v = rl_vcn (last X) + rl_length (last X)
      in if rl_lcn h = LCN_HOLE \<or> rl_lcn h = LCN_RL_NOT_MAPPED
         then h\<lparr>rl_vcn := v, rl_length := rl_vcn (hd B) - v\<rparr> else h\<lparr>rl_vcn := v\<rparr>)"

lemma insert_fix:
  assumes "X \<noteq> []" and "rl_lcn h = LCN_HOLE \<or> rl_lcn h = LCN_RL_NOT_MAPPED \<Longrightarrow> B \<noteq> []"
    and "d1 = rl_upd (length X) (\<lambda>e. e\<lparr>rl_vcn := rl_vcn (rl_get (X @ h # B @ J) (length X - 1)) +
      rl_length (rl_get (X @ h # B @ J) (length X - 1))\<rparr>) (X @ h # B @ J)"
  shows "(if rl_lcn (rl_get d1 (length X)) = LCN_HOLE \<or>
        rl_lcn (rl_get d1 (length X)) = LCN_RL_NOT_MAPPED
     then rl_upd (length X) (\<lambda>e. e\<lparr>rl_length :=
        rl_vcn (rl_get d1 (length X + 1)) - rl_vcn e\<rparr>) d1
     else d1) = X @ insert_tail X h B # B @ J"
proof -
  have d1: "d1 = X @ h\<lparr>rl_vcn := rl_vcn (last X) + rl_length (last X)\<rparr> # B @ J"
    using assms(3) rl_get_last [OF assms(1), of "h # B @ J"] by simp
  show ?thesis
    using assms(2) by (cases B) (auto simp: d1 insert_tail_def Let_def)
qed

lemma ntfs_rl_insert_list:
  assumes S: "S \<noteq> []"
    and left: "left = (A \<noteq> [] \<and> ntfs_rl_are_mergeable (last A) (hd S))"
    and nodisc: "\<not> (if A = [] then 0 < rl_vcn (hd S)
        else rl_vcn (last A) + (rl_length (last A) + (if left then rl_length (hd S) else 0))
          < rl_vcn (hd S))"
    and P: "P = (if left then butlast A @ [rl_merge (last A) (hd S)] else A)"
    and N: "N = (if left then tl S else S)"
    and hB: "rl_lcn h = LCN_HOLE \<or> rl_lcn h = LCN_RL_NOT_MAPPED \<Longrightarrow> B \<noteq> []"
  shows "ntfs_rl_insert mem (A @ h # B @ R) (length A + 1 + length B) (S @ T) (length S) (length A)
      = Err ENOMEM \<and> \<not> (\<forall>n. mem n) \<or>
    (\<exists>J. ntfs_rl_insert mem (A @ h # B @ R) (length A + 1 + length B) (S @ T) (length S) (length A)
      = Ok ((P @ N) @ insert_tail (P @ N) h B # B @ J))"
proof -
  let ?dst = "A @ h # B @ R" and ?ds = "length A + 1 + length B"
  let ?l = "if left then 1 else 0 :: nat"
  have hdS: "rl_get (S @ T) 0 = hd S" using S by (cases S) auto
  have lastA: "A \<noteq> [] \<Longrightarrow> rl_get ?dst (length A - 1) = last A"
    using rl_get_last [of A "h # B @ R"] by simp
  have l_eq: "(length A \<noteq> 0 \<and>
      ntfs_rl_are_mergeable (rl_get ?dst (length A - 1)) (rl_get (S @ T) 0)) = left"
    using lastA by (auto simp: left hdS)
  have d_eq: "(if length A = 0 then 0 < rl_vcn (rl_get (S @ T) 0)
      else rl_vcn (rl_get ?dst (length A - 1)) + (rl_length (rl_get ?dst (length A - 1)) +
        (if left then rl_length (rl_get (S @ T) 0) else 0)) < rl_vcn (rl_get (S @ T) 0)) = False"
    using nodisc lastA by (auto simp: hdS)
  consider (no) "ntfs_rl_realloc mem ?dst ?ds (?ds + length S - ?l + 0) = None" "\<not> (\<forall>n. mem n)"
    | (yes) K where "ntfs_rl_realloc mem ?dst ?ds (?ds + length S - ?l + 0) = Some (A @ h # B @ R @ K)"
        "?ds + length S - ?l \<le> length (A @ h # B @ R @ K)"
    by (rule ntfs_rl_realloc_cases [of mem ?dst ?ds "?ds + length S - ?l + 0"]) auto
  then show ?thesis
  proof cases
    case no
    then show ?thesis unfolding ntfs_rl_insert_def l_eq Let_def d_eq if_False by simp
  next
    case (yes K)
    let ?d1 = "A @ h # B @ R @ K"
    define U where "U = (if left then [hd S] else [])"
    have dst: "(if left then rl_upd (length A - 1) (\<lambda>e. rl_merge e (rl_get (S @ T) 0)) ?d1
        else ?d1) = P @ [] @ (h # B) @ (R @ K)"
      using left hdS by (auto simp: P rl_upd_last)
    have lens: "length P = length A" "length N = length S - ?l" "length U = ?l"
      using left by (auto simp: P N U_def)
    have mk: "length A + length S - ?l + 0 = length (P @ N)"
      using lens S by (cases S) simp_all
    have "\<exists>J. ntfs_rl_mc (ntfs_rl_mm (P @ [] @ (h # B) @ (R @ K)) (length A + length S - ?l + 0) (length A)
        (?ds - length A)) (length A + 0) (S @ T) ?l (length S - ?l) = P @ N @ (h # B) @ J"
      by (rule rl_move_copyI [where U = U and V = T])
        (use lens mk yes(2) S in \<open>auto simp: U_def N split: if_splits\<close>)
    then obtain J where mv: "ntfs_rl_mc (ntfs_rl_mm (P @ [] @ (h # B) @ (R @ K))
        (length A + length S - ?l + 0) (length A) (?ds - length A)) (length A + 0) (S @ T) ?l (length S - ?l)
        = (P @ N) @ h # B @ J" by auto
    have "P @ N \<noteq> []" using S left by (auto simp: P N)
    then have "ntfs_rl_insert mem ?dst ?ds (S @ T) (length S) (length A) =
        Ok ((P @ N) @ insert_tail (P @ N) h B # B @ J)"
      unfolding ntfs_rl_insert_def l_eq Let_def d_eq if_False yes(1) option.case dst mv
      unfolding mk by (simp only: insert_fix [OF _ hB refl] simp_thms)
    then show ?thesis by blast
  qed
qed

lemma ntfs_rl_insert_gap_list:
  assumes S: "S \<noteq> []"
    and noleft: "A = [] \<or> \<not> ntfs_rl_are_mergeable (last A) (hd S)"
    and v: "v = (if A = [] then 0 else rl_vcn (last A) + rl_length (last A))"
    and disc: "v < rl_vcn (hd S)"
    and h: "rl_lcn h \<noteq> LCN_HOLE" "rl_lcn h \<noteq> LCN_RL_NOT_MAPPED"
    and gap: "gap = \<lparr>rl_vcn = v, rl_lcn = LCN_RL_NOT_MAPPED, rl_length = rl_vcn (hd S) - v\<rparr>"
  shows "ntfs_rl_insert mem (A @ h # B @ R) (length A + 1 + length B) (S @ T) (length S) (length A)
      = Err ENOMEM \<and> \<not> (\<forall>n. mem n) \<or>
    (\<exists>J. ntfs_rl_insert mem (A @ h # B @ R) (length A + 1 + length B) (S @ T) (length S) (length A)
      = Ok (A @ gap # S @ insert_tail S h B # B @ J))"
proof -
  let ?dst = "A @ h # B @ R" and ?ds = "length A + 1 + length B"
  have hdS: "rl_get (S @ T) 0 = hd S" using S by (cases S) auto
  have lastA: "A \<noteq> [] \<Longrightarrow> rl_get (A @ X) (length A - 1) = last A" for X
    using rl_get_last [of A X] by simp
  have l_eq: "(length A \<noteq> 0 \<and>
      ntfs_rl_are_mergeable (rl_get ?dst (length A - 1)) (rl_get (S @ T) 0)) = False"
    using lastA noleft by (auto simp: hdS)
  have d_eq: "(if length A = 0 then 0 < rl_vcn (rl_get (S @ T) 0)
      else rl_vcn (rl_get ?dst (length A - 1)) + (rl_length (rl_get ?dst (length A - 1)) + 0)
        < rl_vcn (rl_get (S @ T) 0)) = True"
    using disc v lastA by (auto simp: hdS)
  consider (no) "ntfs_rl_realloc mem ?dst ?ds (?ds + length S - 0 + 1) = None" "\<not> (\<forall>n. mem n)"
    | (yes) K where "ntfs_rl_realloc mem ?dst ?ds (?ds + length S - 0 + 1) = Some (A @ h # B @ R @ K)"
        "?ds + length S + 1 \<le> length (A @ h # B @ R @ K)"
    by (rule ntfs_rl_realloc_cases [of mem ?dst ?ds "?ds + length S - 0 + 1"]) auto
  then show ?thesis
  proof cases
    case no
    then show ?thesis unfolding ntfs_rl_insert_def l_eq Let_def if_False d_eq if_True by simp
  next
    case (yes K)
    have "\<exists>J. ntfs_rl_mc (ntfs_rl_mm (A @ (h # B) @ (R @ K)) (length A + length S - 0 + 1) (length A)
        (?ds - length A)) (length A + 1) (S @ T) 0 (length S - 0) = A @ hd (h # B) # S @ (h # B) @ J"
      by (rule rl_move_gap [where U = "[]" and V = T]) (use yes(2) in auto)
    then obtain J where mv: "ntfs_rl_mc (ntfs_rl_mm (A @ h # B @ R @ K) (length A + length S - 0 + 1) (length A)
        (?ds - length A)) (length A + 1) (S @ T) 0 (length S - 0) = (A @ h # S) @ h # B @ J"
      by auto
    have mk: "length A + length S - 0 + 1 = length (A @ h # S)" by simp
    have tail: "insert_tail (A @ h # S) h B = insert_tail S h B"
      using S by (simp add: insert_tail_def)
    have fx: "(if rl_lcn (rl_get d1 (length (A @ h # S))) = LCN_HOLE \<or>
        rl_lcn (rl_get d1 (length (A @ h # S))) = LCN_RL_NOT_MAPPED
      then rl_upd (length (A @ h # S)) (\<lambda>e. e\<lparr>rl_length :=
        rl_vcn (rl_get d1 (length (A @ h # S) + 1)) - rl_vcn e\<rparr>) d1
      else d1) = (A @ h # S) @ insert_tail S h B # B @ J"
      if "d1 = rl_upd (length (A @ h # S)) (\<lambda>e. e\<lparr>rl_vcn :=
        rl_vcn (rl_get ((A @ h # S) @ h # B @ J) (length (A @ h # S) - 1)) +
        rl_length (rl_get ((A @ h # S) @ h # B @ J) (length (A @ h # S) - 1))\<rparr>) ((A @ h # S) @ h # B @ J)"
      for d1
      using insert_fix [OF _ _ that] h tail by simp
    have nxt: "rl_get ((A @ h # S) @ insert_tail S h B # B @ J) (length A + 1) = hd S"
      using S by (cases S) simp_all
    have "ntfs_rl_insert mem ?dst ?ds (S @ T) (length S) (length A) =
        Ok (A @ gap # S @ insert_tail S h B # B @ J)"
      unfolding ntfs_rl_insert_def l_eq Let_def if_False d_eq if_True yes(1) option.case mv
      unfolding mk fx [OF refl] nxt
      using v lastA [of "h # S @ insert_tail S h B # B @ J"] by (simp add: gap)
    then show ?thesis by blast
  qed
qed

section \<open>The four ways to fill a hole\<close>

lemma hole_cells: "rl_lcn h < 0 \<Longrightarrow> run_cells h = replicate (nat (rl_length h)) (rl_lcn h)"
  by (simp add: run_cells_def map_replicate_const)

text \<open>What a merge may answer: out of memory, or a well-formed runlist with the given cells.\<close>

definition spliced :: "(nat \<Rightarrow> bool) \<Rightarrow> int list \<Rightarrow> runlist result \<Rightarrow> bool" where
  "spliced mem c res \<longleftrightarrow> res = Err ENOMEM \<and> \<not> (\<forall>n. mem n) \<or>
     (\<exists>rl. res = Ok rl \<and> wf_rl 0 rl \<and> rl_cells rl = c)"

lemma splicedI:
  assumes "res = Err ENOMEM \<and> \<not> (\<forall>n. mem n) \<or> (\<exists>J. res = Ok (X @ t # J))"
    and "runs_from 0 X" and "rl_length t = 0" and "rl_vcn t = runs_len X" and "rl_lcn t < LCN_HOLE"
    and "cells X = c"
  shows "spliced mem c res"
  using assms wf_rlI [OF assms(2,3)] rl_runs_shape [OF assms(2,3)]
  unfolding spliced_def by (metis add_0)

lemma hd_terminated:
  assumes "runs_from v Bs" and "rl_vcn t = v + runs_len Bs"
  shows "rl_vcn (hd (Bs @ [t])) = v"
  using assms by (cases Bs) auto

lemma last_runs_from:
  "runs_from v X \<Longrightarrow> X \<noteq> [] \<Longrightarrow> rl_vcn (last X) + rl_length (last X) = v + runs_len X"
  by (induction X arbitrary: v) (auto simp: algebra_simps)

lemma end_fixed_runs:
  assumes "runs_from v X" and "X \<noteq> []" and "runs_from (v + runs_len X) Bs"
    and "rl_vcn t = v + runs_len X + runs_len Bs"
  shows "end_fixed X (Bs @ [t])"
  using assms last_runs_from [OF assms(1,2)] by (cases Bs) (auto simp: end_fixed_def lcn_defs)

lemma right_join:
  assumes "S \<noteq> []" and "\<forall>e \<in> set S. LCN_HOLE \<le> rl_lcn e" and "rl_lcn t < LCN_HOLE"
  obtains S' Bp where
    "S' = (if ntfs_rl_are_mergeable (last S) (hd (Bs @ [t]))
       then butlast S @ [rl_merge (last S) (hd (Bs @ [t]))] else S)"
    "Bp @ [t] = (if ntfs_rl_are_mergeable (last S) (hd (Bs @ [t])) then tl (Bs @ [t]) else Bs @ [t])"
    "join_left S Bs = S' @ Bp" "S' \<noteq> []" "rl_vcn (hd S') = rl_vcn (hd S)"
    "rl_lcn (hd S') = rl_lcn (hd S)"
proof (cases "ntfs_rl_are_mergeable (last S) (hd (Bs @ [t]))")
  case True
  have "Bs \<noteq> []"
  proof
    assume "Bs = []"
    then have "rl_lcn (last S) < LCN_HOLE"
      using True assms(3) mergeable_same_kind [of "last S" t] by simp
    with assms(1,2) show False by (meson last_in_set not_less)
  qed
  then obtain b B1 where Bs: "Bs = b # B1" by (cases Bs) auto
  obtain S0 s where Ss: "S = S0 @ [s]" using assms(1) by (metis append_butlast_last_id)
  show thesis
    by (rule that [of "S0 @ [rl_merge s b]" B1])
      (use True in \<open>auto simp: Bs Ss join_left_def rl_merge_def hd_append\<close>)
next
  case False
  then show thesis
    using assms(1) by (intro that [of S Bs]) (auto simp: join_left_def hd_append split: if_splits)
qed

lemma left_join:
  assumes "S' \<noteq> []" and "rl_vcn (hd S') = rl_vcn (hd S)" and "rl_lcn (hd S') = rl_lcn (hd S)"
    and "left = (A \<noteq> [] \<and> ntfs_rl_are_mergeable (last A) (hd S))"
  shows "(if left then butlast A @ [rl_merge (last A) (hd S')] else A) @ (if left then tl S' else S') =
    join_left A S'"
  using assms by (auto simp: join_left_def ntfs_rl_are_mergeable_def)

lemma join_left_nonempty: "S \<noteq> [] \<Longrightarrow> join_left A S \<noteq> []"
  by (simp add: join_left_def)

lemma replace_ok:
  assumes S: "S \<noteq> []" "\<forall>e \<in> set S. LCN_HOLE \<le> rl_lcn e"
    and t: "rl_length t = 0" "rl_lcn t < LCN_HOLE" "rl_vcn t = runs_len (A @ S @ Bs)"
    and runs: "runs_from 0 (A @ S @ Bs)"
  shows "spliced mem (cells (A @ S @ Bs)) (ntfs_rl_replace mem (A @ h # (Bs @ [t]) @ R)
    (length A + 1 + length (Bs @ [t])) (S @ T) (length S) (length A))"
proof -
  obtain S' Bp where sp: "S' = (if ntfs_rl_are_mergeable (last S) (hd (Bs @ [t]))
       then butlast S @ [rl_merge (last S) (hd (Bs @ [t]))] else S)"
    "Bp @ [t] = (if ntfs_rl_are_mergeable (last S) (hd (Bs @ [t])) then tl (Bs @ [t]) else Bs @ [t])"
    "join_left S Bs = S' @ Bp" "S' \<noteq> []" "rl_vcn (hd S') = rl_vcn (hd S)" "rl_lcn (hd S') = rl_lcn (hd S)"
    by (rule right_join [OF S t(2)])
  define X where "X = join_left A S'"
  have inner: "runs_from (runs_len A) (S' @ Bp)" "runs_len (S' @ Bp) = runs_len (S @ Bs)"
    "cells (S' @ Bp) = cells (S @ Bs)"
    using runs_join_left [of "runs_len A" S Bs] runs sp(3) by auto
  have outer: "runs_from 0 X" "runs_len X = runs_len (A @ S')" "cells X = cells (A @ S')"
    using runs_join_left [of 0 A S'] runs inner(1) by (auto simp: X_def)
  have fixed: "end_fixed X (Bp @ [t])"
    by (rule end_fixed_runs [OF outer(1)])
      (use outer inner t(3) sp(4) in \<open>auto simp: X_def join_left_nonempty\<close>)
  show ?thesis
  proof (rule splicedI [where X = "X @ Bp" and t = t])
    show "ntfs_rl_replace mem (A @ h # (Bs @ [t]) @ R) (length A + 1 + length (Bs @ [t])) (S @ T)
        (length S) (length A) = Err ENOMEM \<and> \<not> (\<forall>n. mem n) \<or>
      (\<exists>J. ntfs_rl_replace mem (A @ h # (Bs @ [t]) @ R) (length A + 1 + length (Bs @ [t])) (S @ T)
        (length S) (length A) = Ok ((X @ Bp) @ t # J))"
      using ntfs_rl_replace_list [OF S(1) _ refl refl sp(1,2) refl refl, of A] fixed
      unfolding left_join [OF sp(4-6) refl] X_def by simp
  qed (use outer inner t in auto)
qed

lemma insert_shape:
  assumes S: "S \<noteq> []" "runs_from (runs_len A) S" "runs_len S < rl_length h"
    and t: "rl_length t = 0" "rl_lcn t < LCN_HOLE" "rl_vcn t = runs_len (A @ h # Bs)"
    and runs: "runs_from 0 (A @ h # Bs)" and hole: "rl_lcn h < 0"
  shows "\<exists>X. runs_from 0 X \<and> runs_len X = runs_len (A @ S) \<and> cells X = cells (A @ S) \<and>
    (let res = ntfs_rl_insert mem (A @ h # (Bs @ [t]) @ R)
           (length A + 1 + length (Bs @ [t])) (S @ T) (length S) (length A);
         h2 = h\<lparr>rl_vcn := runs_len (A @ S), rl_length := rl_length h - runs_len S\<rparr>
     in res = Err ENOMEM \<and> \<not> (\<forall>n. mem n) \<or> (\<exists>J. res = Ok ((X @ h2 # Bs) @ t # J)))"
proof -
  define X where "X = join_left A S"
  define h2 where "h2 = h\<lparr>rl_vcn := runs_len (A @ S), rl_length := rl_length h - runs_len S\<rparr>"
  have hd_vcn: "rl_vcn (hd S) = runs_len A" using S by (cases S) auto
  have X: "runs_from 0 X" "runs_len X = runs_len (A @ S)" "cells X = cells (A @ S)" "X \<noteq> []"
    using runs_join_left [of 0 A S] runs S by (auto simp: X_def join_left_nonempty)
  have "rl_vcn (hd (Bs @ [t])) = runs_len A + rl_length h"
    using runs t(3) by (intro hd_terminated) auto
  moreover have "rl_lcn h = LCN_HOLE \<or> rl_lcn h = LCN_RL_NOT_MAPPED"
    using hole runs by (auto simp: lcn_defs)
  ultimately have tail: "insert_tail X h (Bs @ [t]) = h2"
    unfolding insert_tail_def h2_def Let_def
    using last_runs_from [OF X(1,4)] X(2) by simp
  have nodisc: "\<not> (if A = [] then 0 < rl_vcn (hd S)
      else rl_vcn (last A) + (rl_length (last A) +
        (if A \<noteq> [] \<and> ntfs_rl_are_mergeable (last A) (hd S) then rl_length (hd S) else 0))
        < rl_vcn (hd S))"
    using runs last_runs_from [of 0 A] S hd_vcn by (cases S) auto
  have "ntfs_rl_insert mem (A @ h # (Bs @ [t]) @ R) (length A + 1 + length (Bs @ [t])) (S @ T)
        (length S) (length A) = Err ENOMEM \<and> \<not> (\<forall>n. mem n) \<or>
      (\<exists>J. ntfs_rl_insert mem (A @ h # (Bs @ [t]) @ R) (length A + 1 + length (Bs @ [t])) (S @ T)
        (length S) (length A) = Ok ((X @ h2 # Bs) @ t # J))"
    using ntfs_rl_insert_list [OF S(1) refl nodisc refl refl, of h "Bs @ [t]" mem R T]
    unfolding left_join [OF S(1) refl refl refl] X_def [symmetric] tail by simp
  with X show ?thesis unfolding Let_def h2_def by blast
qed

lemma insert_ok:
  assumes S: "S \<noteq> []" "runs_from (runs_len A) S" "runs_len S < rl_length h"
    and t: "rl_length t = 0" "rl_lcn t < LCN_HOLE" "rl_vcn t = runs_len (A @ h # Bs)"
    and runs: "runs_from 0 (A @ h # Bs)" and hole: "rl_lcn h < 0"
  shows "spliced mem (cells (A @ S) @ replicate (nat (rl_length h - runs_len S)) (rl_lcn h) @ cells Bs)
    (ntfs_rl_insert mem (A @ h # (Bs @ [t]) @ R)
      (length A + 1 + length (Bs @ [t])) (S @ T) (length S) (length A))"
proof -
  define h2 where "h2 = h\<lparr>rl_vcn := runs_len (A @ S), rl_length := rl_length h - runs_len S\<rparr>"
  obtain X where X: "runs_from 0 X" "runs_len X = runs_len (A @ S)" "cells X = cells (A @ S)"
    and res: "ntfs_rl_insert mem (A @ h # (Bs @ [t]) @ R) (length A + 1 + length (Bs @ [t])) (S @ T)
        (length S) (length A) = Err ENOMEM \<and> \<not> (\<forall>n. mem n) \<or>
      (\<exists>J. ntfs_rl_insert mem (A @ h # (Bs @ [t]) @ R) (length A + 1 + length (Bs @ [t])) (S @ T)
        (length S) (length A) = Ok ((X @ h2 # Bs) @ t # J))"
    using insert_shape [OF assms, of mem R T] unfolding Let_def h2_def by blast
  show ?thesis
  proof (rule splicedI [OF res])
    show "cells (X @ h2 # Bs) =
        cells (A @ S) @ replicate (nat (rl_length h - runs_len S)) (rl_lcn h) @ cells Bs"
      using X(3) hole by (simp add: h2_def hole_cells)
  qed (use X t runs S(3) in \<open>auto simp: h2_def algebra_simps\<close>)
qed

lemma append_ok:
  assumes S: "S \<noteq> []" "\<forall>e \<in> set S. LCN_HOLE \<le> rl_lcn e" "runs_from v S"
      "rl_vcn h < v" "v + runs_len S = rl_vcn h + rl_length h"
    and t: "rl_length t = 0" "rl_lcn t < LCN_HOLE" "rl_vcn t = runs_len (A @ h # Bs)"
    and runs: "runs_from 0 (A @ h # Bs)" and hole: "rl_lcn h < 0"
  shows "spliced mem (cells A @ replicate (nat (v - rl_vcn h)) (rl_lcn h) @ cells (S @ Bs))
    (ntfs_rl_append mem (A @ h # (Bs @ [t]) @ R)
      (length A + 1 + length (Bs @ [t])) (S @ T) (length S) (length A))"
proof -
  obtain S' Bp where sp: "S' = (if ntfs_rl_are_mergeable (last S) (hd (Bs @ [t]))
       then butlast S @ [rl_merge (last S) (hd (Bs @ [t]))] else S)"
    "Bp @ [t] = (if ntfs_rl_are_mergeable (last S) (hd (Bs @ [t])) then tl (Bs @ [t]) else Bs @ [t])"
    "join_left S Bs = S' @ Bp" "S' \<noteq> []" "rl_vcn (hd S') = rl_vcn (hd S)" "rl_lcn (hd S') = rl_lcn (hd S)"
    by (rule right_join [OF S(1,2) t(2)])
  define h1 where "h1 = h\<lparr>rl_length := rl_vcn (hd S') - rl_vcn h\<rparr>"
  have hd_vcn: "rl_vcn (hd S') = v" using S sp(5) by (cases S) auto
  have hv: "rl_vcn h = runs_len A" using runs by simp
  have inner: "runs_from v (S' @ Bp)" "runs_len (S' @ Bp) = runs_len (S @ Bs)"
    "cells (S' @ Bp) = cells (S @ Bs)"
    using runs_join_left [of v S Bs] runs S(3,5) hv sp(3) by auto
  have X: "runs_from 0 (A @ h1 # S')" "runs_len (A @ h1 # S') = v + runs_len S'"
    using runs S(4) hd_vcn hv inner(1) by (auto simp: h1_def)
  have fixed: "end_fixed (A @ h1 # S') (Bp @ [t])"
    by (rule end_fixed_runs [OF X(1)]) (use X inner t(3) S(5) hv in \<open>auto simp: add.assoc\<close>)
  show ?thesis
  proof (rule splicedI [where X = "(A @ h1 # S') @ Bp" and t = t])
    show "ntfs_rl_append mem (A @ h # (Bs @ [t]) @ R) (length A + 1 + length (Bs @ [t])) (S @ T)
        (length S) (length A) = Err ENOMEM \<and> \<not> (\<forall>n. mem n) \<or>
      (\<exists>J. ntfs_rl_append mem (A @ h # (Bs @ [t]) @ R) (length A + 1 + length (Bs @ [t])) (S @ T)
        (length S) (length A) = Ok (((A @ h1 # S') @ Bp) @ t # J))"
      using ntfs_rl_append_list [OF S(1) _ refl sp(1,2) h1_def fixed, of mem R T] by simp
    show "cells ((A @ h1 # S') @ Bp) =
        cells A @ replicate (nat (v - rl_vcn h)) (rl_lcn h) @ cells (S @ Bs)"
      using inner(3) hole hd_vcn by (simp add: h1_def hole_cells)
    show "runs_from 0 ((A @ h1 # S') @ Bp)" "rl_vcn t = runs_len ((A @ h1 # S') @ Bp)"
      using X inner t(3) S(5) hv by (auto simp: add.assoc)
  qed (use t in auto)
qed

lemma split_ok:
  assumes S: "S \<noteq> []" "runs_from v S" "rl_vcn h < v" "v + runs_len S < rl_vcn h + rl_length h"
    and t: "rl_length t = 0" "rl_lcn t < LCN_HOLE" "rl_vcn t = runs_len (A @ h # Bs)"
    and runs: "runs_from 0 (A @ h # Bs)" and hole: "rl_lcn h < 0"
  shows "spliced mem (cells A @ replicate (nat (v - rl_vcn h)) (rl_lcn h) @ cells S @
      replicate (nat (rl_vcn h + rl_length h - (v + runs_len S))) (rl_lcn h) @ cells Bs)
    (ntfs_rl_split mem (A @ h # (Bs @ [t]) @ R)
      (length A + 1 + length (Bs @ [t])) (S @ T) (length S) (length A))"
proof -
  define h1 where "h1 = h\<lparr>rl_length := rl_vcn (hd S) - rl_vcn h\<rparr>"
  define h2 where "h2 = h\<lparr>rl_vcn := rl_vcn (last S) + rl_length (last S),
    rl_length := rl_vcn (hd (Bs @ [t])) - (rl_vcn (last S) + rl_length (last S))\<rparr>"
  have hd_vcn: "rl_vcn (hd S) = v" using S by (cases S) auto
  have hv: "rl_vcn h = runs_len A" using runs by simp
  have nxt: "rl_vcn (hd (Bs @ [t])) = rl_vcn h + rl_length h"
    using runs t(3) hv by (intro hd_terminated) auto
  have lst: "rl_vcn (last S) + rl_length (last S) = v + runs_len S"
    by (rule last_runs_from [OF S(2,1)])
  show ?thesis
  proof (rule splicedI [where X = "A @ h1 # S @ h2 # Bs" and t = t])
    show "ntfs_rl_split mem (A @ h # (Bs @ [t]) @ R) (length A + 1 + length (Bs @ [t])) (S @ T)
        (length S) (length A) = Err ENOMEM \<and> \<not> (\<forall>n. mem n) \<or>
      (\<exists>J. ntfs_rl_split mem (A @ h # (Bs @ [t]) @ R) (length A + 1 + length (Bs @ [t])) (S @ T)
        (length S) (length A) = Ok ((A @ h1 # S @ h2 # Bs) @ t # J))"
      using ntfs_rl_split_list [OF S(1) _ h1_def h2_def, of mem A R T] by simp
    show "runs_from 0 (A @ h1 # S @ h2 # Bs)" "rl_vcn t = runs_len (A @ h1 # S @ h2 # Bs)"
      using runs S hd_vcn hv nxt lst t(3) by (auto simp: h1_def h2_def algebra_simps)
    show "cells (A @ h1 # S @ h2 # Bs) = cells A @ replicate (nat (v - rl_vcn h)) (rl_lcn h) @ cells S @
        replicate (nat (rl_vcn h + rl_length h - (v + runs_len S))) (rl_lcn h) @ cells Bs"
      using hole hd_vcn nxt lst by (simp add: h1_def h2_def hole_cells)
  qed (use t in auto)
qed

lemma insert_end_ok:
  assumes S: "S \<noteq> []" "runs_from v S" "\<forall>e \<in> set S. LCN_HOLE \<le> rl_lcn e" "runs_len A \<le> v"
    and t: "rl_length t = 0" "rl_lcn t = LCN_ENOENT" and runs: "runs_from 0 A"
  shows "spliced mem (cells A @ replicate (nat (v - runs_len A)) LCN_RL_NOT_MAPPED @ cells S)
    (ntfs_rl_insert mem (A @ t # [] @ R) (length A + 1 + length ([] :: runlist)) (S @ T) (length S) (length A))"
proof -
  have hd_vcn: "rl_vcn (hd S) = v" using S by (cases S) auto
  have lst: "A \<noteq> [] \<Longrightarrow> rl_vcn (last A) + rl_length (last A) = runs_len A"
    using last_runs_from [OF runs] by simp
  show ?thesis
  proof (cases "v = runs_len A")
    case True
    define X where "X = join_left A S"
    have X: "runs_from 0 X" "runs_len X = runs_len (A @ S)" "cells X = cells (A @ S)" "X \<noteq> []"
      using runs_join_left [of 0 A S] runs S True by (auto simp: X_def join_left_nonempty)
    have nodisc: "\<not> (if A = [] then 0 < rl_vcn (hd S)
        else rl_vcn (last A) + (rl_length (last A) +
          (if A \<noteq> [] \<and> ntfs_rl_are_mergeable (last A) (hd S) then rl_length (hd S) else 0))
          < rl_vcn (hd S))"
      using lst S hd_vcn True by (cases S) auto
    show ?thesis
    proof (rule splicedI [where X = X and t = "insert_tail X t []"])
      show "ntfs_rl_insert mem (A @ t # [] @ R) (length A + 1 + length ([] :: runlist)) (S @ T) (length S)
          (length A) = Err ENOMEM \<and> \<not> (\<forall>n. mem n) \<or>
        (\<exists>J. ntfs_rl_insert mem (A @ t # [] @ R) (length A + 1 + length ([] :: runlist)) (S @ T) (length S)
          (length A) = Ok (X @ insert_tail X t [] # J))"
        using ntfs_rl_insert_list [OF S(1) refl nodisc refl refl, of t "[]" mem R T] t(2)
        unfolding left_join [OF S(1) refl refl refl] X_def [symmetric] by (simp add: lcn_defs)
    qed (use X t True last_runs_from [OF X(1,4)] in \<open>auto simp: insert_tail_def lcn_defs\<close>)
  next
    case False
    define v0 where "v0 = (if A = [] then 0 else rl_vcn (last A) + rl_length (last A))"
    define gap where "gap = \<lparr>rl_vcn = v0, rl_lcn = LCN_RL_NOT_MAPPED, rl_length = rl_vcn (hd S) - v0\<rparr>"
    have v0: "v0 = runs_len A" "v0 < rl_vcn (hd S)"
      using lst hd_vcn False S(4) by (auto simp: v0_def)
    have "LCN_HOLE \<le> rl_lcn (hd S)" using S(1,3) by (cases S) auto
    then have nomerge: "A = [] \<or> \<not> ntfs_rl_are_mergeable (last A) (hd S)"
      using lst hd_vcn False by (cases "A = []") (auto simp: ntfs_rl_are_mergeable_def lcn_defs)
    show ?thesis
    proof (rule splicedI [where X = "A @ gap # S" and t = "insert_tail S t []"])
      show "ntfs_rl_insert mem (A @ t # [] @ R) (length A + 1 + length ([] :: runlist)) (S @ T) (length S)
          (length A) = Err ENOMEM \<and> \<not> (\<forall>n. mem n) \<or>
        (\<exists>J. ntfs_rl_insert mem (A @ t # [] @ R) (length A + 1 + length ([] :: runlist)) (S @ T) (length S)
          (length A) = Ok ((A @ gap # S) @ insert_tail S t [] # J))"
        using ntfs_rl_insert_gap_list [OF S(1) nomerge v0_def v0(2) _ _ gap_def, of t mem "[]" R T] t(2)
        by (simp add: lcn_defs)
      show "runs_from 0 (A @ gap # S)" "rl_vcn (insert_tail S t []) = runs_len (A @ gap # S)"
        using runs v0 hd_vcn S last_runs_from [OF S(2,1)] t(2)
        by (auto simp: gap_def insert_tail_def lcn_defs)
      show "cells (A @ gap # S) =
          cells A @ replicate (nat (v - runs_len A)) LCN_RL_NOT_MAPPED @ cells S"
        using v0 hd_vcn by (simp add: gap_def hole_cells LCN_RL_NOT_MAPPED_def)
    qed (use t in \<open>auto simp: insert_tail_def lcn_defs\<close>)
  qed
qed

section \<open>The scans\<close>

lemma scan_end_append:
  assumes "\<forall>e \<in> set xs. rl_length e \<noteq> 0" and "rl_length t = 0"
  shows "scan_end (pre @ xs @ t # rest) (length pre) = length pre + length xs"
  using assms
proof (induction xs arbitrary: pre)
  case Nil
  then show ?case by (simp add: scan_end.simps [of "pre @ t # rest" "length pre"])
next
  case (Cons x xs)
  have "scan_end ((pre @ [x]) @ xs @ t # rest) (length (pre @ [x])) = length (pre @ [x]) + length xs"
    by (rule Cons.IH) (use Cons.prems in auto)
  with Cons.prems show ?case by (simp add: scan_end.simps [of _ "length pre"])
qed

lemma skip_unmapped_append:
  assumes "\<forall>e \<in> set xs. rl_length e \<noteq> 0 \<and> rl_lcn e < LCN_HOLE"
    and "LCN_HOLE \<le> rl_lcn y \<or> rl_length y = 0"
  shows "skip_unmapped (pre @ xs @ y # rest) (length pre) = length pre + length xs"
  using assms
proof (induction xs arbitrary: pre)
  case Nil
  then show ?case by (auto simp: skip_unmapped.simps [of "pre @ y # rest" "length pre"])
next
  case (Cons x xs)
  have "skip_unmapped ((pre @ [x]) @ xs @ y # rest) (length (pre @ [x])) = length (pre @ [x]) + length xs"
    by (rule Cons.IH) (use Cons.prems in auto)
  with Cons.prems show ?case by (simp add: skip_unmapped.simps [of _ "length pre"])
qed

lemma skip_before_append:
  assumes "\<forall>e \<in> set xs. rl_length e \<noteq> 0 \<and> rl_vcn e + rl_length e \<le> v"
    and "rl_length y = 0 \<or> v < rl_vcn y + rl_length y"
  shows "skip_before (pre @ xs @ y # rest) v (length pre) = length pre + length xs"
  using assms
proof (induction xs arbitrary: pre)
  case Nil
  then show ?case by (auto simp: skip_before.simps [of "pre @ y # rest" v "length pre"])
next
  case (Cons x xs)
  have "skip_before ((pre @ [x]) @ xs @ y # rest) v (length (pre @ [x])) = length (pre @ [x]) + length xs"
    by (rule Cons.IH) (use Cons.prems in auto)
  with Cons.prems show ?case by (simp add: skip_before.simps [of _ v "length pre"])
qed

lemma runs_from_before:
  assumes "runs_from v xs" and "e \<in> set xs"
  shows "0 < rl_length e \<and> rl_vcn e + rl_length e \<le> v + runs_len xs"
  using assms
proof (induction xs arbitrary: v)
  case (Cons x xs)
  then show ?case
    using runs_len_nonneg [of "v + rl_length x" xs] by (fastforce simp: add.assoc)
qed simp

lemma scan_final_last:
  assumes "S \<noteq> []" and "LCN_HOLE \<le> rl_lcn (last S)" and "rl_lcn t < LCN_HOLE"
  shows "scan_final (U @ S @ t # T) (length U + length S) = int (length U + length S) - 1"
proof -
  obtain S0 s where Ss: "S = S0 @ [s]" using assms(1) by (metis append_butlast_last_id)
  have get: "rl_get (U @ S @ t # T) (Suc (length U + length S0)) = t"
    "rl_get (U @ S @ t # T) (length U + length S0) = s"
    using rl_get_append [of "U @ S0 @ [s]" "t # T" "Suc (length U + length S0)"]
      rl_get_append [of "U @ S0" "s # t # T" "length U + length S0"] by (simp_all add: Ss)
  have "scan_final (U @ S @ t # T) (length U + length S0) = int (length U + length S0)"
    using assms(2) get(2) by (cases "length U + length S0") (simp_all add: Ss)
  with assms(3) get(1) show ?thesis by (simp add: Ss)
qed

section \<open>Merging two runlists\<close>

text \<open>
  The new runlist: possibly some unmapped elements in front, then a contiguous sequence of
  runs and holes from \<open>v\<close> on, then a terminator other than \<open>LCN_ENOENT\<close>. The place for
  it: inside one hole or unmapped run of the old runlist, or at or past its end.
\<close>

definition mapped_extent :: "int \<Rightarrow> runlist \<Rightarrow> runlist \<Rightarrow> bool" where
  "mapped_extent v S srl \<longleftrightarrow> S \<noteq> [] \<and> runs_from v S \<and> (\<forall>e \<in> set S. LCN_HOLE \<le> rl_lcn e) \<and>
     (\<exists>U t T. srl = U @ S @ t # T \<and> (\<forall>e \<in> set U. rl_length e \<noteq> 0 \<and> rl_lcn e < LCN_HOLE) \<and>
        rl_length t = 0 \<and> rl_lcn t < LCN_HOLE \<and> rl_lcn t \<noteq> LCN_ENOENT)"

definition room_for :: "runlist \<Rightarrow> int \<Rightarrow> int \<Rightarrow> bool" where
  "room_for drl v n \<longleftrightarrow>
     (int (length (rl_cells drl)) \<le> v \<and> rl_lcn (rl_end drl) = LCN_ENOENT) \<or>
     (\<exists>h \<in> set (rl_runs drl). rl_lcn h < 0 \<and> rl_vcn h \<le> v \<and> v + n \<le> rl_vcn h + rl_length h)"

lemma merge_dispatch:
  assumes S: "S \<noteq> []" "runs_from v S" "\<forall>e \<in> set S. LCN_HOLE \<le> rl_lcn e"
    and U: "\<forall>e \<in> set U. rl_length e \<noteq> 0 \<and> rl_lcn e < LCN_HOLE"
    and ts: "rl_length ts = 0" "rl_lcn ts < LCN_HOLE" "rl_lcn ts \<noteq> LCN_ENOENT"
    and d: "rl_lcn d < 0" "rl_length d = 0 \<longrightarrow> rl_lcn d < LCN_RL_NOT_MAPPED"
      "rl_length d = 0 \<or> v < rl_vcn d + rl_length d"
    and A: "\<forall>e \<in> set A. rl_length e \<noteq> 0 \<and> rl_vcn e + rl_length e \<le> v"
    and B: "d # B = Ds @ t # R" "\<forall>e \<in> set Ds. rl_length e \<noteq> 0" "rl_length t = 0"
  shows "ntfs_runlists_merge mem (Some (A @ d # B)) (Some (U @ S @ ts # T)) =
    (let ds = length A + length Ds + 1;
         start = (rl_lcn d < LCN_RL_NOT_MAPPED \<or> rl_vcn d = v);
         finish = (LCN_RL_NOT_MAPPED \<le> rl_lcn d \<and> rl_vcn d + rl_length d \<le> v + runs_len S)
     in res_bind
          (if start then
             (if finish then ntfs_rl_replace mem (A @ d # B) ds (S @ ts # T) (length S) (length A)
              else ntfs_rl_insert mem (A @ d # B) ds (S @ ts # T) (length S) (length A))
           else
             (if finish then ntfs_rl_append mem (A @ d # B) ds (S @ ts # T) (length S) (length A)
              else ntfs_rl_split mem (A @ d # B) ds (S @ ts # T) (length S) (length A)))
          (\<lambda>rl. Ok (Some rl)))"
proof -
  let ?srl = "U @ S @ ts # T" and ?drl = "A @ d # B"
  obtain s S1 where Ss: "S = s # S1" using S(1) by (cases S) auto
  have skip: "skip_unmapped ?srl 0 = length U"
    using skip_unmapped_append [OF U, of s "[]" "S1 @ ts # T"] S(3) by (simp add: Ss)
  have first: "rl_get ?srl (length U) = s" "rl_vcn s = v" "rl_length s \<noteq> 0"
    using S(2) by (auto simp: Ss)
  have dins: "skip_before ?drl v 0 = length A"
    using skip_before_append [OF A d(3), of "[]" B] by simp
  have send: "scan_end ?srl (length U) = length U + length S"
    using scan_end_append [of S ts U T] runs_from_nonzero [OF S(2)] ts(1) by force
  have dend: "scan_end ?drl (length A) = length A + length Ds"
    using scan_end_append [OF B(2,3), of A R] B(1) by simp
  have fin: "rl_get ?srl (length U + length S) = ts"
    using rl_get_append [of "U @ S" "ts # T" "length U + length S"] by simp
  have last: "rl_get ?srl (length U + length S - 1) = last S"
    using rl_get_last [of "U @ S" "ts # T"] S(1) by simp
  have lst: "rl_vcn (last S) + rl_length (last S) = v + runs_len S"
    by (rule last_runs_from [OF S(2,1)])
  have sf: "scan_final ?srl (length U + length S) = int (length U + length S) - 1"
    by (rule scan_final_last) (use S ts in auto)
  have ss: "nat (int (length U + length S) - 1 - int (length U) + 1) = length S" by simp
  have "rl_length d = 0 \<Longrightarrow> \<not> LCN_RL_NOT_MAPPED \<le> rl_lcn d" using d(2) by auto
  moreover have "\<not> 0 \<le> rl_lcn d" using d(1) by simp
  ultimately show ?thesis
    unfolding ntfs_runlists_merge_def ntfs_runlists_merge_i_def option.case Let_def
      skip first rl_get_simps dins send dend fin last sf ss lst
    using first ts(3) by (auto simp: split: result.splits)
qed

lemma splice_hole:
  assumes "nat v = length a + i" and "i + length s + j = n"
  shows "take (nat v) ((a @ replicate n l @ b) @ replicate (nat v - length (a @ replicate n l @ b)) z) @
      s @ drop (nat v + length s) (a @ replicate n l @ b) =
    a @ replicate i l @ s @ replicate j l @ b"
proof -
  have "length (replicate n l) = i + length s + j" using assms(2) by simp
  moreover have "replicate n l = replicate i l @ replicate (length s) l @ replicate j l"
    by (simp flip: assms(2) replicate_add)
  ultimately show ?thesis using assms(1) by simp
qed

lemma merge_hole_dispatch:
  assumes S: "S \<noteq> []" "runs_from v S" "\<forall>e \<in> set S. LCN_HOLE \<le> rl_lcn e"
    and U: "\<forall>e \<in> set U. rl_length e \<noteq> 0 \<and> rl_lcn e < LCN_HOLE"
    and ts: "rl_length ts = 0" "rl_lcn ts < LCN_HOLE" "rl_lcn ts \<noteq> LCN_ENOENT"
    and t: "rl_length t = 0"
    and runs: "runs_from 0 (A @ h # Bs)"
    and h: "rl_lcn h < 0" "rl_vcn h \<le> v" "v + runs_len S \<le> rl_vcn h + rl_length h"
  shows "ntfs_runlists_merge mem (Some (A @ h # Bs @ t # R)) (Some (U @ S @ ts # T)) =
     res_bind
          (if rl_vcn h = v then
             (if rl_vcn h + rl_length h = v + runs_len S
              then ntfs_rl_replace mem (A @ h # (Bs @ [t]) @ R) (length A + 1 + length (Bs @ [t])) (S @ ts # T) (length S) (length A)
              else ntfs_rl_insert mem (A @ h # (Bs @ [t]) @ R) (length A + 1 + length (Bs @ [t])) (S @ ts # T) (length S) (length A))
           else
             (if rl_vcn h + rl_length h = v + runs_len S
              then ntfs_rl_append mem (A @ h # (Bs @ [t]) @ R) (length A + 1 + length (Bs @ [t])) (S @ ts # T) (length S) (length A)
              else ntfs_rl_split mem (A @ h # (Bs @ [t]) @ R) (length A + 1 + length (Bs @ [t])) (S @ ts # T) (length S) (length A)))
          (\<lambda>rl. Ok (Some rl))"
proof -
  have hv: "rl_vcn h = runs_len A" "0 < rl_length h" "LCN_RL_NOT_MAPPED \<le> rl_lcn h"
    and A: "runs_from 0 A"
    using runs by auto
  have pos: "0 < runs_len S"
    using S runs_len_nonneg [of _ "tl S"] by (cases S) fastforce+
  have before: "\<forall>e \<in> set A. rl_length e \<noteq> 0 \<and> rl_vcn e + rl_length e \<le> v"
    using runs_from_before [OF A] h(2) hv(1) by fastforce
  have nz: "\<forall>e \<in> set (h # Bs). rl_length e \<noteq> 0"
    using runs_from_nonzero [OF runs] by force
  show ?thesis
    using merge_dispatch [OF S U ts, of h A "Bs @ t # R" "h # Bs" t R mem T] hv h before nz t pos
    by (simp add: Let_def)
qed

lemma merge_into_hole:
  assumes S: "S \<noteq> []" "runs_from v S" "\<forall>e \<in> set S. LCN_HOLE \<le> rl_lcn e"
    and U: "\<forall>e \<in> set U. rl_length e \<noteq> 0 \<and> rl_lcn e < LCN_HOLE"
    and ts: "rl_length ts = 0" "rl_lcn ts < LCN_HOLE" "rl_lcn ts \<noteq> LCN_ENOENT"
    and t: "rl_length t = 0" "rl_lcn t < LCN_HOLE" "rl_vcn t = runs_len (A @ h # Bs)"
    and runs: "runs_from 0 (A @ h # Bs)"
    and h: "rl_lcn h < 0" "rl_vcn h \<le> v" "v + runs_len S \<le> rl_vcn h + rl_length h"
  shows "\<exists>r. spliced mem (cells A @ replicate (nat (v - rl_vcn h)) (rl_lcn h) @ cells S @
        replicate (nat (rl_vcn h + rl_length h - (v + runs_len S))) (rl_lcn h) @ cells Bs) r \<and>
      ntfs_runlists_merge mem (Some (A @ h # Bs @ t # R)) (Some (U @ S @ ts # T)) =
        res_bind r (\<lambda>rl. Ok (Some rl))"
proof -
  let ?d = "A @ h # (Bs @ [t]) @ R" and ?ds = "length A + 1 + length (Bs @ [t])"
  have hv: "rl_vcn h = runs_len A" "0 < rl_length h"
    using runs by auto
  note disp = merge_hole_dispatch [OF S U ts t(1) runs h, of mem R T]
  show ?thesis
  proof (cases "rl_vcn h = v"; cases "rl_vcn h + rl_length h = v + runs_len S")
    assume v: "rl_vcn h = v" and e: "rl_vcn h + rl_length h = v + runs_len S"
    have "spliced mem (cells (A @ S @ Bs)) (ntfs_rl_replace mem ?d ?ds (S @ ts # T) (length S) (length A))"
      by (rule replace_ok) (use S t runs v e hv in \<open>auto simp: add.assoc\<close>)
    then show ?thesis unfolding disp using v e by auto
  next
    assume v: "rl_vcn h = v" and e: "rl_vcn h + rl_length h \<noteq> v + runs_len S"
    have "spliced mem (cells (A @ S) @ replicate (nat (rl_length h - runs_len S)) (rl_lcn h) @ cells Bs)
        (ntfs_rl_insert mem ?d ?ds (S @ ts # T) (length S) (length A))"
      by (rule insert_ok) (use S t runs h v e hv in auto)
    then show ?thesis unfolding disp using v e by auto
  next
    assume v: "rl_vcn h \<noteq> v" and e: "rl_vcn h + rl_length h = v + runs_len S"
    have "spliced mem (cells A @ replicate (nat (v - rl_vcn h)) (rl_lcn h) @ cells (S @ Bs))
        (ntfs_rl_append mem ?d ?ds (S @ ts # T) (length S) (length A))"
      by (rule append_ok) (use S t runs h v e in auto)
    then show ?thesis unfolding disp using v e by auto
  next
    assume v: "rl_vcn h \<noteq> v" and e: "rl_vcn h + rl_length h \<noteq> v + runs_len S"
    have "spliced mem (cells A @ replicate (nat (v - rl_vcn h)) (rl_lcn h) @ cells S @
          replicate (nat (rl_vcn h + rl_length h - (v + runs_len S))) (rl_lcn h) @ cells Bs)
        (ntfs_rl_split mem ?d ?ds (S @ ts # T) (length S) (length A))"
      by (rule split_ok) (use S t runs h v e in auto)
    then show ?thesis unfolding disp using v e by auto
  qed
qed

lemma merge_at_end:
  assumes S: "S \<noteq> []" "runs_from v S" "\<forall>e \<in> set S. LCN_HOLE \<le> rl_lcn e"
    and U: "\<forall>e \<in> set U. rl_length e \<noteq> 0 \<and> rl_lcn e < LCN_HOLE"
    and ts: "rl_length ts = 0" "rl_lcn ts < LCN_HOLE" "rl_lcn ts \<noteq> LCN_ENOENT"
    and t: "rl_length t = 0" "rl_lcn t = LCN_ENOENT" and A: "runs_from 0 A" "runs_len A \<le> v"
  shows "\<exists>r. spliced mem (cells A @ replicate (nat (v - runs_len A)) LCN_RL_NOT_MAPPED @ cells S) r \<and>
      ntfs_runlists_merge mem (Some (A @ t # R)) (Some (U @ S @ ts # T)) =
        res_bind r (\<lambda>rl. Ok (Some rl))"
proof -
  have before: "\<forall>e \<in> set A. rl_length e \<noteq> 0 \<and> rl_vcn e + rl_length e \<le> v"
    using runs_from_before [OF A(1)] A(2) by fastforce
  have "ntfs_runlists_merge mem (Some (A @ t # R)) (Some (U @ S @ ts # T)) =
      res_bind (ntfs_rl_insert mem (A @ t # [] @ R) (length A + 1 + length ([] :: runlist))
        (S @ ts # T) (length S) (length A)) (\<lambda>rl. Ok (Some rl))"
    using merge_dispatch [OF S U ts, of t A R "[]" t R mem T] before t
    by (simp add: lcn_defs)
  with insert_end_ok [OF S A(2) t A(1), of mem R "ts # T"] show ?thesis by metis
qed

text \<open>(C7) Merging a mapped extent into a runlist that has room for it there (inside a hole
  or an unmapped run, or at or past the end) either runs out of memory or gives a
  well-formed runlist whose cells are the old ones with exactly the extent's cells replaced
  and a gap in front of it filled with unmapped cells: nothing else is lost, moved or
  duplicated, whichever of the replace, insert, append and split cases applies.\<close>

theorem ntfs_runlists_merge_splices:
  fixes drl srl :: runlist and v :: int
  defines "c \<equiv> rl_cells drl"
  assumes wf: "wf_rl 0 drl" and src: "mapped_extent v S srl"
    and room: "room_for drl v (runs_len S)"
  shows "(ntfs_runlists_merge mem (Some drl) (Some srl) = Err ENOMEM \<and> \<not> (\<forall>n. mem n)) \<or>
    (\<exists>rl. ntfs_runlists_merge mem (Some drl) (Some srl) = Ok (Some rl) \<and> wf_rl 0 rl \<and>
      rl_cells rl = take (nat v) (c @ replicate (nat v - length c) LCN_RL_NOT_MAPPED) @
        cells S @ drop (nat v + length (cells S)) c)"
proof -
  obtain U ts T where S: "S \<noteq> []" "runs_from v S" "\<forall>e \<in> set S. LCN_HOLE \<le> rl_lcn e"
    and U: "\<forall>e \<in> set U. rl_length e \<noteq> 0 \<and> rl_lcn e < LCN_HOLE"
    and ts: "rl_length ts = 0" "rl_lcn ts < LCN_HOLE" "rl_lcn ts \<noteq> LCN_ENOENT"
    and srl: "srl = U @ S @ ts # T"
    using src by (auto simp: mapped_extent_def)
  obtain rs t R where drl: "drl = rs @ t # R" "runs_from 0 rs" "rl_length t = 0"
    "rl_vcn t = 0 + runs_len rs" "rl_lcn t < LCN_HOLE" "rs = rl_runs drl" "t = rl_end drl"
    by (rule wf_rlE [OF wf])
  have c: "c = cells rs" using drl(6) by (simp add: c_def rl_cells_def)
  let ?new = "take (nat v) (c @ replicate (nat v - length c) LCN_RL_NOT_MAPPED) @
        cells S @ drop (nat v + length (cells S)) c"
  have "\<exists>r. spliced mem ?new r \<and>
      ntfs_runlists_merge mem (Some drl) (Some srl) = res_bind r (\<lambda>rl. Ok (Some rl))"
  proof (cases "int (length c) \<le> v \<and> rl_lcn t = LCN_ENOENT")
    case True
    have "runs_len rs \<le> v" using True length_cells [OF drl(2)] by (simp add: c)
    moreover have "nat (v - runs_len rs) = nat v - length c"
      using length_cells [OF drl(2)] by (simp add: c nat_diff_distrib)
    moreover have "?new = cells rs @ replicate (nat v - length c) LCN_RL_NOT_MAPPED @ cells S"
      using True by (auto simp: c)
    ultimately show ?thesis
      using merge_at_end [OF S U ts drl(3) _ drl(2), of mem R T] True by (simp add: drl(1) srl)
  next
    case False
    then obtain h where h: "h \<in> set rs" "rl_lcn h < 0" "rl_vcn h \<le> v"
      "v + runs_len S \<le> rl_vcn h + rl_length h"
      using room drl(6,7) by (auto simp: room_for_def c_def)
    then obtain A Bs where rs: "rs = A @ h # Bs" by (meson split_list)
    have "rl_vcn h = runs_len A" "0 < rl_length h" "runs_from 0 A" using drl(2) by (auto simp: rs)
    then have "?new = cells A @ replicate (nat (v - rl_vcn h)) (rl_lcn h) @ cells S @
        replicate (nat (rl_vcn h + rl_length h - (v + runs_len S))) (rl_lcn h) @ cells Bs"
      unfolding c rs cells_simps hole_cells [OF h(2)]
      using h length_cells [of 0 A] length_cells [OF S(2)] runs_len_nonneg [OF S(2)]
      by (intro splice_hole) auto
    then show ?thesis
      using merge_into_hole [OF S U ts drl(3,5) _ _ h(2-4), of A Bs mem R T] drl(2,4)
      by (simp add: drl(1) srl rs)
  qed
  then show ?thesis by (auto simp: spliced_def)
qed

text \<open>Clusters for the middle of the hole of \<open>demo_rl\<close>, as a mapping pairs array gives them.\<close>

definition demo_extent :: runlist where
  "demo_extent = [\<lparr>rl_vcn = 3, rl_lcn = 200, rl_length = 2\<rparr>]"

lemma demo_extent_ok:
  "mapped_extent 3 demo_extent (\<lparr>rl_vcn = 0, rl_lcn = LCN_RL_NOT_MAPPED, rl_length = 3\<rparr> # demo_extent @
     [\<lparr>rl_vcn = 5, rl_lcn = LCN_RL_NOT_MAPPED, rl_length = 0\<rparr>])"
  unfolding mapped_extent_def
  by (intro conjI exI [of _ "[\<lparr>rl_vcn = 0, rl_lcn = LCN_RL_NOT_MAPPED, rl_length = 3\<rparr>]"]
      exI [of _ "\<lparr>rl_vcn = 5, rl_lcn = LCN_RL_NOT_MAPPED, rl_length = 0\<rparr>"] exI [of _ "[]"])
    (simp_all add: demo_extent_def lcn_defs)

lemma demo_room: "room_for demo_rl 3 (runs_len demo_extent)"
  by (simp add: room_for_def demo_rl_def demo_extent_def rl_runs_def lcn_defs)

theorem ntfs_runlists_merge_splices_witness:
  "\<exists>rl. ntfs_runlists_merge (\<lambda>n. True) (Some demo_rl)
      (Some (\<lparr>rl_vcn = 0, rl_lcn = LCN_RL_NOT_MAPPED, rl_length = 3\<rparr> # demo_extent @
        [\<lparr>rl_vcn = 5, rl_lcn = LCN_RL_NOT_MAPPED, rl_length = 0\<rparr>])) = Ok (Some rl) \<and>
    wf_rl 0 rl \<and> rl_cells rl = [100, 101, -1, 200, 201, 50]"
  using ntfs_runlists_merge_splices [OF demo_rl_wf demo_extent_ok demo_room, of "\<lambda>n. True"]
  by (simp add: demo_rl_cells demo_extent_def run_cells_def upt_rec)

text \<open>What the merge refuses: a new runlist whose elements are all unmapped gives
  \<open>EINVAL\<close>, and one whose first mapped run starts exactly where the old runlist already has
  allocated clusters gives \<open>ERANGE\<close>; nothing is allocated or changed in either case.\<close>

theorem ntfs_runlists_merge_refuses:
  assumes wf: "wf_rl 0 drl" and U: "\<forall>e \<in> set U. rl_length e \<noteq> 0 \<and> rl_lcn e < LCN_HOLE"
  shows "(rl_length x = 0 \<longrightarrow>
      ntfs_runlists_merge mem (Some drl) (Some (U @ x # T)) = Err EINVAL) \<and>
    (rl_length x \<noteq> 0 \<and> 0 \<le> rl_lcn x \<and> h \<in> set (rl_runs drl) \<and> 0 \<le> rl_lcn h \<and> rl_vcn h = rl_vcn x \<longrightarrow>
      ntfs_runlists_merge mem (Some drl) (Some (U @ x # T)) = Err ERANGE)"
proof (intro conjI impI)
  assume "rl_length x = 0"
  then have "rl_length (rl_get (U @ x # T) (skip_unmapped (U @ x # T) 0)) = 0"
    using skip_unmapped_append [OF U, of x "[]" T] by simp
  then show "ntfs_runlists_merge mem (Some drl) (Some (U @ x # T)) = Err EINVAL"
    by (simp add: ntfs_runlists_merge_def ntfs_runlists_merge_i_def Let_def)
next
  assume x: "rl_length x \<noteq> 0 \<and> 0 \<le> rl_lcn x \<and> h \<in> set (rl_runs drl) \<and> 0 \<le> rl_lcn h \<and> rl_vcn h = rl_vcn x"
  obtain rs t R where drl: "drl = rs @ t # R" "runs_from 0 rs" "rs = rl_runs drl"
    by (rule wf_rlE [OF wf])
  obtain A Bs where rs: "rs = A @ h # Bs" using x drl(3) by (metis split_list)
  have A: "runs_from 0 A" "rl_vcn h = runs_len A" "0 < rl_length h" using drl(2) by (auto simp: rs)
  have "skip_before drl (rl_vcn x) 0 = length A"
    using skip_before_append [of A "rl_vcn x" h "[]" "Bs @ t # R"] runs_from_before [OF A(1)] A x
    by (fastforce simp: drl(1) rs)
  moreover have "skip_unmapped (U @ x # T) 0 = length U"
    using skip_unmapped_append [OF U, of x "[]" T] x by (simp add: lcn_defs)
  ultimately show "ntfs_runlists_merge mem (Some drl) (Some (U @ x # T)) = Err ERANGE"
    using x A by (simp add: ntfs_runlists_merge_def ntfs_runlists_merge_i_def Let_def drl(1) rs)
qed

theorem ntfs_runlists_merge_refuses_witness:
  "ntfs_runlists_merge (\<lambda>n. True) (Some demo_rl) (Some [\<lparr>rl_vcn = 5, rl_lcn = 7, rl_length = 1\<rparr>,
     \<lparr>rl_vcn = 6, rl_lcn = LCN_RL_NOT_MAPPED, rl_length = 0\<rparr>]) = Err ERANGE"
  using ntfs_runlists_merge_refuses [OF demo_rl_wf, of "[]" "\<lparr>rl_vcn = 5, rl_lcn = 7, rl_length = 1\<rparr>"
      "\<lambda>n. True" "[\<lparr>rl_vcn = 6, rl_lcn = LCN_RL_NOT_MAPPED, rl_length = 0\<rparr>]"
      "\<lparr>rl_vcn = 5, rl_lcn = 50, rl_length = 1\<rparr>"]
  by (simp add: demo_rl_def rl_runs_def lcn_defs)

end
