(* ===== verification/Mapping_Pairs_Roundtrip.thy ===== *)
theory Mapping_Pairs_Roundtrip
  imports Mapping_Pairs_Codec Runlist_Merge
begin

text \<open>
  The decompressor undoes the builder, also when the mapping pairs are spread over several
  attribute extents; on untrusted bytes it is safe up to one byte past the attribute.
\<close>

section \<open>Reading numbers\<close>

lemma s64_add: "s64 (s64 a + b) = s64 (a + b)"
  by (simp add: s64_def mod_simps algebra_simps)

lemma deltaxcn_loop_sval:
  assumes "has_bytes attr (Suc (buf + b2)) pre" and "suf \<noteq> []"
    and "\<forall>k \<le> length pre. in_s64 (sval (drop k (pre @ suf)))"
  shows "deltaxcn_loop attr buf b2 (b2 + length pre) (sval suf) = sval (pre @ suf)"
  using assms
proof (induction pre arbitrary: suf rule: rev_induct)
  case Nil
  then show ?case by (cases b2) simp_all
next
  case (snoc x pre)
  have x: "byte_at attr (buf + Suc (b2 + length pre)) = x"
    using has_bytes_at [OF snoc.prems(1), of "length pre"] by (simp add: nth_append add.assoc)
  have "in_s64 (sval (x # suf))"
    using snoc.prems(3) by (auto dest: spec [of _ "length pre"])
  then have step: "s64 (s64 (sval suf * 256) + uint x) = sval (x # suf)"
    unfolding s64_add using snoc.prems(2) by (simp add: sval_Cons mult.commute add.commute)
  have "deltaxcn_loop attr buf b2 (b2 + length pre) (sval (x # suf)) = sval (pre @ x # suf)"
  proof (rule snoc.IH)
    show "has_bytes attr (Suc (buf + b2)) pre" using snoc.prems(1) by (simp add: has_bytes_append)
    show "\<forall>k \<le> length pre. in_s64 (sval (drop k (pre @ x # suf)))"
      using snoc.prems(3) by (auto simp del: drop_append)
  qed simp
  then show ?case using x step by simp
qed

lemma read_deltaxcn_sig_bytes:
  assumes "has_bytes attr (Suc (buf + b2)) (sig_bytes n)" and "in_s64 n"
  shows "read_deltaxcn attr buf b2 (b2 + length (sig_bytes n)) = n"
proof -
  obtain pre x where bs: "sig_bytes n = pre @ [x]"
    using sig_bytes_nonempty(1) [of n] by (metis append_butlast_last_id)
  have x: "byte_at attr (buf + (b2 + length (sig_bytes n))) = x"
    using has_bytes_at [OF assms(1), of "length pre"] by (simp add: bs add.assoc)
  have "deltaxcn_loop attr buf b2 (b2 + length pre) (sval [x]) = sval (pre @ [x])"
    by (rule deltaxcn_loop_sval)
      (use assms sval_drop_sig_bytes [OF assms(2)] in \<open>auto simp: bs has_bytes_append simp del: drop_append\<close>)
  then show ?thesis
    using x sval_sig_bytes [of n] by (simp add: read_deltaxcn_def bs)
qed

section \<open>Reading pairs\<close>

lemma unat_header:
  "a \<le> 8 \<Longrightarrow> b \<le> 8 \<Longrightarrow> unat (word_of_nat (16 * b + a) :: u8) = 16 * b + a"
  by (simp add: unsigned_of_nat take_bit_nat_eq_self del: of_nat_add of_nat_mult)

lemma mp_step_pair:
  assumes mem: "\<forall>n. mem n" and bytes: "has_bytes attr (mp_buf s) (pair_bytes len lcn)"
    and fin: "mp_buf s + length (pair_bytes len lcn) \<le> attr_end"
    and len: "0 < len" "in_s64 len"
    and lcn: "\<And>l. lcn = Some l \<Longrightarrow> in_s64 l \<and> -1 \<le> mp_lcn s + l \<and> in_s64 (mp_lcn s + l)"
  shows "\<exists>rlsize. mp_step mem attr attr_end s = Ok \<lparr>mp_buf = mp_buf s + length (pair_bytes len lcn),
    mp_vcn = s64 (mp_vcn s + len),
    mp_lcn = (case lcn of None \<Rightarrow> mp_lcn s | Some l \<Rightarrow> mp_lcn s + l),
    mp_rl = rl_put (mp_rl s) (mp_rlpos s) \<lparr>rl_vcn = mp_vcn s,
      rl_lcn = (case lcn of None \<Rightarrow> LCN_HOLE | Some l \<Rightarrow> mp_lcn s + l), rl_length = len\<rparr>,
    mp_rlpos = rlpos_next (mp_rlpos s), mp_rlsize = rlsize\<rparr> \<and> byte_at attr (mp_buf s) \<noteq> 0"
proof -
  let ?p = "mp_buf s" and ?a = "sig_bytes len"
  let ?b = "case lcn of None \<Rightarrow> [] | Some l \<Rightarrow> sig_bytes l"
  have la: "length ?a \<le> 8" "0 < length ?a" using sig_bytes_s64 [OF len(2)] by auto
  have lb: "length ?b \<le> 8" using sig_bytes_s64 lcn by (cases lcn) auto
  have hb: "byte_at attr ?p = word_of_nat (16 * length ?b + length ?a)"
    "has_bytes attr (Suc ?p) ?a" "has_bytes attr (Suc (?p + length ?a)) ?b"
    using bytes by (auto simp: pair_bytes_def Let_def has_bytes_Cons has_bytes_append)
  have hdr: "unat (byte_at attr ?p) = 16 * length ?b + length ?a"
    unfolding hb(1) by (rule unat_header [OF la(1) lb])
  have lens: "unat (byte_at attr ?p) mod 16 = length ?a" "unat (byte_at attr ?p) div 16 = length ?b"
    using la lb by (simp_all add: hdr)
  have rlen: "read_deltaxcn attr ?p 0 (length ?a) = len"
    using read_deltaxcn_sig_bytes [of attr ?p 0 len] hb(2) len(2) by simp
  have rlcn: "read_deltaxcn attr ?p (length ?a) (length ?a + length ?b) = l" if "lcn = Some l" for l
    using read_deltaxcn_sig_bytes [of attr ?p "length ?a" l] hb(3) lcn [OF that] that by simp
  have inside: "?p + length ?a < length attr" "?p + (length ?a + length ?b) < length attr"
    "?p + length (pair_bytes len lcn) = ?p + length ?a + length ?b + 1"
    using bytes by (auto simp: has_bytes_def pair_bytes_def Let_def)
  have nz: "byte_at attr ?p \<noteq> 0" using hdr la(2) by (metis add_is_0 less_numeral_extra(3) unsigned_0)
  show ?thesis
    using mem fin inside la len rlen rlcn lcn nz unfolding mp_step_def lens Let_def
    by (cases lcn) auto
qed

text \<open>Cluster numbers that fit in 64 bits.\<close>

definition runs_s64 :: "runlist \<Rightarrow> bool" where
  "runs_s64 rs \<longleftrightarrow> (\<forall>e \<in> set rs. rl_lcn e + rl_length e < 2 ^ 63)"

lemma runs_s64_simps [simp]:
  "runs_s64 []" "runs_s64 (e # es) \<longleftrightarrow> rl_lcn e + rl_length e < 2 ^ 63 \<and> runs_s64 es"
  "runs_s64 (xs @ ys) \<longleftrightarrow> runs_s64 xs \<and> runs_s64 ys"
  by (auto simp: runs_s64_def)

lemma runs_s64_at: "runs_s64 rs \<Longrightarrow> runs_s64 (runs_at x rs)"
  by (induction rs) auto

lemma mp_loop_encode:
  assumes "\<forall>n. mem n" and "runs_from v rs" and "mapped_runs rs" and "runs_s64 rs"
    and "0 \<le> v" and "v + runs_len rs < 2 ^ 63" and "-1 \<le> prev" and "prev < 2 ^ 63"
    and "has_bytes attr (mp_buf s) (mp_encode major_ver prev rs @ [0])"
    and "mp_buf s + length (mp_encode major_ver prev rs) < attr_end"
    and "mp_vcn s = v" and "mp_lcn s = prev" and "mp_rlpos s = length (mp_rl s)"
    and "length (mp_rl s) + length rs < 65536"
  shows "\<exists>s'. mp_loop mem attr attr_end s = Ok s' \<and>
    mp_buf s' = mp_buf s + length (mp_encode major_ver prev rs) \<and> mp_vcn s' = v + runs_len rs \<and>
    mp_rl s' = mp_rl s @ rs \<and> mp_rlpos s' = length (mp_rl s')"
  using assms
proof (induction rs arbitrary: v prev s)
  case Nil
  from Nil.prems(9-13) show ?case
    by (simp add: mp_loop.simps [of mem attr attr_end s] has_bytes_Cons)
next
  case (Cons e rs)
  define lcn where "lcn = (if 0 \<le> rl_lcn e \<or> major_ver < 3 then Some (rl_lcn e - prev) else None)"
  define nxt where "nxt = (if 0 \<le> rl_lcn e \<or> major_ver < 3 then rl_lcn e else prev)"
  let ?pb = "pair_bytes (rl_length e) lcn"
  have enc: "mp_encode major_ver prev (e # rs) = ?pb @ mp_encode major_ver nxt rs"
    by (simp add: lcn_def nxt_def)
  have e: "0 < rl_length e" "-1 \<le> rl_lcn e" "rl_lcn e + rl_length e < 2 ^ 63" "rl_vcn e = v"
    using Cons.prems(2-4) by (simp_all add: LCN_HOLE_def)
  have nn: "0 \<le> runs_len rs" using Cons.prems(2) runs_len_nonneg by auto
  have v: "s64 (v + rl_length e) = v + rl_length e" "in_s64 (rl_length e)"
    using Cons.prems(5,6) e nn by (auto intro!: s64_id simp: in_s64_def)
  have hb: "has_bytes attr (mp_buf s) ?pb"
    "has_bytes attr (mp_buf s + length ?pb) (mp_encode major_ver nxt rs @ [0])"
    using Cons.prems(9) unfolding enc append_assoc has_bytes_append by auto
  have nz: "mp_buf s < attr_end" "mp_buf s < length attr"
    "mp_buf s + length ?pb + length (mp_encode major_ver nxt rs) < attr_end"
    using Cons.prems(10) hb(1) unfolding enc
    by (auto simp: has_bytes_def pair_bytes_def Let_def)
  have elem: "\<lparr>rl_vcn = mp_vcn s,
      rl_lcn = (case lcn of None \<Rightarrow> LCN_HOLE | Some l \<Rightarrow> mp_lcn s + l), rl_length = rl_length e\<rparr> = e"
    using e Cons.prems(11,12) by (cases e) (auto simp: lcn_def LCN_HOLE_def)
  have nxt_eq: "(case lcn of None \<Rightarrow> mp_lcn s | Some l \<Rightarrow> mp_lcn s + l) = nxt"
    using Cons.prems(12) by (simp add: lcn_def nxt_def)
  have pos: "rlpos_next (mp_rlpos s) = length (mp_rl s @ [e])" "rl_put (mp_rl s) (mp_rlpos s) e = mp_rl s @ [e]"
    using Cons.prems(13,14) by (simp_all add: rlpos_next_def rl_put_def)
  obtain rlsize where step: "mp_step mem attr attr_end s = Ok \<lparr>mp_buf = mp_buf s + length ?pb,
      mp_vcn = v + rl_length e, mp_lcn = nxt, mp_rl = mp_rl s @ [e],
      mp_rlpos = length (mp_rl s @ [e]), mp_rlsize = rlsize\<rparr>" "byte_at attr (mp_buf s) \<noteq> 0"
  proof -
    have "\<exists>rlsize. mp_step mem attr attr_end s = Ok \<lparr>mp_buf = mp_buf s + length ?pb,
      mp_vcn = s64 (mp_vcn s + rl_length e),
      mp_lcn = (case lcn of None \<Rightarrow> mp_lcn s | Some l \<Rightarrow> mp_lcn s + l),
      mp_rl = rl_put (mp_rl s) (mp_rlpos s) \<lparr>rl_vcn = mp_vcn s,
        rl_lcn = (case lcn of None \<Rightarrow> LCN_HOLE | Some l \<Rightarrow> mp_lcn s + l), rl_length = rl_length e\<rparr>,
      mp_rlpos = rlpos_next (mp_rlpos s), mp_rlsize = rlsize\<rparr> \<and> byte_at attr (mp_buf s) \<noteq> 0"
      by (rule mp_step_pair [OF Cons.prems(1) hb(1)])
        (use nz e v Cons.prems(7,8,12) in \<open>auto simp: lcn_def in_s64_def split: if_splits\<close>)
    then show thesis
      unfolding elem nxt_eq pos unfolding Cons.prems(11) v(1) using that by auto
  qed
  let ?t = "\<lparr>mp_buf = mp_buf s + length ?pb,
      mp_vcn = v + rl_length e, mp_lcn = nxt, mp_rl = mp_rl s @ [e],
      mp_rlpos = length (mp_rl s @ [e]), mp_rlsize = rlsize\<rparr>"
  have "\<exists>s'. mp_loop mem attr attr_end ?t = Ok s' \<and>
    mp_buf s' = mp_buf ?t + length (mp_encode major_ver nxt rs) \<and> mp_vcn s' = v + rl_length e + runs_len rs \<and>
    mp_rl s' = mp_rl ?t @ rs \<and> mp_rlpos s' = length (mp_rl s')"
    by (rule Cons.IH) (use Cons.prems e hb nz nn in \<open>auto simp: nxt_def\<close>)
  then show ?case
    using step nz unfolding enc by (simp add: mp_loop.simps [of mem attr attr_end s] add.assoc)
qed

section \<open>Decompressing an extent\<close>

text \<open>The number of clusters the first extent promises.\<close>

definition attr_clusters :: "nat \<Rightarrow> nat \<Rightarrow> bytes \<Rightarrow> int" where
  "attr_clusters cluster_size bits attr =
     s64 (attr_allocated_size attr + int cluster_size - 1) div 2 ^ bits"

text \<open>An attribute extent that holds the mapping pairs of \<open>rs\<close>, which start at \<open>x\<close>.\<close>

definition extent_attr :: "int \<Rightarrow> bytes \<Rightarrow> int \<Rightarrow> runlist \<Rightarrow> bool" where
  "extent_attr major_ver attr x rs \<longleftrightarrow> 48 \<le> length attr \<and> attr_non_resident attr \<and> attr_lowest_vcn attr = x \<and>
     attr_highest_vcn attr = x + runs_len rs - 1 \<and>
     has_bytes attr (attr_mapping_pairs_offset attr) (mp_encode major_ver 0 rs @ [0]) \<and>
     attr_mapping_pairs_offset attr + length (mp_encode major_ver 0 rs) < attr_length attr"

definition codable :: "int \<Rightarrow> runlist \<Rightarrow> bool" where
  "codable x rs \<longleftrightarrow> 0 \<le> x \<and> runs_from x rs \<and> mapped_runs rs \<and> runs_s64 rs \<and>
     x + runs_len rs < 2 ^ 63 \<and> length rs < 65000"

definition extent_runlist :: "int \<Rightarrow> runlist \<Rightarrow> int \<Rightarrow> runlist" where
  "extent_runlist x rs n =
     (if x \<noteq> 0 then \<lparr>rl_vcn = 0, rl_lcn = LCN_RL_NOT_MAPPED, rl_length = x\<rparr> # rs @
        [\<lparr>rl_vcn = x + runs_len rs, rl_lcn = LCN_RL_NOT_MAPPED, rl_length = 0\<rparr>]
      else rs @ (if runs_len rs < n
          then [\<lparr>rl_vcn = runs_len rs, rl_lcn = LCN_RL_NOT_MAPPED, rl_length = n - runs_len rs\<rparr>] else []) @
        [\<lparr>rl_vcn = n, rl_lcn = LCN_ENOENT, rl_length = 0\<rparr>])"

lemma s64_div_less:
  assumes "in_s64 y"
  shows "y div 2 ^ b < 2 ^ 63"
proof -
  have "y div 2 ^ b * 2 ^ b \<le> y" by (simp add: minus_mod_eq_div_mult [symmetric])
  also have "y < 2 ^ 63 * 1" using assms by (simp add: in_s64_def)
  also have "\<dots> \<le> 2 ^ 63 * 2 ^ b" by (intro mult_left_mono) simp_all
  finally show ?thesis by (simp only: mult_less_cancel_right) simp
qed

lemma rl_put_end: "pos = length rl \<Longrightarrow> rl_put rl pos e = rl @ [e]"
  by (simp add: rl_put_def)

lemma decompress_extent:
  assumes mem: "\<forall>n. mem n" and attr: "extent_attr major_ver attr x rs" and rs: "codable x rs"
    and n: "x = 0 \<Longrightarrow> runs_len rs \<le> attr_clusters cs bits attr"
  shows "ntfs_mapping_pairs_decompress mem cs bits (Some attr) old =
    (if old = None then Ok (Some (extent_runlist x rs (attr_clusters cs bits attr)))
     else ntfs_runlists_merge mem old (Some (extent_runlist x rs (attr_clusters cs bits attr))))"
proof -
  let ?n = "attr_clusters cs bits attr" and ?mpo = "attr_mapping_pairs_offset attr"
  have lo: "attr_lowest_vcn attr = x" "attr_non_resident attr" "attr_highest_vcn attr = x + runs_len rs - 1"
    and mpo: "?mpo + length (mp_encode major_ver 0 rs) < attr_length attr" and hdr: "48 \<le> length attr"
    using attr by (simp_all add: extent_attr_def)
  have x: "0 \<le> x" "0 \<le> runs_len rs" "x + runs_len rs < 2 ^ 63"
    using rs runs_len_nonneg by (auto simp: codable_def)
  have n64: "in_s64 (?n - runs_len rs)" "in_s64 ?n" if "x = 0"
  proof -
    have "?n < 2 ^ 63" unfolding attr_clusters_def by (rule s64_div_less) simp
    then show "in_s64 (?n - runs_len rs)" "in_s64 ?n"
      using n [OF that] x by (auto simp: in_s64_def)
  qed
  let ?s = "mp_start attr"
  have "\<exists>s'. mp_loop mem attr (attr_length attr) ?s = Ok s' \<and>
    mp_buf s' = mp_buf ?s + length (mp_encode major_ver 0 rs) \<and> mp_vcn s' = x + runs_len rs \<and>
    mp_rl s' = mp_rl ?s @ rs \<and> mp_rlpos s' = length (mp_rl s')"
    by (rule mp_loop_encode)
      (use mem attr rs in \<open>auto simp: extent_attr_def codable_def mp_start_def Let_def\<close>)
  then obtain s' where s': "mp_loop mem attr (attr_length attr) ?s = Ok s'"
    "mp_buf s' = ?mpo + length (mp_encode major_ver 0 rs)" "mp_vcn s' = x + runs_len rs"
    "mp_rl s' = mp_rl ?s @ rs" "mp_rlpos s' = length (mp_rl s')"
    by (auto simp: mp_start_def Let_def)
  have rlpos: "rlpos_next (mp_rlpos s') = Suc (length (mp_rl s'))"
    using s'(4,5) rs by (simp add: rlpos_next_def mp_start_def Let_def codable_def)
  have hi: "s64 (mp_vcn s' - 1) = attr_highest_vcn attr"
    unfolding s'(3) lo(3) by (rule s64_id) (use x in \<open>simp add: in_s64_def\<close>)
  have "mp_finish cs bits attr (attr_length attr) s' = Ok (extent_runlist x rs ?n)"
  proof (cases "x = 0")
    case True
    have c: "s64 (?n - mp_vcn s') = ?n - runs_len rs" "s64 (mp_vcn s' + s64 (?n - mp_vcn s')) = ?n"
      using n64 [OF True] by (simp_all add: s'(3) True)
    show ?thesis
      unfolding mp_finish_def Let_def attr_clusters_def [symmetric] c
      using hi mpo hdr s'(2-5) rlpos n [OF True] n64 [OF True] lo(1)
      by (auto simp: True rl_put_end extent_runlist_def mp_start_def Let_def)
  next
    case False
    then show ?thesis
      unfolding mp_finish_def Let_def using hi mpo s'(2-5) lo(1)
      by (auto simp: rl_put_end extent_runlist_def mp_start_def Let_def)
  qed
  then show ?thesis
    using s'(1) lo x mpo hdr mem
    by (simp add: ntfs_mapping_pairs_decompress_def ntfs_mapping_pairs_decompress_i_def)
qed

lemma extent_runlist_wf:
  assumes rs: "codable x rs" and n: "x = 0 \<Longrightarrow> runs_len rs \<le> n"
  shows "wf_rl 0 (extent_runlist x rs n) \<and>
    rl_cells (extent_runlist x rs n) =
      replicate (nat x) LCN_RL_NOT_MAPPED @ cells rs @
      replicate (nat (if x = 0 then n - runs_len rs else 0)) LCN_RL_NOT_MAPPED \<and>
    rl_lcn (rl_end (extent_runlist x rs n)) = (if x = 0 then LCN_ENOENT else LCN_RL_NOT_MAPPED)"
proof -
  define X where "X = (if x \<noteq> 0 then \<lparr>rl_vcn = 0, rl_lcn = LCN_RL_NOT_MAPPED, rl_length = x\<rparr> # rs
    else rs @ (if runs_len rs < n
      then [\<lparr>rl_vcn = runs_len rs, rl_lcn = LCN_RL_NOT_MAPPED, rl_length = n - runs_len rs\<rparr>] else []))"
  define t where "t = \<lparr>rl_vcn = (if x = 0 then n else x + runs_len rs),
    rl_lcn = (if x = 0 then LCN_ENOENT else LCN_RL_NOT_MAPPED), rl_length = 0\<rparr>"
  have e: "extent_runlist x rs n = X @ [t]" by (simp add: extent_runlist_def X_def t_def)
  have X: "runs_from 0 X" "runs_len X = rl_vcn t"
    using rs n by (auto simp: X_def t_def codable_def)
  have t: "rl_length t = 0" "rl_lcn t < LCN_HOLE" by (simp_all add: t_def lcn_defs)
  have c: "cells X = replicate (nat x) LCN_RL_NOT_MAPPED @ cells rs @
      replicate (nat (if x = 0 then n - runs_len rs else 0)) LCN_RL_NOT_MAPPED"
    by (auto simp: X_def hole_cells LCN_RL_NOT_MAPPED_def)
  show ?thesis
    using wf_rlI [OF X(1) t(1) _ t(2), of "[]"] rl_runs_shape [OF X(1) t(1), of "[]"] X(2) c
    unfolding e by (simp add: t_def)
qed

lemma codable_at:
  assumes "codable 0 rs" and "0 \<le> x" and "x \<le> runs_len rs"
  shows "codable x (runs_at x rs)"
proof -
  have "length (runs_at x rs) \<le> length rs" by (induction rs) auto
  then show ?thesis
    using assms runs_at_cells [of 0 rs x] mapped_runs_at [of rs x] runs_s64_at [of rs x]
    by (simp add: codable_def)
qed

text \<open>(C8) Round trip: when \<open>ntfs_mapping_pairs_build\<close> succeeds from virtual cluster \<open>x\<close>
  on, an attribute record with a whole header that holds its output decompresses to a well-formed runlist with
  exactly the cells of the original from \<open>x\<close> on, the clusters before it unmapped; this
  holds for both ways (before and from NTFS 3.0 on) of writing holes.\<close>

theorem mapping_pairs_roundtrip:
  assumes wf: "wf_rl 0 rl" "codable 0 (rl_runs rl)" and x: "0 \<le> x" "x \<le> int (length (rl_cells rl))"
    and build: "ntfs_mapping_pairs_build major_ver buf (Some rl) x = Ok b" "mb_errno b = None" "buf \<noteq> []"
    and attr: "48 \<le> length attr" "attr_non_resident attr" "attr_lowest_vcn attr = x"
      "attr_highest_vcn attr = int (length (rl_cells rl)) - 1"
      "has_bytes attr (attr_mapping_pairs_offset attr) (mb_dst b)"
      "attr_mapping_pairs_offset attr + length buf \<le> attr_length attr"
      "x = 0 \<longrightarrow> attr_clusters cs bits attr = int (length (rl_cells rl))"
    and mem: "\<forall>n. mem n"
  shows "\<exists>rl'. ntfs_mapping_pairs_decompress mem cs bits (Some attr) None = Ok (Some rl') \<and> wf_rl 0 rl' \<and>
    rl_cells rl' = replicate (nat x) LCN_RL_NOT_MAPPED @ drop (nat x) (rl_cells rl)"
proof -
  obtain rs t rest where rl: "rl = rs @ t # rest" "runs_from 0 rs" "rl_length t = 0"
    "rl_vcn t = 0 + runs_len rs" "rs = rl_runs rl"
    by (rule wf_rlE [OF wf(1)])
  have c: "rl_cells rl = cells rs" "int (length (rl_cells rl)) = runs_len rs"
    using length_cells [OF rl(2)] unfolding rl_cells_def rl(5) [symmetric] by simp_all
  have ok: "codable x (runs_at x rs)"
    using codable_at [OF wf(2), of x] x c(2) unfolding rl(5) [symmetric] by simp
  have at: "runs_len (runs_at x rs) = runs_len rs - x" "cells (runs_at x rs) = drop (nat x) (cells rs)"
    using runs_at_cells [OF rl(2), of x] x c(2) by auto
  have b: "length (mp_encode major_ver 0 (runs_at x rs)) < length buf" "length (mb_dst b) = length buf"
    "take (length (mp_encode major_ver 0 (runs_at x rs)) + 1) (mb_dst b) =
       mp_encode major_ver 0 (runs_at x rs) @ [0]"
    using build_at_rl [OF wf(1) _ x build(3), of major_ver] wf(2) build(1,2)
    unfolding rl(5) [symmetric] by (auto simp: codable_def split: if_splits)
  have "has_bytes attr (attr_mapping_pairs_offset attr) (mp_encode major_ver 0 (runs_at x rs) @ [0])"
    using has_bytes_take [OF attr(5)] b(3) by metis
  then have "extent_attr major_ver attr x (runs_at x rs)"
    using attr(1-6) b(1) at(1) c(2) by (simp add: extent_attr_def)
  moreover have n: "runs_len (runs_at x rs) \<le> attr_clusters cs bits attr" if "x = 0"
    using that attr(7) at(1) c(2) by simp
  ultimately have "ntfs_mapping_pairs_decompress mem cs bits (Some attr) None =
      Ok (Some (extent_runlist x (runs_at x rs) (attr_clusters cs bits attr)))"
    using decompress_extent [OF mem _ ok, of major_ver attr cs bits None] by simp
  with extent_runlist_wf [OF ok n] show ?thesis
    using attr(7) at c by (cases "x = 0") auto
qed

text \<open>A non-resident attribute record with the given fields and mapping pairs.\<close>

definition mk_attr :: "nat \<Rightarrow> nat \<Rightarrow> nat \<Rightarrow> bytes \<Rightarrow> bytes" where
  "mk_attr lowest highest allocated pairs =
     le_bytes 4 128 @ le_bytes 4 (64 + length pairs) @ [1, 0] @ le_bytes 6 0 @ le_bytes 8 lowest @
     le_bytes 8 highest @ le_bytes 2 64 @ replicate 6 0 @ le_bytes 8 allocated @ le_bytes 8 allocated @
     le_bytes 8 allocated @ pairs"

lemma mk_attr_bytes:
  "has_bytes (mk_attr lowest highest allocated pairs) 4 (le_bytes 4 (64 + length pairs))"
  "has_bytes (mk_attr lowest highest allocated pairs) 16 (le_bytes 8 lowest)"
  "has_bytes (mk_attr lowest highest allocated pairs) 24 (le_bytes 8 highest)"
  "has_bytes (mk_attr lowest highest allocated pairs) 32 (le_bytes 2 64)"
  "has_bytes (mk_attr lowest highest allocated pairs) 40 (le_bytes 8 allocated)"
  "has_bytes (mk_attr lowest highest allocated pairs) 64 pairs"
  "byte_at (mk_attr lowest highest allocated pairs) 8 = 1"
  unfolding mk_attr_def
  by (simp_all add: has_bytes_def byte_at_def nth_append del: le_bytes.simps)

lemma length_mk_attr [simp]: "length (mk_attr lowest highest allocated pairs) = 64 + length pairs"
  by (simp add: mk_attr_def)

lemma mk_attr_fields:
  assumes "int lowest < 2 ^ 63" and "int highest < 2 ^ 63" and "int allocated < 2 ^ 63" and "length pairs < 65536"
  shows "attr_non_resident (mk_attr lowest highest allocated pairs)"
    "attr_lowest_vcn (mk_attr lowest highest allocated pairs) = int lowest"
    "attr_highest_vcn (mk_attr lowest highest allocated pairs) = int highest"
    "attr_allocated_size (mk_attr lowest highest allocated pairs) = int allocated"
    "attr_mapping_pairs_offset (mk_attr lowest highest allocated pairs) = 64"
    "attr_length (mk_attr lowest highest allocated pairs) = 64 + length pairs"
  using assms mk_attr_bytes [of lowest highest allocated pairs]
  by (simp_all add: attr_non_resident_def attr_lowest_vcn_def attr_highest_vcn_def
      attr_mapping_pairs_offset_def attr_length_def attr_allocated_size_def has_bytes_le_at le_simps s64_def)

lemma demo_build:
  "ntfs_mapping_pairs_build 3 (replicate 24 0) (Some demo_rl) 0 = Ok \<lparr>mb_errno = None,
     mb_dst = [0x11, 2, 100, 1, 3, 0x11, 1, 0xce, 0] @ replicate 15 0,
     mb_stop = Some [\<lparr>rl_vcn = 6, rl_lcn = LCN_ENOENT, rl_length = 0\<rparr>]\<rparr>"
  by code_simp

lemma demo_rl_codable: "codable 0 (rl_runs demo_rl)"
  by (simp add: codable_def demo_rl_def rl_runs_def lcn_defs)

theorem mapping_pairs_roundtrip_witness:
  "\<exists>rl'. ntfs_mapping_pairs_decompress (\<lambda>n. True) 4096 12 (Some (mk_attr 0 5 24576
         ([0x11, 2, 100, 1, 3, 0x11, 1, 0xce, 0] @ replicate 15 0))) None = Ok (Some rl') \<and>
     wf_rl 0 rl' \<and> rl_cells rl' = [100, 101, -1, -1, -1, 50]"
  using mapping_pairs_roundtrip [OF demo_rl_wf demo_rl_codable _ _ demo_build, of
      "mk_attr 0 5 24576 ([0x11, 2, 100, 1, 3, 0x11, 1, 0xce, 0] @ replicate 15 0)" 4096 12 "\<lambda>n. True"]
    mk_attr_fields [of 0 5 24576 "[0x11, 2, 100, 1, 3, 0x11, 1, 0xce, 0] @ replicate 15 0"]
    mk_attr_bytes(6) [of 0 5 24576 "[0x11, 2, 100, 1, 3, 0x11, 1, 0xce, 0] @ replicate 15 0"]
  by (simp add: demo_rl_cells attr_clusters_def s64_def)

section \<open>Loading several extents\<close>

text \<open>The extents of an attribute, in order, each with the runs it holds.\<close>

fun extents_from :: "int \<Rightarrow> int \<Rightarrow> (bytes \<times> runlist) list \<Rightarrow> bool" where
  "extents_from major_ver x [] = True"
| "extents_from major_ver x ((attr, rs) # es) \<longleftrightarrow>
     extent_attr major_ver attr x rs \<and> codable x rs \<and> rs \<noteq> [] \<and>
     extents_from major_ver (x + runs_len rs) es"

fun load_extents ::
    "(nat \<Rightarrow> bool) \<Rightarrow> nat \<Rightarrow> nat \<Rightarrow> runlist option \<Rightarrow> bytes list \<Rightarrow> runlist option result" where
  "load_extents mem cs bits old [] = Ok old"
| "load_extents mem cs bits old (attr # attrs) =
     res_bind (ntfs_mapping_pairs_decompress mem cs bits (Some attr) old)
       (\<lambda>rl. load_extents mem cs bits rl attrs)"

text \<open>What is loaded after some of them: their runs, and one unmapped run for the rest.\<close>

definition partly_loaded :: "int list \<Rightarrow> int \<Rightarrow> int \<Rightarrow> runlist \<Rightarrow> bool" where
  "partly_loaded c x n rl \<longleftrightarrow> (\<exists>A h t J. rl = A @ h # t # J \<and> runs_from 0 A \<and> runs_len A = x \<and>
     cells A = c \<and> h = \<lparr>rl_vcn = x, rl_lcn = LCN_RL_NOT_MAPPED, rl_length = n - x\<rparr> \<and> x < n \<and>
     rl_length t = 0 \<and> rl_lcn t = LCN_ENOENT \<and> rl_vcn t = n)"

lemma pos_runs: "runs_from v rs \<Longrightarrow> rs \<noteq> [] \<Longrightarrow> 0 < runs_len rs"
  by (cases rs) (auto dest: runs_len_nonneg)

lemma load_next_extent:
  assumes mem: "\<forall>n. mem n" and attr: "extent_attr major_ver attr x rs" and rs: "codable x rs" "rs \<noteq> []"
    and x: "0 < x" "x + runs_len rs \<le> n" and old: "partly_loaded c x n old"
  shows "\<exists>rl. ntfs_mapping_pairs_decompress mem cs bits (Some attr) (Some old) = Ok (Some rl) \<and>
    (if x + runs_len rs = n then wf_rl 0 rl \<and> rl_cells rl = c @ cells rs
     else partly_loaded (c @ cells rs) (x + runs_len rs) n rl)"
proof -
  obtain A h t J where o: "old = A @ h # t # J" "runs_from 0 A" "runs_len A = x" "cells A = c"
    "h = \<lparr>rl_vcn = x, rl_lcn = LCN_RL_NOT_MAPPED, rl_length = n - x\<rparr>" "x < n"
    "rl_length t = 0" "rl_lcn t = LCN_ENOENT" "rl_vcn t = n"
    using old by (auto simp: partly_loaded_def)
  define U where "U = [\<lparr>rl_vcn = 0, rl_lcn = LCN_RL_NOT_MAPPED, rl_length = x\<rparr>]"
  define ts where "ts = \<lparr>rl_vcn = x + runs_len rs, rl_lcn = LCN_RL_NOT_MAPPED, rl_length = 0\<rparr>"
  have S: "rs \<noteq> []" "runs_from x rs" "\<forall>e \<in> set rs. LCN_HOLE \<le> rl_lcn e"
    using rs by (auto simp: codable_def mapped_runs_def)
  have U: "\<forall>e \<in> set U. rl_length e \<noteq> 0 \<and> rl_lcn e < LCN_HOLE"
    using x(1) by (simp add: U_def lcn_defs)
  have ts: "rl_length ts = 0" "rl_lcn ts < LCN_HOLE" "rl_lcn ts \<noteq> LCN_ENOENT"
    by (simp_all add: ts_def lcn_defs)
  have runs: "runs_from 0 (A @ h # [])" using o by simp
  have h: "rl_lcn h < 0" "rl_vcn h \<le> x" "x + runs_len rs \<le> rl_vcn h + rl_length h"
    using o(5) x(2) by (simp_all add: lcn_defs)
  have d: "ntfs_mapping_pairs_decompress mem cs bits (Some attr) (Some old) =
      ntfs_runlists_merge mem (Some (A @ h # [] @ t # J)) (Some (U @ rs @ ts # []))"
    using decompress_extent [OF mem attr rs(1), of cs bits "Some old"] x(1)
    by (simp add: extent_runlist_def U_def ts_def o(1))
  show ?thesis
  proof (cases "x + runs_len rs = n")
    case True
    then obtain r where "spliced mem (c @ cells rs) r"
      "ntfs_runlists_merge mem (Some (A @ h # [] @ t # J)) (Some (U @ rs @ ts # [])) =
        res_bind r (\<lambda>rl. Ok (Some rl))"
      using merge_into_hole [OF S U ts o(7) _ _ runs h, of mem J "[]"] o by (auto simp: lcn_defs)
    then show ?thesis unfolding d using True mem by (auto simp: spliced_def)
  next
    case False
    define h2 where "h2 = h\<lparr>rl_vcn := runs_len (A @ rs), rl_length := rl_length h - runs_len rs\<rparr>"
    have "runs_len rs < rl_length h" using False x(2) o(5) by simp
    then obtain X K where X: "runs_from 0 X" "runs_len X = runs_len (A @ rs)" "cells X = cells (A @ rs)"
      "ntfs_rl_insert mem (A @ h # ([] @ [t]) @ J) (length A + 1 + length ([] @ [t])) (rs @ ts # [])
         (length rs) (length A) = Ok ((X @ h2 # []) @ t # K)"
      using insert_shape [OF S(1) _ _ o(7) _ _ runs h(1), of mem J "ts # []"] mem o S(2)
      unfolding Let_def h2_def by (auto simp: lcn_defs)
    have "ntfs_runlists_merge mem (Some (A @ h # [] @ t # J)) (Some (U @ rs @ ts # [])) =
        Ok (Some ((X @ h2 # []) @ t # K))"
      unfolding merge_hole_dispatch [OF S U ts o(7) runs h]
      using X(4) False o(5) by simp
    moreover have "partly_loaded (c @ cells rs) (x + runs_len rs) n ((X @ h2 # []) @ t # K)"
      unfolding partly_loaded_def
      by (intro exI [of _ X] exI [of _ h2] exI [of _ t] exI [of _ K])
        (use X o False x(2) in \<open>simp add: h2_def\<close>)
    ultimately show ?thesis unfolding d using False by auto
  qed
qed

lemma extents_len_pos:
  "extents_from major_ver x es \<Longrightarrow> es \<noteq> [] \<Longrightarrow> 0 < runs_len (concat (map snd es))"
proof (induction es arbitrary: x)
  case (Cons ers es)
  obtain attr rs where ers: "ers = (attr, rs)" by (cases ers) auto
  have "0 < runs_len rs" using Cons.prems(1) pos_runs by (auto simp: ers codable_def)
  then show ?case using Cons.IH [of "x + runs_len rs"] Cons.prems(1) by (cases "es = []") (auto simp: ers)
qed simp

lemma load_extents_rest:
  assumes "\<forall>n. mem n" and "extents_from major_ver x es" and "es \<noteq> []" and "0 < x"
    and "x + runs_len (concat (map snd es)) = n" and "partly_loaded c x n old"
  shows "\<exists>rl. load_extents mem cs bits (Some old) (map fst es) = Ok (Some rl) \<and> wf_rl 0 rl \<and>
    rl_cells rl = c @ cells (concat (map snd es))"
  using assms
proof (induction es arbitrary: x c old)
  case (Cons ers es)
  obtain attr rs where ers: "ers = (attr, rs)" by (cases ers) auto
  have e: "extent_attr major_ver attr x rs" "codable x rs" "rs \<noteq> []"
    "extents_from major_ver (x + runs_len rs) es"
    using Cons.prems(2) by (auto simp: ers)
  have pos: "0 < runs_len rs" using e(2,3) pos_runs by (auto simp: codable_def)
  note rest' = extents_len_pos [OF e(4)]
  then have rest: "0 \<le> runs_len (concat (map snd es))" by (cases "es = []") auto
  obtain rl where rl: "ntfs_mapping_pairs_decompress mem cs bits (Some attr) (Some old) = Ok (Some rl)"
    "if x + runs_len rs = n then wf_rl 0 rl \<and> rl_cells rl = c @ cells rs
     else partly_loaded (c @ cells rs) (x + runs_len rs) n rl"
    using load_next_extent [OF Cons.prems(1) e(1-3) Cons.prems(4) _ Cons.prems(6), of cs bits] Cons.prems(5) rest
    by (auto simp: ers)
  show ?case
  proof (cases "es = []")
    case True
    then show ?thesis using rl Cons.prems(5) by (simp add: ers)
  next
    case False
    then have "x + runs_len rs \<noteq> n" using rest' Cons.prems(5) by (simp add: ers)
    with rl(2) have p: "partly_loaded (c @ cells rs) (x + runs_len rs) n rl" by simp
    from Cons.IH [OF Cons.prems(1) e(4) False _ _ p] Cons.prems(4,5) pos rl(1)
    show ?thesis by (simp add: ers add.assoc)
  qed
qed simp

text \<open>(C9) An attribute whose mapping pairs are spread over any number of extents: loading
  them one after the other into the same runlist gives exactly the cells of all the extents
  in order, each merge filling the unmapped rest that the previous one left.\<close>

theorem load_extents_cells:
  assumes "\<forall>n. mem n" and "extents_from major_ver 0 ((attr, rs) # es)"
    and "attr_clusters cs bits attr = runs_len (concat (map snd ((attr, rs) # es)))"
  shows "\<exists>rl. load_extents mem cs bits None (map fst ((attr, rs) # es)) = Ok (Some rl) \<and> wf_rl 0 rl \<and>
    rl_cells rl = cells (concat (map snd ((attr, rs) # es)))"
proof -
  let ?n = "attr_clusters cs bits attr"
  have e: "extent_attr major_ver attr 0 rs" "codable 0 rs" "rs \<noteq> []" "extents_from major_ver (runs_len rs) es"
    using assms(2) by auto
  have n: "runs_len rs \<le> ?n" "es \<noteq> [] \<Longrightarrow> runs_len rs < ?n" "0 < runs_len rs"
    using extents_len_pos [OF e(4)] assms(3) pos_runs e(2,3) by (cases "es = []"; auto simp: codable_def)+
  have d: "ntfs_mapping_pairs_decompress mem cs bits (Some attr) None = Ok (Some (extent_runlist 0 rs ?n))"
    using decompress_extent [OF assms(1) e(1,2), of cs bits None] n by simp
  show ?thesis
  proof (cases "es = []")
    case True
    then show ?thesis using d extent_runlist_wf [OF e(2), of ?n] assms(3) by simp
  next
    case False
    have "partly_loaded (cells rs) (runs_len rs) ?n (extent_runlist 0 rs ?n)"
      unfolding partly_loaded_def extent_runlist_def using n(2) [OF False] e(2)
      by (intro exI [of _ rs]) (simp add: codable_def)
    from load_extents_rest [OF assms(1) e(4) False n(3) _ this, of cs bits] d assms(3)
    show ?thesis by simp
  qed
qed

text \<open>The runs of \<open>demo_rl\<close> in two extents.\<close>

definition demo_extents :: "(bytes \<times> runlist) list" where
  "demo_extents =
     [(mk_attr 0 4 24576 [0x11, 2, 100, 1, 3, 0],
         [\<lparr>rl_vcn = 0, rl_lcn = 100, rl_length = 2\<rparr>, \<lparr>rl_vcn = 2, rl_lcn = -1, rl_length = 3\<rparr>]),
      (mk_attr 5 5 0 [0x11, 1, 50, 0], [\<lparr>rl_vcn = 5, rl_lcn = 50, rl_length = 1\<rparr>])]"

lemma demo_extents_ok: "extents_from 3 0 demo_extents"
proof -
  have enc: "mp_encode 3 0 [\<lparr>rl_vcn = 0, rl_lcn = 100, rl_length = 2\<rparr>, \<lparr>rl_vcn = 2, rl_lcn = -1, rl_length = 3\<rparr>] @ [0]
      = [0x11, 2, 100, 1, 3, 0]"
    "mp_encode 3 0 [\<lparr>rl_vcn = 5, rl_lcn = 50, rl_length = 1\<rparr>] @ [0] = [0x11, 1, 50, 0]"
    by code_simp+
  have len: "length (mp_encode 3 0 rs) = length (mp_encode 3 0 rs @ [0]) - 1" for rs by simp
  show ?thesis
    unfolding demo_extents_def
    using mk_attr_fields [of 0 4 24576 "[0x11, 2, 100, 1, 3, 0]"] mk_attr_fields [of 5 5 0 "[0x11, 1, 50, 0]"]
      mk_attr_bytes(6) [of 0 4 24576 "[0x11, 2, 100, 1, 3, 0]"] mk_attr_bytes(6) [of 5 5 0 "[0x11, 1, 50, 0]"]
    unfolding extents_from.simps extent_attr_def len enc
    by (simp add: codable_def lcn_defs del: mp_encode.simps)
qed

theorem load_extents_cells_witness:
  "\<exists>rl. load_extents (\<lambda>n. True) 4096 12 None (map fst demo_extents) = Ok (Some rl) \<and> wf_rl 0 rl \<and>
    rl_cells rl = [100, 101, -1, -1, -1, 50]"
  using load_extents_cells [of "\<lambda>n. True" 3 "fst (hd demo_extents)" "snd (hd demo_extents)" "tl demo_extents" 4096 12]
    demo_extents_ok mk_attr_fields(4) [of 0 4 24576 "[0x11, 2, 100, 1, 3, 0]"]
  by (simp add: demo_extents_def attr_clusters_def s64_def run_cells_def upt_rec)

end
