(* ===== verification/Mapping_Pairs_Safety.thy ===== *)
theory Mapping_Pairs_Safety
  imports Mapping_Pairs_Roundtrip
begin

text \<open>
  The decompressor on untrusted attribute records: which bytes it may read, what every
  runlist it returns satisfies, and the two places where corrupt input gets through.
\<close>

section \<open>An invariant of the loop\<close>

text \<open>
  The elements follow each other from \<open>v\<close> to \<open>w\<close> in 64-bit arithmetic; only an element
  behind a virtual cluster number that has wrapped around may have a negative length.
\<close>

fun decoded_chain :: "int \<Rightarrow> runlist \<Rightarrow> int \<Rightarrow> bool" where
  "decoded_chain v [] w = (v = w)"
| "decoded_chain v (e # es) w \<longleftrightarrow> rl_vcn e = v \<and> (0 \<le> rl_length e \<or> rl_vcn e < 0) \<and>
     LCN_RL_NOT_MAPPED \<le> rl_lcn e \<and> decoded_chain (s64 (v + rl_length e)) es w"

lemma decoded_chain_snoc:
  "decoded_chain v (es @ [e]) w \<longleftrightarrow> decoded_chain v es (rl_vcn e) \<and> (0 \<le> rl_length e \<or> rl_vcn e < 0) \<and>
     LCN_RL_NOT_MAPPED \<le> rl_lcn e \<and> w = s64 (rl_vcn e + rl_length e)"
  by (induction es arbitrary: v) auto

lemma decoded_chain_runs:
  assumes "decoded_chain v rs w" and "\<forall>e \<in> set rs. 0 < rl_length e" and "0 \<le> v" and "v + runs_len rs < 2 ^ 63"
  shows "runs_from v rs \<and> w = v + runs_len rs"
  using assms
proof (induction rs arbitrary: v)
  case (Cons e rs)
  have "0 \<le> runs_len rs"
    using Cons.prems(2) unfolding runs_len_def by (intro sum_list_nonneg) auto
  then have "s64 (v + rl_length e) = v + rl_length e"
    using Cons.prems(2-4) by (intro s64_id) (simp add: in_s64_def)
  with Cons.IH [of "v + rl_length e"] Cons.prems show ?case by (auto simp: add.assoc)
qed simp

definition mp_inv :: "mp_state \<Rightarrow> bool" where
  "mp_inv s \<longleftrightarrow> mp_rlpos s = length (mp_rl s) \<and> length (mp_rl s) \<le> Suc (mp_buf s) \<and>
     decoded_chain 0 (mp_rl s) (mp_vcn s) \<and> in_s64 (mp_vcn s)"

lemma mp_step_elem:
  assumes "mp_step mem attr attr_end s = Ok t"
  obtains e where "0 \<le> rl_length e" "LCN_RL_NOT_MAPPED \<le> rl_lcn e" "rl_vcn e = mp_vcn s"
    "mp_rl t = rl_put (mp_rl s) (mp_rlpos s) e" "mp_rlpos t = rlpos_next (mp_rlpos s)"
    "mp_vcn t = s64 (mp_vcn s + rl_length e)" "mp_buf s < mp_buf t"
proof -
  define lo hi where "lo = unat (byte_at attr (mp_buf s)) mod 16" "hi = unat (byte_at attr (mp_buf s)) div 16"
  define len where "len = (if lo \<noteq> 0 then read_deltaxcn attr (mp_buf s) 0 lo else -1)"
  define lcn where "lcn = (if hi \<noteq> 0 then s64 (mp_lcn s + read_deltaxcn attr (mp_buf s) lo (lo + hi))
    else mp_lcn s)"
  define e where "e = \<lparr>rl_vcn = mp_vcn s, rl_lcn = (if hi \<noteq> 0 then lcn else LCN_HOLE), rl_length = len\<rparr>"
  have ok: "\<not> len < 0" "\<not> (hi \<noteq> 0 \<and> lcn < -1)" and
    t: "\<exists>rlsize. t = \<lparr>mp_buf = mp_buf s + lo + hi + 1, mp_vcn = s64 (mp_vcn s + len), mp_lcn = lcn,
      mp_rl = rl_put (mp_rl s) (mp_rlpos s) e, mp_rlpos = rlpos_next (mp_rlpos s), mp_rlsize = rlsize\<rparr>"
    using assms unfolding mp_step_def Let_def lo_hi_def [symmetric] len_def [symmetric]
      lcn_def [symmetric] e_def [symmetric]
    by (auto split: if_split_asm)
  show thesis
    by (rule that [of e]) (use t ok in \<open>auto simp: e_def lcn_defs\<close>)
qed

lemma mp_step_inv:
  assumes "mp_step mem attr attr_end s = Ok t" and "mp_inv s" and "mp_buf s < 65534"
  shows "mp_inv t"
proof -
  have inv: "mp_rlpos s = length (mp_rl s)" "length (mp_rl s) \<le> Suc (mp_buf s)"
    "decoded_chain 0 (mp_rl s) (mp_vcn s)"
    using assms(2) by (simp_all add: mp_inv_def)
  have pos: "rlpos_next (mp_rlpos s) = Suc (length (mp_rl s))"
    using inv(1,2) assms(3) by (simp add: rlpos_next_def)
  obtain e where "0 \<le> rl_length e" "LCN_RL_NOT_MAPPED \<le> rl_lcn e" "rl_vcn e = mp_vcn s"
    "mp_rl t = rl_put (mp_rl s) (mp_rlpos s) e" "mp_rlpos t = rlpos_next (mp_rlpos s)"
    "mp_vcn t = s64 (mp_vcn s + rl_length e)" "mp_buf s < mp_buf t"
    by (rule mp_step_elem [OF assms(1)])
  then show ?thesis
    using inv pos by (simp add: mp_inv_def rl_put_end decoded_chain_snoc)
qed

lemma mp_step_no_fault:
  assumes "attr_end < length attr"
  shows "mp_step mem attr attr_end s \<noteq> Fault"
  using assms by (auto simp: mp_step_def Let_def)

lemma mp_loop_no_fault:
  "attr_end < length attr \<Longrightarrow> mp_loop mem attr attr_end s \<noteq> Fault"
proof (induction mem attr attr_end s rule: mp_loop.induct)
  case (1 mem attr attr_end s)
  show ?case
  proof (cases "mp_buf s < attr_end \<and> byte_at attr (mp_buf s) \<noteq> 0")
    case True
    then have in_range: "mp_buf s < attr_end" "\<not> length attr \<le> mp_buf s" "byte_at attr (mp_buf s) \<noteq> 0"
      using 1(2) by auto
    show ?thesis
      using mp_step_no_fault [OF 1(2), of mem s] 1(1) [OF in_range _ 1(2)] in_range
      by (cases "mp_step mem attr attr_end s") (simp_all add: mp_loop.simps [of mem attr attr_end s])
  next
    case False
    then show ?thesis using 1(2) by (auto simp: mp_loop.simps [of mem attr attr_end s])
  qed
qed

lemma mp_loop_inv:
  assumes "attr_end < 65534" and "mp_inv s" and "mp_loop mem attr attr_end s = Ok t"
  shows "mp_inv t"
  using assms
proof (induction mem attr attr_end s rule: mp_loop.induct)
  case (1 mem attr attr_end s)
  show ?case
  proof (cases "mp_buf s < attr_end \<and> \<not> length attr \<le> mp_buf s \<and> byte_at attr (mp_buf s) \<noteq> 0")
    case True
    then have in_range: "mp_buf s < attr_end" "\<not> length attr \<le> mp_buf s" "byte_at attr (mp_buf s) \<noteq> 0"
      by simp_all
    obtain u where u: "mp_step mem attr attr_end s = Ok u" "mp_loop mem attr attr_end u = Ok t"
      using in_range 1(4) by (cases "mp_step mem attr attr_end s") (simp_all add: mp_loop.simps [of mem attr attr_end s])
    have "mp_inv u" by (rule mp_step_inv [OF u(1) 1(3)]) (use in_range 1(2) in auto)
    from 1(1) [OF in_range u(1) 1(2) this u(2)] show ?thesis .
  next
    case False
    then show ?thesis using 1(3,4) by (auto simp: mp_loop.simps [of mem attr attr_end s] split: if_splits)
  qed
qed

lemma mp_start_inv: "0 \<le> attr_lowest_vcn attr \<Longrightarrow> mp_inv (mp_start attr)"
  by (auto simp: mp_inv_def mp_start_def Let_def attr_lowest_vcn_def)

lemma mp_finish_shape:
  assumes "mp_inv s" and "length (mp_rl s) < 65535" and "mp_finish cs bits attr attr_end s = Ok rl"
  shows "\<exists>rs t. rl = rs @ [t] \<and> decoded_chain 0 rs (rl_vcn t) \<and> rl_length t = 0 \<and>
    (rl_lcn t = LCN_ENOENT \<or> rl_lcn t = LCN_RL_NOT_MAPPED)"
proof -
  let ?n = "s64 (attr_allocated_size attr + int cs - 1) div 2 ^ bits" and ?v = "mp_vcn s"
  have pos: "rlpos_next (length (mp_rl s)) = Suc (length (mp_rl s))"
    using assms(2) by (simp add: rlpos_next_def)
  have inv: "mp_rlpos s = length (mp_rl s)" "decoded_chain 0 (mp_rl s) ?v" "in_s64 ?v"
    using assms(1) by (simp_all add: mp_inv_def)
  have n: "0 \<le> s64 (?n - ?v) \<or> ?v < 0" if "?v < ?n"
  proof (cases "?v < 0")
    case False
    have "?n < 2 ^ 63" by (rule s64_div_less) simp
    then have "s64 (?n - ?v) = ?n - ?v" using that False by (intro s64_id) (simp add: in_s64_def)
    then show ?thesis using that by simp
  qed simp
  have "rl = mp_rl s @ [\<lparr>rl_vcn = ?v, rl_lcn = LCN_RL_NOT_MAPPED, rl_length = s64 (?n - ?v)\<rparr>] @
        [\<lparr>rl_vcn = s64 (?v + s64 (?n - ?v)), rl_lcn = LCN_ENOENT, rl_length = 0\<rparr>] \<and> ?v < ?n \<or>
      (\<exists>l. (l = LCN_ENOENT \<or> l = LCN_RL_NOT_MAPPED) \<and>
         rl = mp_rl s @ [\<lparr>rl_vcn = ?v, rl_lcn = l, rl_length = 0\<rparr>])"
    using assms(3) inv(1) pos
    by (auto simp: mp_finish_def Let_def rl_put_end split: if_splits)
  then show ?thesis
  proof
    assume r: "rl = mp_rl s @ [\<lparr>rl_vcn = ?v, rl_lcn = LCN_RL_NOT_MAPPED, rl_length = s64 (?n - ?v)\<rparr>] @
        [\<lparr>rl_vcn = s64 (?v + s64 (?n - ?v)), rl_lcn = LCN_ENOENT, rl_length = 0\<rparr>] \<and> ?v < ?n"
    then show ?thesis
      by (intro exI [of _ "mp_rl s @ [\<lparr>rl_vcn = ?v, rl_lcn = LCN_RL_NOT_MAPPED, rl_length = s64 (?n - ?v)\<rparr>]"]
          exI [of _ "\<lparr>rl_vcn = s64 (?v + s64 (?n - ?v)), rl_lcn = LCN_ENOENT, rl_length = 0\<rparr>"])
        (use inv n in \<open>simp add: decoded_chain_snoc\<close>)
  qed (use inv in auto)
qed

section \<open>Untrusted records\<close>

text \<open>(C10) On arbitrary bytes: if the 48 bytes of the attribute header are in memory and at least
  one byte of memory follows the record, the decompressor never reads outside the bytes. If the
  record is moreover shorter than 65534 bytes, so that the 16-bit index of the runlist does not wrap
  around, every runlist it returns (when no older one is merged) is a chain of elements that
  follow each other, with no cluster number below -2, closed by a terminator, and it is well
  formed as soon as no run is empty and the lengths do not overflow.\<close>

theorem mapping_pairs_decompress_safe:
  assumes "48 \<le> length attr" and "attr_length attr < length attr"
  shows "ntfs_mapping_pairs_decompress mem cs bits (Some attr) None \<noteq> Fault \<and>
    (\<forall>rl. attr_length attr < 65534 \<and>
        ntfs_mapping_pairs_decompress mem cs bits (Some attr) None = Ok (Some rl) \<longrightarrow>
      (\<exists>rs t. rl = rs @ [t] \<and> decoded_chain 0 rs (rl_vcn t) \<and> rl_length t = 0 \<and>
        (rl_lcn t = LCN_ENOENT \<or> rl_lcn t = LCN_RL_NOT_MAPPED) \<and>
        ((\<forall>e \<in> set rs. 0 < rl_length e) \<and> runs_len rs < 2 ^ 63 \<longrightarrow> wf_rl 0 rl)))"
proof (cases "attr_non_resident attr \<and> 0 \<le> attr_lowest_vcn attr \<and>
    attr_mapping_pairs_offset attr \<le> attr_length attr \<and> mem 0x1000")
  case True
  let ?loop = "mp_loop mem attr (attr_length attr) (mp_start attr)"
  have d: "ntfs_mapping_pairs_decompress mem cs bits (Some attr) None =
      res_bind ?loop (\<lambda>s. res_bind (mp_finish cs bits attr (attr_length attr) s) (\<lambda>rl. Ok (Some rl)))"
    using True assms(1) by (auto simp: ntfs_mapping_pairs_decompress_def ntfs_mapping_pairs_decompress_i_def)
  have wf: "wf_rl 0 (rs @ [t])" if "decoded_chain 0 rs (rl_vcn t)" "rl_length t = 0"
    "rl_lcn t = LCN_ENOENT \<or> rl_lcn t = LCN_RL_NOT_MAPPED" "\<forall>e \<in> set rs. 0 < rl_length e"
    "runs_len rs < 2 ^ 63" for rs t
    using decoded_chain_runs [OF that(1,4)] that(2,3,5)
    by (intro wf_rlI) (auto simp: lcn_defs)
  show ?thesis
  proof (cases ?loop)
    case (Ok s)
    have fin: "mp_finish cs bits attr (attr_length attr) s \<noteq> Fault"
      using assms(1) by (auto simp: mp_finish_def Let_def)
    have "\<exists>rs t. rl = rs @ [t] \<and> decoded_chain 0 rs (rl_vcn t) \<and> rl_length t = 0 \<and>
        (rl_lcn t = LCN_ENOENT \<or> rl_lcn t = LCN_RL_NOT_MAPPED)"
      if short: "attr_length attr < 65534" and rl: "mp_finish cs bits attr (attr_length attr) s = Ok rl" for rl
    proof -
      have inv: "mp_inv s" using mp_loop_inv [OF short mp_start_inv Ok] True by simp
      have "length (mp_rl s) < 65535"
        using inv short rl by (cases "attr_length attr \<le> mp_buf s") (simp_all add: mp_inv_def mp_finish_def)
      then show ?thesis using mp_finish_shape [OF inv _ rl] by simp
    qed
    then show ?thesis unfolding d Ok using wf fin by fastforce
  next
    case (Err e)
    then show ?thesis unfolding d by simp
  next
    case Fault
    then show ?thesis using mp_loop_no_fault [OF assms(2)] by simp
  qed
next
  case False
  then show ?thesis using assms(1)
    by (auto simp: ntfs_mapping_pairs_decompress_def ntfs_mapping_pairs_decompress_i_def)
qed

theorem mapping_pairs_decompress_safe_witness:
  "ntfs_mapping_pairs_decompress (\<lambda>n. True) 4096 12 (Some (mk_attr 0 0 0 [1] @ [0])) None \<noteq> Fault"
proof -
  have "attr_length (mk_attr 0 0 0 [1] @ [0]) = 65"
    using has_bytes_le_at [OF has_bytes_prefix [OF mk_attr_bytes(1) [of 0 0 0 "[1]"], of "[0]"], of 4]
    by (simp add: attr_length_def le_simps del: le_val.simps)
  moreover have "length (mk_attr 0 0 0 [1] @ [0]) = 66" by (simp add: mk_attr_def)
  ultimately show ?thesis
    using mapping_pairs_decompress_safe [of "mk_attr 0 0 0 [1] @ [0]" "\<lambda>n. True" 4096 12] by simp
qed

text \<open>The bounds check \<open>buf + b > attr_end\<close> admits \<open>buf + b = attr_end\<close>, although
  \<open>buf[b]\<close> is read: an attribute record that ends in a lone header byte makes the decompressor
  read the byte after the record, whatever the volume.\<close>

theorem mapping_pairs_overread:
  "ntfs_mapping_pairs_decompress (\<lambda>n. True) cs bits (Some (mk_attr 0 0 0 [1])) None = Fault"
proof -
  have f: "attr_non_resident (mk_attr 0 0 0 [1])" "attr_lowest_vcn (mk_attr 0 0 0 [1]) = 0"
    "attr_mapping_pairs_offset (mk_attr 0 0 0 [1]) = 64" "attr_length (mk_attr 0 0 0 [1]) = 65"
    "length (mk_attr 0 0 0 [1]) = 65"
    using mk_attr_fields [of 0 0 0 "[1]"] by (simp_all add: mk_attr_def)
  have "byte_at (mk_attr 0 0 0 [1]) 64 = 1"
    using has_bytes_at [OF mk_attr_bytes(6) [of 0 0 0 "[1]"], of 0] by simp
  then have "mp_loop (\<lambda>n. True) (mk_attr 0 0 0 [1]) 65 (mp_start (mk_attr 0 0 0 [1])) = Fault"
    by (subst mp_loop.simps) (simp add: mp_step_def mp_start_def f Let_def)
  then show ?thesis
    by (simp add: ntfs_mapping_pairs_decompress_def ntfs_mapping_pairs_decompress_i_def f)
qed

text \<open>A run of length zero passes the check for negative lengths. The decompressor stores it
  like any run, although a zero length is what ends a runlist, so every cluster behind it is lost:
  here a file of two clusters loads without an error and has no cluster at all.\<close>

theorem mapping_pairs_zero_run:
  "\<exists>rl. ntfs_mapping_pairs_decompress (\<lambda>n. True) 4096 12
      (Some (mk_attr 0 1 8192 [0x11, 0, 100, 0x11, 2, 1, 0])) None = Ok (Some rl) \<and>
    ntfs_rl_vcn_to_lcn (Some rl) 0 = LCN_ENOENT \<and> ntfs_rl_vcn_to_lcn (Some rl) 1 = LCN_ENOENT \<and>
    rl_cells rl = []"
proof -
  define m :: bytes where "m = [0x11, 0, 100, 0x11, 2, 1, 0]"
  define a where "a = mk_attr 0 1 8192 m"
  have m: "length m = 7" by (simp add: m_def)
  have f: "attr_non_resident a" "attr_lowest_vcn a = 0" "attr_highest_vcn a = 1"
    "attr_allocated_size a = 8192" "attr_mapping_pairs_offset a = 64" "attr_length a = 71" "length a = 71"
    using mk_attr_fields [of 0 1 8192 m, folded a_def] m by (simp_all add: a_def mk_attr_def)
  have at: "byte_at a (64 + i) = m ! i" if "i < 7" for i
    using has_bytes_at [OF mk_attr_bytes(6) [of 0 1 8192 m, folded a_def]] that m by simp
  have b: "byte_at a 64 = 0x11" "byte_at a 65 = 0" "byte_at a 66 = 100" "byte_at a 67 = 0x11"
    "byte_at a 68 = 2" "byte_at a 69 = 1" "byte_at a 70 = 0"
    using at [of 0] at [of 1] at [of 2] at [of 3] at [of 4] at [of 5] at [of 6] by (simp_all add: m_def)
  define s1 where "s1 = \<lparr>mp_buf = 67, mp_vcn = 0, mp_lcn = 100,
    mp_rl = [\<lparr>rl_vcn = 0, rl_lcn = 100, rl_length = 0\<rparr>], mp_rlpos = 1, mp_rlsize = 0x1000\<rparr>"
  define s2 where "s2 = \<lparr>mp_buf = 70, mp_vcn = 2, mp_lcn = 101,
    mp_rl = [\<lparr>rl_vcn = 0, rl_lcn = 100, rl_length = 0\<rparr>, \<lparr>rl_vcn = 0, rl_lcn = 101, rl_length = 2\<rparr>],
    mp_rlpos = 2, mp_rlsize = 0x1000\<rparr>"
  have "mp_step (\<lambda>n. True) a 71 (mp_start a) = Ok s1"
    by (simp add: mp_step_def mp_start_def f b Let_def read_deltaxcn_def s64_def rl_put_def rlpos_next_def s1_def)
  moreover have "mp_step (\<lambda>n. True) a 71 s1 = Ok s2"
    by (simp add: mp_step_def s1_def f b Let_def read_deltaxcn_def s64_def rl_put_def rlpos_next_def s2_def)
  ultimately have "mp_loop (\<lambda>n. True) a 71 (mp_start a) = Ok s2"
    using b by (simp add: mp_loop.simps [of _ _ _ "mp_start a"] mp_loop.simps [of _ _ _ s1]
        mp_loop.simps [of _ _ _ s2] f) (simp add: mp_start_def s1_def s2_def f Let_def)
  moreover have "mp_finish 4096 12 a 71 s2 = Ok (mp_rl s2 @ [\<lparr>rl_vcn = 2, rl_lcn = LCN_ENOENT, rl_length = 0\<rparr>])"
    by (simp add: mp_finish_def f s2_def s64_def rl_put_def Let_def)
  ultimately have "ntfs_mapping_pairs_decompress (\<lambda>n. True) 4096 12 (Some a) None =
      Ok (Some (mp_rl s2 @ [\<lparr>rl_vcn = 2, rl_lcn = LCN_ENOENT, rl_length = 0\<rparr>]))"
    by (simp add: ntfs_mapping_pairs_decompress_def ntfs_mapping_pairs_decompress_i_def f)
  then show ?thesis
    unfolding a_def m_def by (simp add: s2_def ntfs_rl_vcn_to_lcn_def rl_cells_def rl_runs_def lcn_defs)
qed

end
