(* ===== verification/Mst.thy ===== *)
theory Mst
  imports NTFS_Prelude
begin

text \<open>
  Multi sector transfer protection (\<open>libntfs-3g/mst.c\<close>). A record of several 512-byte
  sectors carries an update sequence array: before a write the last two bytes of every sector
  are saved in the array and replaced by the update sequence number, after a read they are
  compared and put back. A record is the list of its bytes; 16-bit words are read and
  written little-endian, and an access outside the list is a \<open>Fault\<close>.
\<close>

section \<open>Words of a record\<close>

abbreviation rd16 :: "bytes \<Rightarrow> nat \<Rightarrow> nat" where "rd16 b i \<equiv> le_at 2 b i"
abbreviation wr16 :: "bytes \<Rightarrow> nat \<Rightarrow> nat \<Rightarrow> bytes" where "wr16 b i v \<equiv> put_at b i (le_bytes 2 v)"

definition NTFS_BLOCK_SIZE :: nat where "NTFS_BLOCK_SIZE = 512"

definition rec_magic :: "bytes \<Rightarrow> nat" where "rec_magic b = le_at 4 b 0"
definition rec_usa_ofs :: "bytes \<Rightarrow> nat" where "rec_usa_ofs b = rd16 b 4"
definition rec_usa_count :: "bytes \<Rightarrow> nat" where "rec_usa_count b = rd16 b 6"

definition magic_BAAD :: nat where "magic_BAAD = 0x44414142"
definition magic_HOLE :: nat where "magic_HOLE = 0x454c4f48"

definition is_valid_record :: "nat \<Rightarrow> nat \<Rightarrow> nat \<Rightarrow> bool" where
  "is_valid_record sz usa_ofs usa_count \<longleftrightarrow>
     sz mod NTFS_BLOCK_SIZE = 0 \<and> usa_ofs mod 2 = 0 \<and> usa_count = 1 + sz div NTFS_BLOCK_SIZE \<and>
     usa_ofs + usa_count * 2 \<le> NTFS_BLOCK_SIZE - 2"

section \<open>The loops\<close>

text \<open>\<open>while (--usa_count)\<close> on a 16-bit counter: the number of rounds.\<close>

definition usa_rounds :: "nat \<Rightarrow> nat" where
  "usa_rounds usa_count = (usa_count + 65535) mod 65536"

fun mst_check :: "bytes \<Rightarrow> nat \<Rightarrow> nat \<Rightarrow> nat \<Rightarrow> bool result" where
  "mst_check b usn data_pos 0 = Ok True"
| "mst_check b usn data_pos (Suc n) =
     (if length b < data_pos + 2 then Fault
      else if rd16 b data_pos \<noteq> usn then Ok False
      else mst_check b usn (data_pos + NTFS_BLOCK_SIZE) n)"

fun mst_restore :: "bytes \<Rightarrow> nat \<Rightarrow> nat \<Rightarrow> nat \<Rightarrow> bytes result" where
  "mst_restore b usa_pos data_pos 0 = Ok b"
| "mst_restore b usa_pos data_pos (Suc n) =
     (if length b < data_pos + 2 \<or> length b < usa_pos + 4 then Fault
      else mst_restore (wr16 b data_pos (rd16 b (usa_pos + 2))) (usa_pos + 2)
             (data_pos + NTFS_BLOCK_SIZE) n)"

fun mst_protect :: "bytes \<Rightarrow> nat \<Rightarrow> nat \<Rightarrow> nat \<Rightarrow> nat \<Rightarrow> bytes result" where
  "mst_protect b le_usn usa_pos data_pos 0 = Ok b"
| "mst_protect b le_usn usa_pos data_pos (Suc n) =
     (if length b < data_pos + 2 \<or> length b < usa_pos + 4 then Fault
      else
        let b = wr16 b (usa_pos + 2) (rd16 b data_pos);
            b = wr16 b data_pos le_usn
        in mst_protect b le_usn (usa_pos + 2) (data_pos + NTFS_BLOCK_SIZE) n)"

section \<open>The operations\<close>

text \<open>Each returns \<open>errno\<close> if it fails and what is in the buffer afterwards.\<close>

definition ntfs_mst_post_read_fixup_warn :: "bytes \<Rightarrow> nat \<Rightarrow> (errno option \<times> bytes) result" where
  "ntfs_mst_post_read_fixup_warn b sz =
     (if length b < 8 then Fault
      else
        let usa_ofs = rec_usa_ofs b; usa_count = rec_usa_count b
        in if \<not> is_valid_record sz usa_ofs usa_count then Ok (Some EINVAL, b)
           else if length b < usa_ofs + 2 then Fault
           else res_bind (mst_check b (rd16 b usa_ofs) (NTFS_BLOCK_SIZE - 2) (usa_rounds usa_count))
             (\<lambda>ok. if ok then
                res_bind (mst_restore b usa_ofs (NTFS_BLOCK_SIZE - 2) (usa_rounds usa_count))
                  (\<lambda>b. Ok (None, b))
              else Ok (Some EIO, put_at b 0 (le_bytes 4 magic_BAAD))))"

definition ntfs_mst_post_read_fixup :: "bytes \<Rightarrow> nat \<Rightarrow> (errno option \<times> bytes) result" where
  "ntfs_mst_post_read_fixup b sz = ntfs_mst_post_read_fixup_warn b sz"

definition next_usn :: "nat \<Rightarrow> nat" where
  "next_usn usn = (let usn = (usn + 1) mod 65536 in if usn = 0xffff \<or> usn = 0 then 1 else usn)"

definition ntfs_mst_pre_write_fixup :: "bytes option \<Rightarrow> nat \<Rightarrow> (errno option \<times> bytes) result" where
  "ntfs_mst_pre_write_fixup b0 sz =
     (case b0 of None \<Rightarrow> Ok (Some EINVAL, [])
      | Some b \<Rightarrow>
          if length b < 8 then Fault
          else if rec_magic b = magic_BAAD \<or> rec_magic b = magic_HOLE then Ok (Some EINVAL, b)
          else
            let usa_ofs = rec_usa_ofs b; usa_count = rec_usa_count b
            in if \<not> is_valid_record sz usa_ofs usa_count then Ok (Some EINVAL, b)
               else if length b < usa_ofs + 2 then Fault
               else
                 let usn = next_usn (rd16 b usa_ofs)
                 in res_bind (mst_protect (wr16 b usa_ofs usn) usn usa_ofs (NTFS_BLOCK_SIZE - 2)
                                (usa_rounds usa_count)) (\<lambda>b. Ok (None, b)))"

definition ntfs_mst_post_write_fixup :: "bytes \<Rightarrow> bytes result" where
  "ntfs_mst_post_write_fixup b =
     (if length b < 8 then Fault
      else mst_restore b (rec_usa_ofs b div 2 * 2) (NTFS_BLOCK_SIZE - 2) (usa_rounds (rec_usa_count b)))"

section \<open>Words and bytes\<close>

lemma rd16_eq_iff:
  "rd16 a i = rd16 b j \<longleftrightarrow> byte_at a i = byte_at b j \<and> byte_at a (Suc i) = byte_at b (Suc j)"
proof -
  have two: "[k..<k + 2] = [k, Suc k]" for k by (simp add: upt_rec)
  have "rd16 a i = rd16 b j \<longleftrightarrow> map (byte_at a) [i..<i + 2] = map (byte_at b) [j..<j + 2]"
    unfolding le_at_def using le_bytes_le_val [of 2] by (metis length_map length_upt add_diff_cancel_left')
  then show ?thesis by (simp only: two) simp
qed

lemma rd16_less [simp]: "rd16 b i < 65536"
  using le_at_bound [of 2 b i] by simp

lemma byte_at_wr16:
  assumes "i + 2 \<le> length b" and "j \<noteq> i" and "j \<noteq> Suc i"
  shows "byte_at (wr16 b i v) j = byte_at b j"
proof -
  have "\<not> (i \<le> j \<and> j < i + 2)" using assms(2,3) by linarith
  with assms(1) show ?thesis by (auto simp: byte_at_put_at)
qed

lemma rd16_wr16_same [simp]: "i + 2 \<le> length b \<Longrightarrow> v < 65536 \<Longrightarrow> rd16 (wr16 b i v) i = v"
  by (simp add: le_at_put_at_same)

lemma length_wr16 [simp]: "i + 2 \<le> length b \<Longrightarrow> length (wr16 b i v) = length b"
  by simp

lemma rd16_wr16_other:
  assumes "i + 2 \<le> length b" and "j + 2 \<le> i \<or> i + 2 \<le> j"
  shows "rd16 (wr16 b i v) j = rd16 b j"
  using assms by (simp add: le_at_put_at_other)

section \<open>What the loops do\<close>

text \<open>The positions of the protected words.\<close>

definition data_at :: "nat \<Rightarrow> nat \<Rightarrow> nat set" where
  "data_at pos n = {i. \<exists>j < n. i = pos + 512 * j \<or> i = Suc (pos + 512 * j)}"

lemma data_at_Suc: "data_at pos (Suc n) = {pos, Suc pos} \<union> data_at (pos + 512) n"
proof -
  have "(\<exists>j < Suc n. i = pos + 512 * j \<or> i = Suc (pos + 512 * j)) \<longleftrightarrow>
      i = pos \<or> i = Suc pos \<or> (\<exists>j < n. i = pos + 512 + 512 * j \<or> i = Suc (pos + 512 + 512 * j))" for i
    unfolding Ex_less_Suc2 by (auto simp: algebra_simps)
  then show ?thesis by (auto simp: data_at_def)
qed

lemma mst_check_spec:
  "pos + 512 * n \<le> length b + 510 \<Longrightarrow>
     mst_check b usn pos n = Ok (\<forall>j < n. rd16 b (pos + 512 * j) = usn)"
proof (induction n arbitrary: pos)
  case (Suc n)
  have "(\<forall>j < Suc n. rd16 b (pos + 512 * j) = usn) \<longleftrightarrow>
      rd16 b pos = usn \<and> (\<forall>j < n. rd16 b (pos + 512 + 512 * j) = usn)"
    unfolding All_less_Suc2 by (simp add: algebra_simps)
  then show ?case using Suc by (simp add: NTFS_BLOCK_SIZE_def)
qed simp

lemma mst_restore_spec:
  assumes "up + 2 + 2 * n \<le> pos" and "pos + 512 * n \<le> length b + 510"
  shows "\<exists>r. mst_restore b up pos n = Ok r \<and> length r = length b \<and>
    (\<forall>j < n. rd16 r (pos + 512 * j) = rd16 b (up + 2 + 2 * j)) \<and>
    (\<forall>i. i \<notin> data_at pos n \<longrightarrow> byte_at r i = byte_at b i)"
  using assms
proof (induction n arbitrary: b up pos)
  case (Suc n)
  define b1 where "b1 = wr16 b pos (rd16 b (up + 2))"
  have len: "length b1 = length b" using Suc.prems by (simp add: b1_def)
  obtain r where r: "mst_restore b1 (up + 2) (pos + 512) n = Ok r" "length r = length b1"
    "\<forall>j < n. rd16 r (pos + 512 + 512 * j) = rd16 b1 (up + 2 + 2 + 2 * j)"
    "\<forall>i. i \<notin> data_at (pos + 512) n \<longrightarrow> byte_at r i = byte_at b1 i"
    using Suc.IH [of "up + 2" "pos + 512" b1] Suc.prems len by auto
  have keep: "rd16 b1 (up + 2 + 2 + 2 * j) = rd16 b (up + 2 + 2 * Suc j)" if "j < n" for j
    unfolding b1_def using Suc.prems that by (subst rd16_wr16_other) auto
  have first: "rd16 r pos = rd16 b (up + 2)"
  proof -
    have "pos \<notin> data_at (pos + 512) n" "Suc pos \<notin> data_at (pos + 512) n" by (auto simp: data_at_def)
    then have "rd16 r pos = rd16 b1 pos" unfolding rd16_eq_iff using r(4) by blast
    then show ?thesis using Suc.prems by (simp add: b1_def)
  qed
  have "\<forall>j < Suc n. rd16 r (pos + 512 * j) = rd16 b (up + 2 + 2 * j)"
    unfolding All_less_Suc2 using first r(3) keep by (simp add: algebra_simps)
  moreover have "byte_at r i = byte_at b i" if "i \<notin> data_at pos (Suc n)" for i
    using that r(4) Suc.prems unfolding data_at_Suc b1_def by (simp add: byte_at_wr16)
  ultimately show ?case
    using r(1,2) len Suc.prems by (simp add: b1_def NTFS_BLOCK_SIZE_def)
qed simp

lemma mst_protect_spec:
  assumes "up + 2 + 2 * n \<le> pos" and "pos + 512 * n \<le> length b + 510" and "usn < 65536"
  shows "\<exists>r. mst_protect b usn up pos n = Ok r \<and> length r = length b \<and>
    (\<forall>j < n. rd16 r (up + 2 + 2 * j) = rd16 b (pos + 512 * j)) \<and>
    (\<forall>j < n. rd16 r (pos + 512 * j) = usn) \<and>
    (\<forall>i. i \<notin> data_at pos n \<longrightarrow> i < up + 2 \<or> up + 2 + 2 * n \<le> i \<longrightarrow> byte_at r i = byte_at b i)"
  using assms
proof (induction n arbitrary: b up pos)
  case (Suc n)
  define b1 where "b1 = wr16 b (up + 2) (rd16 b pos)"
  define b2 where "b2 = wr16 b1 pos usn"
  have len: "length b1 = length b" "length b2 = length b" using Suc.prems by (simp_all add: b1_def b2_def)
  obtain r where r: "mst_protect b2 usn (up + 2) (pos + 512) n = Ok r" "length r = length b2"
    "\<forall>j < n. rd16 r (up + 2 + 2 + 2 * j) = rd16 b2 (pos + 512 + 512 * j)"
    "\<forall>j < n. rd16 r (pos + 512 + 512 * j) = usn"
    "\<forall>i. i \<notin> data_at (pos + 512) n \<longrightarrow> i < up + 2 + 2 \<or> up + 2 + 2 + 2 * n \<le> i \<longrightarrow> byte_at r i = byte_at b2 i"
    using Suc.IH [of "up + 2" "pos + 512" b2] Suc.prems len by auto
  have data: "rd16 b2 (pos + 512 + 512 * j) = rd16 b (pos + 512 * Suc j)" for j
    unfolding b2_def b1_def using Suc.prems
    by (subst rd16_wr16_other, simp, simp)+ (simp add: algebra_simps)
  have away: "rd16 r i = rd16 b2 i" if "i + 2 \<le> pos + 512" "i + 2 \<le> up + 4 \<or> up + 4 + 2 * n \<le> i" for i
  proof -
    have "i \<notin> data_at (pos + 512) n" "Suc i \<notin> data_at (pos + 512) n" using that(1) by (auto simp: data_at_def)
    then show ?thesis unfolding rd16_eq_iff using r(5) that(2) by auto
  qed
  have "rd16 r (up + 2) = rd16 b pos" "rd16 r pos = usn"
    using away [of "up + 2"] away [of pos] Suc.prems len rd16_wr16_other [of pos b1 "up + 2" usn]
    by (simp_all add: b2_def b1_def)
  then have "\<forall>j < Suc n. rd16 r (up + 2 + 2 * j) = rd16 b (pos + 512 * j)"
    "\<forall>j < Suc n. rd16 r (pos + 512 * j) = usn"
    unfolding All_less_Suc2 using r(3,4) data by (simp_all add: algebra_simps)
  moreover have "byte_at r i = byte_at b i"
    if "i \<notin> data_at pos (Suc n)" "i < up + 2 \<or> up + 2 + 2 * Suc n \<le> i" for i
    using that r(5) Suc.prems len unfolding data_at_Suc b2_def b1_def by (auto simp: byte_at_wr16)
  ultimately show ?case
    using r(1,2) len Suc.prems by (simp add: b1_def b2_def NTFS_BLOCK_SIZE_def)
qed simp

section \<open>Records\<close>

text \<open>A record of the given size whose update sequence array lies behind the header.\<close>

definition mst_record :: "nat \<Rightarrow> bytes \<Rightarrow> bool" where
  "mst_record sz b \<longleftrightarrow> length b = sz \<and> 8 \<le> sz \<and> 8 \<le> rec_usa_ofs b \<and>
     is_valid_record sz (rec_usa_ofs b) (rec_usa_count b)"

lemma mst_record_facts:
  assumes "mst_record sz b"
  shows "usa_rounds (rec_usa_count b) = sz div 512" "rec_usa_count b = Suc (sz div 512)"
    "rec_usa_ofs b + 2 + 2 * (sz div 512) \<le> 510" "510 + 512 * (sz div 512) \<le> length b + 510"
    "\<not> length b < 8" "\<not> length b < rec_usa_ofs b + 2" "8 \<le> rec_usa_ofs b" "rec_usa_ofs b div 2 * 2 = rec_usa_ofs b"
    "length b = 512 * (sz div 512)"
proof -
  have v: "sz mod 512 = 0" "rec_usa_ofs b mod 2 = 0" "rec_usa_count b = 1 + sz div 512"
    "rec_usa_ofs b + rec_usa_count b * 2 \<le> 510" "length b = sz" "8 \<le> sz" "8 \<le> rec_usa_ofs b"
    using assms by (simp_all add: mst_record_def is_valid_record_def NTFS_BLOCK_SIZE_def)
  have sz: "sz = 512 * (sz div 512)" using v(1) by auto
  then have big: "512 \<le> sz" using v(6) by (cases "sz div 512") auto
  have len: "length b = 512 * (sz div 512)" using sz v(5) by simp
  show "usa_rounds (rec_usa_count b) = sz div 512" using v(3,4) by (simp add: usa_rounds_def)
  show "rec_usa_count b = Suc (sz div 512)" "rec_usa_ofs b + 2 + 2 * (sz div 512) \<le> 510"
    "\<not> length b < rec_usa_ofs b + 2" "rec_usa_ofs b div 2 * 2 = rec_usa_ofs b"
    using v big by auto
  show "510 + 512 * (sz div 512) \<le> length b + 510" "length b = 512 * (sz div 512)" using len by simp_all
  show "\<not> length b < 8" "8 \<le> rec_usa_ofs b" using v by simp_all
qed

lemma header_cong:
  assumes "\<forall>i < 8. byte_at r i = byte_at b i"
  shows "rec_usa_ofs r = rec_usa_ofs b" "rec_usa_count r = rec_usa_count b"
proof -
  have "byte_at r 4 = byte_at b 4" "byte_at r (Suc 4) = byte_at b (Suc 4)"
    "byte_at r 6 = byte_at b 6" "byte_at r (Suc 6) = byte_at b (Suc 6)"
    using assms by auto
  then show "rec_usa_ofs r = rec_usa_ofs b" "rec_usa_count r = rec_usa_count b"
    unfolding rec_usa_ofs_def rec_usa_count_def rd16_eq_iff by auto
qed

lemma mst_record_cong:
  "mst_record sz b \<Longrightarrow> length r = length b \<Longrightarrow> \<forall>i < 8. byte_at r i = byte_at b i \<Longrightarrow> mst_record sz r"
  using header_cong [of r b] by (simp add: mst_record_def)

lemma next_usn_less [simp]: "next_usn u < 65536"
  by (simp add: next_usn_def Let_def)

lemma next_usn_differs: "u < 65536 \<Longrightarrow> next_usn u \<noteq> u"
  by (auto simp: next_usn_def Let_def mod_Suc split: if_splits)

lemma post_read_spec:
  assumes "mst_record sz q"
  shows "ntfs_mst_post_read_fixup q sz =
    (if \<forall>j < sz div 512. rd16 q (510 + 512 * j) = rd16 q (rec_usa_ofs q)
     then res_bind (mst_restore q (rec_usa_ofs q) 510 (sz div 512)) (\<lambda>b. Ok (None, b))
     else Ok (Some EIO, put_at q 0 (le_bytes 4 magic_BAAD)))"
proof -
  note f = mst_record_facts [OF assms]
  have "is_valid_record sz (rec_usa_ofs q) (rec_usa_count q)" using assms by (simp add: mst_record_def)
  then show ?thesis
    using mst_check_spec [OF f(4)] f(5,6)
    by (simp add: ntfs_mst_post_read_fixup_def ntfs_mst_post_read_fixup_warn_def Let_def f(1) NTFS_BLOCK_SIZE_def)
qed

lemma pre_write_spec:
  assumes rec: "mst_record sz b" and magic: "rec_magic b \<noteq> magic_BAAD" "rec_magic b \<noteq> magic_HOLE"
  obtains p where "ntfs_mst_pre_write_fixup (Some b) sz = Ok (None, p)" "mst_record sz p" "length p = length b"
    "rec_usa_ofs p = rec_usa_ofs b"
    "rd16 p (rec_usa_ofs b) = next_usn (rd16 b (rec_usa_ofs b))"
    "\<forall>j < sz div 512. rd16 p (510 + 512 * j) = next_usn (rd16 b (rec_usa_ofs b))"
    "\<forall>j < sz div 512. rd16 p (rec_usa_ofs b + 2 + 2 * j) = rd16 b (510 + 512 * j)"
    "\<forall>i. i \<notin> data_at 510 (sz div 512) \<longrightarrow>
       i < rec_usa_ofs b \<or> rec_usa_ofs b + 2 + 2 * (sz div 512) \<le> i \<longrightarrow> byte_at p i = byte_at b i"
proof -
  let ?u = "rec_usa_ofs b" and ?n = "sz div 512"
  note f = mst_record_facts [OF rec]
  define usn where "usn = next_usn (rd16 b ?u)"
  define b1 where "b1 = wr16 b ?u usn"
  have len: "length b1 = length b" using f(6) by (simp add: b1_def)
  obtain p where p: "mst_protect b1 usn ?u 510 ?n = Ok p" "length p = length b1"
    "\<forall>j < ?n. rd16 p (?u + 2 + 2 * j) = rd16 b1 (510 + 512 * j)"
    "\<forall>j < ?n. rd16 p (510 + 512 * j) = usn"
    "\<forall>i. i \<notin> data_at 510 ?n \<longrightarrow> i < ?u + 2 \<or> ?u + 2 + 2 * ?n \<le> i \<longrightarrow> byte_at p i = byte_at b1 i"
    using mst_protect_spec [of ?u ?n 510 b1 usn] f(3,4) len by (auto simp: usn_def)
  have away: "byte_at p i = byte_at b i"
    if "i \<notin> data_at 510 ?n" "i < ?u \<or> ?u + 2 + 2 * ?n \<le> i" for i
    using p(5) that f(6) byte_at_wr16 [of ?u b i usn] by (auto simp: b1_def)
  have low: "i \<notin> data_at 510 ?n" if "i < 510" for i using that by (auto simp: data_at_def)
  have hdr: "\<forall>i < 8. byte_at p i = byte_at b i" using away low f(7) by auto
  have "rd16 p ?u = rd16 b1 ?u"
    unfolding rd16_eq_iff using p(5) low f(3) by simp
  then have u: "rd16 p ?u = usn" using f(6) by (simp add: b1_def usn_def)
  have saved: "rd16 b1 (510 + 512 * j) = rd16 b (510 + 512 * j)" for j
    unfolding b1_def using f(3,6) by (subst rd16_wr16_other) auto
  have "ntfs_mst_pre_write_fixup (Some b) sz = Ok (None, p)"
    using p(1) magic rec f(5,6)
    by (simp add: ntfs_mst_pre_write_fixup_def Let_def f(1) NTFS_BLOCK_SIZE_def mst_record_def
        b1_def usn_def)
  moreover have "mst_record sz p" using mst_record_cong [OF rec _ hdr] p(2) len by simp
  ultimately show thesis
    using that [of p] p(2-4) len u saved away header_cong(1) [OF hdr] by (simp add: usn_def)
qed

lemma mst_roundtrip_rec:
  assumes rec: "mst_record sz b" and magic: "rec_magic b \<noteq> magic_BAAD" "rec_magic b \<noteq> magic_HOLE"
  shows "\<exists>p r. ntfs_mst_pre_write_fixup (Some b) sz = Ok (None, p) \<and>
    ntfs_mst_post_read_fixup p sz = Ok (None, r) \<and> ntfs_mst_post_write_fixup p = Ok r \<and>
    length p = length b \<and> length r = length b \<and>
    (\<forall>i. i < rec_usa_ofs b \<or> rec_usa_ofs b + 2 * rec_usa_count b \<le> i \<longrightarrow> byte_at r i = byte_at b i)"
proof -
  let ?u = "rec_usa_ofs b" and ?n = "sz div 512"
  note f = mst_record_facts [OF rec]
  obtain p where p: "ntfs_mst_pre_write_fixup (Some b) sz = Ok (None, p)" "mst_record sz p"
    "length p = length b" "rec_usa_ofs p = ?u" "rd16 p ?u = next_usn (rd16 b ?u)"
    "\<forall>j < ?n. rd16 p (510 + 512 * j) = next_usn (rd16 b ?u)"
    "\<forall>j < ?n. rd16 p (?u + 2 + 2 * j) = rd16 b (510 + 512 * j)"
    "\<forall>i. i \<notin> data_at 510 ?n \<longrightarrow> i < ?u \<or> ?u + 2 + 2 * ?n \<le> i \<longrightarrow> byte_at p i = byte_at b i"
    by (rule pre_write_spec [OF assms])
  note g = mst_record_facts [OF p(2)]
  obtain r where r: "mst_restore p ?u 510 ?n = Ok r" "length r = length p"
    "\<forall>j < ?n. rd16 r (510 + 512 * j) = rd16 p (?u + 2 + 2 * j)"
    "\<forall>i. i \<notin> data_at 510 ?n \<longrightarrow> byte_at r i = byte_at p i"
    using mst_restore_spec [of ?u ?n 510 p] f(3) g(4) by auto
  have "byte_at r i = byte_at b i" if i: "i < ?u \<or> ?u + 2 * rec_usa_count b \<le> i" for i
  proof (cases "i \<in> data_at 510 ?n")
    case True
    then obtain j where j: "j < ?n" "i = 510 + 512 * j \<or> i = Suc (510 + 512 * j)"
      by (auto simp: data_at_def)
    then have "rd16 r (510 + 512 * j) = rd16 b (510 + 512 * j)" using r(3) p(7) by auto
    with j(2) show ?thesis unfolding rd16_eq_iff by auto
  next
    case False
    then show ?thesis using r(4) p(8) i f(2) by auto
  qed
  moreover have "ntfs_mst_post_read_fixup p sz = Ok (None, r)"
    using post_read_spec [OF p(2)] p(4-6) r(1) by simp
  moreover have "ntfs_mst_post_write_fixup p = Ok r"
    using g(1,5,8) r(1) p(4) by (simp add: ntfs_mst_post_write_fixup_def NTFS_BLOCK_SIZE_def)
  ultimately show ?thesis using p(1,3) r(2) by metis
qed

text \<open>(C12) Round trip of the multi sector protection: protecting a record succeeds, and both
  reading the protected record back and undoing the protection after the write give the
  original record in every byte outside the update sequence array.\<close>

theorem mst_roundtrip:
  assumes rec: "mst_record sz b" and magic: "rec_magic b \<noteq> magic_BAAD" "rec_magic b \<noteq> magic_HOLE"
  shows "\<exists>p r. ntfs_mst_pre_write_fixup (Some b) sz = Ok (None, p) \<and>
    ntfs_mst_post_read_fixup p sz = Ok (None, r) \<and> ntfs_mst_post_write_fixup p = Ok r \<and>
    length r = length b \<and>
    (\<forall>i. i < rec_usa_ofs b \<or> rec_usa_ofs b + 2 * rec_usa_count b \<le> i \<longrightarrow> byte_at r i = byte_at b i)"
  using mst_roundtrip_rec [OF assms] by blast

text \<open>A 1 KiB record with its update sequence array at byte 48.\<close>

definition demo_record :: bytes where
  "demo_record = [0x46, 0x49, 0x4c, 0x45] @ le_bytes 2 48 @ le_bytes 2 3 @ replicate 40 0 @ le_bytes 2 7 @
     replicate 974 0xaa"

lemma demo_record_fields:
  "rec_usa_ofs demo_record = 48" "rec_usa_count demo_record = 3" "rec_magic demo_record = 0x454c4946"
  "rd16 demo_record 48 = 7"
proof -
  have h: "has_bytes demo_record 0 [0x46, 0x49, 0x4c, 0x45]" "has_bytes demo_record 4 (le_bytes 2 48)"
    "has_bytes demo_record 6 (le_bytes 2 3)" "has_bytes demo_record 48 (le_bytes 2 7)"
    by (simp_all add: has_bytes_def demo_record_def del: le_bytes.simps)
  show "rec_usa_ofs demo_record = 48" "rec_usa_count demo_record = 3" "rd16 demo_record 48 = 7"
    unfolding rec_usa_ofs_def rec_usa_count_def
    using has_bytes_le_at [OF h(2), of 2] has_bytes_le_at [OF h(3), of 2] has_bytes_le_at [OF h(4), of 2]
    by (simp_all add: le_simps)
  show "rec_magic demo_record = 0x454c4946"
    using has_bytes_le_at [OF h(1), of 4] by (simp add: rec_magic_def)
qed

lemma demo_record_ok:
  "mst_record 1024 demo_record" "rec_magic demo_record \<noteq> magic_BAAD" "rec_magic demo_record \<noteq> magic_HOLE"
proof -
  have "length demo_record = 1024" by (simp add: demo_record_def)
  then show "mst_record 1024 demo_record"
    by (simp add: mst_record_def demo_record_fields is_valid_record_def NTFS_BLOCK_SIZE_def)
qed (simp_all add: demo_record_fields magic_BAAD_def magic_HOLE_def)

theorem mst_roundtrip_witness:
  "\<exists>p r. ntfs_mst_pre_write_fixup (Some demo_record) 1024 = Ok (None, p) \<and>
    ntfs_mst_post_read_fixup p 1024 = Ok (None, r) \<and> (\<forall>i \<ge> 54. byte_at r i = byte_at demo_record i)"
  using mst_roundtrip [OF demo_record_ok] by (auto simp: demo_record_fields)

section \<open>Torn writes\<close>

definition sector :: "nat \<Rightarrow> bytes \<Rightarrow> bytes" where
  "sector k x = take 512 (drop (512 * k) x)"

lemma rd16_sector:
  assumes "sector k x = sector k y" and "512 * k + 512 \<le> length x" and "length y = length x" and "i + 2 \<le> 512"
  shows "rd16 x (512 * k + i) = rd16 y (512 * k + i)"
proof -
  have "byte_at z (512 * k + j) = sector k z ! j" if "j < 512" "512 * k + 512 \<le> length z" for z j
    using that by (simp add: sector_def byte_at_def)
  from this [of i x] this [of i y] this [of "Suc i" x] this [of "Suc i" y] assms
  show ?thesis unfolding rd16_eq_iff by simp
qed

text \<open>A record on the disk, protected with the update sequence number \<open>usn\<close>.\<close>

definition protected_with :: "nat \<Rightarrow> nat \<Rightarrow> bytes \<Rightarrow> bool" where
  "protected_with sz usn r \<longleftrightarrow> mst_record sz r \<and> rd16 r (rec_usa_ofs r) = usn \<and>
     (\<forall>k < sz div 512. rd16 r (512 * k + 510) = usn)"

text \<open>
  A write that stopped half way: every sector is that of the protected record \<open>p\<close> or still
  the one that was on the disk, and there is one of either kind.
\<close>

definition torn :: "bytes \<Rightarrow> bytes \<Rightarrow> bytes \<Rightarrow> bool" where
  "torn old p q \<longleftrightarrow> length q = length p \<and> length old = length p \<and>
     (\<forall>k < length p div 512. sector k q = sector k p \<or> sector k q = sector k old) \<and>
     (\<exists>k < length p div 512. sector k q = sector k p) \<and>
     (\<exists>k < length p div 512. sector k q = sector k old)"

lemma mixture_detected:
  assumes r: "mst_record sz r" and q: "length q = length r" "sector 0 q = sector 0 r"
    and k: "k < sz div 512" "rd16 q (510 + 512 * k) \<noteq> rd16 r (rec_usa_ofs r)"
  shows "ntfs_mst_post_read_fixup q sz = Ok (Some EIO, put_at q 0 (le_bytes 4 magic_BAAD))"
proof -
  note f = mst_record_facts [OF r]
  define n where "n = sz div 512"
  have "0 < n" using k(1) by (simp add: n_def)
  moreover have "length q = 512 * n" unfolding n_def q(1) by (rule f(9))
  ultimately have big: "512 * 0 + 512 \<le> length q" by simp
  have sec0: "rd16 q i = rd16 r i" if "i + 2 \<le> 512" for i
    using rd16_sector [OF q(2) big q(1) [symmetric] that] by simp
  have q': "rec_usa_ofs q = rec_usa_ofs r" "rec_usa_count q = rec_usa_count r"
    using sec0 [of 4] sec0 [of 6] by (simp_all add: rec_usa_ofs_def rec_usa_count_def)
  then have rec_q: "mst_record sz q" using r q(1) by (simp add: mst_record_def)
  have "rd16 q (rec_usa_ofs r) = rd16 r (rec_usa_ofs r)" using sec0 f(3) by simp
  then have "rd16 q (510 + 512 * k) \<noteq> rd16 q (rec_usa_ofs q)" using k(2) q'(1) by simp
  then show ?thesis using post_read_spec [OF rec_q] k(1) by auto
qed

text \<open>(C13) Torn writes are detected: if the record on the disk is protected with the update
  sequence number that the record in memory carries, and of a write of the newly protected record
  some sectors, but not all, reach the disk, with or without the sector that holds the update
  sequence array, then reading the mixture fails with \<open>EIO\<close> and marks the record as bad.\<close>

theorem torn_write_detected:
  assumes rec: "mst_record sz b" and magic: "rec_magic b \<noteq> magic_BAAD" "rec_magic b \<noteq> magic_HOLE"
    and old: "protected_with sz (rd16 b (rec_usa_ofs b)) old"
    and wr: "ntfs_mst_pre_write_fixup (Some b) sz = Ok (None, p)" and torn: "torn old p q"
  shows "ntfs_mst_post_read_fixup q sz = Ok (Some EIO, put_at q 0 (le_bytes 4 magic_BAAD)) \<and>
    rec_magic (put_at q 0 (le_bytes 4 magic_BAAD)) = magic_BAAD"
proof -
  let ?u = "rd16 b (rec_usa_ofs b)" and ?n = "sz div 512"
  note f = mst_record_facts [OF rec]
  obtain p' where "ntfs_mst_pre_write_fixup (Some b) sz = Ok (None, p')" "mst_record sz p'"
    "length p' = length b" "rec_usa_ofs p' = rec_usa_ofs b" "rd16 p' (rec_usa_ofs b) = next_usn ?u"
    "\<forall>k < ?n. rd16 p' (510 + 512 * k) = next_usn ?u"
    by (rule pre_write_spec [OF rec magic])
  then have p: "mst_record sz p" "length p = length b" "rd16 p (rec_usa_ofs p) = next_usn ?u"
    "\<forall>k < ?n. rd16 p (510 + 512 * k) = next_usn ?u"
    using wr by auto
  have len: "length q = length p" "length old = length p" "length p div 512 = ?n"
    using torn p(2) f(9) by (auto simp: torn_def)
  have big: "512 * j + 512 \<le> length q" if "j < ?n" for j
    using that len(1) p(2) f(9) by (simp add: mult_le_mono flip: mult_Suc_right)
  have word: "rd16 q (510 + 512 * k) = rd16 r (510 + 512 * k)"
    if "sector k q = sector k r" "k < ?n" "length r = length p" for k r
    using rd16_sector [OF that(1) big [OF that(2)], of 510] that(3) len(1) by (simp add: add.commute)
  have o: "mst_record sz old" "rd16 old (rec_usa_ofs old) = ?u" "\<forall>k < ?n. rd16 old (510 + 512 * k) = ?u"
    using old by (auto simp: protected_with_def add.commute)
  obtain j k where jk: "j < ?n" "sector j q = sector j p" "k < ?n" "sector k q = sector k old"
    using torn len(3) by (auto simp: torn_def)
  have "sector 0 q = sector 0 p \<or> sector 0 q = sector 0 old" using torn jk(1) len(3) by (auto simp: torn_def)
  then have "ntfs_mst_post_read_fixup q sz = Ok (Some EIO, put_at q 0 (le_bytes 4 magic_BAAD))"
  proof
    assume "sector 0 q = sector 0 p"
    then show ?thesis
      using mixture_detected [OF p(1) len(1) _ jk(3)] word [OF jk(4,3)] len o(3) p(3) jk(3)
        next_usn_differs [of ?u] by auto
  next
    assume "sector 0 q = sector 0 old"
    then show ?thesis
      using mixture_detected [OF o(1) _ _ jk(1), of q] word [OF jk(2,1)] len o(2) p(4) jk(1)
        next_usn_differs [of ?u] by auto
  qed
  moreover have "rec_magic (put_at q 0 (le_bytes 4 magic_BAAD)) = magic_BAAD"
    using le_at_put_at_same [of 0 4 q magic_BAAD] big [OF jk(1)]
    by (simp add: rec_magic_def magic_BAAD_def)
  ultimately show ?thesis by simp
qed

text \<open>The demonstration record as it is on the disk.\<close>

definition demo_on_disk :: bytes where
  "demo_on_disk = wr16 (wr16 demo_record 510 7) 1022 7"

lemma demo_on_disk_ok: "protected_with 1024 (rd16 demo_record (rec_usa_ofs demo_record)) demo_on_disk"
proof -
  have len: "length demo_record = 1024" by (simp add: demo_record_def)
  have "rd16 demo_on_disk i = rd16 demo_record i" if "i + 2 \<le> 510" for i
    using that len by (simp add: demo_on_disk_def rd16_wr16_other)
  moreover have "rd16 demo_on_disk 510 = 7" "rd16 demo_on_disk 1022 = 7" "length demo_on_disk = 1024"
    using len by (simp_all add: demo_on_disk_def rd16_wr16_other)
  ultimately show ?thesis
    using demo_record_ok(1) len
    by (simp add: protected_with_def mst_record_def rec_usa_ofs_def rec_usa_count_def demo_record_fields
      [unfolded rec_usa_ofs_def rec_usa_count_def] less_2_cases_iff)
qed

text \<open>Only the second sector of the write reaches the disk.\<close>

theorem torn_write_detected_witness:
  "\<exists>p q. ntfs_mst_pre_write_fixup (Some demo_record) 1024 = Ok (None, p) \<and>
    q = sector 0 demo_on_disk @ sector 1 p \<and>
    ntfs_mst_post_read_fixup q 1024 = Ok (Some EIO, put_at q 0 (le_bytes 4 magic_BAAD))"
proof -
  obtain p where p: "ntfs_mst_pre_write_fixup (Some demo_record) 1024 = Ok (None, p)"
    "length p = length demo_record"
    by (rule pre_write_spec [OF demo_record_ok])
  define q where "q = sector 0 demo_on_disk @ sector 1 p"
  have len: "length p = 1024" "length demo_on_disk = 1024"
    using p(2) by (simp_all add: demo_record_def demo_on_disk_def)
  then have "sector 0 q = sector 0 demo_on_disk" "sector 1 q = sector 1 p" "length q = 1024"
    by (simp_all add: q_def sector_def)
  then have "torn demo_on_disk p q" using len unfolding torn_def by (auto simp: less_2_cases_iff)
  from torn_write_detected [OF demo_record_ok demo_on_disk_ok p(1) this] p(1) q_def show ?thesis by blast
qed

end
