(* ===== verification/Device.thy ===== *)
theory Device
  imports Mst
begin

text \<open>
  Devices (\<open>libntfs-3g/device.c\<close>, \<open>unix_io.c\<close>): \<open>struct ntfs_device\<close> and its flags, the
  operations table through which every access goes, its implementation for files and
  block devices, and on top of it the positioned read and write that loop until everything
  is transferred, the multi sector protected transfers, the transfers of clusters, the
  size and the geometry. The system calls are parameters.
\<close>

unbundle bit_operations_syntax

section \<open>The device structure\<close>

text \<open>
  \<open>d_file\<close> is the state of the operating system behind the file descriptor, \<open>d_private\<close> tells
  whether the descriptor is allocated; the bits of \<open>d_state\<close> are one flag each.
\<close>

record 'd ntfs_device =
  d_file :: 'd
  d_name :: string
  d_private :: bool
  d_open :: bool
  d_readonly :: bool
  d_dirty :: bool
  d_block :: bool
  d_sync :: bool
  d_heads :: int
  d_sectors_per_track :: int

text \<open>The reply to \<open>HDIO_GETGEO\<close>.\<close>

record hd_geometry =
  geo_heads :: nat
  geo_sectors :: nat
  geo_start :: nat

text \<open>
  The operations table; a failed call gives \<open>errno\<close>, a read also the bytes read. The
  requests the code sends through \<open>ioctl\<close> are one field each; those of other systems than
  Linux are left out.
\<close>

record 'd ntfs_device_operations =
  op_open :: "'d ntfs_device \<Rightarrow> bool \<Rightarrow> 'd ntfs_device \<times> errno option"
  op_close :: "'d ntfs_device \<Rightarrow> 'd ntfs_device \<times> errno option"
  op_seek :: "'d ntfs_device \<Rightarrow> int \<Rightarrow> 'd ntfs_device \<times> bool"
  op_read :: "'d ntfs_device \<Rightarrow> nat \<Rightarrow> 'd ntfs_device \<times> (errno + bytes)"
  op_write :: "'d ntfs_device \<Rightarrow> bytes \<Rightarrow> 'd ntfs_device \<times> (errno + nat)"
  op_pread :: "'d ntfs_device \<Rightarrow> nat \<Rightarrow> int \<Rightarrow> 'd ntfs_device \<times> (errno + bytes)"
  op_pwrite :: "'d ntfs_device \<Rightarrow> bytes \<Rightarrow> int \<Rightarrow> 'd ntfs_device \<times> (errno + nat)"
  op_sync :: "'d ntfs_device \<Rightarrow> 'd ntfs_device \<times> errno option"
  op_blkgetsize64 :: "'d ntfs_device \<Rightarrow> nat option"
  op_blkgetsize :: "'d ntfs_device \<Rightarrow> nat option"
  op_fdgetprm :: "'d ntfs_device \<Rightarrow> nat option"
  op_hdio_getgeo :: "'d ntfs_device \<Rightarrow> errno + hd_geometry"
  op_blksszget :: "'d ntfs_device \<Rightarrow> errno + int"
  op_blkbszset :: "'d ntfs_device \<Rightarrow> int \<Rightarrow> 'd ntfs_device \<times> errno option"

text \<open>The record locks of \<open>fcntl\<close> and the system calls on a file descriptor.\<close>

datatype lock = F_RDLCK | F_WRLCK

record 'd syscalls =
  sys_stat_isblk :: "'d \<Rightarrow> string \<Rightarrow> errno + bool"
  sys_open :: "'d \<Rightarrow> string \<Rightarrow> bool \<Rightarrow> bool \<Rightarrow> 'd \<times> errno option"
  sys_setlk :: "'d \<Rightarrow> lock option \<Rightarrow> 'd \<times> errno option"
  sys_close :: "'d \<Rightarrow> 'd \<times> errno option"
  sys_lseek :: "'d \<Rightarrow> int \<Rightarrow> 'd \<times> bool"
  sys_read :: "'d \<Rightarrow> nat \<Rightarrow> 'd \<times> (errno + bytes)"
  sys_write :: "'d \<Rightarrow> bytes \<Rightarrow> 'd \<times> (errno + nat)"
  sys_pread :: "'d \<Rightarrow> nat \<Rightarrow> int \<Rightarrow> 'd \<times> (errno + bytes)"
  sys_pwrite :: "'d \<Rightarrow> bytes \<Rightarrow> int \<Rightarrow> 'd \<times> (errno + nat)"
  sys_fsync :: "'d \<Rightarrow> 'd \<times> errno option"
  sys_size64 :: "'d \<Rightarrow> nat option"
  sys_size512 :: "'d \<Rightarrow> nat option"
  sys_floppy512 :: "'d \<Rightarrow> nat option"
  sys_geometry :: "'d \<Rightarrow> errno + hd_geometry"
  sys_sector_size :: "'d \<Rightarrow> errno + int"
  sys_set_block_size :: "'d \<Rightarrow> int \<Rightarrow> 'd \<times> errno option"

section \<open>Allocation\<close>

text \<open>
  The allocator is the predicate \<open>mem\<close> on the requested size; the structure has 48 bytes and
  the flags are the bits of \<open>state\<close>.
\<close>

definition ntfs_device_alloc :: "(nat \<Rightarrow> bool) \<Rightarrow> string option \<Rightarrow> nat \<Rightarrow> 'd \<Rightarrow> 'd ntfs_device result" where
  "ntfs_device_alloc mem name state os =
     (case name of None \<Rightarrow> Err EINVAL
      | Some name \<Rightarrow>
          if \<not> mem 48 \<or> \<not> mem (length name + 1) then Err ENOMEM
          else Ok \<lparr>d_file = os, d_name = name, d_private = False, d_open = bit state 0,
                 d_readonly = bit state 1, d_dirty = bit state 2, d_block = bit state 3,
                 d_sync = bit state 4, d_heads = -1, d_sectors_per_track = -1\<rparr>)"

definition ntfs_device_free :: "'d ntfs_device option \<Rightarrow> errno option" where
  "ntfs_device_free dev =
     (case dev of None \<Rightarrow> Some EINVAL | Some dev \<Rightarrow> if d_open dev then Some EBUSY else None)"

section \<open>Files and block devices\<close>

text \<open>\<open>rdwr\<close> tells whether the flags contain \<open>O_RDWR\<close>.\<close>

definition ntfs_device_unix_io_open ::
    "(nat \<Rightarrow> bool) \<Rightarrow> 'd syscalls \<Rightarrow> 'd ntfs_device \<Rightarrow> bool \<Rightarrow> 'd ntfs_device \<times> errno option" where
  "ntfs_device_unix_io_open mem os dev rdwr =
     (if d_open dev then (dev, Some EBUSY)
      else case sys_stat_isblk os (d_file dev) (d_name dev) of
        Inl e \<Rightarrow> (dev, Some e)
      | Inr isblk \<Rightarrow>
          let dev = dev\<lparr>d_block := d_block dev \<or> isblk\<rparr>
          in if \<not> mem 4 then (dev\<lparr>d_private := False\<rparr>, Some ENOMEM)
             else case sys_open os (d_file dev) (d_name dev) rdwr (\<not> d_block dev \<and> rdwr) of
               (f, Some e) \<Rightarrow> (dev\<lparr>d_file := f, d_private := False\<rparr>, Some e)
             | (f, None) \<Rightarrow>
                 let dev = dev\<lparr>d_file := f, d_private := True, d_readonly := d_readonly dev \<or> \<not> rdwr\<rparr>
                 in case sys_setlk os (d_file dev) (Some (if d_readonly dev then F_RDLCK else F_WRLCK)) of
                      (f, None) \<Rightarrow> (dev\<lparr>d_file := f, d_open := True\<rparr>, None)
                    | (f, Some e) \<Rightarrow>
                        (dev\<lparr>d_file := fst (sys_close os f), d_private := False\<rparr>, Some e))"

definition ntfs_device_unix_io_close ::
    "'d syscalls \<Rightarrow> 'd ntfs_device \<Rightarrow> 'd ntfs_device \<times> errno option" where
  "ntfs_device_unix_io_close os dev =
     (if \<not> d_open dev then (dev, Some EBADF)
      else case (if d_dirty dev then sys_fsync os (d_file dev) else (d_file dev, None)) of
        (f, Some e) \<Rightarrow> (dev\<lparr>d_file := f\<rparr>, Some e)
      | (f, None) \<Rightarrow>
          (case sys_close os (fst (sys_setlk os f None)) of
             (f, Some e) \<Rightarrow> (dev\<lparr>d_file := f\<rparr>, Some e)
           | (f, None) \<Rightarrow> (dev\<lparr>d_file := f, d_open := False, d_private := False\<rparr>, None)))"

definition ntfs_device_unix_io_seek ::
    "'d syscalls \<Rightarrow> 'd ntfs_device \<Rightarrow> int \<Rightarrow> 'd ntfs_device \<times> bool" where
  "ntfs_device_unix_io_seek os dev offset =
     (case sys_lseek os (d_file dev) offset of (f, r) \<Rightarrow> (dev\<lparr>d_file := f\<rparr>, r))"

definition ntfs_device_unix_io_read ::
    "'d syscalls \<Rightarrow> 'd ntfs_device \<Rightarrow> nat \<Rightarrow> 'd ntfs_device \<times> (errno + bytes)" where
  "ntfs_device_unix_io_read os dev count =
     (case sys_read os (d_file dev) count of (f, r) \<Rightarrow> (dev\<lparr>d_file := f\<rparr>, r))"

definition ntfs_device_unix_io_write ::
    "'d syscalls \<Rightarrow> 'd ntfs_device \<Rightarrow> bytes \<Rightarrow> 'd ntfs_device \<times> (errno + nat)" where
  "ntfs_device_unix_io_write os dev buf =
     (if d_readonly dev then (dev, Inl EROFS)
      else case sys_write os (d_file dev) buf of
        (f, r) \<Rightarrow> (dev\<lparr>d_file := f, d_dirty := True\<rparr>, r))"

definition ntfs_device_unix_io_pread ::
    "'d syscalls \<Rightarrow> 'd ntfs_device \<Rightarrow> nat \<Rightarrow> int \<Rightarrow> 'd ntfs_device \<times> (errno + bytes)" where
  "ntfs_device_unix_io_pread os dev count offset =
     (case sys_pread os (d_file dev) count offset of (f, r) \<Rightarrow> (dev\<lparr>d_file := f\<rparr>, r))"

definition ntfs_device_unix_io_pwrite ::
    "'d syscalls \<Rightarrow> 'd ntfs_device \<Rightarrow> bytes \<Rightarrow> int \<Rightarrow> 'd ntfs_device \<times> (errno + nat)" where
  "ntfs_device_unix_io_pwrite os dev buf offset =
     (if d_readonly dev then (dev, Inl EROFS)
      else case sys_pwrite os (d_file dev) buf offset of
        (f, r) \<Rightarrow> (dev\<lparr>d_file := f, d_dirty := True\<rparr>, r))"

definition ntfs_device_unix_io_sync ::
    "'d syscalls \<Rightarrow> 'd ntfs_device \<Rightarrow> 'd ntfs_device \<times> errno option" where
  "ntfs_device_unix_io_sync os dev =
     (if d_readonly dev then (dev, None)
      else case sys_fsync os (d_file dev) of
        (f, None) \<Rightarrow> (dev\<lparr>d_file := f, d_dirty := False\<rparr>, None)
      | (f, Some e) \<Rightarrow> (dev\<lparr>d_file := f\<rparr>, Some e))"

definition ntfs_device_unix_io_ops :: "(nat \<Rightarrow> bool) \<Rightarrow> 'd syscalls \<Rightarrow> 'd ntfs_device_operations" where
  "ntfs_device_unix_io_ops mem os =
     \<lparr>op_open = ntfs_device_unix_io_open mem os, op_close = ntfs_device_unix_io_close os,
      op_seek = ntfs_device_unix_io_seek os, op_read = ntfs_device_unix_io_read os,
      op_write = ntfs_device_unix_io_write os,
      op_pread = ntfs_device_unix_io_pread os, op_pwrite = ntfs_device_unix_io_pwrite os,
      op_sync = ntfs_device_unix_io_sync os,
      op_blkgetsize64 = (\<lambda>dev. sys_size64 os (d_file dev)),
      op_blkgetsize = (\<lambda>dev. sys_size512 os (d_file dev)),
      op_fdgetprm = (\<lambda>dev. sys_floppy512 os (d_file dev)),
      op_hdio_getgeo = (\<lambda>dev. sys_geometry os (d_file dev)),
      op_blksszget = (\<lambda>dev. sys_sector_size os (d_file dev)),
      op_blkbszset = (\<lambda>dev n. case sys_set_block_size os (d_file dev) n of
         (f, r) \<Rightarrow> (dev\<lparr>d_file := f\<rparr>, r))\<rparr>"

section \<open>Positioned transfers\<close>

definition ntfs_device_sync ::
    "'d ntfs_device_operations \<Rightarrow> 'd ntfs_device \<Rightarrow> 'd ntfs_device \<times> errno option" where
  "ntfs_device_sync dops dev = (if d_dirty dev then op_sync dops dev else (dev, None))"

function pread_loop ::
    "'d ntfs_device_operations \<Rightarrow> 'd ntfs_device \<Rightarrow> int \<Rightarrow> nat \<Rightarrow> bytes \<Rightarrow> 'd ntfs_device \<times> (errno + bytes)"
where
  "pread_loop dops dev pos count b =
     (if count = 0 then (dev, Inr b)
      else case op_pread dops dev count (pos + int (length b)) of
        (dev, Inr br) \<Rightarrow>
          if br \<noteq> [] then pread_loop dops dev pos (count - length br) (b @ br) else (dev, Inr b)
      | (dev, Inl e) \<Rightarrow> if b \<noteq> [] then (dev, Inr b) else (dev, Inl e))"
  by pat_completeness auto
termination
  by (relation "measure (\<lambda>(dops, dev, pos, count, b). count)") auto

declare pread_loop.simps [simp del]

definition ntfs_pread ::
    "'d ntfs_device_operations \<Rightarrow> 'd ntfs_device \<Rightarrow> int \<Rightarrow> int \<Rightarrow> 'd ntfs_device \<times> (errno + bytes)" where
  "ntfs_pread dops dev pos count =
     (if count < 0 \<or> pos < 0 then (dev, Inl EINVAL)
      else if count = 0 then (dev, Inr [])
      else pread_loop dops dev pos (nat count) [])"

text \<open>The write loop; the result is the value of \<open>total\<close> and, if it is -1, \<open>errno\<close>.\<close>

function pwrite_loop ::
    "'d ntfs_device_operations \<Rightarrow> 'd ntfs_device \<Rightarrow> int \<Rightarrow> bytes \<Rightarrow> nat \<Rightarrow> 'd ntfs_device \<times> int \<times> errno"
where
  "pwrite_loop dops dev pos b totl =
     (if b = [] then (dev, int totl, EIO)
      else case op_pwrite dops dev b (pos + int totl) of
        (dev, Inr written) \<Rightarrow>
          if 0 < written then pwrite_loop dops dev pos (drop written b) (totl + written)
          else (dev, int totl, EIO)
      | (dev, Inl e) \<Rightarrow> if totl \<noteq> 0 then (dev, int totl, e) else (dev, -1, e))"
  by pat_completeness auto
termination
  by (relation "measure (\<lambda>(dops, dev, pos, b, totl). length b)") auto

declare pwrite_loop.simps [simp del]

definition ntfs_pwrite ::
    "'d ntfs_device_operations \<Rightarrow> 'd ntfs_device \<Rightarrow> int \<Rightarrow> bytes \<Rightarrow> 'd ntfs_device \<times> int \<times> errno" where
  "ntfs_pwrite dops dev pos b =
     (if pos < 0 then (dev, -1, EINVAL)
      else if b = [] then (dev, 0, EIO)
      else if d_readonly dev then (dev, -1, EROFS)
      else case pwrite_loop dops (dev\<lparr>d_dirty := True\<rparr>) pos b 0 of
        (dev, totl, e) \<Rightarrow>
          if d_sync dev \<and> totl \<noteq> 0 then
            (case op_sync dops dev of
               (dev, None) \<Rightarrow> (dev, totl, e)
             | (dev, Some e) \<Rightarrow> (dev, totl - 1, e))
          else (dev, totl, e))"

section \<open>Multi sector protected transfers\<close>

text \<open>The fixups of the blocks of a buffer, one after the other, errors disregarded.\<close>

fun mst_fix_blocks :: "nat \<Rightarrow> nat \<Rightarrow> bytes \<Rightarrow> bytes result" where
  "mst_fix_blocks bksize 0 b = Ok b"
| "mst_fix_blocks bksize (Suc n) b =
     res_bind (ntfs_mst_post_read_fixup (take bksize b) bksize) (\<lambda>(_, blk).
       res_bind (mst_fix_blocks bksize n (drop bksize b)) (\<lambda>rest. Ok (blk @ rest)))"

definition ntfs_mst_pread ::
    "'d ntfs_device_operations \<Rightarrow> 'd ntfs_device \<Rightarrow> int \<Rightarrow> int \<Rightarrow> nat \<Rightarrow>
       'd ntfs_device \<times> (nat \<times> bytes) result" where
  "ntfs_mst_pread dops dev pos count bksize =
     (if bksize AND (bksize - 1) \<noteq> 0 \<or> bksize mod NTFS_BLOCK_SIZE \<noteq> 0
      then (dev, Err EINVAL)
      else case ntfs_pread dops dev pos (count * int bksize) of
        (dev, Inl e) \<Rightarrow> (dev, Err e)
      | (dev, Inr b) \<Rightarrow>
          if bksize = 0 then (dev, Fault)
          else (dev, res_bind (mst_fix_blocks bksize (length b div bksize) b)
                 (\<lambda>b. Ok (length b div bksize, b))))"

text \<open>
  The loop that protects the blocks: how many are prepared, the error of the first if it
  failed, and the buffer.
\<close>

fun mst_protect_blocks :: "nat \<Rightarrow> nat \<Rightarrow> bytes \<Rightarrow> (nat \<times> errno option \<times> bytes) result" where
  "mst_protect_blocks bksize 0 b = Ok (0, None, b)"
| "mst_protect_blocks bksize (Suc n) b =
     res_bind (ntfs_mst_pre_write_fixup (Some (take bksize b)) bksize) (\<lambda>(err, blk).
       case err of
         Some e \<Rightarrow> Ok (0, Some e, b)
       | None \<Rightarrow> res_bind (mst_protect_blocks bksize n (drop bksize b)) (\<lambda>(k, err, rest).
           Ok (Suc k, err, blk @ rest)))"

fun mst_unprotect_blocks :: "nat \<Rightarrow> nat \<Rightarrow> bytes \<Rightarrow> bytes result" where
  "mst_unprotect_blocks bksize 0 b = Ok b"
| "mst_unprotect_blocks bksize (Suc n) b =
     res_bind (ntfs_mst_post_write_fixup (take bksize b)) (\<lambda>blk.
       res_bind (mst_unprotect_blocks bksize n (drop bksize b)) (\<lambda>rest. Ok (blk @ rest)))"

definition ntfs_mst_pwrite ::
    "'d ntfs_device_operations \<Rightarrow> 'd ntfs_device \<Rightarrow> int \<Rightarrow> int \<Rightarrow> nat \<Rightarrow> bytes \<Rightarrow>
       'd ntfs_device \<times> (int \<times> errno \<times> bytes) result" where
  "ntfs_mst_pwrite dops dev pos count bksize b =
     (if count < 0 \<or> bksize mod NTFS_BLOCK_SIZE \<noteq> 0 then (dev, Ok (-1, EINVAL, b))
      else if count = 0 then (dev, Ok (0, EIO, b))
      else case mst_protect_blocks bksize (nat count) b of
        Err e \<Rightarrow> (dev, Err e)
      | Fault \<Rightarrow> (dev, Fault)
      | Ok (0, Some e, b) \<Rightarrow> (dev, Ok (-1, e, b))
      | Ok (k, _, b) \<Rightarrow>
          (case ntfs_pwrite dops dev pos (take (k * bksize) b) of
             (dev, written, e) \<Rightarrow>
               (dev, res_bind (mst_unprotect_blocks bksize k b) (\<lambda>b.
                  if written \<le> 0 then Ok (written, e, b)
                  else if bksize = 0 then Fault
                  else Ok (written div int bksize, e, b)))))"

section \<open>Clusters\<close>

definition ntfs_cluster_read ::
    "'d ntfs_device_operations \<Rightarrow> 'd ntfs_device \<Rightarrow> nat \<Rightarrow> int \<Rightarrow> int \<Rightarrow> int \<Rightarrow>
       'd ntfs_device \<times> (int \<times> bytes) result" where
  "ntfs_cluster_read dops dev cluster_size_bits nr_clusters lcn count =
     (if lcn < 0 \<or> count < 0 then (dev, Err EINVAL)
      else if nr_clusters < lcn + count then (dev, Err ESPIPE)
      else case ntfs_pread dops dev (lcn * 2 ^ cluster_size_bits) (count * 2 ^ cluster_size_bits) of
        (dev, Inl e) \<Rightarrow> (dev, Err e)
      | (dev, Inr b) \<Rightarrow> (dev, Ok (int (length b) div 2 ^ cluster_size_bits, b)))"

definition ntfs_cluster_write ::
    "'d ntfs_device_operations \<Rightarrow> 'd ntfs_device \<Rightarrow> bool \<Rightarrow> nat \<Rightarrow> int \<Rightarrow> int \<Rightarrow> int \<Rightarrow> bytes \<Rightarrow>
       'd ntfs_device \<times> int result" where
  "ntfs_cluster_write dops dev vol_readonly cluster_size_bits nr_clusters lcn count b =
     (if lcn < 0 \<or> count < 0 then (dev, Err EINVAL)
      else if nr_clusters < lcn + count then (dev, Err ESPIPE)
      else
        let (dev, bw, e) =
          (if vol_readonly then (dev, count * 2 ^ cluster_size_bits, EIO)
           else ntfs_pwrite dops dev (lcn * 2 ^ cluster_size_bits)
                  (take (nat (count * 2 ^ cluster_size_bits)) b))
        in if bw < 0 then (dev, Err e) else (dev, Ok (bw div 2 ^ cluster_size_bits)))"

section \<open>The size of a device\<close>

definition ntfs_device_offset_valid ::
    "'d ntfs_device_operations \<Rightarrow> 'd ntfs_device \<Rightarrow> int \<Rightarrow> 'd ntfs_device \<times> bool" where
  "ntfs_device_offset_valid dops dev ofs =
     (case op_seek dops dev ofs of
        (dev, False) \<Rightarrow> (dev, False)
      | (dev, True) \<Rightarrow>
          (case op_read dops dev 1 of
             (dev, Inr b) \<Rightarrow> (dev, length b = 1)
           | (dev, Inl _) \<Rightarrow> (dev, False)))"

text \<open>
  Doubling \<open>high\<close> until it is not a valid offset; this need not end. The offset is unbounded,
  where the code shifts an \<open>s64\<close> to the left, undefined from \<open>2 ^ 62\<close> on.
\<close>

partial_function (option) size_double ::
    "'d ntfs_device_operations \<Rightarrow> 'd ntfs_device \<Rightarrow> int \<Rightarrow> int \<Rightarrow> ('d ntfs_device \<times> int \<times> int) option" where
  "size_double dops dev low high =
     (case ntfs_device_offset_valid dops dev high of
        (dev, ok) \<Rightarrow> if ok then size_double dops dev high (high * 2) else Some (dev, low, high))"

function size_bisect ::
    "'d ntfs_device_operations \<Rightarrow> 'd ntfs_device \<Rightarrow> int \<Rightarrow> int \<Rightarrow> 'd ntfs_device \<times> int" where
  "size_bisect dops dev low high =
     (if low < high - 1 then
        (let mid = (low + high) div 2 in
         case ntfs_device_offset_valid dops dev mid of
           (dev, ok) \<Rightarrow> if ok then size_bisect dops dev mid high else size_bisect dops dev low mid)
      else (dev, low))"
  by pat_completeness auto
termination
  by (relation "measure (\<lambda>(dops, dev, low, high). nat (high - low))") auto

declare size_bisect.simps [simp del]

definition ntfs_device_size_get ::
    "'d ntfs_device_operations \<Rightarrow> 'd ntfs_device \<Rightarrow> int \<Rightarrow> ('d ntfs_device \<times> int result) option" where
  "ntfs_device_size_get dops dev block_size =
     (if block_size \<le> 0 \<or> (block_size - 1) AND block_size \<noteq> 0 then Some (dev, Err EINVAL)
      else case op_blkgetsize64 dops dev of
        Some sz \<Rightarrow> Some (dev, Ok (int sz div block_size))
      | None \<Rightarrow>
          (case op_blkgetsize dops dev of
             Some sz \<Rightarrow> Some (dev, Ok (int sz * 512 div block_size))
           | None \<Rightarrow>
               (case op_fdgetprm dops dev of
                  Some sz \<Rightarrow> Some (dev, Ok (int sz * 512 div block_size))
                | None \<Rightarrow>
                    (case size_double dops dev 0 1024 of
                       None \<Rightarrow> None
                     | Some (dev, low, high) \<Rightarrow>
                         (case size_bisect dops dev low high of
                            (dev, low) \<Rightarrow> Some (fst (op_seek dops dev 0), Ok ((low + 1) div block_size)))))))"

section \<open>Geometry\<close>

definition ntfs_device_partition_start_sector_get ::
    "'d ntfs_device_operations \<Rightarrow> 'd ntfs_device \<Rightarrow> nat result" where
  "ntfs_device_partition_start_sector_get dops dev =
     (case op_hdio_getgeo dops dev of Inr geo \<Rightarrow> Ok (geo_start geo) | Inl e \<Rightarrow> Err e)"

text \<open>Without the optional hardware detection library only \<open>HDIO_GETGEO\<close> is asked.\<close>

definition ntfs_device_get_geo ::
    "'d ntfs_device_operations \<Rightarrow> 'd ntfs_device \<Rightarrow> 'd ntfs_device \<times> errno option" where
  "ntfs_device_get_geo dops dev =
     (case op_hdio_getgeo dops dev of
        Inr geo \<Rightarrow> (dev\<lparr>d_heads := int (geo_heads geo), d_sectors_per_track := int (geo_sectors geo)\<rparr>, None)
      | Inl e \<Rightarrow> (dev, Some e))"

definition ntfs_device_heads_get ::
    "'d ntfs_device_operations \<Rightarrow> 'd ntfs_device \<Rightarrow> 'd ntfs_device \<times> int result" where
  "ntfs_device_heads_get dops dev =
     (if d_heads dev = -1 then
        (case ntfs_device_get_geo dops dev of
           (dev, Some e) \<Rightarrow> (dev, Err e)
         | (dev, None) \<Rightarrow> (dev, if d_heads dev = -1 then Err EINVAL else Ok (d_heads dev)))
      else (dev, Ok (d_heads dev)))"

definition ntfs_device_sectors_per_track_get ::
    "'d ntfs_device_operations \<Rightarrow> 'd ntfs_device \<Rightarrow> 'd ntfs_device \<times> int result" where
  "ntfs_device_sectors_per_track_get dops dev =
     (if d_sectors_per_track dev = -1 then
        (case ntfs_device_get_geo dops dev of
           (dev, Some e) \<Rightarrow> (dev, Err e)
         | (dev, None) \<Rightarrow>
             (dev, if d_sectors_per_track dev = -1 then Err EINVAL else Ok (d_sectors_per_track dev)))
      else (dev, Ok (d_sectors_per_track dev)))"

definition ntfs_device_sector_size_get :: "'d ntfs_device_operations \<Rightarrow> 'd ntfs_device \<Rightarrow> int result" where
  "ntfs_device_sector_size_get dops dev =
     (case op_blksszget dops dev of Inr n \<Rightarrow> Ok n | Inl e \<Rightarrow> Err e)"

definition ntfs_device_block_size_set ::
    "'d ntfs_device_operations \<Rightarrow> 'd ntfs_device \<Rightarrow> int \<Rightarrow> 'd ntfs_device \<times> errno option" where
  "ntfs_device_block_size_set dops dev block_size =
     (case op_blkbszset dops dev block_size of
        (dev, None) \<Rightarrow> (dev, None)
      | (dev, Some e) \<Rightarrow> (dev, if d_block dev then Some e else None))"

end
