(* ===== verification/Device_Laws.thy ===== *)
theory Device_Laws
  imports Device
begin

text \<open>
  What the clients of a device rely on, as a locale: the device has a content, a read
  inside it delivers at least one byte of it, a write inside it stores at least one byte.
  The positioned transfers are then exact. The operations for files and block devices
  satisfy the laws over any system calls that behave like a file of fixed size.
\<close>

section \<open>The interface\<close>

locale block_device =
  fixes dops :: "'d ntfs_device_operations"
    and content :: "'d \<Rightarrow> bytes"
  assumes pread_law: "0 < count \<Longrightarrow> pos + count \<le> length (content (d_file dev)) \<Longrightarrow>
      \<exists>dev' br. op_pread dops dev count (int pos) = (dev', Inr br) \<and> br \<noteq> [] \<and> length br \<le> count \<and>
        br = take (length br) (drop pos (content (d_file dev))) \<and>
        content (d_file dev') = content (d_file dev) \<and>
        d_readonly dev' = d_readonly dev \<and> d_sync dev' = d_sync dev"
    and pwrite_law: "b \<noteq> [] \<Longrightarrow> pos + length b \<le> length (content (d_file dev)) \<Longrightarrow> \<not> d_readonly dev \<Longrightarrow>
      \<exists>dev' n. op_pwrite dops dev b (int pos) = (dev', Inr n) \<and> 0 < n \<and> n \<le> length b \<and>
        content (d_file dev') = put_at (content (d_file dev)) pos (take n b) \<and>
        \<not> d_readonly dev' \<and> d_sync dev' = d_sync dev"
    and sync_law: "\<exists>dev'. op_sync dops dev = (dev', None) \<and> content (d_file dev') = content (d_file dev) \<and>
        d_readonly dev' = d_readonly dev \<and> d_sync dev' = d_sync dev"
begin

text \<open>A device that differs from another at most in its state and its dirty flag.\<close>

definition same_flags :: "'d ntfs_device \<Rightarrow> 'd ntfs_device \<Rightarrow> bool" where
  "same_flags dev dev' \<longleftrightarrow> d_readonly dev' = d_readonly dev \<and> d_sync dev' = d_sync dev"

lemma pread_loop_exact:
  assumes "p + length b + count \<le> length (content (d_file dev))"
  shows "\<exists>dev'. pread_loop dops dev (int p) count b =
      (dev', Inr (b @ take count (drop (p + length b) (content (d_file dev))))) \<and>
    content (d_file dev') = content (d_file dev) \<and> same_flags dev dev'"
  using assms
proof (induction count arbitrary: dev b rule: less_induct)
  case (less count)
  show ?case
  proof (cases "count = 0")
    case True
    then show ?thesis by (auto simp: pread_loop.simps same_flags_def)
  next
    case False
    let ?c = "content (d_file dev)"
    obtain dev1 br where br: "op_pread dops dev count (int (p + length b)) = (dev1, Inr br)" "br \<noteq> []"
      "length br \<le> count" "br = take (length br) (drop (p + length b) ?c)"
      "content (d_file dev1) = ?c" "same_flags dev dev1"
      using pread_law [of count "p + length b" dev] less.prems False by (auto simp: same_flags_def)
    obtain dev' where dev': "pread_loop dops dev1 (int p) (count - length br) (b @ br) =
        (dev', Inr ((b @ br) @ take (count - length br) (drop (p + length (b @ br)) ?c)))"
      "content (d_file dev') = ?c" "same_flags dev1 dev'"
      using less.IH [of "count - length br" "b @ br" dev1] less.prems br(2,3,5) False by auto
    have "take count (drop (p + length b) ?c) =
        take (length br) (drop (p + length b) ?c) @ take (count - length br) (drop (p + length (b @ br)) ?c)"
      using br(3) take_add [of "length br" "count - length br" "drop (p + length b) ?c"]
      by (simp add: add.commute add.left_commute)
    then have "br @ take (count - length br) (drop (p + length (b @ br)) ?c) = take count (drop (p + length b) ?c)"
      using br(4) by simp
    then show ?thesis
      using dev' br False by (subst pread_loop.simps) (auto simp: same_flags_def)
  qed
qed

lemma ntfs_pread_exact:
  assumes "0 \<le> pos" and "0 \<le> count" and "nat pos + nat count \<le> length (content (d_file dev))"
  shows "\<exists>dev'. ntfs_pread dops dev pos count =
      (dev', Inr (take (nat count) (drop (nat pos) (content (d_file dev))))) \<and>
    content (d_file dev') = content (d_file dev) \<and> same_flags dev dev'"
  using pread_loop_exact [of "nat pos" "[]" "nat count" dev] assms
  by (cases "count = 0") (auto simp: ntfs_pread_def same_flags_def)

lemma pwrite_loop_exact:
  assumes "p + n + length b \<le> length (content (d_file dev))" and "\<not> d_readonly dev"
  shows "\<exists>dev' e. pwrite_loop dops dev (int p) b n = (dev', int (n + length b), e) \<and>
    content (d_file dev') = put_at (content (d_file dev)) (p + n) b \<and> same_flags dev dev'"
  using assms
proof (induction "length b" arbitrary: dev b n rule: less_induct)
  case less
  show ?case
  proof (cases "b = []")
    case True
    then show ?thesis by (auto simp: pwrite_loop.simps same_flags_def put_at_def)
  next
    case False
    let ?c = "content (d_file dev)"
    obtain dev1 k where k: "op_pwrite dops dev b (int (p + n)) = (dev1, Inr k)" "0 < k" "k \<le> length b"
      "content (d_file dev1) = put_at ?c (p + n) (take k b)" "\<not> d_readonly dev1" "d_sync dev1 = d_sync dev"
      using pwrite_law [OF False, of "p + n" dev] less.prems by auto
    have len: "length (content (d_file dev1)) = length ?c" using k(3,4) less.prems by simp
    obtain dev' e where dev': "pwrite_loop dops dev1 (int p) (drop k b) (n + k) =
        (dev', int (n + k + length (drop k b)), e)"
      "content (d_file dev') = put_at (content (d_file dev1)) (p + (n + k)) (drop k b)" "same_flags dev1 dev'"
      using less.hyps [of "drop k b" "n + k" dev1] less.prems k(2,3,5) len False by auto
    have "put_at (put_at ?c (p + n) (take k b)) (p + n + length (take k b)) (drop k b) = put_at ?c (p + n) b"
      using put_at_put_at [of "p + n" "take k b" "drop k b" ?c] less.prems k(3) by simp
    then show ?thesis
      using dev' k less.prems(2) False by (subst pwrite_loop.simps) (auto simp: same_flags_def add.assoc)
  qed
qed

lemma ntfs_pwrite_exact:
  assumes "0 \<le> pos" and "nat pos + length b \<le> length (content (d_file dev))" and "\<not> d_readonly dev"
  shows "\<exists>dev' e. ntfs_pwrite dops dev pos b = (dev', int (length b), e) \<and>
    content (d_file dev') = put_at (content (d_file dev)) (nat pos) b \<and> same_flags dev dev'"
proof (cases "b = []")
  case True
  then show ?thesis using assms by (simp add: ntfs_pwrite_def same_flags_def put_at_def)
next
  case False
  let ?d = "dev\<lparr>d_dirty := True\<rparr>"
  obtain dev' e where dev': "pwrite_loop dops ?d pos b 0 = (dev', int (length b), e)"
    "content (d_file dev') = put_at (content (d_file dev)) (nat pos) b" "same_flags dev dev'"
    using pwrite_loop_exact [of "nat pos" 0 b ?d] assms by (auto simp: same_flags_def)
  obtain dev2 where "op_sync dops dev' = (dev2, None)" "content (d_file dev2) = content (d_file dev')"
    "same_flags dev' dev2"
    using sync_law [of dev'] by (auto simp: same_flags_def)
  then show ?thesis using dev' False assms by (auto simp: ntfs_pwrite_def same_flags_def)
qed

end

section \<open>Files of fixed size\<close>

text \<open>
  A file or block device of fixed size, as POSIX describes it, with its file offset, whether
  this process has it open, the lock this process holds and the lock some other process
  holds. A lock conflicts with a lock of the other process unless both are read locks, and
  closing the file releases the lock. POSIX lets a transfer stop after any number of bytes
  but none: the transfer after \<open>n\<close> others moves at most \<open>f_cut n + 1\<close> bytes, and \<open>f_cut\<close> is arbitrary.
\<close>

record disk_file =
  f_data :: bytes
  f_pos :: nat
  f_fd :: bool
  f_lock :: "lock option"
  f_foreign :: "lock option"
  f_cut :: "nat \<Rightarrow> nat"
  f_calls :: nat

definition lock_conflict :: "lock option \<Rightarrow> lock option \<Rightarrow> bool" where
  "lock_conflict a b \<longleftrightarrow> a \<noteq> None \<and> b \<noteq> None \<and> (a = Some F_WRLCK \<or> b = Some F_WRLCK)"

definition file_get :: "disk_file \<Rightarrow> nat \<Rightarrow> nat \<Rightarrow> disk_file \<times> bytes" where
  "file_get f count ofs =
     (f\<lparr>f_calls := Suc (f_calls f)\<rparr>, take (min count (Suc (f_cut f (f_calls f)))) (drop ofs (f_data f)))"

definition file_put :: "disk_file \<Rightarrow> bytes \<Rightarrow> nat \<Rightarrow> disk_file \<times> (errno + nat)" where
  "file_put f b ofs =
     (let b = take (min (length (f_data f) - ofs) (Suc (f_cut f (f_calls f)))) b
      in if b = [] then (f, Inl ENOSPC)
         else (f\<lparr>f_data := put_at (f_data f) ofs b, f_calls := Suc (f_calls f)\<rparr>, Inr (length b)))"

definition posix_file :: "disk_file syscalls" where
  "posix_file =
     \<lparr>sys_stat_isblk = (\<lambda>f name. Inr False),
      sys_open = (\<lambda>f name rdwr excl. (f\<lparr>f_fd := True, f_pos := 0\<rparr>, None)),
      sys_setlk = (\<lambda>f l. if lock_conflict l (f_foreign f) then (f, Some EACCES)
         else (f\<lparr>f_lock := l\<rparr>, None)),
      sys_close = (\<lambda>f. (f\<lparr>f_fd := False, f_lock := None\<rparr>, None)),
      sys_lseek = (\<lambda>f ofs. if ofs < 0 then (f, False) else (f\<lparr>f_pos := nat ofs\<rparr>, True)),
      sys_read = (\<lambda>f count. case file_get f count (f_pos f) of
           (f, b) \<Rightarrow> (f\<lparr>f_pos := f_pos f + length b\<rparr>, Inr b)),
      sys_write = (\<lambda>f b. case file_put f b (f_pos f) of
           (f, Inr n) \<Rightarrow> (f\<lparr>f_pos := f_pos f + n\<rparr>, Inr n) | (f, Inl e) \<Rightarrow> (f, Inl e)),
      sys_pread = (\<lambda>f count ofs. if ofs < 0 then (f, Inl EINVAL)
         else case file_get f count (nat ofs) of (f, b) \<Rightarrow> (f, Inr b)),
      sys_pwrite = (\<lambda>f b ofs. if ofs < 0 then (f, Inl EINVAL) else file_put f b (nat ofs)),
      sys_fsync = (\<lambda>f. (f, None)), sys_size64 = (\<lambda>f. None), sys_size512 = (\<lambda>f. None),
      sys_floppy512 = (\<lambda>f. None), sys_geometry = (\<lambda>f. Inl ENOTTY),
      sys_sector_size = (\<lambda>f. Inl ENOTTY), sys_set_block_size = (\<lambda>f n. (f, Some ENOTTY))\<rparr>"

lemmas unix_io_defs = ntfs_device_unix_io_ops_def ntfs_device_unix_io_seek_def ntfs_device_unix_io_read_def
  ntfs_device_unix_io_pread_def ntfs_device_unix_io_pwrite_def ntfs_device_unix_io_sync_def
  ntfs_device_unix_io_open_def ntfs_device_unix_io_close_def ntfs_device_unix_io_write_def posix_file_def file_get_def file_put_def

interpretation unix_disk: block_device "ntfs_device_unix_io_ops (\<lambda>n. True) posix_file" f_data
proof
  fix count pos and dev :: "disk_file ntfs_device"
  assume "0 < count" "pos + count \<le> length (f_data (d_file dev))"
  then show "\<exists>dev' br. op_pread (ntfs_device_unix_io_ops (\<lambda>n. True) posix_file) dev count (int pos) = (dev', Inr br) \<and>
      br \<noteq> [] \<and> length br \<le> count \<and> br = take (length br) (drop pos (f_data (d_file dev))) \<and>
      f_data (d_file dev') = f_data (d_file dev) \<and>
      d_readonly dev' = d_readonly dev \<and> d_sync dev' = d_sync dev"
    by (simp add: unix_io_defs)
next
  fix b :: bytes and pos and dev :: "disk_file ntfs_device"
  let ?f = "d_file dev" and ?k = "Suc (f_cut (d_file dev) (f_calls (d_file dev)))"
  assume b: "b \<noteq> []" "pos + length b \<le> length (f_data (d_file dev))" "\<not> d_readonly dev"
  then have "min (length b) (min (length (f_data ?f) - pos) ?k) = min (length b) ?k" by simp
  moreover have "take (min (length (f_data ?f) - pos) ?k) b = take (min (length b) ?k) b"
    using b(2) by (auto simp: min_def)
  moreover have "take (min (length b) ?k) b \<noteq> []" "0 < length b" using b(1) by simp_all
  ultimately show "\<exists>dev' n. op_pwrite (ntfs_device_unix_io_ops (\<lambda>n. True) posix_file) dev b (int pos) = (dev', Inr n) \<and>
      0 < n \<and> n \<le> length b \<and> f_data (d_file dev') = put_at (f_data (d_file dev)) pos (take n b) \<and>
      \<not> d_readonly dev' \<and> d_sync dev' = d_sync dev"
    using b(3) by (simp add: unix_io_defs Let_def del: take_eq_Nil)
next
  fix dev :: "disk_file ntfs_device"
  show "\<exists>dev'. op_sync (ntfs_device_unix_io_ops (\<lambda>n. True) posix_file) dev = (dev', None) \<and>
      f_data (d_file dev') = f_data (d_file dev) \<and>
      d_readonly dev' = d_readonly dev \<and> d_sync dev' = d_sync dev"
    by (simp add: unix_io_defs)
qed

end
