(* ===== verification/Device_Transfer.thy ===== *)
theory Device_Transfer
  imports Device_Laws
begin

text \<open>
  The transfers of \<open>device.c\<close> on files and block devices: plain, of clusters and multi
  sector protected, and the search for the size of a device.
\<close>

section \<open>Plain transfers\<close>

abbreviation disk_ops :: "disk_file ntfs_device_operations" where
  "disk_ops \<equiv> ntfs_device_unix_io_ops (\<lambda>n. True) posix_file"

abbreviation disk_data :: "disk_file ntfs_device \<Rightarrow> bytes" where
  "disk_data dev \<equiv> f_data (d_file dev)"

text \<open>(C14) A positioned write inside a writable device transfers every byte and changes
  nothing else, and a positioned read of the same place then delivers exactly these bytes,
  however the operating system splits the transfers: each of its calls moves as few bytes
  as \<open>f_cut\<close> of the file says, which is arbitrary.\<close>

theorem device_write_read:
  assumes "0 \<le> pos" and "nat pos + length b \<le> length (disk_data dev)" and "\<not> d_readonly dev"
  shows "\<exists>dev' e dev''. ntfs_pwrite disk_ops dev pos b = (dev', int (length b), e) \<and>
    disk_data dev' = put_at (disk_data dev) (nat pos) b \<and>
    ntfs_pread disk_ops dev' pos (int (length b)) = (dev'', Inr b) \<and> disk_data dev'' = disk_data dev'"
proof -
  obtain dev' e where w: "ntfs_pwrite disk_ops dev pos b = (dev', int (length b), e)"
    "disk_data dev' = put_at (disk_data dev) (nat pos) b"
    using unix_disk.ntfs_pwrite_exact [OF assms] by blast
  have "nat pos + nat (int (length b)) \<le> length (disk_data dev')" using assms(2) w(2) by simp
  then obtain dev'' where "ntfs_pread disk_ops dev' pos (int (length b)) =
      (dev'', Inr (take (length b) (drop (nat pos) (disk_data dev'))))" "disk_data dev'' = disk_data dev'"
    using unix_disk.ntfs_pread_exact [OF assms(1), of "int (length b)" dev'] by auto
  then show ?thesis using w take_drop_put_at [OF assms(2)] by auto
qed

text \<open>A disk whose transfers move one and two bytes in turn.\<close>

definition demo_disk :: "nat \<Rightarrow> disk_file ntfs_device" where
  "demo_disk n = \<lparr>d_file = \<lparr>f_data = replicate n 0, f_pos = 0, f_fd = True, f_lock = Some F_WRLCK, f_foreign = None,
       f_cut = (\<lambda>n. n mod 2), f_calls = 0\<rparr>,
     d_name = ''disk.img'', d_private = True, d_open = True, d_readonly = False, d_dirty = False, d_block = False,
     d_sync = True, d_heads = -1, d_sectors_per_track = -1\<rparr>"

theorem device_write_read_witness:
  "f_cut (d_file (demo_disk 16)) 0 = 0 \<and>
   (\<exists>dev' e dev''. ntfs_pwrite disk_ops (demo_disk 16) 4 [1, 2, 3] = (dev', 3, e) \<and>
    ntfs_pread disk_ops dev' 4 3 = (dev'', Inr [1, 2, 3]))"
  using device_write_read [of 4 "[1, 2, 3]" "demo_disk 16"] by (auto simp: demo_disk_def)

section \<open>Protected blocks\<close>

definition good_block :: "nat \<Rightarrow> bytes \<Rightarrow> bool" where
  "good_block bksize b \<longleftrightarrow> mst_record bksize b \<and> rec_magic b \<noteq> magic_BAAD \<and> rec_magic b \<noteq> magic_HOLE"

text \<open>Two blocks that agree outside the update sequence array of the first.\<close>

definition same_block :: "bytes \<Rightarrow> bytes \<Rightarrow> bool" where
  "same_block b r \<longleftrightarrow> length r = length b \<and>
     (\<forall>i. i < rec_usa_ofs b \<or> rec_usa_ofs b + 2 * rec_usa_count b \<le> i \<longrightarrow> byte_at r i = byte_at b i)"

lemma protect_blocks:
  assumes "\<forall>b \<in> set blks. good_block bk b"
  shows "\<exists>ps rs. list_all2 same_block blks rs \<and> length (concat ps) = length blks * bk \<and>
    mst_protect_blocks bk (length blks) (concat blks) = Ok (length blks, None, concat ps) \<and>
    mst_unprotect_blocks bk (length blks) (concat ps) = Ok (concat rs) \<and>
    mst_fix_blocks bk (length blks) (concat ps) = Ok (concat rs)"
  using assms
proof (induction blks)
  case Nil
  show ?case by (intro exI [of _ "[]"]) simp
next
  case (Cons b blks)
  then obtain ps rs where IH: "list_all2 same_block blks rs" "length (concat ps) = length blks * bk"
    "mst_protect_blocks bk (length blks) (concat blks) = Ok (length blks, None, concat ps)"
    "mst_unprotect_blocks bk (length blks) (concat ps) = Ok (concat rs)"
    "mst_fix_blocks bk (length blks) (concat ps) = Ok (concat rs)"
    by auto
  obtain p r where pr: "ntfs_mst_pre_write_fixup (Some b) bk = Ok (None, p)"
    "ntfs_mst_post_read_fixup p bk = Ok (None, r)" "ntfs_mst_post_write_fixup p = Ok r"
    "length p = length b" "length r = length b"
    "\<forall>i. i < rec_usa_ofs b \<or> rec_usa_ofs b + 2 * rec_usa_count b \<le> i \<longrightarrow> byte_at r i = byte_at b i"
    using mst_roundtrip_rec [of bk b] Cons.prems by (auto simp: good_block_def)
  then have same: "same_block b r" unfolding same_block_def by blast
  have len: "length b = bk" using Cons.prems by (simp add: good_block_def mst_record_def)
  show ?case
    by (rule exI [of _ "p # ps"], rule exI [of _ "r # rs"]) (use IH pr(1-5) same len in simp)
qed

lemma good_block_size: "good_block bk b \<Longrightarrow> 0 < bk \<and> bk mod NTFS_BLOCK_SIZE = 0"
  by (auto simp: good_block_def mst_record_def is_valid_record_def)

text \<open>(C15) Cache coherency of protected writes: writing records with \<open>ntfs_mst_pwrite\<close> leaves
  in the caller's buffer exactly what \<open>ntfs_mst_pread\<close> reads back from the device, and both
  agree with the original records outside their update sequence arrays.\<close>

theorem mst_write_coherent:
  assumes blks: "\<forall>b \<in> set blks. good_block bk b" "blks \<noteq> []" and bk: "bk AND (bk - 1) = 0"
    and dev: "0 \<le> pos" "nat pos + length (concat blks) \<le> length (disk_data dev)" "\<not> d_readonly dev"
  shows "\<exists>dev' e dev'' rs.
    ntfs_mst_pwrite disk_ops dev pos (int (length blks)) bk (concat blks) =
      (dev', Ok (int (length blks), e, concat rs)) \<and>
    ntfs_mst_pread disk_ops dev' pos (int (length blks)) bk = (dev'', Ok (length blks, concat rs)) \<and>
    list_all2 same_block blks rs"
proof -
  obtain P rs where b: "list_all2 same_block blks rs" "length P = length blks * bk"
    "mst_protect_blocks bk (length blks) (concat blks) = Ok (length blks, None, P)"
    "mst_unprotect_blocks bk (length blks) P = Ok (concat rs)"
    "mst_fix_blocks bk (length blks) P = Ok (concat rs)"
    using protect_blocks [OF blks(1)] by blast
  have size: "0 < bk" "bk mod NTFS_BLOCK_SIZE = 0"
    using blks good_block_size by (cases blks; auto)+
  have lens: "length (concat blks) = length blks * bk"
    using blks(1) by (induction blks) (auto simp: good_block_def mst_record_def)
  have "list_all2 (\<lambda>b r. length r = length b) blks rs"
    using b(1) by (rule list_all2_mono) (simp add: same_block_def)
  then have len_rs: "length (concat rs) = length blks * bk"
    unfolding lens [symmetric] by induction simp_all
  obtain dev' e where w: "ntfs_pwrite disk_ops dev pos P = (dev', int (length P), e)"
    "disk_data dev' = put_at (disk_data dev) (nat pos) P"
    using unix_disk.ntfs_pwrite_exact [of pos "P" dev] dev b(2) lens by auto
  have "nat pos + nat (int (length blks) * int bk) \<le> length (disk_data dev')"
    using dev(2) b(2) lens w(2) by (simp add: nat_mult_distrib)
  then obtain dev'' where "ntfs_pread disk_ops dev' pos (int (length blks) * int bk) =
      (dev'', Inr (take (length blks * bk) (drop (nat pos) (disk_data dev'))))"
    using unix_disk.ntfs_pread_exact [of pos "int (length blks) * int bk" dev'] dev(1)
    by (auto simp: nat_mult_distrib)
  moreover have "take (length blks * bk) (drop (nat pos) (disk_data dev')) = P"
    using take_drop_put_at [of "nat pos" "P" "disk_data dev"] dev(2) b(2) lens w(2) by simp
  ultimately have r: "ntfs_mst_pread disk_ops dev' pos (int (length blks)) bk =
      (dev'', Ok (length blks, concat rs))"
    using bk size b(2,5) len_rs by (simp add: ntfs_mst_pread_def)
  obtain n where n: "length blks = Suc n" using blks(2) by (cases blks) auto
  have prot: "mst_protect_blocks bk (nat (int (length blks))) (concat blks) = Ok (Suc n, None, P)"
    unfolding nat_int b(3) unfolding n ..
  have "take (Suc n * bk) P = P" "int (length P) div int bk = int (length blks)"
    using b(2) n size(1) by simp_all
  moreover have "mst_unprotect_blocks bk (Suc n) P = Ok (concat rs)" using b(4) n by simp
  moreover have "0 < length P" unfolding b(2) n using size(1) by simp
  then have "\<not> int (length P) \<le> 0" by linarith
  ultimately have "ntfs_mst_pwrite disk_ops dev pos (int (length blks)) bk (concat blks) =
      (dev', Ok (int (length blks), e, concat rs))"
    unfolding ntfs_mst_pwrite_def prot using size w(1) blks(2) by simp
  with r b(1) show ?thesis by blast
qed

theorem mst_write_coherent_witness:
  "\<exists>dev' e dev'' rs.
    ntfs_mst_pwrite disk_ops (demo_disk 4096) 1024 2 1024 (demo_record @ demo_record) =
      (dev', Ok (2, e, concat rs)) \<and>
    ntfs_mst_pread disk_ops dev' 1024 2 1024 = (dev'', Ok (2, concat rs)) \<and>
    list_all2 same_block [demo_record, demo_record] rs"
proof -
  have good: "good_block 1024 demo_record" using demo_record_ok by (simp add: good_block_def)
  then have len: "length demo_record = 1024" by (simp add: good_block_def mst_record_def)
  have "(1024 :: nat) AND (1024 - 1) = 0" by simp
  from mst_write_coherent [OF _ _ this, of "[demo_record, demo_record]" 1024 "demo_disk 4096"] good len
  show ?thesis by (simp add: demo_disk_def numeral_2_eq_2)
qed

section \<open>The size of a device\<close>

lemma offset_valid_disk:
  assumes "0 \<le> ofs"
  shows "ntfs_device_offset_valid disk_ops dev ofs =
    (if nat ofs < length (disk_data dev)
     then (dev\<lparr>d_file := (d_file dev)\<lparr>f_pos := nat ofs + 1, f_calls := Suc (f_calls (d_file dev))\<rparr>\<rparr>, True)
     else (dev\<lparr>d_file := (d_file dev)\<lparr>f_pos := nat ofs, f_calls := Suc (f_calls (d_file dev))\<rparr>\<rparr>, False))"
  using assms by (auto simp: ntfs_device_offset_valid_def unix_io_defs Let_def min_def)

text \<open>The doubling loop ends, below a valid and at an invalid offset.\<close>

lemma size_double_disk:
  assumes "0 < high" and "0 \<le> low" and "low < high" and "low = 0 \<or> nat low < length (disk_data dev)"
  shows "\<exists>dev' low' high'. size_double disk_ops dev low high = Some (dev', low', high') \<and>
    disk_data dev' = disk_data dev \<and> 0 \<le> low' \<and> low' < high' \<and>
    (low' = 0 \<or> nat low' < length (disk_data dev)) \<and> length (disk_data dev) \<le> nat high'"
  using assms
proof (induction "length (disk_data dev) - nat high" arbitrary: dev low high rule: less_induct)
  case less
  show ?case
  proof (cases "nat high < length (disk_data dev)")
    case True
    let ?d = "dev\<lparr>d_file := (d_file dev)\<lparr>f_pos := nat high + 1, f_calls := Suc (f_calls (d_file dev))\<rparr>\<rparr>"
    have "length (disk_data ?d) - nat (high * 2) < length (disk_data dev) - nat high"
      using True less.prems(1) by (simp add: nat_mult_distrib)
    from less.hyps [OF this] less.prems True show ?thesis
      by (subst size_double.simps) (simp add: offset_valid_disk)
  next
    case False
    then show ?thesis
      using less.prems by (subst size_double.simps) (simp add: offset_valid_disk)
  qed
qed

lemma size_bisect_disk:
  assumes "0 \<le> low" and "low < high" and "low = 0 \<or> nat low < length (disk_data dev)"
    and "length (disk_data dev) \<le> nat high" and "0 < length (disk_data dev)"
  shows "\<exists>dev'. size_bisect disk_ops dev low high = (dev', int (length (disk_data dev)) - 1)"
  using assms
proof (induction "nat (high - low)" arbitrary: dev low high rule: less_induct)
  case less
  show ?case
  proof (cases "low < high - 1")
    case True
    define mid where "mid = (low + high) div 2"
    have mid: "low < mid" "mid < high" using True by (auto simp: mid_def)
    let ?v = "ntfs_device_offset_valid disk_ops dev mid"
    have v: "disk_data (fst ?v) = disk_data dev" "snd ?v = (nat mid < length (disk_data dev))"
      using mid less.prems(1) by (simp_all add: offset_valid_disk)
    have step: "size_bisect disk_ops dev low high =
        (if snd ?v then size_bisect disk_ops (fst ?v) mid high else size_bisect disk_ops (fst ?v) low mid)"
      using True by (subst size_bisect.simps) (simp add: mid_def Let_def split_def)
    have dec: "nat (high - mid) < nat (high - low)" "nat (mid - low) < nat (high - low)"
      using mid by simp_all
    show ?thesis
      unfolding step
      using less.hyps [OF dec(1), of "fst ?v"] less.hyps [OF dec(2), of "fst ?v"] mid v less.prems
      by (auto simp: not_less)
  next
    case False
    define n where "n = length (disk_data dev)"
    have "low = 0 \<or> nat low < n" "n \<le> nat high" "0 < n" using less.prems by (simp_all add: n_def)
    then have "int n - 1 = low" using False less.prems(1,2) by auto
    then have "int (length (disk_data dev)) - 1 = low" by (simp add: n_def)
    then show ?thesis using False by (subst size_bisect.simps) simp
  qed
qed

text \<open>(C16) Termination and correctness of the size search: on every non-empty file or device
  that does not answer the size requests, doubling and bisecting ends and gives the
  number of whole blocks. The offsets are unbounded here; the code doubles an \<open>s64\<close>, which
  is the same on a device below \<open>2 ^ 62\<close> bytes.\<close>

theorem device_size_get_correct:
  assumes "0 < length (disk_data dev)" and "0 < block_size" and "(block_size - 1) AND block_size = 0"
  shows "\<exists>dev'. ntfs_device_size_get disk_ops dev block_size =
    Some (dev', Ok (int (length (disk_data dev)) div block_size))"
proof -
  obtain dev1 low high where d: "size_double disk_ops dev 0 1024 = Some (dev1, low, high)"
    "disk_data dev1 = disk_data dev" "0 \<le> low" "low < high"
    "low = 0 \<or> nat low < length (disk_data dev)" "length (disk_data dev) \<le> nat high"
    using size_double_disk [of 1024 0 dev] by auto
  obtain dev2 where "size_bisect disk_ops dev1 low high = (dev2, int (length (disk_data dev)) - 1)"
    using size_bisect_disk [of low high dev1] d assms(1) by auto
  then show ?thesis
    using d(1) assms(2,3) by (simp add: ntfs_device_size_get_def ntfs_device_unix_io_ops_def posix_file_def)
qed

theorem device_size_get_correct_witness:
  "\<exists>dev'. ntfs_device_size_get disk_ops (demo_disk 5000) 512 = Some (dev', Ok 9)"
  using device_size_get_correct [of "demo_disk 5000" 512] by (simp add: demo_disk_def)

end
