(* ===== verification/Runlist_IO.thy ===== *)
theory Runlist_IO
  imports Runlist_Cells Device_Transfer
begin

text \<open>
  Gather reads and scatter writes along a runlist (\<open>ntfs_rl_pread\<close> and \<open>ntfs_rl_pwrite\<close> of
  \<open>libntfs-3g/runlist.c\<close>), on any device. The loop that repeats an interrupted
  transfer may run forever, so the operations are partial: \<open>None\<close> is a call that does not
  return.
\<close>

section \<open>The operations\<close>

fun rl_seek :: "nat \<Rightarrow> runlist \<Rightarrow> int \<Rightarrow> int \<Rightarrow> runlist \<times> int" where
  "rl_seek bits [] ofs pos = ([], ofs)"
| "rl_seek bits (e # rest) ofs pos =
     (if rl_length e \<noteq> 0 \<and> ofs + rl_length e * 2 ^ bits \<le> pos
      then rl_seek bits rest (ofs + rl_length e * 2 ^ bits) pos else (e # rest, ofs))"

partial_function (option) pread_retry ::
    "'d ntfs_device_operations \<Rightarrow> 'd ntfs_device \<Rightarrow> int \<Rightarrow> int \<Rightarrow> ('d ntfs_device \<times> (errno + bytes)) option"
where
  "pread_retry dops dev pos count =
     (case ntfs_pread dops dev pos count of
        (dev, r) \<Rightarrow> if r = Inl EINTR then pread_retry dops dev pos count else Some (dev, r))"

text \<open>The jump to \<open>rl_err_out\<close>: what was transferred, or the error if that is nothing.\<close>

definition rl_read_err :: "'d ntfs_device \<Rightarrow> bytes \<Rightarrow> errno \<Rightarrow> ('d ntfs_device \<times> bytes result) option" where
  "rl_read_err dev b err = Some (dev, if b \<noteq> [] then Ok b else Err err)"

fun rl_pread_loop ::
    "'d ntfs_device_operations \<Rightarrow> nat \<Rightarrow> 'd ntfs_device \<Rightarrow> runlist \<Rightarrow> int \<Rightarrow> int \<Rightarrow> bytes \<Rightarrow>
       ('d ntfs_device \<times> bytes result) option"
where
  "rl_pread_loop dops bits dev [] ofs count b = Some (dev, if count = 0 then Ok b else Fault)"
| "rl_pread_loop dops bits dev (e # rest) ofs count b =
     (if count = 0 then Some (dev, Ok b)
      else if rl_length e = 0 then rl_read_err dev b EIO
      else if rl_lcn e < 0 then
        (if rl_lcn e \<noteq> LCN_HOLE then rl_read_err dev b EIO
         else let to_read = min count (rl_length e * 2 ^ bits - ofs)
              in rl_pread_loop dops bits dev rest 0 (count - to_read) (b @ replicate (nat to_read) 0))
      else
        let to_read = min count (rl_length e * 2 ^ bits - ofs)
        in (case pread_retry dops dev (rl_lcn e * 2 ^ bits + ofs) to_read of
              None \<Rightarrow> None
            | Some (dev, Inr br) \<Rightarrow>
                if br \<noteq> [] then rl_pread_loop dops bits dev rest 0 (count - int (length br)) (b @ br)
                else rl_read_err dev b EIO
            | Some (dev, Inl err) \<Rightarrow> rl_read_err dev b err))"

definition ntfs_rl_pread ::
    "'d ntfs_device_operations \<Rightarrow> nat \<Rightarrow> 'd ntfs_device \<Rightarrow> runlist option \<Rightarrow> int \<Rightarrow> int \<Rightarrow>
       ('d ntfs_device \<times> bytes result) option" where
  "ntfs_rl_pread dops bits dev rl0 pos count =
     (case rl0 of None \<Rightarrow> Some (dev, Err EINVAL)
      | Some rl \<Rightarrow>
          if pos < 0 \<or> count < 0 then Some (dev, Err EINVAL)
          else if count = 0 then Some (dev, Ok [])
          else case rl_seek bits rl 0 pos of
            (rl, ofs) \<Rightarrow> rl_pread_loop dops bits dev rl (pos - ofs) count [])"

partial_function (option) pwrite_retry ::
    "'d ntfs_device_operations \<Rightarrow> bool \<Rightarrow> 'd ntfs_device \<Rightarrow> int \<Rightarrow> bytes \<Rightarrow>
       ('d ntfs_device \<times> int \<times> errno) option"
where
  "pwrite_retry dops vol_readonly dev pos b =
     (if vol_readonly then Some (dev, int (length b), EIO)
      else case ntfs_pwrite dops dev pos b of
        (dev, written, e) \<Rightarrow>
          if written = -1 \<and> e = EINTR then pwrite_retry dops vol_readonly dev pos b
          else Some (dev, written, e))"

definition rl_write_err :: "'d ntfs_device \<Rightarrow> int \<Rightarrow> errno \<Rightarrow> ('d ntfs_device \<times> int result) option" where
  "rl_write_err dev n err = Some (dev, if n \<noteq> 0 then Ok n else Err err)"

fun rl_pwrite_loop ::
    "'d ntfs_device_operations \<Rightarrow> bool \<Rightarrow> nat \<Rightarrow> 'd ntfs_device \<Rightarrow> runlist \<Rightarrow> int \<Rightarrow> bytes \<Rightarrow> int \<Rightarrow>
       ('d ntfs_device \<times> int result) option"
where
  "rl_pwrite_loop dops ro bits dev [] ofs b n = Some (dev, if b = [] then Ok n else Fault)"
| "rl_pwrite_loop dops ro bits dev (e # rest) ofs b n =
     (if b = [] then Some (dev, Ok n)
      else if rl_length e = 0 then rl_write_err dev n EIO
      else if rl_lcn e < 0 then
        (if rl_lcn e \<noteq> LCN_HOLE then rl_write_err dev n EIO
         else let to_write = min (int (length b)) (rl_length e * 2 ^ bits - ofs)
              in rl_pwrite_loop dops ro bits dev rest 0 (drop (nat to_write) b) (n + to_write))
      else
        let to_write = min (int (length b)) (rl_length e * 2 ^ bits - ofs)
        in (case pwrite_retry dops ro dev (rl_lcn e * 2 ^ bits + ofs) (take (nat to_write) b) of
              None \<Rightarrow> None
            | Some (dev, written, err) \<Rightarrow>
                if 0 < written
                then rl_pwrite_loop dops ro bits dev rest 0 (drop (nat written) b) (n + written)
                else rl_write_err dev n (if written = -1 then err else EIO)))"

definition ntfs_rl_pwrite ::
    "'d ntfs_device_operations \<Rightarrow> bool \<Rightarrow> nat \<Rightarrow> 'd ntfs_device \<Rightarrow> runlist option \<Rightarrow> int \<Rightarrow> int \<Rightarrow> bytes \<Rightarrow>
       ('d ntfs_device \<times> int result) option" where
  "ntfs_rl_pwrite dops ro bits dev rl0 ofs pos b =
     (case rl0 of None \<Rightarrow> Some (dev, Err EINVAL)
      | Some rl \<Rightarrow>
          if pos < 0 then Some (dev, Err EINVAL)
          else if b = [] then Some (dev, Ok 0)
          else case rl_seek bits rl ofs pos of
            (rl, ofs) \<Rightarrow> rl_pwrite_loop dops ro bits dev rl (pos - ofs) b 0)"

section \<open>Addresses\<close>

text \<open>Where each byte of the file is on the device; nowhere for a hole.\<close>

definition run_addrs :: "nat \<Rightarrow> runlist_element \<Rightarrow> nat option list" where
  "run_addrs bits e =
     (if 0 \<le> rl_lcn e
      then map Some [nat (rl_lcn e) * 2 ^ bits ..< nat (rl_lcn e) * 2 ^ bits + nat (rl_length e) * 2 ^ bits]
      else replicate (nat (rl_length e) * 2 ^ bits) None)"

definition addrs :: "nat \<Rightarrow> runlist \<Rightarrow> nat option list" where
  "addrs bits rs = concat (map (run_addrs bits) rs)"

definition fetch :: "bytes \<Rightarrow> nat option \<Rightarrow> u8" where
  "fetch disk a = (case a of None \<Rightarrow> 0 | Some x \<Rightarrow> disk ! x)"

fun store :: "bytes \<Rightarrow> nat option list \<Rightarrow> bytes \<Rightarrow> bytes" where
  "store disk (Some x # as) (b # bs) = store (disk[x := b]) as bs"
| "store disk (None # as) (b # bs) = store disk as bs"
| "store disk as bs = disk"

text \<open>Fully mapped runs inside a device of the given size.\<close>

definition runs_on :: "nat \<Rightarrow> nat \<Rightarrow> runlist \<Rightarrow> bool" where
  "runs_on bits n rs \<longleftrightarrow> (\<forall>e \<in> set rs. 0 < rl_length e \<and> LCN_HOLE \<le> rl_lcn e \<and>
     (0 \<le> rl_lcn e \<longrightarrow> (nat (rl_lcn e) + nat (rl_length e)) * 2 ^ bits \<le> n))"

lemma runs_on_simps [simp]:
  "runs_on bits n []"
  "runs_on bits n (e # es) \<longleftrightarrow> 0 < rl_length e \<and> LCN_HOLE \<le> rl_lcn e \<and>
     (0 \<le> rl_lcn e \<longrightarrow> (nat (rl_lcn e) + nat (rl_length e)) * 2 ^ bits \<le> n) \<and> runs_on bits n es"
  "runs_on bits n (xs @ ys) \<longleftrightarrow> runs_on bits n xs \<and> runs_on bits n ys"
  by (auto simp: runs_on_def)

lemma addrs_simps [simp]:
  "addrs bits [] = []" "addrs bits (e # es) = run_addrs bits e @ addrs bits es"
  "addrs bits (xs @ ys) = addrs bits xs @ addrs bits ys"
  by (simp_all add: addrs_def)

lemma length_run_addrs [simp]: "length (run_addrs bits e) = nat (rl_length e) * 2 ^ bits"
  by (simp add: run_addrs_def)

lemma length_store [simp]: "length (store disk as bs) = length disk"
  by (induction disk as bs rule: store.induct) auto

lemma store_append:
  "length as = length bs \<Longrightarrow> store disk (as @ as') (bs @ bs') = store (store disk as bs) as' bs'"
  by (induction disk as bs rule: store.induct) auto

lemma store_None: "store disk (replicate n None) bs = disk"
  by (induction n arbitrary: bs) (case_tac bs; simp)+

lemma store_Some:
  "x + length bs \<le> length disk \<Longrightarrow> store disk (map Some [x..<x + length bs]) bs = put_at disk x bs"
proof (induction bs arbitrary: x disk)
  case Nil
  then show ?case by (simp add: put_at_def)
next
  case (Cons b bs)
  have "[x..<x + length (b # bs)] = x # [Suc x..<Suc x + length bs]"
    using upt_conv_Cons [of x "x + length (b # bs)"] by simp
  moreover have "put_at (disk[x := b]) (Suc x) bs = put_at disk x (b # bs)"
    using Cons.prems by (simp add: put_at_def take_Suc_conv_app_nth drop_update_cancel)
  ultimately show ?case using Cons.IH [of "Suc x" "disk[x := b]"] Cons.prems by (simp del: upt_Suc)
qed

lemma take_drop_upt: "ofs + n \<le> m \<Longrightarrow> take n (drop ofs [x..<x + m]) = [x + ofs..<x + ofs + n]"
  by (rule nth_equalityI) auto

lemma fetch_run:
  assumes "0 \<le> rl_lcn e" and "ofs + n \<le> nat (rl_length e) * 2 ^ bits"
    and "(nat (rl_lcn e) + nat (rl_length e)) * 2 ^ bits \<le> length disk"
  shows "map (fetch disk) (take n (drop ofs (run_addrs bits e))) =
    take n (drop (nat (rl_lcn e) * 2 ^ bits + ofs) disk)"
proof -
  have "take n (drop ofs (run_addrs bits e)) =
      map Some [nat (rl_lcn e) * 2 ^ bits + ofs..<nat (rl_lcn e) * 2 ^ bits + ofs + n]"
    using assms(1,2) by (simp add: run_addrs_def take_map drop_map take_drop_upt)
  then show ?thesis
    using assms(2,3) by (intro nth_equalityI) (auto simp: fetch_def algebra_simps)
qed

lemma store_run:
  assumes "0 \<le> rl_lcn e" and "ofs + length bs \<le> nat (rl_length e) * 2 ^ bits"
    and "(nat (rl_lcn e) + nat (rl_length e)) * 2 ^ bits \<le> length disk"
  shows "store disk (take (length bs) (drop ofs (run_addrs bits e))) bs =
    put_at disk (nat (rl_lcn e) * 2 ^ bits + ofs) bs"
proof -
  have "take (length bs) (drop ofs (run_addrs bits e)) =
      map Some [nat (rl_lcn e) * 2 ^ bits + ofs..<nat (rl_lcn e) * 2 ^ bits + ofs + length bs]"
    using assms(1,2) by (simp add: run_addrs_def take_map drop_map take_drop_upt)
  moreover have "nat (rl_lcn e) * 2 ^ bits + ofs + length bs \<le> length disk"
    using assms(2,3) by (simp add: algebra_simps)
  ultimately show ?thesis by (simp add: store_Some)
qed

lemma rl_seek_spec:
  assumes "\<forall>e \<in> set rs. 0 < rl_length e" and "rl_length t = 0" and "ofs \<le> pos"
  shows "\<exists>rs1 rs2. rs = rs1 @ rs2 \<and>
    rl_seek bits (rs @ t # rest) ofs pos = (rs2 @ t # rest, ofs + int (length (addrs bits rs1))) \<and>
    ofs + int (length (addrs bits rs1)) \<le> pos \<and>
    (rs2 \<noteq> [] \<longrightarrow> pos < ofs + int (length (addrs bits rs1)) + rl_length (hd rs2) * 2 ^ bits)"
  using assms
proof (induction rs arbitrary: ofs)
  case (Cons e rs)
  let ?l = "rl_length e * 2 ^ bits"
  have l: "int (nat (rl_length e) * 2 ^ bits) = ?l" using Cons.prems(1) by simp
  show ?case
  proof (cases "ofs + ?l \<le> pos")
    case True
    then obtain rs1 rs2 where "rs = rs1 @ rs2"
      "rl_seek bits (rs @ t # rest) (ofs + ?l) pos = (rs2 @ t # rest, ofs + ?l + int (length (addrs bits rs1)))"
      "ofs + ?l + int (length (addrs bits rs1)) \<le> pos"
      "rs2 \<noteq> [] \<longrightarrow> pos < ofs + ?l + int (length (addrs bits rs1)) + rl_length (hd rs2) * 2 ^ bits"
      using Cons.IH [of "ofs + ?l"] Cons.prems by (meson list.set_intros(2))
    then show ?thesis
      using True Cons.prems(1) l by (intro exI [of _ "e # rs1"] exI [of _ rs2]) auto
  next
    case False
    then show ?thesis
      using Cons.prems by (intro exI [of _ "[]"] exI [of _ "e # rs"]) auto
  qed
qed simp

section \<open>Transfers on a device that keeps its laws\<close>

context block_device
begin

lemma pread_retry_exact:
  assumes "0 \<le> pos" and "0 \<le> count" and "nat pos + nat count \<le> length (content (d_file dev))"
  shows "\<exists>dev'. pread_retry dops dev pos count =
      Some (dev', Inr (take (nat count) (drop (nat pos) (content (d_file dev))))) \<and>
    content (d_file dev') = content (d_file dev) \<and> same_flags dev dev'"
  using ntfs_pread_exact [OF assms] by (subst pread_retry.simps) auto

lemma rl_pread_loop_exact:
  assumes "runs_on bits (length (content (d_file dev))) rs" and "rl_length t = 0" and "0 \<le> ofs" and "0 \<le> count"
    and "rs \<noteq> [] \<Longrightarrow> ofs < rl_length (hd rs) * 2 ^ bits"
  shows "\<exists>dev'. rl_pread_loop dops bits dev (rs @ t # rest) ofs count b =
      Some (dev', if count = 0 \<or> b \<noteq> [] \<or> rs \<noteq> []
        then Ok (b @ map (fetch (content (d_file dev))) (take (nat count) (drop (nat ofs) (addrs bits rs))))
        else Err EIO) \<and>
    content (d_file dev') = content (d_file dev) \<and> same_flags dev dev'"
  using assms
proof (induction rs arbitrary: dev ofs count b)
  case Nil
  then show ?case by (auto simp: rl_read_err_def same_flags_def)
next
  case (Cons e rs)
  let ?c = "content (d_file dev)"
  define m where "m = min count (rl_length e * 2 ^ bits - ofs)"
  define A where "A = run_addrs bits e"
  have e: "0 < rl_length e" "LCN_HOLE \<le> rl_lcn e" "ofs < rl_length e * 2 ^ bits"
    and on: "runs_on bits (length ?c) rs"
    using Cons.prems by auto
  have lenA: "int (length A) = rl_length e * 2 ^ bits" using e(1) by (simp add: A_def)
  show ?case
  proof (cases "count = 0")
    case True
    then show ?thesis by (auto simp: same_flags_def)
  next
    case False
    have m: "0 < m" "m \<le> count" "nat ofs + nat m \<le> length A" "int (nat m) = m"
      using False Cons.prems(3,4) e(3) lenA by (auto simp: m_def)
    define chunk where "chunk = map (fetch ?c) (take (nat m) (drop (nat ofs) A))"
    have chunk: "length chunk = nat m" "chunk \<noteq> []"
      using m by (auto simp: chunk_def simp flip: length_0_conv)
    have "m = count \<or> nat ofs + nat m = length A"
      using m lenA Cons.prems(3) by (auto simp: m_def min_def split: if_splits)
    then have split: "take (nat count) (drop (nat ofs) (addrs bits (e # rs))) =
        take (nat m) (drop (nat ofs) A) @ take (nat (count - m)) (addrs bits rs)"
    proof
      assume full: "nat ofs + nat m = length A"
      then have "nat count - (length A - nat ofs) = nat (count - m)" using m(1,2) by auto
      then show ?thesis using full m(1,2) by (simp flip: A_def)
    qed (use m in \<open>simp flip: A_def\<close>)
    have step: "\<exists>dev1. rl_pread_loop dops bits dev ((e # rs) @ t # rest) ofs count b =
        rl_pread_loop dops bits dev1 (rs @ t # rest) 0 (count - m) (b @ chunk) \<and>
        content (d_file dev1) = ?c \<and> same_flags dev dev1"
    proof (cases "0 \<le> rl_lcn e")
      case True
      have fit: "(nat (rl_lcn e) + nat (rl_length e)) * 2 ^ bits \<le> length ?c" using True Cons.prems(1) by simp
      have lenA': "length A = nat (rl_length e) * 2 ^ bits" by (simp add: A_def)
      have pos: "nat (rl_lcn e * 2 ^ bits + ofs) = nat (rl_lcn e) * 2 ^ bits + nat ofs"
        using True Cons.prems(3) by (simp add: nat_add_distrib nat_mult_distrib nat_power_eq)
      have room: "nat (rl_lcn e * 2 ^ bits + ofs) + nat m \<le> length ?c"
        using fit m(3) lenA' unfolding pos by (simp add: algebra_simps)
      obtain dev1 where "pread_retry dops dev (rl_lcn e * 2 ^ bits + ofs) m = Some (dev1, Inr chunk)"
        "content (d_file dev1) = ?c" "same_flags dev dev1"
        using pread_retry_exact [OF _ _ room] True Cons.prems(3) m(1)
          fetch_run [OF True _ fit, of "nat ofs" "nat m"] m(3) lenA'
        by (auto simp: chunk_def A_def pos)
      then show ?thesis
        using True False e(1) chunk m(1,4) by (auto simp: m_def Let_def)
    next
      case hole: False
      then have "chunk = replicate (nat m) 0" "rl_lcn e = LCN_HOLE"
        using m(3) e(2) by (auto simp: chunk_def A_def run_addrs_def fetch_def LCN_HOLE_def)
      then show ?thesis using False hole e(1) by (auto simp: m_def Let_def same_flags_def)
    qed
    then obtain dev1 where dev1: "rl_pread_loop dops bits dev ((e # rs) @ t # rest) ofs count b =
        rl_pread_loop dops bits dev1 (rs @ t # rest) 0 (count - m) (b @ chunk)"
      "content (d_file dev1) = ?c" "same_flags dev dev1"
      by blast
    have "\<exists>dev'. rl_pread_loop dops bits dev1 (rs @ t # rest) 0 (count - m) (b @ chunk) =
      Some (dev', if count - m = 0 \<or> b @ chunk \<noteq> [] \<or> rs \<noteq> []
        then Ok ((b @ chunk) @ map (fetch (content (d_file dev1)))
               (take (nat (count - m)) (drop (nat 0) (addrs bits rs))))
        else Err EIO) \<and> content (d_file dev') = content (d_file dev1) \<and> same_flags dev1 dev'"
      by (rule Cons.IH) (use on m Cons.prems(2) dev1(2) in \<open>auto simp: runs_on_def neq_Nil_conv\<close>)
    then show ?thesis
      unfolding split using dev1 chunk(2) by (auto simp: chunk_def same_flags_def)
  qed
qed

lemma pwrite_retry_exact:
  assumes "0 \<le> pos" and "nat pos + length b \<le> length (content (d_file dev))" and "\<not> d_readonly dev"
  shows "\<exists>dev' e. pwrite_retry dops False dev pos b = Some (dev', int (length b), e) \<and>
    content (d_file dev') = put_at (content (d_file dev)) (nat pos) b \<and> same_flags dev dev'"
  using ntfs_pwrite_exact [OF assms] by (subst pwrite_retry.simps) auto

lemma rl_pwrite_loop_exact:
  assumes "runs_on bits (length (content (d_file dev))) rs" and "rl_length t = 0" and "0 \<le> ofs" and "0 \<le> n"
    and "rs \<noteq> [] \<Longrightarrow> ofs < rl_length (hd rs) * 2 ^ bits" and "\<not> d_readonly dev"
    and "length b \<le> length (addrs bits rs) - nat ofs"
  shows "\<exists>dev'. rl_pwrite_loop dops False bits dev (rs @ t # rest) ofs b n =
      Some (dev', Ok (n + int (length b))) \<and>
    content (d_file dev') = store (content (d_file dev)) (take (length b) (drop (nat ofs) (addrs bits rs))) b \<and>
    \<not> d_readonly dev'"
  using assms
proof (induction rs arbitrary: dev ofs b n)
  case Nil
  then show ?case by (cases b) auto
next
  case (Cons e rs)
  let ?c = "content (d_file dev)"
  define m where "m = min (int (length b)) (rl_length e * 2 ^ bits - ofs)"
  define A where "A = run_addrs bits e"
  have e: "0 < rl_length e" "LCN_HOLE \<le> rl_lcn e" "ofs < rl_length e * 2 ^ bits"
    and on: "runs_on bits (length ?c) rs"
    using Cons.prems by auto
  have lenA: "int (length A) = rl_length e * 2 ^ bits" "length A = nat (rl_length e) * 2 ^ bits"
    using e(1) by (simp_all add: A_def)
  show ?case
  proof (cases "b = []")
    case True
    then show ?thesis using Cons.prems(6) by auto
  next
    case False
    then have lb: "0 < length b" by simp
    have m: "0 < m" "nat m \<le> length b" "nat ofs + nat m \<le> length A" "int (nat m) = m"
      using lb Cons.prems(3) e(3) lenA(1) by (auto simp: m_def simp del: length_greater_0_conv)
    define b1 b2 where "b1 = take (nat m) b" "b2 = drop (nat m) b"
    have b12: "b = b1 @ b2" "length b1 = nat m" "b1 \<noteq> []"
      using m by (auto simp: b1_b2_def simp flip: length_0_conv)
    have "b2 = [] \<or> nat ofs + nat m = length A"
      using m lenA(1) Cons.prems(3) by (auto simp: m_def b1_b2_def min_def split: if_splits)
    then have split: "take (length b) (drop (nat ofs) (addrs bits (e # rs))) =
        take (length b1) (drop (nat ofs) A) @ take (length b2) (addrs bits rs)"
    proof
      assume full: "nat ofs + nat m = length A"
      then have "length b - (length A - nat ofs) = length b2" using b12 by auto
      then show ?thesis using full b12(2) by (simp add: b12(1) flip: A_def)
    qed (use m b12 in \<open>simp flip: A_def\<close>)
    define disk1 where "disk1 = store ?c (take (length b1) (drop (nat ofs) A)) b1"
    have step: "\<exists>dev1. rl_pwrite_loop dops False bits dev ((e # rs) @ t # rest) ofs b n =
        rl_pwrite_loop dops False bits dev1 (rs @ t # rest) 0 b2 (n + m) \<and>
        content (d_file dev1) = disk1 \<and> \<not> d_readonly dev1"
    proof (cases "0 \<le> rl_lcn e")
      case True
      have fit: "(nat (rl_lcn e) + nat (rl_length e)) * 2 ^ bits \<le> length ?c" using True Cons.prems(1) by simp
      have pos: "nat (rl_lcn e * 2 ^ bits + ofs) = nat (rl_lcn e) * 2 ^ bits + nat ofs"
        using True Cons.prems(3) by (simp add: nat_add_distrib nat_mult_distrib nat_power_eq)
      have room: "nat (rl_lcn e * 2 ^ bits + ofs) + length b1 \<le> length ?c"
        using fit m(3) lenA(2) b12(2) unfolding pos by (simp add: algebra_simps)
      obtain dev1 err where "pwrite_retry dops False dev (rl_lcn e * 2 ^ bits + ofs) b1 =
          Some (dev1, int (length b1), err)" "content (d_file dev1) = disk1" "\<not> d_readonly dev1"
        using pwrite_retry_exact [OF _ room Cons.prems(6)] True Cons.prems(3,6)
          store_run [OF True _ fit, of "nat ofs" b1] m(3) lenA(2) b12(2)
        by (auto simp: disk1_def A_def pos same_flags_def)
      then show ?thesis
        using True False e(1) b12(2) m(1,4) by (auto simp: m_def b1_b2_def Let_def)
    next
      case hole: False
      then have "disk1 = ?c" "rl_lcn e = LCN_HOLE"
        using e(2) m(3) b12(2) by (auto simp: disk1_def A_def run_addrs_def LCN_HOLE_def store_None)
      then show ?thesis
        using False hole e(1) Cons.prems(6) by (auto simp: m_def b1_b2_def Let_def)
    qed
    then obtain dev1 where dev1: "rl_pwrite_loop dops False bits dev ((e # rs) @ t # rest) ofs b n =
        rl_pwrite_loop dops False bits dev1 (rs @ t # rest) 0 b2 (n + m)"
      "content (d_file dev1) = disk1" "\<not> d_readonly dev1"
      by blast
    have len1: "length (content (d_file dev1)) = length ?c" by (simp add: dev1(2) disk1_def)
    have "\<exists>dev'. rl_pwrite_loop dops False bits dev1 (rs @ t # rest) 0 b2 (n + m) =
        Some (dev', Ok (n + m + int (length b2))) \<and>
      content (d_file dev') = store (content (d_file dev1)) (take (length b2) (drop (nat 0) (addrs bits rs))) b2 \<and>
      \<not> d_readonly dev'"
    proof (rule Cons.IH)
      show "length b2 \<le> length (addrs bits rs) - nat 0"
        using Cons.prems(7) m(3) b12 \<open>b2 = [] \<or> nat ofs + nat m = length A\<close> lenA(2) by auto
    qed (use on m Cons.prems(2,4) dev1(3) len1 in \<open>auto simp: runs_on_def neq_Nil_conv\<close>)
    then obtain dev' where dev': "rl_pwrite_loop dops False bits dev1 (rs @ t # rest) 0 b2 (n + m) =
        Some (dev', Ok (n + m + int (length b2)))"
      "content (d_file dev') = store disk1 (take (length b2) (addrs bits rs)) b2" "\<not> d_readonly dev'"
      by (auto simp: dev1(2))
    have "store ?c (take (length b) (drop (nat ofs) (addrs bits (e # rs)))) b =
        store disk1 (take (length b2) (addrs bits rs)) b2"
      unfolding split disk1_def
      using store_append [of "take (length b1) (drop (nat ofs) A)" b1 ?c "take (length b2) (addrs bits rs)" b2]
        m(3) b12 by simp
    moreover have "n + m + int (length b2) = n + int (length b)" using b12 m(4) by simp
    ultimately show ?thesis using dev1(1) dev' by auto
  qed
qed

end

section \<open>Reading and writing through a runlist\<close>

text \<open>What a caller reads back: the bytes written, zero where the runlist has a hole.\<close>

definition masked :: "nat option list \<Rightarrow> bytes \<Rightarrow> bytes" where
  "masked as bs = map2 (\<lambda>a b. if a = None then 0 else b) as bs"

lemma store_other: "Some i \<notin> set as \<Longrightarrow> store disk as bs ! i = disk ! i"
  by (induction disk as bs rule: store.induct) auto

lemma fetch_store:
  assumes "length as = length bs" and "distinct (filter (\<lambda>a. a \<noteq> None) as)"
    and "\<forall>x. Some x \<in> set as \<longrightarrow> x < length disk"
  shows "map (fetch (store disk as bs)) as = masked as bs"
  using assms
proof (induction disk as bs rule: store.induct)
  case (1 disk x as b bs)
  then show ?case by (simp add: masked_def fetch_def store_other)
qed (auto simp: masked_def fetch_def)

lemma addrs_bound: "runs_on bits n rs \<Longrightarrow> Some x \<in> set (addrs bits rs) \<Longrightarrow> x < n"
  by (induction rs) (auto simp: run_addrs_def algebra_simps split: if_splits)

text \<open>The seek and the offset into the run it finds, against the addresses.\<close>

lemma rl_seek_split:
  assumes "wf_rl v rl" and "runs_on bits n (rl_runs rl)" and "0 \<le> pos"
  obtains rs2 t rest ofs where "rl_seek bits rl 0 pos = (rs2 @ t # rest, ofs)" and "ofs \<le> pos"
    and "rl_length t = 0" and "runs_on bits n rs2" and "rs2 \<noteq> [] \<longrightarrow> pos - ofs < rl_length (hd rs2) * 2 ^ bits"
    and "drop (nat (pos - ofs)) (addrs bits rs2) = drop (nat pos) (addrs bits (rl_runs rl))"
    and "rs2 = [] \<longleftrightarrow> length (addrs bits (rl_runs rl)) \<le> nat pos"
proof -
  obtain rs t rest where rl: "rl = rs @ t # rest" "rl_length t = 0" "rl_runs rl = rs"
    using wf_rlE [OF assms(1)] by metis
  have pos: "\<forall>e \<in> set rs. 0 < rl_length e" using assms(2) rl(3) by (simp add: runs_on_def)
  obtain rs1 rs2 where s: "rs = rs1 @ rs2"
    "rl_seek bits rl 0 pos = (rs2 @ t # rest, int (length (addrs bits rs1)))"
    "int (length (addrs bits rs1)) \<le> pos"
    "rs2 \<noteq> [] \<longrightarrow> pos < int (length (addrs bits rs1)) + rl_length (hd rs2) * 2 ^ bits"
    using rl_seek_spec [OF pos rl(2) assms(3), of bits rest] unfolding rl(1) add_0 by blast
  define k where "k = length (addrs bits rs1)"
  have k: "k \<le> nat pos" "nat (pos - int k) = nat pos - k" using s(3) by (auto simp: k_def)
  have "drop (nat (pos - int k)) (addrs bits rs2) = drop (nat pos) (addrs bits rs)"
    using k by (simp add: s(1) k_def)
  moreover have "rs2 = [] \<longleftrightarrow> length (addrs bits rs) \<le> nat pos"
  proof (cases rs2)
    case (Cons e es)
    define l where "l = nat (rl_length e) * 2 ^ bits"
    have "int l = rl_length e * 2 ^ bits" using Cons s(1) pos by (simp add: l_def)
    then have "nat pos < k + l" using Cons s(4) assms(3) by (simp add: k_def nat_less_iff)
    then show ?thesis using Cons s(1) by (simp add: k_def l_def)
  qed (use k in \<open>simp add: s(1) k_def\<close>)
  moreover have "runs_on bits n rs2" using assms(2) unfolding rl(3) s(1) by simp
  ultimately show thesis
    using that [of rs2 t rest "int k"] s(2-4) rl(2) unfolding rl(3) k_def by (simp add: less_diff_eq add.commute diff_less_eq)
qed

lemma gather_exact:
  assumes "wf_rl 0 rl" and "runs_on bits (length (disk_data dev)) (rl_runs rl)" and "0 \<le> pos" and "0 \<le> count"
  shows "\<exists>dev'. ntfs_rl_pread disk_ops bits dev (Some rl) pos count =
      Some (dev', if count = 0 then Ok []
        else if length (addrs bits (rl_runs rl)) \<le> nat pos then Err EIO
        else Ok (map (fetch (disk_data dev)) (take (nat count) (drop (nat pos) (addrs bits (rl_runs rl)))))) \<and>
    disk_data dev' = disk_data dev \<and> d_readonly dev' = d_readonly dev"
proof (cases "count = 0")
  case False
  obtain rs2 t rest ofs where s: "rl_seek bits rl 0 pos = (rs2 @ t # rest, ofs)" "ofs \<le> pos"
    "rl_length t = 0" "runs_on bits (length (disk_data dev)) rs2"
    "rs2 \<noteq> [] \<longrightarrow> pos - ofs < rl_length (hd rs2) * 2 ^ bits"
    "drop (nat (pos - ofs)) (addrs bits rs2) = drop (nat pos) (addrs bits (rl_runs rl))"
    "rs2 = [] \<longleftrightarrow> length (addrs bits (rl_runs rl)) \<le> nat pos"
    using rl_seek_split [OF assms(1-3)] by blast
  have "0 \<le> pos - ofs" using s(2) by simp
  from unix_disk.rl_pread_loop_exact [OF s(4,3) this assms(4) s(5) [rule_format], of rest "[]"] False s(1,6,7) assms
  show ?thesis by (auto simp: ntfs_rl_pread_def unix_disk.same_flags_def)
qed (use assms in \<open>simp add: ntfs_rl_pread_def\<close>)

text \<open>(C17) A gather read delivers, for every position and count, exactly the bytes of the
  device that the runs of the list address, zeros for its holes, cut at the end of the list;
  a read that begins behind the end fails, and the device does not change.\<close>

theorem rl_pread_gathers:
  assumes "wf_rl 0 rl" and "runs_on bits (length (disk_data dev)) (rl_runs rl)" and "0 \<le> pos" and "0 \<le> count"
  shows "\<exists>dev'. ntfs_rl_pread disk_ops bits dev (Some rl) pos count =
      Some (dev', if count = 0 then Ok []
        else if length (addrs bits (rl_runs rl)) \<le> nat pos then Err EIO
        else Ok (map (fetch (disk_data dev)) (take (nat count) (drop (nat pos) (addrs bits (rl_runs rl)))))) \<and>
    disk_data dev' = disk_data dev"
  using gather_exact [OF assms] by blast

definition demo_runs :: runlist where
  "demo_runs = [\<lparr>rl_vcn = 0, rl_lcn = 4, rl_length = 2\<rparr>, \<lparr>rl_vcn = 2, rl_lcn = LCN_HOLE, rl_length = 1\<rparr>,
     \<lparr>rl_vcn = 3, rl_lcn = 1, rl_length = 1\<rparr>, \<lparr>rl_vcn = 4, rl_lcn = LCN_ENOENT, rl_length = 0\<rparr>]"

lemma demo_runs_ok:
  "wf_rl 0 demo_runs" "rl_runs demo_runs = take 3 demo_runs" "runs_on 1 16 (rl_runs demo_runs)"
  "addrs 1 (rl_runs demo_runs) = [Some 8, Some 9, Some 10, Some 11, None, None, Some 2, Some 3]"
  by (simp_all add: demo_runs_def wf_rl_def rl_runs_def rl_end_def rl_get_def lcn_defs addrs_def run_addrs_def
    upt_rec numeral_2_eq_2)

theorem rl_pread_gathers_witness:
  "\<exists>dev'. ntfs_rl_pread disk_ops 1 (demo_disk 16) (Some demo_runs) 3 3 = Some (dev', Ok [0, 0, 0])"
  using rl_pread_gathers [of demo_runs 1 "demo_disk 16" 3 3] demo_runs_ok
  by (auto simp: demo_disk_def fetch_def take_Cons')

lemma scatter_exact:
  assumes "wf_rl 0 rl" and "runs_on bits (length (disk_data dev)) (rl_runs rl)" and "0 \<le> pos" and "\<not> d_readonly dev"
    and "b \<noteq> []" and "nat pos + length b \<le> length (addrs bits (rl_runs rl))"
  shows "\<exists>dev'. ntfs_rl_pwrite disk_ops False bits dev (Some rl) 0 pos b = Some (dev', Ok (int (length b))) \<and>
    disk_data dev' = store (disk_data dev) (take (length b) (drop (nat pos) (addrs bits (rl_runs rl)))) b \<and>
    \<not> d_readonly dev'"
proof -
  obtain rs2 t rest ofs where s: "rl_seek bits rl 0 pos = (rs2 @ t # rest, ofs)" "ofs \<le> pos"
    "rl_length t = 0" "runs_on bits (length (disk_data dev)) rs2"
    "rs2 \<noteq> [] \<longrightarrow> pos - ofs < rl_length (hd rs2) * 2 ^ bits"
    "drop (nat (pos - ofs)) (addrs bits rs2) = drop (nat pos) (addrs bits (rl_runs rl))"
    "rs2 = [] \<longleftrightarrow> length (addrs bits (rl_runs rl)) \<le> nat pos"
    using rl_seek_split [OF assms(1-3)] by blast
  have room: "length b \<le> length (addrs bits rs2) - nat (pos - ofs)"
    using arg_cong [OF s(6), of length] assms(6) by simp
  have "0 \<le> pos - ofs" using s(2) by simp
  from unix_disk.rl_pwrite_loop_exact [OF s(4,3) this order.refl s(5) [rule_format] assms(4) room] s(1,6) assms(3,5)
  show ?thesis by (auto simp: ntfs_rl_pwrite_def)
qed

text \<open>(C18) A scatter write inside the list reports every byte as written, leaves every byte
  of the device outside the addressed places, and a gather read of the same range then
  delivers the bytes written, with zeros where the list has holes.\<close>

theorem rl_write_read_back:
  assumes "wf_rl 0 rl" and "runs_on bits (length (disk_data dev)) (rl_runs rl)" and "0 \<le> pos"
    and "distinct (filter (\<lambda>a. a \<noteq> None) (addrs bits (rl_runs rl)))" and "\<not> d_readonly dev"
    and "b \<noteq> []" and "nat pos + length b \<le> length (addrs bits (rl_runs rl))"
  shows "\<exists>dev' dev''. ntfs_rl_pwrite disk_ops False bits dev (Some rl) 0 pos b = Some (dev', Ok (int (length b))) \<and>
    (\<forall>i. Some i \<notin> set (take (length b) (drop (nat pos) (addrs bits (rl_runs rl)))) \<longrightarrow>
      disk_data dev' ! i = disk_data dev ! i) \<and>
    ntfs_rl_pread disk_ops bits dev' (Some rl) pos (int (length b)) =
      Some (dev'', Ok (masked (take (length b) (drop (nat pos) (addrs bits (rl_runs rl)))) b))"
proof -
  let ?as = "take (length b) (drop (nat pos) (addrs bits (rl_runs rl)))"
  have pos: "\<not> length (addrs bits (rl_runs rl)) \<le> nat pos"
    using assms(6,7) by (auto simp flip: length_greater_0_conv)
  obtain dev' where w: "ntfs_rl_pwrite disk_ops False bits dev (Some rl) 0 pos b = Some (dev', Ok (int (length b)))"
    "disk_data dev' = store (disk_data dev) ?as b"
    using scatter_exact [OF assms(1-3,5-7)] by blast
  have on: "runs_on bits (length (disk_data dev')) (rl_runs rl)" using assms(2) w(2) by simp
  have "distinct (filter (\<lambda>a. a \<noteq> None) ?as)"
    using assms(4) by (metis append_take_drop_id distinct_append filter_append)
  moreover have "\<forall>x. Some x \<in> set ?as \<longrightarrow> x < length (disk_data dev)"
    using addrs_bound [OF assms(2)] by (meson in_set_dropD in_set_takeD)
  ultimately have "map (fetch (disk_data dev')) ?as = masked ?as b"
    unfolding w(2) using assms(7) by (intro fetch_store) auto
  then have "\<exists>dev''. ntfs_rl_pread disk_ops bits dev' (Some rl) pos (int (length b)) =
      Some (dev'', Ok (masked ?as b))"
    using gather_exact [OF assms(1) on assms(3), of "int (length b)"] pos assms(6) by auto
  then show ?thesis using w store_other by auto
qed

theorem rl_write_read_back_witness:
  "\<exists>dev' dev''. ntfs_rl_pwrite disk_ops False 1 (demo_disk 16) (Some demo_runs) 0 2 [1, 2, 3, 4, 5] =
      Some (dev', Ok 5) \<and>
    ntfs_rl_pread disk_ops 1 dev' (Some demo_runs) 2 5 = Some (dev'', Ok [1, 2, 0, 0, 5])"
  using rl_write_read_back [of demo_runs 1 "demo_disk 16" 2 "[1, 2, 3, 4, 5]"] demo_runs_ok
  by (auto simp: demo_disk_def masked_def)

end
