(* ===== verification/Runlist_Faults.thy ===== *)
theory Runlist_Faults
  imports Runlist_IO
begin

text \<open>
  Gather reads on a device with unreadable places: what \<open>ntfs_rl_pread\<close> of
  \<open>libntfs-3g/runlist.c\<close> makes of a transfer that ends early.
\<close>

section \<open>Unreadable places\<close>

text \<open>
  The file of \<open>posix_file\<close> where some bytes cannot be read: a read that reaches one ends before
  it, and a read that begins at one fails with \<open>EIO\<close>.
\<close>

definition bad_file :: "(nat \<Rightarrow> bool) \<Rightarrow> disk_file syscalls" where
  "bad_file bad = posix_file
     \<lparr>sys_pread := (\<lambda>f count ofs.
        if 0 \<le> ofs \<and> bad (nat ofs) then (f, Inl EIO)
        else sys_pread posix_file f (length (takeWhile (\<lambda>i. \<not> bad i) [nat ofs..<nat ofs + count])) ofs)\<rparr>"

abbreviation bad_ops :: "(nat \<Rightarrow> bool) \<Rightarrow> disk_file ntfs_device_operations" where
  "bad_ops bad \<equiv> ntfs_device_unix_io_ops (\<lambda>n. True) (bad_file bad)"

definition readable :: "(nat \<Rightarrow> bool) \<Rightarrow> nat option \<Rightarrow> bool" where
  "readable bad a = (case a of None \<Rightarrow> True | Some x \<Rightarrow> \<not> bad x)"

section \<open>Plain reads\<close>

lemma bad_pread_fails:
  "bad pos \<Longrightarrow> op_pread (bad_ops bad) dev count (int pos) = (dev, Inl EIO)"
  by (simp add: unix_io_defs bad_file_def)

lemma bad_pread_short:
  assumes "\<not> bad pos" and "0 < count" and "pos + count \<le> length (disk_data dev)"
  shows "\<exists>dev' k. op_pread (bad_ops bad) dev count (int pos) = (dev', Inr (map ((!) (disk_data dev)) [pos..<pos + k])) \<and>
    0 < k \<and> k \<le> count \<and> (\<forall>i \<in> set [pos..<pos + k]. \<not> bad i) \<and> disk_data dev' = disk_data dev"
proof -
  define g where "g = takeWhile (\<lambda>i. \<not> bad i) [pos..<pos + count]"
  define k where "k = min (length g) (Suc (f_cut (d_file dev) (f_calls (d_file dev))))"
  define dev1 where "dev1 = dev\<lparr>d_file := d_file dev\<lparr>f_calls := Suc (f_calls (d_file dev))\<rparr>\<rparr>"
  have op: "op_pread (bad_ops bad) dev count (int pos) = (dev1, Inr (take k (drop pos (disk_data dev))))"
    using assms(1) by (simp add: unix_io_defs bad_file_def g_def k_def dev1_def)
  have "[pos..<pos + count] = pos # [Suc pos..<pos + count]" using assms(2) by (simp add: upt_conv_Cons)
  then have "0 < length g" using assms(1) by (simp add: g_def)
  moreover have le: "length g \<le> count"
    using length_takeWhile_le [of "\<lambda>i. \<not> bad i" "[pos..<pos + count]"] by (simp add: g_def)
  ultimately have k: "0 < k" "k \<le> count" "k \<le> length g" by (auto simp: k_def)
  have "\<not> bad i" if "i \<in> set [pos..<pos + k]" for i
  proof -
    have "i - pos < length g" using that k(3) by auto
    then have "\<not> bad (g ! (i - pos))" unfolding g_def using nth_mem set_takeWhileD by fastforce
    moreover have "g ! (i - pos) = i" using that k(3) le by (auto simp: takeWhile_nth g_def)
    ultimately show ?thesis by simp
  qed
  moreover have "take k (drop pos (disk_data dev)) = map ((!) (disk_data dev)) [pos..<pos + k]"
    using assms(3) k(2) by (intro nth_equalityI) auto
  moreover have "disk_data dev1 = disk_data dev" by (simp add: dev1_def)
  ultimately show ?thesis using op k(1,2) by auto
qed

text \<open>The loop of \<open>ntfs_pread\<close> ends before the first unreadable byte.\<close>

lemma bad_pread_loop:
  assumes "p + length b + count \<le> length (disk_data dev)" and "0 < count"
  shows "\<exists>dev'. pread_loop (bad_ops bad) dev (int p) count b =
      (dev', if b = [] \<and> bad p then Inl EIO
        else Inr (b @ map ((!) (disk_data dev)) (takeWhile (\<lambda>i. \<not> bad i) [p + length b..<p + length b + count]))) \<and>
    disk_data dev' = disk_data dev"
  using assms
proof (induction count arbitrary: dev b rule: less_induct)
  case (less count)
  let ?q = "p + length b" and ?c = "disk_data dev"
  have upt: "[?q..<?q + count] = ?q # [Suc ?q..<?q + count]" using less.prems(2) by (simp add: upt_conv_Cons)
  have p: "int p + int (length b) = int ?q" by simp
  show ?case
  proof (cases "bad ?q")
    case True
    then show ?thesis
      using less.prems(2) bad_pread_fails [of bad ?q dev count] upt
      by (subst pread_loop.simps) (auto simp: p simp del: of_nat_add)
  next
    case False
    obtain dev1 k where k: "op_pread (bad_ops bad) dev count (int ?q) = (dev1, Inr (map ((!) ?c) [?q..<?q + k]))"
      "0 < k" "k \<le> count" "\<forall>i \<in> set [?q..<?q + k]. \<not> bad i" "disk_data dev1 = ?c"
      using bad_pread_short [of bad ?q count dev] False less.prems by blast
    let ?br = "map ((!) ?c) [?q..<?q + k]"
    have step: "pread_loop (bad_ops bad) dev (int p) count b = pread_loop (bad_ops bad) dev1 (int p) (count - k) (b @ ?br)"
      using k(1,2) less.prems(2) by (subst pread_loop.simps) (auto simp: p simp del: of_nat_add)
    have "[?q..<?q + count] = [?q..<?q + k] @ [?q + k..<?q + count]"
      using k(3) upt_add_eq_append [of ?q "?q + k" "count - k"] by (simp add: add.assoc)
    then have tw: "takeWhile (\<lambda>i. \<not> bad i) [?q..<?q + count] =
        [?q..<?q + k] @ takeWhile (\<lambda>i. \<not> bad i) [?q + k..<?q + count]"
      by (simp only:) (rule takeWhile_append2, use k(4) in auto)
    show ?thesis
    proof (cases "count = k")
      case True
      then have "takeWhile (\<lambda>i. \<not> bad i) [?q..<?q + count] = [?q..<?q + k]" using tw by simp
      moreover have "pread_loop (bad_ops bad) dev1 (int p) (count - k) (b @ ?br) = (dev1, Inr (b @ ?br))"
        using True by (simp add: pread_loop.simps [of _ _ _ 0])
      ultimately show ?thesis using step k(5) False by auto
    next
      case more: False
      then have "\<exists>dev'. pread_loop (bad_ops bad) dev1 (int p) (count - k) (b @ ?br) =
          (dev', if b @ ?br = [] \<and> bad p then Inl EIO
            else Inr ((b @ ?br) @ map ((!) (disk_data dev1))
              (takeWhile (\<lambda>i. \<not> bad i) [p + length (b @ ?br)..<p + length (b @ ?br) + (count - k)]))) \<and>
        disk_data dev' = disk_data dev1"
        using k less.prems by (intro less.IH) auto
      then show ?thesis using step tw k(2,3,5) False by (auto simp: add.assoc)
    qed
  qed
qed

section \<open>Gather reads\<close>

lemma takeWhile_readable:
  assumes "0 \<le> rl_lcn e" and "ofs + n \<le> nat (rl_length e) * 2 ^ bits"
  shows "takeWhile (readable bad) (take n (drop ofs (run_addrs bits e))) =
    map Some (takeWhile (\<lambda>i. \<not> bad i)
      [nat (rl_lcn e) * 2 ^ bits + ofs..<nat (rl_lcn e) * 2 ^ bits + ofs + n])"
  using assms by (simp add: run_addrs_def take_map drop_map take_drop_upt takeWhile_map readable_def o_def)

lemma takeWhile_take: "takeWhile P (take n xs) = take n (takeWhile P xs)"
  by (induction xs arbitrary: n) (auto simp: take_Cons')

lemma bad_rl_pread_loop:
  assumes "runs_on bits (length (disk_data dev)) rs" and "rl_length t = 0" and "0 \<le> ofs" and "0 \<le> count"
    and "rs \<noteq> [] \<Longrightarrow> ofs < rl_length (hd rs) * 2 ^ bits \<and> readable bad (run_addrs bits (hd rs) ! nat ofs)"
    and "\<forall>e \<in> set (tl rs). readable bad (run_addrs bits e ! 0)" and "count = 0 \<or> b \<noteq> [] \<or> rs \<noteq> []"
  shows "\<exists>dev'. rl_pread_loop (bad_ops bad) bits dev (rs @ t # rest) ofs count b =
      Some (dev', Ok (b @ map (fetch (disk_data dev)) (take (nat count) (concat (map (takeWhile (readable bad))
        (case rs of [] \<Rightarrow> [] | e # es \<Rightarrow> drop (nat ofs) (run_addrs bits e) # map (run_addrs bits) es)))))) \<and>
    disk_data dev' = disk_data dev"
  using assms
proof (induction rs arbitrary: dev ofs count b)
  case Nil
  then show ?case by (auto simp: rl_read_err_def)
next
  case (Cons e rs)
  let ?c = "disk_data dev"
  define m where "m = min count (rl_length e * 2 ^ bits - ofs)"
  define A where "A = drop (nat ofs) (run_addrs bits e)"
  have e: "0 < rl_length e" "LCN_HOLE \<le> rl_lcn e" "ofs < rl_length e * 2 ^ bits"
    "readable bad (run_addrs bits e ! nat ofs)" and on: "runs_on bits (length ?c) rs"
    using Cons.prems by auto
  have lenA: "int (length A) = rl_length e * 2 ^ bits - ofs" using e(1,3) Cons.prems(3) by (simp add: A_def of_nat_diff nat_le_iff)
  show ?case
  proof (cases "count = 0")
    case True
    then show ?thesis by auto
  next
    case False
    have m: "0 < m" "nat m = min (nat count) (length A)" using False Cons.prems(4) e(3) lenA by (auto simp: m_def)
    define G where "G = takeWhile (readable bad) A"
    define g where "g = take (nat count) G"
    have "length G \<le> length A" using length_takeWhile_le by (auto simp: G_def)
    then have g: "takeWhile (readable bad) (take (nat m) A) = g" using m(2) by (simp add: takeWhile_take G_def g_def min_def)
    have "A \<noteq> []" using e(3) lenA by auto
    then have "hd A = run_addrs bits e ! nat ofs" by (simp add: A_def hd_drop_conv_nth)
    then have "G \<noteq> []" using \<open>A \<noteq> []\<close> e(4) by (cases A) (auto simp: G_def)
    then have g0: "g \<noteq> []" "int (length g) \<le> count" using False Cons.prems(4) by (auto simp: g_def)
    define chunk where "chunk = map (fetch ?c) g"
    have chunk: "chunk \<noteq> []" "length chunk = length g" using g0 by (simp_all add: chunk_def)
    have step: "\<exists>dev1. rl_pread_loop (bad_ops bad) bits dev ((e # rs) @ t # rest) ofs count b =
        rl_pread_loop (bad_ops bad) bits dev1 (rs @ t # rest) 0 (count - int (length g)) (b @ chunk) \<and> disk_data dev1 = ?c"
    proof (cases "0 \<le> rl_lcn e")
      case True
      let ?x = "nat (rl_lcn e) * 2 ^ bits + nat ofs"
      have fit: "(nat (rl_lcn e) + nat (rl_length e)) * 2 ^ bits \<le> length ?c" using True Cons.prems(1) by simp
      have room: "nat ofs + nat m \<le> nat (rl_length e) * 2 ^ bits"
      proof -
        have "nat m \<le> length (run_addrs bits e) - nat ofs" "nat ofs < length (run_addrs bits e)"
          using m(2) \<open>A \<noteq> []\<close> by (auto simp: A_def)
        then show ?thesis unfolding length_run_addrs by linarith
      qed
      have pos: "rl_lcn e * 2 ^ bits + ofs = int ?x"
        using True Cons.prems(3) by simp_all
      have "run_addrs bits e ! nat ofs = Some ?x"
        using True room m by (simp add: run_addrs_def)
      then have ok: "\<not> bad ?x" using e(4) by (simp add: readable_def)
      have "?x + length ([] :: bytes) + nat m \<le> length ?c" using fit room by (simp add: algebra_simps)
      from bad_pread_loop [OF this, of bad] ok m(1)
      obtain dev1 where dev1: "pread_loop (bad_ops bad) dev (int ?x) (nat m) [] =
          (dev1, Inr (map ((!) ?c) (takeWhile (\<lambda>i. \<not> bad i) [?x..<?x + nat m])))" "disk_data dev1 = ?c"
        by auto
      have "g = map Some (takeWhile (\<lambda>i. \<not> bad i) [?x..<?x + nat m])"
        unfolding g [symmetric] A_def by (rule takeWhile_readable [OF True room])
      then have "pread_loop (bad_ops bad) dev (int ?x) (nat m) [] = (dev1, Inr chunk)"
        using dev1(1) by (simp add: chunk_def fetch_def o_def)
      moreover have "\<not> int ?x < 0" by (rule of_nat_less_0_iff)
      ultimately have "pread_retry (bad_ops bad) dev (int ?x) m = Some (dev1, Inr chunk)"
        using m(1) by (subst pread_retry.simps) (simp add: ntfs_pread_def del: of_nat_add)
      then have "pread_retry (bad_ops bad) dev (rl_lcn e * 2 ^ bits + ofs) m = Some (dev1, Inr chunk)"
        unfolding pos .
      then show ?thesis
        using True False e(1) chunk dev1(2) by (auto simp: m_def Let_def)
    next
      case hole: False
      then have lcn: "rl_lcn e = LCN_HOLE" using e(2) by (simp add: LCN_HOLE_def)
      have "A = replicate (length A) None" using hole by (simp add: A_def run_addrs_def)
      then have "take (nat m) A = replicate (nat m) None"
        using m(2) by (metis min.absorb1 min.cobounded2 take_replicate)
      moreover have "takeWhile (readable bad) (replicate n None) = replicate n None" for n
        by (induction n) (simp_all add: readable_def)
      ultimately have "g = replicate (nat m) None" using g by simp
      then have "chunk = replicate (nat m) 0" "int (length g) = m" using m(1) by (simp_all add: chunk_def fetch_def)
      then show ?thesis using False lcn e(1) by (auto simp: m_def Let_def LCN_HOLE_def)
    qed
    then obtain dev1 where dev1: "rl_pread_loop (bad_ops bad) bits dev ((e # rs) @ t # rest) ofs count b =
        rl_pread_loop (bad_ops bad) bits dev1 (rs @ t # rest) 0 (count - int (length g)) (b @ chunk)" "disk_data dev1 = ?c"
      by blast
    have rdbl: "\<forall>e \<in> set (tl rs). readable bad (run_addrs bits e ! 0)" using Cons.prems(6) by (cases rs) auto
    have "\<exists>dev'. rl_pread_loop (bad_ops bad) bits dev1 (rs @ t # rest) 0 (count - int (length g)) (b @ chunk) =
      Some (dev', Ok ((b @ chunk) @ map (fetch (disk_data dev1)) (take (nat (count - int (length g)))
        (concat (map (takeWhile (readable bad))
          (case rs of [] \<Rightarrow> [] | e # es \<Rightarrow> drop (nat 0) (run_addrs bits e) # map (run_addrs bits) es)))))) \<and>
      disk_data dev' = disk_data dev1"
      by (rule Cons.IH) (use on g0 rdbl Cons.prems(2,6) dev1(2) chunk in \<open>auto simp: runs_on_def neq_Nil_conv\<close>)
    moreover have "(case rs of [] \<Rightarrow> [] | e # es \<Rightarrow> drop (nat 0) (run_addrs bits e) # map (run_addrs bits) es) =
        map (run_addrs bits) rs" by (cases rs) simp_all
    moreover have "take (nat count) (G @ R) = g @ take (nat (count - int (length g))) R" for R
    proof -
      have "nat (count - int (length g)) = nat count - length g" by simp
      then show ?thesis by (auto simp: g_def min_def)
    qed
    ultimately show ?thesis using dev1 by (simp add: chunk_def G_def flip: A_def)
  qed
qed

text \<open>(C19) A gather read from the start of a runlist on a device with unreadable bytes, where
  every run begins with a readable byte, does not stop in front of the first unreadable
  byte: it goes on with the next run and reports the readable beginnings of all runs as
  if they were consecutive bytes of the file.\<close>

theorem rl_pread_skips_unreadable:
  assumes "wf_rl 0 rl" and "runs_on bits (length (disk_data dev)) (rl_runs rl)" and "rl_runs rl \<noteq> []" and "0 \<le> count"
    and "\<forall>e \<in> set (rl_runs rl). readable bad (run_addrs bits e ! 0)"
  shows "\<exists>dev'. ntfs_rl_pread (bad_ops bad) bits dev (Some rl) 0 count =
      Some (dev', Ok (map (fetch (disk_data dev)) (take (nat count)
        (concat (map (\<lambda>e. takeWhile (readable bad) (run_addrs bits e)) (rl_runs rl)))))) \<and>
    disk_data dev' = disk_data dev"
proof (cases "count = 0")
  case False
  obtain rs t rest where rl: "rl = rs @ t # rest" "rl_length t = 0" "rl_runs rl = rs"
    using wf_rlE [OF assms(1)] by metis
  then obtain e es where rs: "rs = e # es" using assms(3) by (cases rs) auto
  have "0 < rl_length e" using assms(2) rl(3) rs by simp
  then have seek: "rl_seek bits rl 0 0 = (rs @ t # rest, 0)" by (simp add: rl(1) rs mult_le_0_iff)
  have "\<exists>dev'. rl_pread_loop (bad_ops bad) bits dev (rs @ t # rest) 0 count [] =
      Some (dev', Ok ([] @ map (fetch (disk_data dev)) (take (nat count) (concat (map (takeWhile (readable bad))
        (case rs of [] \<Rightarrow> [] | e # es \<Rightarrow> drop (nat 0) (run_addrs bits e) # map (run_addrs bits) es)))))) \<and>
    disk_data dev' = disk_data dev"
    by (rule bad_rl_pread_loop) (use assms rl rs \<open>0 < rl_length e\<close> in auto)
  moreover have "ntfs_rl_pread (bad_ops bad) bits dev (Some rl) 0 count =
      rl_pread_loop (bad_ops bad) bits dev (rs @ t # rest) 0 count []"
    using False assms(4) by (simp add: ntfs_rl_pread_def seek del: rl_pread_loop.simps)
  moreover have "map (takeWhile (readable bad))
      (case rs of [] \<Rightarrow> [] | e # es \<Rightarrow> drop (nat 0) (run_addrs bits e) # map (run_addrs bits) es) =
      map (\<lambda>e. takeWhile (readable bad) (run_addrs bits e)) (rl_runs rl)"
    by (simp add: rs rl(3) o_def)
  ultimately show ?thesis by simp
qed (simp add: ntfs_rl_pread_def)

theorem rl_pread_skips_unreadable_witness:
  "\<exists>dev'. ntfs_rl_pread (bad_ops (\<lambda>i. i = 10)) 1 (demo_disk 16) (Some demo_runs) 0 8 =
    Some (dev', Ok [0, 0, 0, 0, 0, 0])"
proof -
  have addrs: "map (run_addrs 1) (take 3 demo_runs) = [[Some 8, Some 9, Some 10, Some 11], [None, None], [Some 2, Some 3]]"
    by (simp add: demo_runs_def run_addrs_def lcn_defs upt_rec numeral_2_eq_2)
  then have "\<forall>e \<in> set (take 3 demo_runs). readable (\<lambda>i. i = 10) (run_addrs 1 e ! 0)"
    by (simp add: demo_runs_def numeral_3_eq_3 readable_def)
  moreover have "concat (map (\<lambda>e. takeWhile (readable (\<lambda>i. i = 10)) (run_addrs 1 e)) (take 3 demo_runs)) =
      [Some 8, Some 9, None, None, Some 2, Some 3]"
    using arg_cong [OF addrs, of "\<lambda>l. concat (map (takeWhile (readable (\<lambda>i. i = 10))) l)"]
    by (simp add: o_def readable_def)
  moreover have "take 3 demo_runs \<noteq> []" by (simp add: demo_runs_def)
  ultimately show ?thesis
    using rl_pread_skips_unreadable [of demo_runs 1 "demo_disk 16" 8 "\<lambda>i. i = 10"] demo_runs_ok
    by (auto simp: demo_disk_def fetch_def)
qed

end
