(* ===== verification/Device_Lifecycle.thy ===== *)
theory Device_Lifecycle
  imports Device_Transfer
begin

text \<open>
  The life of a device: opening takes a lock on the file, closing releases it. A device that
  is opened, used and closed in any order, with another process locking the same file in
  between and with any system call failing, never changes the file unless it holds the only
  lock. After a failed \<open>close\<close> it stays marked open for ever.
\<close>

section \<open>System calls that fail\<close>

text \<open>
  The file of \<open>posix_file\<close> where any call may fail: \<open>flt\<close> gives, for a call in a state of the
  file, the \<open>errno\<close> it fails with, and \<open>blk\<close> is what \<open>stat\<close> says of the file. A call on a
  closed descriptor fails with \<open>EBADF\<close>. As on Linux, \<open>close\<close> gives up the descriptor, and with
  it the lock, also when it fails.
\<close>

datatype sys_call = Stat | Open | Setlk | Close | Lseek | Read | Write | Fsync

type_synonym faults = "sys_call \<Rightarrow> disk_file \<Rightarrow> errno option"

definition fd_call :: "faults \<Rightarrow> sys_call \<Rightarrow> disk_file \<Rightarrow> errno option" where
  "fd_call flt c f = (if f_fd f then flt c f else Some EBADF)"

definition faulty_file :: "bool \<Rightarrow> faults \<Rightarrow> disk_file syscalls" where
  "faulty_file blk flt = posix_file
     \<lparr>sys_stat_isblk := (\<lambda>f name. case flt Stat f of Some e \<Rightarrow> Inl e | None \<Rightarrow> Inr blk),
      sys_open := (\<lambda>f name rdwr excl. case flt Open f of
         Some e \<Rightarrow> (f, Some e) | None \<Rightarrow> sys_open posix_file f name rdwr excl),
      sys_setlk := (\<lambda>f l. case fd_call flt Setlk f of Some e \<Rightarrow> (f, Some e) | None \<Rightarrow> sys_setlk posix_file f l),
      sys_close := (\<lambda>f. (fst (sys_close posix_file f), fd_call flt Close f)),
      sys_lseek := (\<lambda>f ofs. case fd_call flt Lseek f of Some e \<Rightarrow> (f, False) | None \<Rightarrow> sys_lseek posix_file f ofs),
      sys_read := (\<lambda>f n. case fd_call flt Read f of Some e \<Rightarrow> (f, Inl e) | None \<Rightarrow> sys_read posix_file f n),
      sys_write := (\<lambda>f b. case fd_call flt Write f of Some e \<Rightarrow> (f, Inl e) | None \<Rightarrow> sys_write posix_file f b),
      sys_pread := (\<lambda>f n ofs. case fd_call flt Read f of Some e \<Rightarrow> (f, Inl e) | None \<Rightarrow> sys_pread posix_file f n ofs),
      sys_pwrite := (\<lambda>f b ofs. case fd_call flt Write f of Some e \<Rightarrow> (f, Inl e) | None \<Rightarrow> sys_pwrite posix_file f b ofs),
      sys_fsync := (\<lambda>f. (f, fd_call flt Fsync f))\<rparr>"

abbreviation faulty_ops :: "bool \<Rightarrow> faults \<Rightarrow> disk_file ntfs_device_operations" where
  "faulty_ops blk flt \<equiv> ntfs_device_unix_io_ops (\<lambda>n. True) (faulty_file blk flt)"

lemmas faulty_defs = unix_io_defs faulty_file_def fd_call_def

section \<open>What a transfer leaves\<close>

text \<open>Two devices that differ only in content, offset, count of calls and dirty flag; the
  content is the same if the device is read-only or its descriptor closed.\<close>

definition keeps_lock :: "disk_file ntfs_device \<Rightarrow> disk_file ntfs_device \<Rightarrow> bool" where
  "keeps_lock dev dev' \<longleftrightarrow>
     d_name dev' = d_name dev \<and> d_private dev' = d_private dev \<and> d_open dev' = d_open dev \<and>
     d_readonly dev' = d_readonly dev \<and> d_sync dev' = d_sync dev \<and>
     f_fd (d_file dev') = f_fd (d_file dev) \<and> f_lock (d_file dev') = f_lock (d_file dev) \<and>
     f_foreign (d_file dev') = f_foreign (d_file dev) \<and>
     (d_readonly dev \<or> \<not> f_fd (d_file dev) \<longrightarrow> disk_data dev' = disk_data dev)"

lemma keeps_lock_refl [simp]: "keeps_lock dev dev"
  by (simp add: keeps_lock_def)

lemma keeps_lock_trans: "keeps_lock a b \<Longrightarrow> keeps_lock b c \<Longrightarrow> keeps_lock a c"
  by (simp add: keeps_lock_def)

lemma op_keeps_lock:
  "keeps_lock dev (fst (op_seek (faulty_ops blk flt) dev ofs))"
  "keeps_lock dev (fst (op_read (faulty_ops blk flt) dev n))"
  "keeps_lock dev (fst (op_write (faulty_ops blk flt) dev b))"
  "keeps_lock dev (fst (op_pread (faulty_ops blk flt) dev n ofs))"
  "keeps_lock dev (fst (op_pwrite (faulty_ops blk flt) dev b ofs))"
  "keeps_lock dev (fst (op_sync (faulty_ops blk flt) dev))"
  by (auto simp: keeps_lock_def faulty_defs Let_def split: option.splits)

lemma pread_loop_keeps_lock: "keeps_lock dev (fst (pread_loop (faulty_ops blk flt) dev pos count b))"
proof (induction count arbitrary: dev b rule: less_induct)
  case (less count)
  let ?ops = "faulty_ops blk flt"
  obtain dev1 r where r: "op_pread ?ops dev count (pos + int (length b)) = (dev1, r)" by fastforce
  then have "keeps_lock dev dev1" using op_keeps_lock(4) [of dev blk flt count "pos + int (length b)"] by simp
  moreover have "count \<noteq> 0 \<Longrightarrow> br \<noteq> [] \<Longrightarrow> keeps_lock dev1 (fst (pread_loop ?ops dev1 pos (count - length br) (b @ br)))" for br
    by (rule less.IH) auto
  ultimately show ?case
    using r by (subst pread_loop.simps) (auto split: sum.splits intro: keeps_lock_trans)
qed

lemma pwrite_loop_keeps_lock: "keeps_lock dev (fst (pwrite_loop (faulty_ops blk flt) dev pos b n))"
proof (induction "length b" arbitrary: dev b n rule: less_induct)
  case less
  let ?ops = "faulty_ops blk flt"
  obtain dev1 r where r: "op_pwrite ?ops dev b (pos + int n) = (dev1, r)" by fastforce
  then have "keeps_lock dev dev1" using op_keeps_lock(5) [of dev blk flt b "pos + int n"] by simp
  moreover have "b \<noteq> [] \<Longrightarrow> 0 < w \<Longrightarrow> keeps_lock dev1 (fst (pwrite_loop ?ops dev1 pos (drop w b) (n + w)))" for w
    by (rule less.hyps) auto
  ultimately show ?case
    using r by (subst pwrite_loop.simps) (auto split: sum.splits intro: keeps_lock_trans)
qed

lemma ntfs_pread_keeps_lock: "keeps_lock dev (fst (ntfs_pread (faulty_ops blk flt) dev pos count))"
  by (simp add: ntfs_pread_def pread_loop_keeps_lock)

lemma ntfs_pwrite_keeps_lock: "keeps_lock dev (fst (ntfs_pwrite (faulty_ops blk flt) dev pos b))"
proof -
  let ?ops = "faulty_ops blk flt"
  obtain dev1 n e where l: "pwrite_loop ?ops (dev\<lparr>d_dirty := True\<rparr>) pos b 0 = (dev1, n, e)"
    by (metis prod_cases3)
  have "keeps_lock dev (dev\<lparr>d_dirty := True\<rparr>)" by (simp add: keeps_lock_def)
  then have "keeps_lock dev dev1"
    using pwrite_loop_keeps_lock [of "dev\<lparr>d_dirty := True\<rparr>" blk flt pos b 0] l by (auto intro: keeps_lock_trans)
  moreover obtain dev2 r where "op_sync ?ops dev1 = (dev2, r)" by fastforce
  moreover have "keeps_lock dev1 dev2" using calculation(2) op_keeps_lock(6) [of dev1 blk flt] by simp
  ultimately show ?thesis
    using l by (auto simp: ntfs_pwrite_def split: option.splits intro: keeps_lock_trans)
qed

section \<open>The life of a device\<close>

text \<open>
  The calls of the library on a device and the locks another process takes. Transfers are made
  on devices whose open flag is set only; memory may run out, files are opened with or without
  write access, and in every step any of the system calls may fail.
\<close>

inductive dev_step :: "disk_file ntfs_device \<Rightarrow> disk_file ntfs_device \<Rightarrow> bool" where
  opens: "ntfs_device_unix_io_open mem (faulty_file blk flt) dev rdwr = (dev', r) \<Longrightarrow> dev_step dev dev'"
| closes: "ntfs_device_unix_io_close (faulty_file blk flt) dev = (dev', r) \<Longrightarrow> dev_step dev dev'"
| seeks: "d_open dev \<Longrightarrow> op_seek (faulty_ops blk flt) dev ofs = (dev', ok) \<Longrightarrow> dev_step dev dev'"
| reads: "d_open dev \<Longrightarrow> op_read (faulty_ops blk flt) dev n = (dev', rd) \<Longrightarrow> dev_step dev dev'"
| writes: "d_open dev \<Longrightarrow> op_write (faulty_ops blk flt) dev b = (dev', wr) \<Longrightarrow> dev_step dev dev'"
| preads: "d_open dev \<Longrightarrow> ntfs_pread (faulty_ops blk flt) dev pos count = (dev', rd) \<Longrightarrow> dev_step dev dev'"
| pwrites: "d_open dev \<Longrightarrow> ntfs_pwrite (faulty_ops blk flt) dev pos b = (dev', pw) \<Longrightarrow> dev_step dev dev'"
| syncs: "d_open dev \<Longrightarrow> ntfs_device_sync (faulty_ops blk flt) dev = (dev', r) \<Longrightarrow> dev_step dev dev'"
| foreign: "\<not> lock_conflict l (f_lock (d_file dev)) \<Longrightarrow>
    dev_step dev (dev\<lparr>d_file := (d_file dev)\<lparr>f_foreign := l\<rparr>\<rparr>)"

definition dev_fresh :: "disk_file ntfs_device \<Rightarrow> bool" where
  "dev_fresh dev \<longleftrightarrow> (\<exists>name f. ntfs_device_alloc (\<lambda>n. True) (Some name) 0 f = Ok dev \<and>
     \<not> f_fd f \<and> f_lock f = None)"

definition lock_inv :: "disk_file ntfs_device \<Rightarrow> bool" where
  "lock_inv dev \<longleftrightarrow> d_private dev = d_open dev \<and> (f_fd (d_file dev) \<longrightarrow> d_open dev) \<and>
     f_lock (d_file dev) =
       (if f_fd (d_file dev) then Some (if d_readonly dev then F_RDLCK else F_WRLCK) else None) \<and>
     \<not> lock_conflict (f_lock (d_file dev)) (f_foreign (d_file dev))"

lemma keeps_lock_inv: "keeps_lock dev dev' \<Longrightarrow> lock_inv dev \<Longrightarrow> lock_inv dev'"
  by (auto simp: keeps_lock_def lock_inv_def)

text \<open>Opening sets the flag and the descriptor together.\<close>

lemma open_faulty:
  assumes "ntfs_device_unix_io_open mem (faulty_file blk flt) dev rdwr = (dev', r)"
  shows "disk_data dev' = disk_data dev" and "lock_inv dev \<Longrightarrow> lock_inv dev'"
    and "f_fd (d_file dev) = d_open dev \<Longrightarrow> f_fd (d_file dev') = d_open dev'"
    and "d_open dev \<Longrightarrow> dev' = dev \<and> r = Some EBUSY"
proof -
  note d = assms [unfolded ntfs_device_unix_io_open_def faulty_defs Let_def]
  show "disk_data dev' = disk_data dev" using d by (auto split: if_splits option.splits)
  show "lock_inv dev'" if "lock_inv dev"
    using d that by (auto simp: lock_inv_def lock_conflict_def split: if_splits option.splits)
  show "f_fd (d_file dev') = d_open dev'" if "f_fd (d_file dev) = d_open dev"
    using d that by (auto split: if_splits option.splits)
  show "dev' = dev \<and> r = Some EBUSY" if "d_open dev" using d that by simp
qed

text \<open>Closing clears them together, unless the system call \<open>close\<close> fails.\<close>

lemma close_faulty:
  assumes "ntfs_device_unix_io_close (faulty_file blk flt) dev = (dev', r)"
  shows "disk_data dev' = disk_data dev" and "lock_inv dev \<Longrightarrow> lock_inv dev'"
    and "f_fd (d_file dev) = d_open dev \<Longrightarrow> f_fd (d_file dev') \<noteq> d_open dev' \<Longrightarrow>
      r \<noteq> None \<and> (\<exists>f. flt Close f = r)"
    and "\<not> f_fd (d_file dev) \<Longrightarrow> r \<noteq> None \<and> d_open dev' = d_open dev \<and> d_private dev' = d_private dev \<and>
      \<not> f_fd (d_file dev')"
proof -
  note d = assms [unfolded ntfs_device_unix_io_close_def faulty_defs]
  show "disk_data dev' = disk_data dev" using d by (auto split: if_splits option.splits)
  show "lock_inv dev'" if "lock_inv dev"
    using d that by (auto simp: lock_inv_def lock_conflict_def split: if_splits option.splits)
  show "r \<noteq> None \<and> (\<exists>f. flt Close f = r)" if "f_fd (d_file dev) = d_open dev" "f_fd (d_file dev') \<noteq> d_open dev'"
    using d that by (auto split: if_splits option.splits dest: sym [of "Some _"])
  show "r \<noteq> None \<and> d_open dev' = d_open dev \<and> d_private dev' = d_private dev \<and> \<not> f_fd (d_file dev')"
    if "\<not> f_fd (d_file dev)"
    using d that by (auto split: if_splits option.splits)
qed

lemma sync_keeps_lock: "keeps_lock dev (fst (ntfs_device_sync (faulty_ops blk flt) dev))"
  by (simp add: ntfs_device_sync_def op_keeps_lock)

text \<open>A step opens, closes, transfers or belongs to the other process.\<close>

lemma dev_step_kinds:
  assumes "dev_step dev dev'"
  obtains (opened) mem blk flt rdwr r where "ntfs_device_unix_io_open mem (faulty_file blk flt) dev rdwr = (dev', r)"
  | (closed) blk flt r where "ntfs_device_unix_io_close (faulty_file blk flt) dev = (dev', r)"
  | (moved) "d_open dev" and "keeps_lock dev dev'"
  | (locked) l where "\<not> lock_conflict l (f_lock (d_file dev))"
      and "dev' = dev\<lparr>d_file := (d_file dev)\<lparr>f_foreign := l\<rparr>\<rparr>"
  using assms
proof cases
  case (seeks blk flt ofs ok)
  then show ?thesis using moved op_keeps_lock(1) [of dev blk flt ofs] by simp
next
  case (reads blk flt n rd)
  then show ?thesis using moved op_keeps_lock(2) [of dev blk flt n] by simp
next
  case (writes blk flt b wr)
  then show ?thesis using moved op_keeps_lock(3) [of dev blk flt b] by simp
next
  case (preads blk flt pos count rd)
  then show ?thesis using moved ntfs_pread_keeps_lock [of dev blk flt pos count] by simp
next
  case (pwrites blk flt pos b pw)
  then show ?thesis using moved ntfs_pwrite_keeps_lock [of dev blk flt pos b] by simp
next
  case (syncs blk flt r)
  then show ?thesis using moved sync_keeps_lock [of dev blk flt] by simp
qed (use opened closed locked in blast)+

text \<open>A transfer keeps the lock; the other steps keep the content.\<close>

lemma dev_step_cases:
  assumes "dev_step dev dev'"
  shows "(d_open dev \<and> keeps_lock dev dev') \<or> (disk_data dev' = disk_data dev \<and> (lock_inv dev \<longrightarrow> lock_inv dev'))"
  using assms
proof (cases rule: dev_step_kinds)
  case (opened mem blk flt rdwr r)
  then show ?thesis using open_faulty(1,2) by blast
next
  case (closed blk flt r)
  then show ?thesis using close_faulty(1,2) by blast
qed (auto simp: lock_inv_def lock_conflict_def)

text \<open>The open flag and the descriptor part only in a failing \<open>close\<close>.\<close>

lemma dev_step_parts:
  assumes "dev_step dev dev'" and "f_fd (d_file dev) = d_open dev" and "f_fd (d_file dev') \<noteq> d_open dev'"
  shows "\<exists>blk flt f e. ntfs_device_unix_io_close (faulty_file blk flt) dev = (dev', Some e) \<and> flt Close f = Some e"
  using assms(1)
proof (cases rule: dev_step_kinds)
  case (opened mem blk flt rdwr r)
  then show ?thesis using open_faulty(3) [OF opened assms(2)] assms(3) by simp
next
  case (closed blk flt r)
  obtain f where "flt Close f = r" "r \<noteq> None" using close_faulty(3) [OF closed assms(2,3)] by blast
  then show ?thesis using closed by (cases r) auto
qed (use assms(2,3) in \<open>auto simp: keeps_lock_def\<close>)

interpretation dev_life: invariant_system dev_fresh dev_step lock_inv
proof
  show "lock_inv dev" if "dev_fresh dev" for dev
    using that by (auto simp: dev_fresh_def ntfs_device_alloc_def lock_inv_def lock_conflict_def)
  show "lock_inv dev'" if "dev_step dev dev'" "lock_inv dev" for dev dev'
    using dev_step_cases [OF that(1)] that(2) keeps_lock_inv by blast
qed

text \<open>(C20) In every life of a device, from its allocation through any sequence of openings,
  transfers and closings in which any system call may fail, interleaved with the locks of
  another process: a step that changes the file happens only while the device holds the
  write lock and no other process holds any lock; the lock is held exactly as long as the
  descriptor is open; an open descriptor implies the open flag; and a step that leaves the
  flag without a descriptor is a closing whose \<open>close\<close> call failed.\<close>

theorem device_writes_under_lock:
  assumes "dev_fresh dev0" and "dev_step\<^sup>*\<^sup>* dev0 dev"
  shows "(f_fd (d_file dev) \<longrightarrow> d_open dev) \<and> d_private dev = d_open dev \<and>
    (f_fd (d_file dev) \<longleftrightarrow> f_lock (d_file dev) \<noteq> None) \<and>
    (\<forall>dev'. dev_step dev dev' \<and> disk_data dev' \<noteq> disk_data dev \<longrightarrow>
      f_lock (d_file dev) = Some F_WRLCK \<and> f_foreign (d_file dev) = None) \<and>
    (\<forall>dev'. dev_step dev dev' \<and> f_fd (d_file dev) = d_open dev \<and> f_fd (d_file dev') \<noteq> d_open dev' \<longrightarrow>
      (\<exists>blk flt f e. ntfs_device_unix_io_close (faulty_file blk flt) dev = (dev', Some e) \<and> flt Close f = Some e))"
proof -
  have inv: "lock_inv dev" using dev_life.reachable_inv [OF assms] .
  have "f_lock (d_file dev) = Some F_WRLCK \<and> f_foreign (d_file dev) = None"
    if "dev_step dev dev'" "disk_data dev' \<noteq> disk_data dev" for dev'
  proof -
    have "d_open dev" "keeps_lock dev dev'" using dev_step_cases [OF that(1)] that(2) by auto
    moreover have "\<not> d_readonly dev" "f_fd (d_file dev)"
      using \<open>keeps_lock dev dev'\<close> that(2) by (auto simp: keeps_lock_def)
    ultimately show ?thesis using inv by (auto simp: lock_inv_def lock_conflict_def)
  qed
  moreover have "f_fd (d_file dev) \<longrightarrow> d_open dev" "d_private dev = d_open dev"
    "f_fd (d_file dev) \<longleftrightarrow> f_lock (d_file dev) \<noteq> None"
    using inv by (simp_all add: lock_inv_def)
  ultimately show ?thesis using dev_step_parts [of dev] by (intro conjI allI impI) auto
qed

definition demo_file :: disk_file where
  "demo_file = \<lparr>f_data = [0, 0], f_pos = 0, f_fd = False, f_lock = None, f_foreign = Some F_RDLCK,
     f_cut = (\<lambda>n. 0), f_calls = 0\<rparr>"

definition demo_fresh :: "disk_file ntfs_device" where
  "demo_fresh = \<lparr>d_file = demo_file, d_name = ''sda1'', d_private = False, d_open = False, d_readonly = False,
     d_dirty = False, d_block = False, d_sync = False, d_heads = -1, d_sectors_per_track = -1\<rparr>"

text \<open>A system whose \<open>close\<close> calls all fail with \<open>EIO\<close>.\<close>

definition close_fails :: faults where
  "close_fails c f = (if c = Close then Some EIO else None)"

definition demo_opened :: "disk_file ntfs_device" where
  "demo_opened = fst (ntfs_device_unix_io_open (\<lambda>n. True) (faulty_file False close_fails) demo_fresh False)"

lemma demo_opened_ok:
  "dev_fresh demo_fresh" "dev_step demo_fresh demo_opened" "d_open demo_opened" "f_fd (d_file demo_opened)"
proof -
  show "dev_step demo_fresh demo_opened"
    unfolding demo_opened_def by (rule dev_step.opens) (rule prod.collapse [symmetric])
qed (simp_all add: dev_fresh_def ntfs_device_alloc_def demo_opened_def faulty_defs Let_def lock_conflict_def
  demo_fresh_def demo_file_def close_fails_def)

theorem device_writes_under_lock_witness:
  "dev_step\<^sup>*\<^sup>* demo_fresh demo_opened \<and> d_open demo_opened \<and> f_lock (d_file demo_opened) \<noteq> None"
  using device_writes_under_lock [of demo_fresh demo_opened] demo_opened_ok by auto

section \<open>A failed close\<close>

definition stuck_open :: "disk_file ntfs_device \<Rightarrow> bool" where
  "stuck_open dev \<longleftrightarrow> d_open dev \<and> d_private dev \<and> \<not> f_fd (d_file dev) \<and> f_lock (d_file dev) = None"

lemma stuck_step:
  assumes "dev_step dev dev'" and "stuck_open dev"
  shows "stuck_open dev' \<and> disk_data dev' = disk_data dev"
  using assms(1)
proof (cases rule: dev_step_kinds)
  case (opened mem blk flt rdwr r)
  then show ?thesis using open_faulty(4) [OF opened] assms(2) by (simp add: stuck_open_def)
next
  case (closed blk flt r)
  then show ?thesis using assms(2)
    by (auto simp: stuck_open_def ntfs_device_unix_io_close_def faulty_defs split: if_splits option.splits)
qed (use assms(2) in \<open>auto simp: stuck_open_def keeps_lock_def\<close>)

text \<open>When the system call \<open>close\<close> fails, closing a device leaves it marked open without
  descriptor and lock, and no later sequence of calls gets it out of that state: the
  content never changes again, and opening and freeing the device fail with \<open>EBUSY\<close> and
  closing it fails for ever.\<close>

theorem failed_close_stuck:
  assumes "dev_fresh dev0" and "dev_step\<^sup>*\<^sup>* dev0 dev" and "f_fd (d_file dev)"
    and "ntfs_device_unix_io_close (faulty_file blk flt) dev = (dev1, Some e)" and "\<not> f_fd (d_file dev1)"
    and "dev_step\<^sup>*\<^sup>* dev1 dev2"
  shows "d_open dev2 \<and> \<not> f_fd (d_file dev2) \<and> f_lock (d_file dev2) = None \<and> disk_data dev2 = disk_data dev \<and>
    (\<forall>mem blk flt rdwr. ntfs_device_unix_io_open mem (faulty_file blk flt) dev2 rdwr = (dev2, Some EBUSY)) \<and>
    (\<forall>blk flt. snd (ntfs_device_unix_io_close (faulty_file blk flt) dev2) \<noteq> None) \<and>
    ntfs_device_free (Some dev2) = Some EBUSY"
proof -
  have "d_open dev" "d_private dev"
    using dev_life.reachable_inv [OF assms(1,2)] assms(3) by (auto simp: lock_inv_def)
  then have "stuck_open dev1" "disk_data dev1 = disk_data dev"
    using assms(3-5) close_faulty(1) [OF assms(4)]
    by (auto simp: stuck_open_def ntfs_device_unix_io_close_def faulty_defs split: if_splits option.splits)
  with assms(6) have stuck: "stuck_open dev2 \<and> disk_data dev2 = disk_data dev"
    by (induction rule: rtranclp_induct) (use stuck_step in auto)
  then have "snd (ntfs_device_unix_io_close (faulty_file blk flt) dev2) \<noteq> None" for blk flt
    using close_faulty(4) [of blk flt dev2] by (metis stuck_open_def surjective_pairing)
  then show ?thesis
    using stuck by (auto simp: stuck_open_def ntfs_device_unix_io_open_def ntfs_device_free_def)
qed

theorem failed_close_stuck_witness:
  "ntfs_device_free (Some (fst (ntfs_device_unix_io_close (faulty_file False close_fails) demo_opened))) = Some EBUSY"
proof -
  let ?d = "fst (ntfs_device_unix_io_close (faulty_file False close_fails) demo_opened)"
  have "ntfs_device_unix_io_close (faulty_file False close_fails) demo_opened = (?d, Some EIO)" "\<not> f_fd (d_file ?d)"
    by (simp_all add: demo_opened_def faulty_defs Let_def lock_conflict_def demo_fresh_def demo_file_def close_fails_def)
  then show ?thesis
    using failed_close_stuck [of demo_fresh demo_opened False close_fails ?d EIO ?d] demo_opened_ok by auto
qed

section \<open>A read-only device\<close>

text \<open>A device opened for reading keeps its read-only flag when it is closed: opened
  again for reading and writing, it takes a read lock only and refuses every write with \<open>EROFS\<close>.\<close>

theorem reopened_stays_readonly:
  assumes "ntfs_device_unix_io_open mem (faulty_file blk flt) dev False = (dev1, None)"
    and "ntfs_device_unix_io_close (faulty_file blk flt) dev1 = (dev2, None)"
    and "ntfs_device_unix_io_open mem (faulty_file blk flt) dev2 True = (dev3, None)" and "0 \<le> pos" and "b \<noteq> []"
  shows "f_lock (d_file dev3) = Some F_RDLCK \<and> ntfs_pwrite (faulty_ops blk flt) dev3 pos b = (dev3, -1, EROFS)"
proof -
  have "d_readonly dev1" using assms(1)
    by (auto simp: ntfs_device_unix_io_open_def faulty_defs Let_def split: if_splits option.splits)
  then have "d_readonly dev2" using assms(2)
    by (auto simp: ntfs_device_unix_io_close_def faulty_defs split: if_splits option.splits)
  then have "d_readonly dev3 \<and> f_lock (d_file dev3) = Some F_RDLCK" using assms(3)
    by (auto simp: ntfs_device_unix_io_open_def faulty_defs Let_def split: if_splits option.splits)
  then show ?thesis using assms(4,5) by (simp add: ntfs_pwrite_def)
qed

theorem reopened_stays_readonly_witness:
  "\<exists>dev3. ntfs_pwrite (faulty_ops False (\<lambda>c f. None)) dev3 0 [1] = (dev3, -1, EROFS) \<and>
    ntfs_device_unix_io_open (\<lambda>n. True) (faulty_file False (\<lambda>c f. None))
      (fst (ntfs_device_unix_io_close (faulty_file False (\<lambda>c f. None))
        (fst (ntfs_device_unix_io_open (\<lambda>n. True) (faulty_file False (\<lambda>c f. None)) demo_fresh False)))) True =
      (dev3, None)"
  using reopened_stays_readonly [of "\<lambda>n. True" False "\<lambda>c f. None" demo_fresh _ _ _ 0 "[1]"]
  by (simp add: faulty_defs Let_def lock_conflict_def demo_fresh_def demo_file_def)

end
