(* ===== verification/Bootsect.thy ===== *)
theory Bootsect
  imports Device_Transfer
begin

text \<open>
  The boot sector (\<open>libntfs-3g/bootsect.c\<close>): the check that a sector starts an NTFS volume and
  the extraction of the geometry of the volume from it. Fields of \<open>ntfs_volume\<close> are kept at
  their width; a shift the C standard leaves undefined is a \<open>Fault\<close>.
\<close>

unbundle bit_operations_syntax

section \<open>The structures\<close>

record NTFS_BOOT_SECTOR =
  bs_oem_id :: nat
  bs_bytes_per_sector :: nat
  bs_sectors_per_cluster :: nat
  bs_reserved_sectors :: nat
  bs_fats :: nat
  bs_root_entries :: nat
  bs_sectors :: nat
  bs_sectors_per_fat :: nat
  bs_large_sectors :: nat
  bs_number_of_sectors :: int
  bs_mft_lcn :: int
  bs_mftmirr_lcn :: int
  bs_clusters_per_mft_record :: int
  bs_clusters_per_index_record :: int
  bs_end_of_sector_marker :: nat

definition s8 :: "int \<Rightarrow> int" where
  "s8 x = (x + 2 ^ 7) mod 2 ^ 8 - 2 ^ 7"

text \<open>The overlay of the packed structure on the bytes of a sector.\<close>

definition boot_sector_at :: "bytes \<Rightarrow> NTFS_BOOT_SECTOR" where
  "boot_sector_at b =
     \<lparr>bs_oem_id = le_at 8 b 0x03, bs_bytes_per_sector = le_at 2 b 0x0b,
      bs_sectors_per_cluster = le_at 1 b 0x0d, bs_reserved_sectors = le_at 2 b 0x0e,
      bs_fats = le_at 1 b 0x10, bs_root_entries = le_at 2 b 0x11, bs_sectors = le_at 2 b 0x13,
      bs_sectors_per_fat = le_at 2 b 0x16, bs_large_sectors = le_at 4 b 0x20,
      bs_number_of_sectors = s64 (int (le_at 8 b 0x28)), bs_mft_lcn = s64 (int (le_at 8 b 0x30)),
      bs_mftmirr_lcn = s64 (int (le_at 8 b 0x38)),
      bs_clusters_per_mft_record = s8 (int (le_at 1 b 0x40)),
      bs_clusters_per_index_record = s8 (int (le_at 1 b 0x44)),
      bs_end_of_sector_marker = le_at 2 b 0x1fe\<rparr>"

record ntfs_geometry =
  v_sector_size :: nat
  v_sector_size_bits :: nat
  v_nr_clusters :: int
  v_mft_lcn :: int
  v_mftmirr_lcn :: int
  v_cluster_size :: nat
  v_cluster_size_bits :: nat
  v_mft_record_size :: nat
  v_mft_record_size_bits :: nat
  v_indx_record_size :: nat
  v_indx_record_size_bits :: nat
  v_mftmirr_size :: nat

section \<open>The check\<close>

text \<open>Clusters per record: a small power of two, or minus the logarithm of the size in bytes.\<close>

definition valid_clusters_per_record :: "int \<Rightarrow> bool" where
  "valid_clusters_per_record c \<longleftrightarrow>
     \<not> (c mod 256 < 0xe1 \<or> 0xf7 < c mod 256) \<or> c \<in> {1, 2, 4, 8, 0x10, 0x20, 0x40}"

text \<open>The end of sector marker is only reported, not required.\<close>

definition ntfs_boot_sector_is_ntfs :: "NTFS_BOOT_SECTOR \<Rightarrow> bool" where
  "ntfs_boot_sector_is_ntfs b =
     (if bs_oem_id b \<noteq> 0x202020205346544e then False
      else if bs_bytes_per_sector b < 256 \<or> 4096 < bs_bytes_per_sector b then False
      else if bs_sectors_per_cluster b \<notin> {1, 2, 4, 8, 16, 32, 64, 128} then False
      else if 65536 < bs_bytes_per_sector b * bs_sectors_per_cluster b then False
      else if bs_reserved_sectors b \<noteq> 0 \<or> bs_root_entries b \<noteq> 0 \<or> bs_sectors b \<noteq> 0 \<or>
        bs_sectors_per_fat b \<noteq> 0 \<or> bs_large_sectors b \<noteq> 0 \<or> bs_fats b \<noteq> 0 then False
      else if \<not> valid_clusters_per_record (bs_clusters_per_mft_record b) then False
      else if \<not> valid_clusters_per_record (bs_clusters_per_index_record b) then False
      else True)"

section \<open>The geometry\<close>

text \<open>\<open>ffs\<close> of the C library: one more than the index of the least set bit, 0 if there is none.\<close>

fun ffs_loop :: "nat \<Rightarrow> nat \<Rightarrow> nat" where
  "ffs_loop 0 n = 0"
| "ffs_loop (Suc k) n = (if n = 0 then 0 else if odd n then 1 else Suc (ffs_loop k (n div 2)))"

definition ffs :: "nat \<Rightarrow> nat" where
  "ffs n = ffs_loop 32 n"

text \<open>\<open>ffs (n) - 1\<close> stored in a \<open>u8\<close>.\<close>

definition size_bits :: "nat \<Rightarrow> nat" where
  "size_bits n = (if ffs n = 0 then 255 else ffs n - 1)"

definition is_pow2 :: "nat \<Rightarrow> bool" where
  "is_pow2 n \<longleftrightarrow> n AND (n - 1) = 0"

text \<open>The size of a record, as a \<open>u32\<close>; \<open>1 << 31\<close> is not an \<open>int\<close> and thus undefined.\<close>

definition record_size :: "int \<Rightarrow> nat \<Rightarrow> nat result" where
  "record_size c cluster_size_bits =
     (if c < 0 then (if 31 \<le> - c then Fault else Ok (2 ^ nat (- c)))
      else Ok (nat c * 2 ^ cluster_size_bits mod 2 ^ 32))"

text \<open>What follows the look at the last sector.\<close>

definition boot_geometry :: "NTFS_BOOT_SECTOR \<Rightarrow> ntfs_geometry result" where
  "boot_geometry bs =
     (let sector_size = bs_bytes_per_sector bs; spc = bs_sectors_per_cluster bs;
          mft_lcn = bs_mft_lcn bs; mftmirr_lcn = bs_mftmirr_lcn bs;
          nr_clusters = bs_number_of_sectors bs div 2 ^ (ffs spc - 1);
          cluster_size = spc * sector_size; cluster_size_bits = size_bits cluster_size
      in if spc = 0 then Fault
         else if mft_lcn < 0 \<or> nr_clusters < mft_lcn \<or> mftmirr_lcn < 0 \<or> nr_clusters < mftmirr_lcn
         then Err EINVAL
         else if \<not> is_pow2 cluster_size then Err EINVAL
         else res_bind (record_size (bs_clusters_per_mft_record bs) cluster_size_bits) (\<lambda>mft_record_size.
           if \<not> is_pow2 mft_record_size then Err EINVAL
           else res_bind (record_size (bs_clusters_per_index_record bs) cluster_size_bits) (\<lambda>indx_record_size.
             Ok \<lparr>v_sector_size = sector_size, v_sector_size_bits = size_bits sector_size,
                 v_nr_clusters = nr_clusters, v_mft_lcn = mft_lcn, v_mftmirr_lcn = mftmirr_lcn,
                 v_cluster_size = cluster_size, v_cluster_size_bits = cluster_size_bits,
                 v_mft_record_size = mft_record_size, v_mft_record_size_bits = size_bits mft_record_size,
                 v_indx_record_size = indx_record_size, v_indx_record_size_bits = size_bits indx_record_size,
                 v_mftmirr_size = (if cluster_size \<le> 4 * mft_record_size mod 2 ^ 32 then 4
                    else cluster_size div mft_record_size)\<rparr>)))"

text \<open>
  The shift \<open>(sectors - 1) << vol->sector_size_bits\<close> on an \<open>s64\<close> is undefined for a negative
  operand, for a count above 63 and when the result does not fit.
\<close>

definition seek_shift_undefined :: "NTFS_BOOT_SECTOR \<Rightarrow> bool" where
  "seek_shift_undefined bs \<longleftrightarrow>
     (let bits = size_bits (bs_bytes_per_sector bs); sectors = bs_number_of_sectors bs
      in sectors < 1 \<or> 63 < bits \<or> 2 ^ 63 \<le> (sectors - 1) * 2 ^ bits)"

definition ntfs_boot_sector_parse ::
    "'d ntfs_device_operations \<Rightarrow> 'd ntfs_device \<Rightarrow> NTFS_BOOT_SECTOR \<Rightarrow> 'd ntfs_device \<times> ntfs_geometry result"
where
  "ntfs_boot_sector_parse dops dev bs =
     (let sector_size_bits = size_bits (bs_bytes_per_sector bs); sectors = bs_number_of_sectors bs
      in if \<not> is_pow2 (bs_sectors_per_cluster bs) then (dev, Err EINVAL)
         else if sectors = 0 then (dev, Err EINVAL)
         else if seek_shift_undefined bs then (dev, Fault)
         else case op_seek dops dev ((sectors - 1) * 2 ^ sector_size_bits) of
           (dev, ok) \<Rightarrow> (dev, if ok then boot_geometry bs else Err EINVAL))"

section \<open>Powers of two\<close>

lemma ffs_loop_pow2: "k < n \<Longrightarrow> ffs_loop n (2 ^ k) = Suc k"
proof (induction n arbitrary: k)
  case (Suc n)
  then show ?case by (cases k) auto
qed simp

lemma ffs_loop_le: "ffs_loop n x \<le> n"
  by (induction n x rule: ffs_loop.induct) auto

lemma size_bits_pow2 [simp]: "k < 32 \<Longrightarrow> size_bits (2 ^ k) = k"
  by (simp add: size_bits_def ffs_def ffs_loop_pow2)

lemma ffs_pow2 [simp]: "k < 32 \<Longrightarrow> ffs (2 ^ k) = Suc k"
  by (simp add: ffs_def ffs_loop_pow2)

lemma is_pow2_conv: "0 < n \<Longrightarrow> is_pow2 n \<longleftrightarrow> (\<exists>k. n = 2 ^ k)"
proof (induction n rule: less_induct)
  case (less n)
  show ?case
  proof (cases "even n")
    case True
    then obtain m where m: "n = 2 * m" by (auto elim: evenE)
    then have pos: "0 < m" "m < n" using less.prems by auto
    have "n - 1 = 2 * (m - 1) + 1" using pos m by simp
    then have "n AND (n - 1) = 2 * (m AND (m - 1))"
      unfolding m by (subst and_rec) simp
    then have "is_pow2 n \<longleftrightarrow> is_pow2 m" by (simp add: is_pow2_def)
    also have "\<dots> \<longleftrightarrow> (\<exists>k. m = 2 ^ k)" using less.IH [OF pos(2,1)] .
    also have "\<dots> \<longleftrightarrow> (\<exists>k. n = 2 ^ k)"
    proof
      assume "\<exists>k. n = 2 ^ k"
      then obtain k where k: "n = 2 ^ k" ..
      with True have "k \<noteq> 0" by (cases k) auto
      with k m have "m = 2 ^ (k - 1)" by (cases k) auto
      then show "\<exists>k. m = 2 ^ k" ..
    qed (use m in \<open>auto intro: exI [of _ "Suc _"]\<close>)
    finally show ?thesis .
  next
    case False
    then obtain m where m: "n = 2 * m + 1" by (auto elim: oddE)
    then have "n AND (n - 1) = 2 * m"
      by (subst and_rec) simp
    then have "is_pow2 n \<longleftrightarrow> n = 2 ^ 0" using m by (simp add: is_pow2_def)
    also have "\<dots> \<longleftrightarrow> (\<exists>k. n = 2 ^ k)" using False by (metis even_numeral even_power not_gr_zero)
    finally show ?thesis .
  qed
qed

lemma pow2_cofactor: "2 ^ j * x = (2 :: nat) ^ c \<Longrightarrow> \<exists>s. x = 2 ^ s"
proof (induction j arbitrary: c)
  case (Suc j)
  then have "2 * (2 ^ j * x) = 2 ^ c" by simp
  then have "2 ^ j * x = 2 ^ (c - 1)" by (cases c) (auto simp: dvd_def odd_one)
  then show ?case by (rule Suc.IH)
qed auto

lemma spc_pow2: "spc \<in> {1, 2, 4, 8, 16, 32, 64, 128 :: nat} \<Longrightarrow> \<exists>j \<le> 7. spc = 2 ^ j"
  by (elim insertE) (auto intro: exI [of _ 0] exI [of _ 1] exI [of _ 2] exI [of _ 3] exI [of _ 4] exI [of _ 5]
    exI [of _ 6] exI [of _ 7])

text \<open>A record of a checked boot sector has a power of two as its size, or its shift is undefined.\<close>

lemma record_size_ok:
  assumes "valid_clusters_per_record c" and "- 128 \<le> c" and "c < 128" and "cb \<le> 16" and "c \<noteq> -31"
  shows "\<exists>m < 31. record_size c cb = Ok (2 ^ m)"
proof (cases "c < 0")
  case True
  then have "c mod 256 = c + 256" using mod_pos_pos_trivial [of "c + 256" 256] assms(2) by simp
  then have "- 31 < c" using assms(1,5) True by (auto simp: valid_clusters_per_record_def)
  then show ?thesis using True by (intro exI [of _ "nat (- c)"]) (auto simp: record_size_def)
next
  case False
  then have "c mod 256 = c" using assms(3) by simp
  then have "c \<in> {1, 2, 4, 8, 0x10, 0x20, 0x40}"
    using assms(1,3) by (auto simp: valid_clusters_per_record_def)
  then have "\<exists>j \<le> 6. nat c = 2 ^ j"
    by (elim insertE) (auto intro: exI [of _ 0] exI [of _ 1] exI [of _ 2] exI [of _ 3] exI [of _ 4] exI [of _ 5] exI [of _ 6])
  then obtain j where j: "j \<le> 6" "nat c = 2 ^ j" by blast
  then have "nat c * 2 ^ cb = (2 :: nat) ^ (j + cb)" "j + cb < 31" using assms(4) by (simp_all add: power_add)
  moreover have "(2 :: nat) ^ (j + cb) < 2 ^ 32" using calculation(2) by (intro power_strict_increasing) auto
  ultimately show ?thesis using False by (intro exI [of _ "j + cb"]) (simp add: record_size_def)
qed

lemma record_size_undefined: "record_size (-31) cb = Fault"
  by (simp add: record_size_def)

section \<open>Sound geometry\<close>

text \<open>Fields as the structure can hold them.\<close>

definition bs_typed :: "NTFS_BOOT_SECTOR \<Rightarrow> bool" where
  "bs_typed bs \<longleftrightarrow> (\<forall>c \<in> {bs_clusters_per_mft_record bs, bs_clusters_per_index_record bs}. -128 \<le> c \<and> c < 128)"

lemma boot_sector_at_typed: "bs_typed (boot_sector_at b)"
proof -
  have "-128 \<le> s8 x \<and> s8 x < 128" for x
    using pos_mod_bound [of "2 ^ 8" "x + 2 ^ 7"] pos_mod_sign [of "2 ^ 8" "x + 2 ^ 7"] by (simp add: s8_def)
  then show ?thesis by (simp add: bs_typed_def boot_sector_at_def)
qed

definition wf_geometry :: "ntfs_geometry \<Rightarrow> bool" where
  "wf_geometry v \<longleftrightarrow>
     v_sector_size v = 2 ^ v_sector_size_bits v \<and> 256 \<le> v_sector_size v \<and> v_sector_size v \<le> 4096 \<and>
     v_cluster_size v = 2 ^ v_cluster_size_bits v \<and> v_sector_size v dvd v_cluster_size v \<and> v_cluster_size v \<le> 65536 \<and>
     v_mft_record_size v = 2 ^ v_mft_record_size_bits v \<and> v_mft_record_size_bits v < 31 \<and>
     v_indx_record_size v = 2 ^ v_indx_record_size_bits v \<and> v_indx_record_size_bits v < 31 \<and>
     0 \<le> v_mft_lcn v \<and> v_mft_lcn v \<le> v_nr_clusters v \<and>
     0 \<le> v_mftmirr_lcn v \<and> v_mftmirr_lcn v \<le> v_nr_clusters v \<and>
     (v_mft_record_size_bits v < 30 \<longrightarrow> 4 \<le> v_mftmirr_size v \<and>
        v_cluster_size v \<le> v_mftmirr_size v * v_mft_record_size v)"

lemma mirror_covers_cluster:
  assumes "m < 30" and "c \<le> 16"
  defines "n \<equiv> (if (2 :: nat) ^ c \<le> 4 * 2 ^ m mod 2 ^ 32 then 4 else 2 ^ c div 2 ^ m) :: nat"
  shows "4 \<le> n \<and> 2 ^ c \<le> n * 2 ^ m"
proof -
  have q: "4 * 2 ^ m mod 2 ^ 32 = (2 :: nat) ^ (m + 2)"
    using power_strict_increasing [of "m + 2" 32 "2 :: nat"] assms(1) by (simp add: power_add)
  show ?thesis
  proof (cases "c \<le> m + 2")
    case True
    then have "(2 :: nat) ^ c \<le> 2 ^ (m + 2)" by (intro power_increasing) auto
    then show ?thesis using q by (simp add: n_def power_add)
  next
    case False
    then have "(2 :: nat) ^ (m + 2) < 2 ^ c" by (intro power_strict_increasing) auto
    then have "n = 2 ^ c div 2 ^ m" unfolding n_def q by simp
    also have "\<dots> = 2 ^ (c - m)" using False by (simp add: power_diff)
    finally have n: "n = 2 ^ (c - m)" .
    have "(2 :: nat) ^ 2 \<le> 2 ^ (c - m)" using False by (intro power_increasing) auto
    moreover have "(2 :: nat) ^ (c - m) * 2 ^ m = 2 ^ c" using False by (simp flip: power_add)
    ultimately show ?thesis using n by simp
  qed
qed

lemma boot_geometry_wf:
  assumes "ntfs_boot_sector_is_ntfs bs" "bs_typed bs"
  shows "(boot_geometry bs = Fault \<longrightarrow>
      -31 \<in> {bs_clusters_per_mft_record bs, bs_clusters_per_index_record bs}) \<and>
    (\<forall>v. boot_geometry bs = Ok v \<longrightarrow> wf_geometry v \<and>
      v_nr_clusters v = bs_number_of_sectors bs div int (bs_sectors_per_cluster bs))"
proof -
  define spc ss where "spc = bs_sectors_per_cluster bs" and "ss = bs_bytes_per_sector bs"
  note defs = spc_def ss_def
  have ss: "256 \<le> ss" "ss \<le> 4096" "spc * ss \<le> 65536"
    and spc: "spc \<in> {1, 2, 4, 8, 16, 32, 64, 128}"
    and cpr: "valid_clusters_per_record (bs_clusters_per_mft_record bs)"
      "valid_clusters_per_record (bs_clusters_per_index_record bs)"
    using assms(1) unfolding defs by (simp_all add: ntfs_boot_sector_is_ntfs_def mult.commute split: if_splits)
  obtain j where j: "j \<le> 7" "spc = 2 ^ j" using spc_pow2 [OF spc] by blast
  show ?thesis
  proof (cases "is_pow2 (spc * ss)")
    case False
    then show ?thesis using j by (auto simp: boot_geometry_def Let_def simp flip: defs)
  next
    case True
    then obtain c where c: "spc * ss = 2 ^ c" using is_pow2_conv [of "spc * ss"] ss(1) j(2) by auto
    then obtain s where s: "ss = 2 ^ s" using pow2_cofactor j(2) by blast
    have "(2 :: nat) ^ c \<le> 2 ^ 16" using c ss(3) by simp
    then have c16: "c \<le> 16" by (rule power_le_imp_le_exp [rotated]) simp
    have "(2 :: nat) ^ s \<le> 2 ^ 12" using s ss(2) by simp
    then have s12: "s \<le> 12" by (rule power_le_imp_le_exp [rotated]) simp
    have sz: "size_bits (2 ^ c) = c" "size_bits ss = s" using c16 s12 s by simp_all
    have dvd: "2 ^ s dvd (2 :: nat) ^ c" using c s by (metis dvd_triv_right)
    show ?thesis
    proof (cases "-31 \<in> {bs_clusters_per_mft_record bs, bs_clusters_per_index_record bs}")
      case True
      then have "boot_geometry bs \<noteq> Ok v" for v
        unfolding boot_geometry_def Let_def spc_def [symmetric] ss_def [symmetric] c sz
        by (auto simp: record_size_undefined)
      then show ?thesis using True by auto
    next
      case False
      obtain m where m: "m < 31" "record_size (bs_clusters_per_mft_record bs) c = Ok (2 ^ m)"
        using record_size_ok [OF cpr(1) _ _ c16] assms(2) False by (auto simp: bs_typed_def)
      obtain i where i: "i < 31" "record_size (bs_clusters_per_index_record bs) c = Ok (2 ^ i)"
        using record_size_ok [OF cpr(2) _ _ c16] assms(2) False by (auto simp: bs_typed_def)
      have p: "is_pow2 (2 ^ k)" for k using is_pow2_conv by auto
      have szs: "size_bits (2 ^ m) = m" "size_bits (2 ^ i) = i" using m(1) i(1) by simp_all
      have eq: "boot_geometry bs =
        (let nr = bs_number_of_sectors bs div 2 ^ j in
         if bs_mft_lcn bs < 0 \<or> nr < bs_mft_lcn bs \<or> bs_mftmirr_lcn bs < 0 \<or> nr < bs_mftmirr_lcn bs then Err EINVAL
         else Ok \<lparr>v_sector_size = 2 ^ s, v_sector_size_bits = s, v_nr_clusters = nr, v_mft_lcn = bs_mft_lcn bs,
           v_mftmirr_lcn = bs_mftmirr_lcn bs, v_cluster_size = 2 ^ c, v_cluster_size_bits = c,
           v_mft_record_size = 2 ^ m, v_mft_record_size_bits = m, v_indx_record_size = 2 ^ i, v_indx_record_size_bits = i,
           v_mftmirr_size = (if (2 :: nat) ^ c \<le> 4 * 2 ^ m mod 2 ^ 32 then 4 else 2 ^ c div 2 ^ m)\<rparr>)"
        unfolding boot_geometry_def Let_def spc_def [symmetric] ss_def [symmetric] c sz m(2) i(2)
        using j p s szs True c by simp
      have "int spc = 2 ^ j" using j(2) by simp
      then show ?thesis
        unfolding eq Let_def wf_geometry_def spc_def [symmetric] ss_def [symmetric] c
        using mirror_covers_cluster [of m c] c16 ss c s m(1) i(1) dvd by (simp split: if_splits)
    qed
  qed
qed

text \<open>(C21) For a sector that passes the check of the boot sector, parsing evaluates a shift that C
  leaves undefined only if the shifted number of sectors is not positive or too large for 64
  bits, which always does, or if a record size is given as \<open>2 ^ 31\<close>. Otherwise the geometry that
  parsing gives is consistent: sector, cluster, MFT and index record sizes are powers of two whose
  logarithms are the stored ones, clusters are whole sectors of at most 64 KiB, the number of
  clusters is that of the sectors divided by the sectors per cluster, the MFT and its mirror start
  at most one cluster behind the last, and the mirror, for records below 1 GiB, holds at least
  four records and covers a cluster.\<close>

theorem boot_sector_parse_sound:
  assumes "ntfs_boot_sector_is_ntfs (boot_sector_at b)"
    and "ntfs_boot_sector_parse dops dev (boot_sector_at b) = (dev', r)"
  shows "(bs_number_of_sectors (boot_sector_at b) \<noteq> 0 \<and> seek_shift_undefined (boot_sector_at b) \<longrightarrow> r = Fault) \<and>
    (r = Fault \<longrightarrow> seek_shift_undefined (boot_sector_at b) \<or>
      -31 \<in> {bs_clusters_per_mft_record (boot_sector_at b), bs_clusters_per_index_record (boot_sector_at b)}) \<and>
    (\<forall>v. r = Ok v \<longrightarrow> wf_geometry v \<and>
      v_nr_clusters v = bs_number_of_sectors (boot_sector_at b) div int (bs_sectors_per_cluster (boot_sector_at b)))"
proof -
  let ?bs = "boot_sector_at b"
  have "bs_sectors_per_cluster ?bs \<in> {1, 2, 4, 8, 16, 32, 64, 128}"
    using assms(1) by (simp add: ntfs_boot_sector_is_ntfs_def split: if_splits)
  then obtain j where "bs_sectors_per_cluster ?bs = 2 ^ j" using spc_pow2 by blast
  then have p: "is_pow2 (bs_sectors_per_cluster ?bs)" using is_pow2_conv [of "2 ^ j"] by auto
  define u where "u = seek_shift_undefined ?bs"
  define sk where "sk = op_seek dops dev ((bs_number_of_sectors ?bs - 1) * 2 ^ size_bits (bs_bytes_per_sector ?bs))"
  have "ntfs_boot_sector_parse dops dev ?bs = (if bs_number_of_sectors ?bs = 0 then (dev, Err EINVAL)
      else if u then (dev, Fault) else (fst sk, if snd sk then boot_geometry ?bs else Err EINVAL))"
    using p by (simp add: ntfs_boot_sector_parse_def Let_def split_def sk_def u_def)
  then have "(r = Err EINVAL \<and> (bs_number_of_sectors ?bs = 0 \<or> \<not> u)) \<or> (r = Fault \<and> u) \<or>
      (r = boot_geometry ?bs \<and> \<not> u)"
    using assms(2) by (auto split: if_splits)
  then show ?thesis
    using boot_geometry_wf [OF assms(1) boot_sector_at_typed] unfolding u_def by auto
qed

text \<open>A boot sector with 512 byte sectors, 8 sectors per cluster and the given MFT record field.\<close>

definition demo_boot :: "u8 \<Rightarrow> bytes" where
  "demo_boot cpm = [0xeb, 0x52, 0x90, 0x4e, 0x54, 0x46, 0x53, 0x20, 0x20, 0x20, 0x20, 0, 2, 8,
     0, 0, 0, 0, 0, 0, 0, 0, 0, 0, 0, 0, 0, 0, 0, 0, 0, 0, 0, 0, 0, 0, 0, 0, 0, 0,
     0, 1, 0, 0, 0, 0, 0, 0, 4, 0, 0, 0, 0, 0, 0, 0, 2, 0, 0, 0, 0, 0, 0, 0, cpm, 0, 0, 0, 1, 0, 0, 0]"

lemma demo_boot_at:
  "boot_sector_at (demo_boot cpm) = \<lparr>bs_oem_id = 0x202020205346544e, bs_bytes_per_sector = 512,
     bs_sectors_per_cluster = 8, bs_reserved_sectors = 0, bs_fats = 0, bs_root_entries = 0, bs_sectors = 0,
     bs_sectors_per_fat = 0, bs_large_sectors = 0, bs_number_of_sectors = 256, bs_mft_lcn = 4,
     bs_mftmirr_lcn = 2, bs_clusters_per_mft_record = s8 (uint cpm), bs_clusters_per_index_record = 1,
     bs_end_of_sector_marker = 0\<rparr>"
  by (simp add: boot_sector_at_def demo_boot_def le_at_def byte_at_def upt_rec s64_def s8_def)

lemma demo_boot_ntfs:
  "ntfs_boot_sector_is_ntfs (boot_sector_at (demo_boot 0xf6))" "ntfs_boot_sector_is_ntfs (boot_sector_at (demo_boot 0xe2))"
  by (simp_all add: demo_boot_at ntfs_boot_sector_is_ntfs_def valid_clusters_per_record_def s8_def)

lemma pow2_numerals: "is_pow2 8" "is_pow2 512" "is_pow2 4096" "is_pow2 1024" "is_pow2 1073741824"
  "size_bits 512 = 9" "size_bits 4096 = 12" "size_bits 1024 = 10" "size_bits 1073741824 = 30" "ffs 8 = 4"
  using size_bits_pow2 [of 9] size_bits_pow2 [of 12] size_bits_pow2 [of 10] size_bits_pow2 [of 30] ffs_pow2 [of 3]
  by (simp_all add: is_pow2_def)

theorem boot_sector_parse_sound_witness:
  "\<exists>v. snd (ntfs_boot_sector_parse disk_ops (demo_disk 1) (boot_sector_at (demo_boot 0xf6))) = Ok v \<and>
    wf_geometry v \<and> v_cluster_size v = 4096 \<and> v_mft_record_size v = 1024"
proof -
  define v where "v = \<lparr>v_sector_size = 512, v_sector_size_bits = 9, v_nr_clusters = 32, v_mft_lcn = 4,
    v_mftmirr_lcn = 2, v_cluster_size = 4096, v_cluster_size_bits = 12, v_mft_record_size = 1024,
    v_mft_record_size_bits = 10, v_indx_record_size = 4096, v_indx_record_size_bits = 12, v_mftmirr_size = 4\<rparr>"
  obtain dev' r where r: "ntfs_boot_sector_parse disk_ops (demo_disk 1) (boot_sector_at (demo_boot 0xf6)) = (dev', r)"
    by fastforce
  then have "r = Ok v"
    by (simp add: ntfs_boot_sector_parse_def demo_boot_at boot_geometry_def record_size_def pow2_numerals s8_def Let_def seek_shift_undefined_def
      unix_io_defs demo_disk_def s64_def v_def split: if_splits)
  with boot_sector_parse_sound [OF demo_boot_ntfs(1) r] r show ?thesis by (auto simp: v_def)
qed

text \<open>A sector that declares MFT records of 1 GiB passes both the check and the
  parser, but four times the record size wraps around at 32 bits and the volume gets a
  mirror of no record at all.\<close>

theorem mirror_size_wraps:
  assumes "ntfs_boot_sector_is_ntfs (boot_sector_at b)"
    and "ntfs_boot_sector_parse dops dev (boot_sector_at b) = (dev', Ok v)"
    and "bs_clusters_per_mft_record (boot_sector_at b) = -30"
  shows "v_mftmirr_size v = 0"
proof -
  let ?bs = "boot_sector_at b"
  obtain m where m: "record_size (bs_clusters_per_mft_record ?bs) c = Ok m" "m = 2 ^ 30" for c
    using assms(3) by (auto simp: record_size_def)
  have "4 * m mod 2 ^ 32 = 0" using m(2) by simp
  moreover have "0 < bs_sectors_per_cluster ?bs * bs_bytes_per_sector ?bs"
    "bs_sectors_per_cluster ?bs * bs_bytes_per_sector ?bs \<le> 65536"
    using assms(1) by (auto simp: ntfs_boot_sector_is_ntfs_def mult.commute split: if_splits)
  moreover have "boot_geometry ?bs = Ok v"
    using assms(2) by (auto simp: ntfs_boot_sector_parse_def Let_def split: if_splits prod.splits)
  ultimately show ?thesis
    using m by (auto simp: boot_geometry_def Let_def split: if_splits)
qed

theorem mirror_size_wraps_witness:
  "\<exists>v. snd (ntfs_boot_sector_parse disk_ops (demo_disk 1) (boot_sector_at (demo_boot 0xe2))) = Ok v \<and>
    v_mftmirr_size v = 0"
proof -
  obtain dev' r where r: "ntfs_boot_sector_parse disk_ops (demo_disk 1) (boot_sector_at (demo_boot 0xe2)) = (dev', r)"
    by fastforce
  then obtain v where "r = Ok v"
    by (auto simp: ntfs_boot_sector_parse_def demo_boot_at boot_geometry_def record_size_def pow2_numerals s8_def Let_def seek_shift_undefined_def
      unix_io_defs demo_disk_def s64_def split: if_splits)
  with mirror_size_wraps [OF demo_boot_ntfs(2)] r show ?thesis by (auto simp: demo_boot_at s8_def)
qed

text \<open>A sector that declares MFT records of 2 GiB passes the check, and parsing it evaluates
  \<open>1 << 31\<close>; one with a size of more than \<open>2 ^ 63\<close> bytes passes it too, and parsing it shifts that
  size out of its 64 bits.\<close>

theorem boot_shift_undefined:
  assumes "ntfs_boot_sector_is_ntfs (boot_sector_at b)" and "is_pow2 (bs_bytes_per_sector (boot_sector_at b))"
    and "0 \<le> bs_mft_lcn (boot_sector_at b)" and "0 \<le> bs_mftmirr_lcn (boot_sector_at b)"
    and "max (bs_mft_lcn (boot_sector_at b)) (bs_mftmirr_lcn (boot_sector_at b)) \<le>
      bs_number_of_sectors (boot_sector_at b) div int (bs_sectors_per_cluster (boot_sector_at b))"
    and "bs_clusters_per_mft_record (boot_sector_at b) = -31"
  shows "boot_geometry (boot_sector_at b) = Fault"
proof -
  let ?bs = "boot_sector_at b"
  define spc ss where "spc = bs_sectors_per_cluster ?bs" and "ss = bs_bytes_per_sector ?bs"
  have spc: "spc \<in> {1, 2, 4, 8, 16, 32, 64, 128}" and ss: "256 \<le> ss"
    using assms(1) unfolding spc_def ss_def by (simp_all add: ntfs_boot_sector_is_ntfs_def split: if_splits)
  obtain j where j: "j \<le> 7" "spc = 2 ^ j" using spc_pow2 [OF spc] by blast
  obtain s where "ss = 2 ^ s" using assms(2) is_pow2_conv [of ss] ss unfolding ss_def by auto
  then have p: "is_pow2 (spc * ss)" using is_pow2_conv [of "spc * ss"] j(2) by (auto simp flip: power_add)
  have "int spc = 2 ^ j" using j(2) by simp
  then show ?thesis
    unfolding boot_geometry_def Let_def spc_def [symmetric] ss_def [symmetric] assms(6) record_size_undefined
    using p j assms(3-5) by (simp flip: spc_def)
qed

theorem boot_shift_undefined_witness:
  "boot_geometry (boot_sector_at (demo_boot 0xe1)) = Fault"
proof -
  have "ntfs_boot_sector_is_ntfs (boot_sector_at (demo_boot 0xe1))"
    by (simp add: demo_boot_at ntfs_boot_sector_is_ntfs_def valid_clusters_per_record_def s8_def)
  then show ?thesis
    using boot_shift_undefined [of "demo_boot 0xe1"] by (simp add: demo_boot_at s8_def pow2_numerals)
qed

end
