(* ===== verification/Bitmap.thy ===== *)
theory Bitmap
  imports NTFS_Prelude
begin

text \<open>
  Bitmaps (\<open>libntfs-3g/bitmap.c\<close>): single bits in memory, and runs of bits in an attribute, which
  is read and written through a buffer of at most 8 KiB. The attribute is used through two
  operations, \<open>ntfs_attr_pread\<close> and \<open>ntfs_attr_pwrite\<close>, which are parameters here. Byte positions
  the code keeps in an \<open>int\<close> are truncated to 32 bits.
\<close>

unbundle bit_operations_syntax

section \<open>Bits in memory\<close>

text \<open>\<open>byte |= 1 << i\<close> or \<open>byte &= ~(1 << i)\<close>.\<close>

definition bit_put :: "bool \<Rightarrow> nat \<Rightarrow> u8 \<Rightarrow> u8" where
  "bit_put v i x = (if v then x OR push_bit i 1 else x AND NOT (push_bit i 1))"

definition ntfs_bit_set :: "bytes option \<Rightarrow> nat \<Rightarrow> nat \<Rightarrow> bytes option result" where
  "ntfs_bit_set bitmap k new_value =
     (case bitmap of None \<Rightarrow> Ok None
      | Some bm \<Rightarrow>
          if 1 < new_value then Ok (Some bm)
          else if length bm \<le> k div 8 then Fault
          else Ok (Some (bm[k div 8 := bit_put (new_value \<noteq> 0) (k mod 8) (bm ! (k div 8))])))"

definition ntfs_bit_get :: "bytes option \<Rightarrow> nat \<Rightarrow> int result" where
  "ntfs_bit_get bitmap k =
     (case bitmap of None \<Rightarrow> Ok (-1)
      | Some bm \<Rightarrow>
          if length bm \<le> k div 8 then Fault
          else Ok (uint (drop_bit (k mod 8) (bm ! (k div 8)) AND 1)))"

definition ntfs_bit_get_and_set :: "bytes option \<Rightarrow> nat \<Rightarrow> nat \<Rightarrow> (int \<times> bytes option) result" where
  "ntfs_bit_get_and_set bitmap k new_value =
     (case bitmap of None \<Rightarrow> Ok (-1, None)
      | Some bm \<Rightarrow>
          if 1 < new_value then Ok (-1, Some bm)
          else if length bm \<le> k div 8 then Fault
          else let old_bit = drop_bit (k mod 8) (bm ! (k div 8)) AND 1
               in Ok (uint old_bit, Some
                    (if int new_value \<noteq> uint old_bit
                     then bm[k div 8 := (bm ! (k div 8)) XOR push_bit (k mod 8) 1] else bm)))"

section \<open>Runs of bits in an attribute\<close>

record 'a attr_ops =
  na_pread :: "'a \<Rightarrow> int \<Rightarrow> int \<Rightarrow> 'a \<times> (errno + bytes)"
  na_pwrite :: "'a \<Rightarrow> int \<Rightarrow> bytes \<Rightarrow> 'a \<times> (errno + nat)"

text \<open>A read of one byte; a short read is \<open>EIO\<close>.\<close>

definition pread1 :: "'a attr_ops \<Rightarrow> 'a \<Rightarrow> int \<Rightarrow> 'a \<times> u8 result" where
  "pread1 aops na pos =
     (case na_pread aops na pos 1 of
        (na, Inl e) \<Rightarrow> (na, Err e)
      | (na, Inr b) \<Rightarrow> (na, if length b = 1 then Ok (hd b) else Err EIO))"

text \<open>
  \<open>while ((bit & 7) && count--)\<close> on the first byte and \<open>while (bit && count--)\<close> on the last:
  the remaining count, one too low when it ran out, and the byte.
\<close>

function first_bits :: "bool \<Rightarrow> nat \<Rightarrow> int \<Rightarrow> u8 \<Rightarrow> int \<times> u8" where
  "first_bits v i count x =
     (if i mod 8 = 0 then (count, x)
      else if count = 0 then (count - 1, x)
      else first_bits v (i + 1) (count - 1) (bit_put v i x))"
  by pat_completeness auto
termination
  by (relation "measure (\<lambda>(v, i, count, x). (8 - i mod 8) mod 8)") (auto simp: mod_Suc)

declare first_bits.simps [simp del]

fun last_bits :: "bool \<Rightarrow> nat \<Rightarrow> int \<Rightarrow> u8 \<Rightarrow> int \<times> u8" where
  "last_bits v 0 count x = (count, x)"
| "last_bits v (Suc i) count x =
     (if count = 0 then (count - 1, x) else last_bits v i (count - 1) (bit_put v i x))"

text \<open>
  The last partial byte, once it is in the window: the attribute, then count, bit, lastbyte and
  the buffer.
\<close>

definition handle_last ::
    "'a attr_ops \<Rightarrow> bool \<Rightarrow> 'a \<Rightarrow> int \<Rightarrow> int \<Rightarrow> int \<Rightarrow> int \<Rightarrow> int \<Rightarrow> nat \<Rightarrow> bytes \<Rightarrow>
       'a \<times> (int \<times> nat \<times> int \<times> bytes) result" where
  "handle_last aops v na start count bufsize firstbyte lastbyte i buf =
     (if 0 < count \<and> i \<noteq> 0 then
        (let lastbyte_pos = s32 ((count + 7) div 8 + firstbyte)
         in if lastbyte_pos = 0 then (na, Err EIO)
            else if lastbyte_pos \<le> bufsize then
              (if lastbyte_pos < 0 then (na, Fault)
               else case pread1 aops na ((start + count) div 8) of
                 (na, r) \<Rightarrow> (na, res_bind r (\<lambda>x.
                    case last_bits v i count x of
                      (count, x) \<Rightarrow> Ok (count, 0, 1, buf[nat lastbyte_pos - 1 := x]))))
            else (na, Ok (count, i, lastbyte, buf)))
      else (na, Ok (count, i, lastbyte, buf)))"

definition fill_byte :: "bool \<Rightarrow> u8" where
  "fill_byte v = (if v then 0xff else 0)"

partial_function (option) set_run_loop ::
    "'a attr_ops \<Rightarrow> bool \<Rightarrow> 'a \<Rightarrow> int \<Rightarrow> int \<Rightarrow> int \<Rightarrow> int \<Rightarrow> int \<Rightarrow> nat \<Rightarrow> bytes \<Rightarrow> ('a \<times> unit result) option"
where
  "set_run_loop aops v na start count bufsize firstbyte lastbyte i buf =
     (case handle_last aops v na start count bufsize firstbyte lastbyte i buf of
        (na, Err e) \<Rightarrow> Some (na, Err e)
      | (na, Fault) \<Rightarrow> Some (na, Fault)
      | (na, Ok (count, i, lastbyte, buf)) \<Rightarrow>
          if bufsize < 0 then Some (na, Err EINVAL)
          else case na_pwrite aops na (s32 (start div 8 - firstbyte)) (take (nat bufsize) buf) of
            (na, Inl e) \<Rightarrow> Some (na, Err e)
          | (na, Inr br) \<Rightarrow>
              if int br \<noteq> bufsize then Some (na, Err EIO)
              else let tmp = (bufsize - firstbyte - lastbyte) * 8;
                       buf = (if firstbyte \<noteq> 0 then buf[0 := fill_byte v] else buf);
                       start = start + tmp; count = count - tmp;
                       bufsize = min bufsize (s32 ((count + 7) div 8))
                   in if lastbyte \<noteq> 0 \<and> count \<noteq> 0 then Some (na, Err EIO)
                      else if 0 < count then set_run_loop aops v na start count bufsize 0 lastbyte i buf
                      else Some (na, Ok ()))"

definition ntfs_bitmap_set_bits_in_run ::
    "(nat \<Rightarrow> bool) \<Rightarrow> 'a attr_ops \<Rightarrow> 'a \<Rightarrow> int \<Rightarrow> int \<Rightarrow> bool \<Rightarrow> ('a \<times> unit result) option" where
  "ntfs_bitmap_set_bits_in_run mem aops na start count v =
     (if start < 0 \<or> count < 0 then Some (na, Err EINVAL)
      else
        let i = nat (start mod 8);
            firstbyte = (if i \<noteq> 0 then 1 else 0);
            bufsize = min 8192 ((count - (if i \<noteq> 0 then 8 - int i else 0) + 7) div 8 + firstbyte);
            buf = replicate (nat bufsize) (fill_byte v)
        in if \<not> mem (nat bufsize) then Some (na, Err ENOMEM)
           else if i \<noteq> 0 then
             (case pread1 aops na (start div 8) of
                (na, Err e) \<Rightarrow> Some (na, Err e)
              | (na, Fault) \<Rightarrow> Some (na, Fault)
              | (na, Ok x) \<Rightarrow>
                  (case first_bits v i count x of
                     (count, x) \<Rightarrow>
                       set_run_loop aops v na ((start + 7) div 8 * 8) count bufsize firstbyte 0
                         (nat (count mod 8)) (buf[0 := x])))
           else set_run_loop aops v na start count bufsize firstbyte 0 (nat (count mod 8)) buf)"

definition ntfs_bitmap_set_run ::
    "(nat \<Rightarrow> bool) \<Rightarrow> 'a attr_ops \<Rightarrow> 'a \<Rightarrow> int \<Rightarrow> int \<Rightarrow> ('a \<times> unit result) option" where
  "ntfs_bitmap_set_run mem aops na start count = ntfs_bitmap_set_bits_in_run mem aops na start count True"

definition ntfs_bitmap_clear_run ::
    "(nat \<Rightarrow> bool) \<Rightarrow> 'a attr_ops \<Rightarrow> 'a \<Rightarrow> int \<Rightarrow> int \<Rightarrow> ('a \<times> unit result) option" where
  "ntfs_bitmap_clear_run mem aops na start count = ntfs_bitmap_set_bits_in_run mem aops na start count False"

section \<open>Bits\<close>

definition bm_bit :: "bytes \<Rightarrow> nat \<Rightarrow> bool" where
  "bm_bit c k = bit (c ! (k div 8)) (k mod 8)"

text \<open>The bits from \<open>a\<close> up to \<open>b\<close> become \<open>v\<close>, the others stay.\<close>

definition bits_put :: "bool \<Rightarrow> nat \<Rightarrow> nat \<Rightarrow> bytes \<Rightarrow> bytes \<Rightarrow> bool" where
  "bits_put v a b c c' \<longleftrightarrow> length c' = length c \<and>
     (\<forall>k < 8 * length c. bm_bit c' k = (if a \<le> k \<and> k < b then v else bm_bit c k))"

lemma bits_put_length: "bits_put v a b c c' \<Longrightarrow> length c' = length c"
  by (simp add: bits_put_def)

lemma bits_put_trans: "bits_put v a b c c1 \<Longrightarrow> bits_put v b d c1 c2 \<Longrightarrow> a \<le> b \<Longrightarrow> b \<le> d \<Longrightarrow> bits_put v a d c c2"
  by (auto simp: bits_put_def)

lemma bytes_eq_bits: "length c = length d \<Longrightarrow> (\<And>k. k < 8 * length c \<Longrightarrow> bm_bit c k = bm_bit d k) \<Longrightarrow> c = d"
proof (rule nth_equalityI)
  fix j assume *: "length c = length d" "\<And>k. k < 8 * length c \<Longrightarrow> bm_bit c k = bm_bit d k" "j < length c"
  show "c ! j = d ! j"
  proof (rule bit_word_eqI)
    fix n assume "n < LENGTH(8)"
    then show "bit (c ! j) n = bit (d ! j) n" using *(2) [of "8 * j + n"] *(3) by (simp add: bm_bit_def)
  qed
qed

lemma bit_bit_put [simp]: "i < 8 \<Longrightarrow> k < 8 \<Longrightarrow> bit (bit_put v i x) k = (if k = i then v else bit x k)"
  by (auto simp: bit_put_def bit_simps)

lemma bit_fill_byte [simp]: "k < 8 \<Longrightarrow> bit (fill_byte v) k = v"
proof -
  have eq: "(0xff :: u8) = - 1" by simp
  show "k < 8 \<Longrightarrow> ?thesis" unfolding fill_byte_def eq by (simp add: bit_simps)
qed

lemma last_bits_spec:
  "i \<le> 8 \<Longrightarrow> int i \<le> count \<Longrightarrow> \<exists>y. last_bits v i count x = (count - int i, y) \<and>
     (\<forall>k < 8. bit y k = (if k < i then v else bit x k))"
proof (induction v i count x rule: last_bits.induct)
  case (2 v i count x)
  then obtain y where "last_bits v i (count - 1) (bit_put v i x) = (count - 1 - int i, y)"
    "\<forall>k < 8. bit y k = (if k < i then v else bit (bit_put v i x) k)" by auto
  then show ?case using "2.prems" by (auto simp: less_Suc_eq)
qed simp

lemma first_bits_spec:
  assumes "i \<le> 8" and "0 < i" and "0 \<le> count"
  shows "\<exists>y. first_bits v i count x = (if count < 8 - int i then -1 else count - (8 - int i), y) \<and>
     (\<forall>k < 8. bit y k = (if i \<le> k \<and> int k < int i + count then v else bit x k))"
  using assms
proof (induction v i count x rule: first_bits.induct)
  case (1 v i count x)
  show ?case
  proof (cases "i = 8 \<or> count = 0")
    case True
    then show ?thesis using "1.prems" by (auto simp: first_bits.simps [of v i])
  next
    case False
    then have i: "i mod 8 \<noteq> 0" "i < 8" using "1.prems" by auto
    with False obtain y where "first_bits v (i + 1) (count - 1) (bit_put v i x) =
        (if count - 1 < 8 - int (i + 1) then -1 else count - 1 - (8 - int (i + 1)), y)"
      "\<forall>k < 8. bit y k = (if i + 1 \<le> k \<and> int k < int (i + 1) + (count - 1) then v else bit (bit_put v i x) k)"
      using "1.IH" "1.prems" by auto
    moreover have "first_bits v i count x = first_bits v (i + 1) (count - 1) (bit_put v i x)"
      using False i by (simp add: first_bits.simps [of v i])
    ultimately show ?thesis using False i(2) "1.prems" by auto
  qed
qed

text \<open>Writing bytes whose bits are the wanted ones.\<close>

lemma bits_put_put_at:
  assumes "p + length w \<le> length c" and "8 * p \<le> a" and "b \<le> 8 * (p + length w)"
    and "\<And>j k. j < length w \<Longrightarrow> k < 8 \<Longrightarrow>
      bit (w ! j) k = (if a \<le> 8 * (p + j) + k \<and> 8 * (p + j) + k < b then v else bit (c ! (p + j)) k)"
  shows "bits_put v a b c (put_at c p w)"
  unfolding bits_put_def
proof (intro conjI allI impI)
  fix k assume k: "k < 8 * length c"
  show "bm_bit (put_at c p w) k = (if a \<le> k \<and> k < b then v else bm_bit c k)"
  proof (cases "p \<le> k div 8 \<and> k div 8 < p + length w")
    case True
    then have "bm_bit (put_at c p w) k = bit (w ! (k div 8 - p)) (k mod 8)"
      using assms(1) by (simp add: bm_bit_def nth_put_at)
    also have "\<dots> = (if a \<le> k \<and> k < b then v else bm_bit c k)"
    proof -
      have "p + (k div 8 - p) = k div 8" "k div 8 - p < length w" using True by auto
      then show ?thesis using assms(4) [of "k div 8 - p" "k mod 8"] by (simp add: bm_bit_def)
    qed
    finally show ?thesis .
  next
    case False
    then have "\<not> (a \<le> k \<and> k < b)" using assms(2,3) by auto
    then show ?thesis using False assms(1) k by (auto simp: bm_bit_def nth_put_at)
  qed
qed (use assms in simp)

section \<open>Single bits\<close>

lemma ntfs_bit_get_bit:
  "k < 8 * length bm \<Longrightarrow> ntfs_bit_get (Some bm) k = Ok (of_bool (bm_bit bm k))"
  by (auto simp: ntfs_bit_get_def bm_bit_def and_one_eq bit_iff_odd_drop_bit odd_iff_mod_2_eq_one)

lemma ntfs_bit_set_bit:
  assumes "k < 8 * length bm" and "x \<le> 1"
  shows "\<exists>bm'. ntfs_bit_set (Some bm) k x = Ok (Some bm') \<and> bits_put (x = 1) k (Suc k) bm bm'"
proof -
  let ?bm = "bm[k div 8 := bit_put (x = 1) (k mod 8) (bm ! (k div 8))]"
  have "bm_bit ?bm j = (if j = k then x = 1 else bm_bit bm j)" if "j < 8 * length bm" for j
  proof (cases "j div 8 = k div 8")
    case True
    moreover have "j = k \<longleftrightarrow> j mod 8 = k mod 8" using True by (metis div_mult_mod_eq)
    ultimately show ?thesis using assms(1) that by (auto simp: bm_bit_def)
  qed (auto simp: bm_bit_def)
  moreover have "(x \<noteq> 0) = (x = 1)" using assms(2) by auto
  ultimately show ?thesis using assms by (auto simp: ntfs_bit_set_def bits_put_def)
qed

text \<open>Getting and setting a bit in one call returns what getting it returns and leaves the
  bitmap as setting it leaves it, also for a missing bitmap, and a bit outside the bitmap;
  a value that is not a bit is refused.\<close>

theorem bit_get_and_set_is_get_then_set:
  "ntfs_bit_get_and_set bitmap k x =
    (if 1 < x then Ok (-1, bitmap)
     else res_bind (ntfs_bit_get bitmap k) (\<lambda>old. res_bind (ntfs_bit_set bitmap k x) (\<lambda>bm. Ok (old, bm))))"
proof (cases bitmap)
  case (Some bm)
  define y where "y = bm ! (k div 8)"
  have old: "drop_bit (k mod 8) y AND 1 = of_bool (bit y (k mod 8))"
    by (simp add: and_one_eq bit_iff_odd_drop_bit odd_iff_mod_2_eq_one)
  have "y XOR push_bit (k mod 8) 1 = bit_put (x \<noteq> 0) (k mod 8) y" if "x \<le> 1" "int x \<noteq> of_bool (bit y (k mod 8))"
    using that by (intro bit_word_eqI) (auto simp: bit_put_def bit_simps le_Suc_eq split: if_splits)
  moreover have "bit_put (x \<noteq> 0) (k mod 8) y = y" if "x \<le> 1" "int x = of_bool (bit y (k mod 8))"
    using that by (intro bit_word_eqI) (auto simp: bit_put_def bit_simps le_Suc_eq split: if_splits)
  moreover have "bm[k div 8 := y] = bm" by (simp add: y_def)
  ultimately show ?thesis
    using Some old by (auto simp: ntfs_bit_get_and_set_def ntfs_bit_get_def ntfs_bit_set_def Let_def y_def
      simp flip: y_def)
qed (simp add: ntfs_bit_get_and_set_def ntfs_bit_get_def ntfs_bit_set_def)

end
