(* ===== verification/Bitmap_Runs.thy ===== *)
theory Bitmap_Runs
  imports Bitmap
begin

text \<open>
  Runs of bits in an attribute are set exactly: the interface an attribute has to provide, and
  the buffered loop against the bits. The positions have to fit the \<open>int\<close> the code keeps
  them in, which bounds the bitmap at 2 GiB.
\<close>

section \<open>The interface of an attribute\<close>

locale byte_attr =
  fixes aops :: "'a attr_ops"
    and content :: "'a \<Rightarrow> bytes"
    and ok :: "'a \<Rightarrow> bool"
  assumes na_pread_law: "ok na \<Longrightarrow> 0 \<le> pos \<Longrightarrow> 0 \<le> count \<Longrightarrow>
      \<exists>na'. na_pread aops na pos count = (na', Inr (take (nat count) (drop (nat pos) (content na)))) \<and>
        content na' = content na \<and> ok na'"
    and na_pwrite_law: "ok na \<Longrightarrow> 0 \<le> pos \<Longrightarrow> nat pos + length b \<le> length (content na) \<Longrightarrow>
      \<exists>na'. na_pwrite aops na pos b = (na', Inr (length b)) \<and>
        content na' = put_at (content na) (nat pos) b \<and> ok na'"

section \<open>What one round writes\<close>

definition cdiv8 :: "nat \<Rightarrow> nat" where
  "cdiv8 n = (n + 7) div 8"

lemma cdiv8_bounds: "n \<le> 8 * cdiv8 n" "8 * cdiv8 n < n + 8"
  by (auto simp: cdiv8_def)

text \<open>The byte in front: from bit \<open>a\<close> on it has the value, below it the old bits.\<close>

definition front :: "bool \<Rightarrow> nat \<Rightarrow> nat \<Rightarrow> bytes \<Rightarrow> bytes \<Rightarrow> bool" where
  "front v a q c pre \<longleftrightarrow> a \<le> 8 * q \<and> length pre \<le> q \<and>
     (pre = [] \<and> a = 8 * q \<or>
      (\<exists>x. pre = [x] \<and> 8 * (q - 1) \<le> a \<and>
        (\<forall>k < 8. bit x k = (if a \<le> 8 * (q - 1) + k then v else bit (c ! (q - 1)) k))))"

lemma round_bits:
  assumes "front v a q c pre" and "q + m + length suf \<le> length c" and "length suf \<le> 1"
    and "suf = [] \<Longrightarrow> b = 8 * (q + m)" and "suf \<noteq> [] \<Longrightarrow> 8 * (q + m) \<le> b \<and> b \<le> 8 * (q + m) + 8"
    and "\<And>k. suf \<noteq> [] \<Longrightarrow> k < 8 \<Longrightarrow> bit (hd suf) k = (if 8 * (q + m) + k < b then v else bit (c ! (q + m)) k)"
  shows "bits_put v a b c (put_at c (q - length pre) (pre @ replicate m (fill_byte v) @ suf))"
proof (rule bits_put_put_at)
  let ?p = "q - length pre" and ?w = "pre @ replicate m (fill_byte v) @ suf"
  have p: "?p + length pre = q" using assms(1) by (auto simp: front_def)
  show "?p + length ?w \<le> length c" using p assms(2) by simp
  show "8 * ?p \<le> a" using assms(1) by (auto simp: front_def)
  show "b \<le> 8 * (?p + length ?w)" using assms(3-5) p by (cases "suf = []") (auto simp: le_Suc_eq)
  fix j k :: nat assume jk: "j < length ?w" "k < 8"
  have b: "8 * (q + m) \<le> b" using assms(4,5) by (cases "suf = []") auto
  have "length suf = 0 \<or> length suf = 1" using assms(3) by linarith
  then have "j < length pre \<or> (length pre \<le> j \<and> j < length pre + m) \<or> (j = length pre + m \<and> suf \<noteq> [])"
    using jk(1) by auto
  then consider "j < length pre" | "length pre \<le> j" "j < length pre + m" | "j = length pre + m" "suf \<noteq> []"
    by blast
  then show "bit (?w ! j) k = (if a \<le> 8 * (?p + j) + k \<and> 8 * (?p + j) + k < b then v else bit (c ! (?p + j)) k)"
  proof cases
    case 1
    then have "pre = [hd pre]" "j = 0" "?p + j = q - 1" "1 \<le> q" using assms(1) by (auto simp: front_def)
    then show ?thesis using assms(1) jk(2) b by (auto simp: front_def nth_append)
  next
    case 2
    then have "?w ! j = fill_byte v" "q \<le> ?p + j" "?p + j < q + m" using p by (auto simp: nth_append)
    moreover have "a \<le> 8 * q" using assms(1) by (simp add: front_def)
    ultimately show ?thesis using jk(2) b by auto
  next
    case 3
    then have "?w ! j = hd suf" "?p + j = q + m" using p by (auto simp: nth_append hd_conv_nth)
    moreover have "a \<le> 8 * q" using assms(1) by (simp add: front_def)
    ultimately show ?thesis using assms(6) 3(2) jk(2) by auto
  qed
qed

lemma replicate_upd_last: "(replicate (Suc m) x)[m := y] = replicate m x @ [y]"
  by (subst replicate_Suc, subst replicate_append_same [symmetric]) (simp add: list_update_append)

lemma s32_id: "- (2 ^ 31) \<le> x \<Longrightarrow> x < 2 ^ 31 \<Longrightarrow> s32 x = x"
  by (simp add: s32_def)

section \<open>The loop\<close>

lemma set_run_loop_step:
  assumes "handle_last aops v na start count bufsize fb lb0 i0 buf = (na1, Ok (count1, i, lb, buf1))"
    and "na_pwrite aops na1 (s32 (start div 8 - fb)) (take (nat bufsize) buf1) = (na2, Inr br)" and "int br = bufsize"
    and "tmp = (bufsize - fb - lb) * 8" and "lb = 0 \<or> count1 - tmp = 0"
  shows "set_run_loop aops v na start count bufsize fb lb0 i0 buf =
    (if 0 < count1 - tmp
     then set_run_loop aops v na2 (start + tmp) (count1 - tmp) (min bufsize (s32 ((count1 - tmp + 7) div 8))) 0 lb i
       (if fb \<noteq> 0 then buf1[0 := fill_byte v] else buf1)
     else Some (na2, Ok ()))"
  using assms by (subst set_run_loop.simps) (auto simp: Let_def)

context byte_attr
begin

lemma pread1_exact:
  assumes "ok na" and "p < length (content na)"
  shows "\<exists>na'. pread1 aops na (int p) = (na', Ok (content na ! p)) \<and> content na' = content na \<and> ok na'"
  using na_pread_law [OF assms(1), of "int p" 1] assms(2)
  by (auto simp: pread1_def take_Suc hd_drop_conv_nth)

text \<open>The last partial byte in the window: it is read, changed and put at the end of the window.\<close>

lemma handle_last_exact:
  assumes "ok na" and "8 * q + n \<le> 8 * length (content na)" and "n mod 8 \<noteq> 0" and "cdiv8 n + fb \<le> 8192"
  shows "\<exists>na' y. handle_last aops v na (int (8 * q)) (int n) (int (cdiv8 n + fb)) (int fb) 0 (n mod 8) buf =
      (na', Ok (int (8 * (n div 8)), 0, 1, buf[n div 8 + fb := y])) \<and>
    (\<forall>k < 8. bit y k = (if k < n mod 8 then v else bit (content na ! (q + n div 8)) k)) \<and>
    content na' = content na \<and> ok na'"
proof -
  have c: "cdiv8 n = n div 8 + 1" using assms(3) unfolding cdiv8_def by presburger
  have pos: "(int (8 * q) + int n) div 8 = int (q + n div 8)" by simp
  have lt: "q + n div 8 < length (content na)" using assms(2,3) by presburger
  have cd: "(int n + 7) div 8 = int (cdiv8 n)" by (simp add: cdiv8_def zdiv_int)
  have s: "s32 ((int n + 7) div 8 + int fb) = int (cdiv8 n + fb)" unfolding cd using assms(4) by (subst s32_id) auto
  have idx: "nat (int (cdiv8 n + fb)) - 1 = n div 8 + fb" using c by simp
  have nm: "int n - int (n mod 8) = int (8 * (n div 8))" by (metis add_diff_cancel_right' mult_div_mod_eq of_nat_add)
  obtain y where y: "last_bits v (n mod 8) (int n) (content na ! (q + n div 8)) = (int (8 * (n div 8)), y)"
    "\<forall>k < 8. bit y k = (if k < n mod 8 then v else bit (content na ! (q + n div 8)) k)"
    using last_bits_spec [of "n mod 8" "int n" v "content na ! (q + n div 8)"] unfolding nm by auto
  obtain na' where na': "pread1 aops na ((int (8 * q) + int n) div 8) = (na', Ok (content na ! (q + n div 8)))"
    "content na' = content na" "ok na'"
    using pread1_exact [OF assms(1) lt] unfolding pos by blast
  have "handle_last aops v na (int (8 * q)) (int n) (int (cdiv8 n + fb)) (int fb) 0 (n mod 8) buf =
      (na', Ok (int (8 * (n div 8)), 0, 1, buf[n div 8 + fb := y]))"
    unfolding handle_last_def s na'(1) prod.case res_bind.simps y(1) Let_def idx using assms(3) c by auto
  then show ?thesis using y(2) na'(2,3) by blast
qed

lemma write_window:
  assumes "ok na" and "p + length w \<le> length (content na)" and "p < 2 ^ 31"
  shows "\<exists>na'. na_pwrite aops na (s32 (int p)) w = (na', Inr (length w)) \<and>
    content na' = put_at (content na) p w \<and> ok na'"
  using na_pwrite_law [OF assms(1), of "int p" w] assms(2,3) by (simp add: s32_id)

text \<open>The last round, with the end of the run in the window.\<close>

lemma last_round:
  assumes "ok na" and "8 * q + n \<le> 8 * length (content na)" and "q < 2 ^ 31" and "cdiv8 n + fb \<le> 8192"
    and "front v a q (content na) pre" and "fb = length pre"
    and "buf = pre @ replicate (cdiv8 n) (fill_byte v) @ rest"
  shows "\<exists>na'. set_run_loop aops v na (int (8 * q)) (int n) (int (cdiv8 n + fb)) (int fb) 0 (n mod 8) buf =
      Some (na', Ok ()) \<and> bits_put v a (8 * q + n) (content na) (content na') \<and> ok na'"
proof -
  let ?m = "n div 8" and ?c = "content na"
  have fbq: "int (8 * q) div 8 - int fb = int (q - fb)" and qp: "q - fb + fb = q"
    using assms(5,6) by (auto simp: front_def of_nat_diff)
  have lt: "q - fb < 2 ^ 31" using assms(3) by simp
  show ?thesis
  proof (cases "n mod 8 = 0")
    case True
    then have n: "n = 8 * ?m" "cdiv8 n = ?m" "8 * q + n = 8 * (q + ?m)" by (auto simp: cdiv8_def)
    let ?w = "pre @ replicate ?m (fill_byte v) @ []"
    have fit: "q + ?m + length ([] :: bytes) \<le> length ?c" using assms(2) n(1) by simp
    have len: "q - fb + length ?w \<le> length ?c" using fit qp assms(6) by simp
    obtain na' where na': "na_pwrite aops na (s32 (int (q - fb))) ?w = (na', Inr (length ?w))"
      "content na' = put_at ?c (q - fb) ?w" "ok na'"
      using write_window [OF assms(1) len lt] by blast
    have bits: "bits_put v a (8 * q + n) ?c (put_at ?c (q - length pre) ?w)"
      by (rule round_bits [OF assms(5) fit]) (use n(3) in auto)
    have hl: "handle_last aops v na (int (8 * q)) (int n) (int (cdiv8 n + fb)) (int fb) 0 (n mod 8) buf =
        (na, Ok (int n, 0, 0, buf))"
      using True by (simp add: handle_last_def)
    have "take (nat (int (cdiv8 n + fb))) buf = ?w" using assms(6,7) n(2) by simp
    then have wr: "na_pwrite aops na (s32 (int (8 * q) div 8 - int fb)) (take (nat (int (cdiv8 n + fb))) buf) =
        (na', Inr (length ?w))"
      unfolding fbq using na'(1) by simp
    have lw: "int (length ?w) = int (cdiv8 n + fb)" using assms(6) n(2) by simp
    have z: "int n - (int (cdiv8 n + fb) - int fb - 0) * 8 = 0" using arg_cong [OF n(1), of int] n(2) by simp
    have "set_run_loop aops v na (int (8 * q)) (int n) (int (cdiv8 n + fb)) (int fb) 0 (n mod 8) buf =
        Some (na', Ok ())"
      using set_run_loop_step [OF hl wr lw refl disjI1 [OF refl], unfolded z] by simp
    then show ?thesis using na'(2,3) bits assms(6) by simp
  next
    case False
    then have cd: "cdiv8 n = ?m + 1" unfolding cdiv8_def by presburger
    obtain na1 y where h: "handle_last aops v na (int (8 * q)) (int n) (int (cdiv8 n + fb)) (int fb) 0 (n mod 8) buf =
        (na1, Ok (int (8 * ?m), 0, 1, buf[?m + fb := y]))"
      "\<forall>k < 8. bit y k = (if k < n mod 8 then v else bit (?c ! (q + ?m)) k)"
      "content na1 = ?c" "ok na1"
      using handle_last_exact [OF assms(1,2) False assms(4)] by blast
    let ?w = "pre @ replicate ?m (fill_byte v) @ [y]"
    have n: "8 * q + n = 8 * (q + ?m) + n mod 8" by simp
    have nk: "8 * ?m + k < n \<longleftrightarrow> k < n mod 8" for k by presburger
    have fit: "q + ?m + length [y] \<le> length ?c" using assms(2) False by simp presburger
    have len: "q - fb + length ?w \<le> length (content na1)" using fit qp assms(6) h(3) by simp
    obtain na' where na': "na_pwrite aops na1 (s32 (int (q - fb))) ?w = (na', Inr (length ?w))"
      "content na' = put_at ?c (q - fb) ?w" "ok na'"
      using write_window [OF h(4) len lt] unfolding h(3) by blast
    have bits: "bits_put v a (8 * q + n) ?c (put_at ?c (q - length pre) ?w)"
      unfolding n by (rule round_bits [OF assms(5) fit]) (use h(2) nk in auto)
    have "take (nat (int (cdiv8 n + fb))) (buf[?m + fb := y]) = ?w"
      unfolding nat_int using assms(6,7) cd by (simp add: list_update_append replicate_upd_last del: replicate_Suc)
    then have wr: "na_pwrite aops na1 (s32 (int (8 * q) div 8 - int fb)) (take (nat (int (cdiv8 n + fb))) (buf[?m + fb := y])) =
        (na', Inr (length ?w))"
      unfolding fbq using na'(1) by simp
    have lw: "int (length ?w) = int (cdiv8 n + fb)" using assms(6) cd by simp
    have z: "int (8 * ?m) - (int (cdiv8 n + fb) - int fb - 1) * 8 = 0" using cd by simp
    have "set_run_loop aops v na (int (8 * q)) (int n) (int (cdiv8 n + fb)) (int fb) 0 (n mod 8) buf =
        Some (na', Ok ())"
      using set_run_loop_step [OF h(1) wr lw refl disjI2 [OF z], unfolded z] by simp
    then show ?thesis using na'(2,3) bits assms(6) by simp
  qed
qed

lemma set_run_loop_exact:
  assumes "ok na" and "8 * q + n \<le> 8 * length (content na)" and "8 * q + n + 8 \<le> 2 ^ 34"
    and "front v a q (content na) pre" and "fb = length pre"
    and "B = min 8192 (cdiv8 n + fb)" and "buf = pre @ replicate (B - fb) (fill_byte v) @ rest"
  shows "\<exists>na'. set_run_loop aops v na (int (8 * q)) (int n) (int B) (int fb) 0 (n mod 8) buf = Some (na', Ok ()) \<and>
    bits_put v a (8 * q + n) (content na) (content na') \<and> ok na'"
  using assms
proof (induction n arbitrary: na q a pre fb B buf rest rule: less_induct)
  case (less n)
  let ?c = "content na"
  have fb1: "fb \<le> 1" "fb \<le> q" using less.prems(4,5) by (auto simp: front_def)
  have q: "q < 2 ^ 31" using less.prems(3) by simp
  show ?case
  proof (cases "cdiv8 n + fb \<le> 8192")
    case True
    then show ?thesis
      using last_round [OF less.prems(1,2) q True less.prems(4,5), of buf rest] less.prems(6,7) by simp
  next
    case False
    define m where "m = 8192 - fb"
    have B: "B = 8192" "B - fb = m" "m + fb = 8192" using False fb1 less.prems(6) by (auto simp: m_def)
    define n' where "n' = n - 8 * m"
    have n: "n = n' + 8 * m" "0 < n'"
      using False cdiv8_bounds(2) [of n] B(3) by (auto simp: n'_def)
    have hl: "handle_last aops v na (int (8 * q)) (int n) (int B) (int fb) 0 (n mod 8) buf =
        (na, Ok (int n, n mod 8, 0, buf))"
    proof -
      have "(int n + 7) div 8 + int fb = int (cdiv8 n + fb)" by (simp add: cdiv8_def zdiv_int)
      moreover have "cdiv8 n + fb < 2 ^ 31"
        using cdiv8_bounds(2) [of n] less.prems(3) fb1(2) by simp
      ultimately have "s32 ((int n + 7) div 8 + int fb) = int (cdiv8 n + fb)" by (subst s32_id) auto
      then show ?thesis using False B(1) by (simp add: handle_last_def Let_def)
    qed
    let ?w = "pre @ replicate m (fill_byte v) @ []"
    have fit: "q + m + length ([] :: bytes) \<le> length ?c" using less.prems(2) n(1) by simp
    have len: "q - fb + length ?w \<le> length ?c" using fit fb1(2) less.prems(5) by simp
    have lt: "q - fb < 2 ^ 31" using q by simp
    obtain na' where na': "na_pwrite aops na (s32 (int (q - fb))) ?w = (na', Inr (length ?w))"
      "content na' = put_at ?c (q - fb) ?w" "ok na'"
      using write_window [OF less.prems(1) len lt] by blast
    have b1: "bits_put v a (8 * (q + m)) ?c (content na')"
      unfolding na'(2) less.prems(5) by (rule round_bits [OF less.prems(4) fit]) auto
    have len': "length (content na') = length ?c" using bits_put_length [OF b1] .
    have fbq: "int (8 * q) div 8 - int fb = int (q - fb)" using fb1(2) by (simp add: of_nat_diff)
    have "take (nat (int B)) buf = ?w" using less.prems(5,7) B by simp
    then have wr: "na_pwrite aops na (s32 (int (8 * q) div 8 - int fb)) (take (nat (int B)) buf) = (na', Inr (length ?w))"
      unfolding fbq using na'(1) by simp
    have lw: "int (length ?w) = int B" using less.prems(5) B by simp
    have tmp: "int (8 * m) = (int B - int fb - 0) * 8" using B by simp
    have cnt: "int n - int (8 * m) = int n'" "int (8 * q) + int (8 * m) = int (8 * (q + m))" using n by simp_all
    define B' where "B' = min 8192 (cdiv8 n' + 0)"
    have nb: "min (int B) (s32 ((int n' + 7) div 8)) = int B'"
    proof -
      have "(int n' + 7) div 8 = int (cdiv8 n')" by (simp add: cdiv8_def zdiv_int)
      moreover have "cdiv8 n' < 2 ^ 31" using cdiv8_bounds(2) [of n'] less.prems(3) n(1) by simp
      ultimately show ?thesis using B(1) by (simp add: s32_id B'_def)
    qed
    define buf' where "buf' = (if int fb \<noteq> 0 then buf[0 := fill_byte v] else buf)"
    have "buf' = replicate 8192 (fill_byte v) @ rest"
    proof (cases pre)
      case Nil
      then show ?thesis using less.prems(5,7) B by (simp add: buf'_def)
    next
      case (Cons x xs)
      then have "xs = []" "fb = 1" using less.prems(5) fb1(1) by auto
      then show ?thesis using Cons less.prems(7) B by (simp add: buf'_def flip: replicate_Suc)
    qed
    then have buf': "buf' = [] @ replicate (B' - 0) (fill_byte v) @ (replicate (8192 - B') (fill_byte v) @ rest)"
      by (simp add: B'_def replicate_add [symmetric] flip: append_assoc)
    have step: "set_run_loop aops v na (int (8 * q)) (int n) (int B) (int fb) 0 (n mod 8) buf =
        set_run_loop aops v na' (int (8 * (q + m))) (int n') (int B') (int 0) 0 (n' mod 8) buf'"
      using set_run_loop_step [OF hl wr lw tmp disjI1 [OF refl]] n unfolding cnt nb buf'_def by simp
    have "front v (8 * (q + m)) (q + m) (content na') []" by (simp add: front_def)
    then have "\<exists>na''. set_run_loop aops v na' (int (8 * (q + m))) (int n') (int B') (int 0) 0 (n' mod 8) buf' =
        Some (na'', Ok ()) \<and> bits_put v (8 * (q + m)) (8 * (q + m) + n') (content na') (content na'') \<and> ok na''"
      by (intro less.IH [OF _ na'(3) _ _ _ _ B'_def buf'])
        (use n less.prems(2,3) len' B(3) fb1 in auto)
    moreover have eq: "8 * (q + m) + n' = 8 * q + n" using n by simp
    ultimately obtain na'' where
      "set_run_loop aops v na' (int (8 * (q + m))) (int n') (int B') (int 0) 0 (n' mod 8) buf' = Some (na'', Ok ())"
      "bits_put v (8 * (q + m)) (8 * q + n) (content na') (content na'')" "ok na''"
      unfolding eq by blast
    then show ?thesis
      using step bits_put_trans [OF b1] less.prems(4) n by (auto simp: front_def)
  qed
qed

text \<open>A run inside a single byte.\<close>

lemma set_bits_one_byte:
  assumes "ok na" and "p < length (content na)" and "p < 2 ^ 31" and "0 < i" and "i < 8" and "n < 8 - i"
    and "\<forall>k < 8. bit y k = (if i \<le> k \<and> k < i + n then v else bit (content na ! p) k)"
  shows "\<exists>na'. set_run_loop aops v na (int (8 * Suc p)) (-1) 1 1 0 7 [y] = Some (na', Ok ()) \<and>
    bits_put v (8 * p + i) (8 * p + i + n) (content na) (content na') \<and> ok na'"
proof -
  obtain na' where na': "na_pwrite aops na (s32 (int p)) [y] = (na', Inr 1)"
    "content na' = put_at (content na) p [y]" "ok na'"
    using write_window [OF assms(1), of p "[y]"] assms(2,3) by auto
  have "bits_put v (8 * p + i) (8 * p + i + n) (content na) (put_at (content na) p [y])"
    by (rule bits_put_put_at) (use assms(2,6,7) in auto)
  moreover have "handle_last aops v na (int (8 * Suc p)) (-1) 1 1 0 7 [y] = (na, Ok (-1, 7, 0, [y]))"
    by (simp add: handle_last_def)
  from set_run_loop_step [OF this, of na' 1 0] na'(1)
  have "set_run_loop aops v na (int (8 * Suc p)) (-1) 1 1 0 7 [y] = Some (na', Ok ())" by simp
  ultimately show ?thesis using na' by auto
qed

lemma set_bits_exact:
  assumes "ok na" and "s + n \<le> 8 * length (content na)" and "s + n + 8 \<le> 2 ^ 34" and "\<forall>k \<le> 8192. mem k"
  shows "\<exists>na'. ntfs_bitmap_set_bits_in_run mem aops na (int s) (int n) v = Some (na', Ok ()) \<and>
    bits_put v s (s + n) (content na) (content na') \<and> ok na'"
proof (cases "s mod 8 = 0")
  case True
  define q B where "q = s div 8" and "B = min 8192 (cdiv8 n + 0)"
  have s: "s = 8 * q" using True by (auto simp: q_def)
  have B: "min 8192 ((int n + 7) div 8) = int B" by (simp add: B_def cdiv8_def zdiv_int)
  have "front v s q (content na) []" by (simp add: front_def s)
  then obtain na' where "set_run_loop aops v na (int s) (int n) (int B) (int 0) 0 (n mod 8) (replicate B (fill_byte v)) =
      Some (na', Ok ())" "bits_put v s (s + n) (content na) (content na')" "ok na'"
    using set_run_loop_exact [OF assms(1), of q n v s "[]" 0 B "replicate B (fill_byte v)" "[]"] assms(2,3) B_def
    unfolding s by auto
  moreover have "ntfs_bitmap_set_bits_in_run mem aops na (int s) (int n) v =
      set_run_loop aops v na (int s) (int n) (int B) (int 0) 0 (n mod 8) (replicate B (fill_byte v))"
    using True assms(4) B by (simp add: ntfs_bitmap_set_bits_in_run_def Let_def nat_mod_distrib B_def flip: of_nat_mod)
  ultimately show ?thesis by auto
next
  case False
  define p i where "p = s div 8" and "i = s mod 8"
  have s: "s = 8 * p + i" "0 < i" "i < 8" using False by (auto simp: p_def i_def)
  have lt: "p < length (content na)" "p < 2 ^ 31" using assms(2,3) s by auto
  have "(int i - 1 + 8 * (int p + 1)) div 8 = int p + 1 + (int i - 1) div 8" by (rule div_mult_self2) simp
  moreover have "(int i - 1) div 8 = 0" using s(2,3) by (intro div_pos_pos_trivial) auto
  moreover have "int i - 1 + 8 * (int p + 1) = int s + 7" using s(1) by simp
  ultimately have "(int s + 7) div 8 = int p + 1" by (simp only: add_0_right)
  then have up: "(int s + 7) div 8 * 8 = int (8 * Suc p)" by simp
  have i: "nat (int s mod 8) = i" "int s div 8 = int p" using s by (simp_all add: nat_mod_distrib)
  obtain na1 where na1: "pread1 aops na (int p) = (na1, Ok (content na ! p))" "content na1 = content na" "ok na1"
    using pread1_exact [OF assms(1) lt(1)] by blast
  have ik: "int k < int i + int n \<longleftrightarrow> k < i + n" for k by linarith
  obtain y where y: "first_bits v i (int n) (content na ! p) = (if int n < 8 - int i then -1 else int n - (8 - int i), y)"
    "\<forall>k < 8. bit y k = (if i \<le> k \<and> k < i + n then v else bit (content na ! p) k)"
    using first_bits_spec [of i "int n" v "content na ! p"] s unfolding ik by auto
  define B where "B = min 8192 ((int n - (8 - int i) + 7) div 8 + 1)"
  have B0: "0 < B" "nat B \<le> 8192" using s(2) by (auto simp: B_def)
  have eq: "ntfs_bitmap_set_bits_in_run mem aops na (int s) (int n) v =
      (let n' = (if int n < 8 - int i then -1 else int n - (8 - int i)) in
       set_run_loop aops v na1 (int (8 * Suc p)) n' B 1 0 (nat (n' mod 8)) ((replicate (nat B) (fill_byte v))[0 := y]))"
    unfolding ntfs_bitmap_set_bits_in_run_def i up using s(2) assms(4) B0(2) na1(1) y(1)
    by (simp add: Let_def B_def)
  show ?thesis
  proof (cases "n < 8 - i")
    case True
    then have B1: "B = 1" using s by (simp add: B_def)
    have t: "int n < 8 - int i" using True by simp
    obtain na' where "set_run_loop aops v na1 (int (8 * Suc p)) (-1) 1 1 0 7 [y] = Some (na', Ok ())"
      "bits_put v (8 * p + i) (8 * p + i + n) (content na) (content na')" "ok na'"
      using set_bits_one_byte [OF na1(3), of p i n y v] lt s(2,3) True y(2) unfolding na1(2) by blast
    then show ?thesis unfolding eq Let_def B1 using t by (simp add: s(1))
  next
    case False
    define m where "m = n - (8 - i)"
    have m: "int n - (8 - int i) = int m" "8 * Suc p + m = s + n" using False s by (auto simp: m_def)
    define Bn where "Bn = min 8192 (cdiv8 m + 1)"
    have Bn: "B = int Bn" "0 < Bn" unfolding B_def m(1) by (auto simp: Bn_def cdiv8_def zdiv_int)
    have "front v s (Suc p) (content na1) [y]" using s y(2) na1(2) False by (auto simp: front_def)
    moreover have "(replicate Bn (fill_byte v))[0 := y] = [y] @ replicate (Bn - 1) (fill_byte v) @ []"
      using Bn(2) by (cases Bn) auto
    ultimately have "\<exists>na'. set_run_loop aops v na1 (int (8 * Suc p)) (int m) (int Bn) (int 1) 0 (m mod 8)
        ((replicate Bn (fill_byte v))[0 := y]) = Some (na', Ok ()) \<and>
      bits_put v s (8 * Suc p + m) (content na1) (content na') \<and> ok na'"
      by (intro set_run_loop_exact [OF na1(3)]) (use m(2) assms(2,3) na1(2) in \<open>auto simp: Bn_def\<close>)
    moreover have "\<not> int n < 8 - int i" using False by simp
    ultimately show ?thesis
      unfolding eq Let_def Bn(1) m by (simp add: na1(2) nat_mod_distrib del: of_nat_mult)
  qed
qed

end

end
