(* ===== verification/Lcnalloc.thy ===== *)
theory Lcnalloc
  imports Bitmap_Runs Runlist_Cells
begin

text \<open>
  The cluster allocator (\<open>libntfs-3g/lcnalloc.c\<close>): the zones of a volume and the positions in
  them, the search for the longest free range of a window of the bitmap, allocation over
  windows, passes and zones, and the three ways of freeing clusters. The bitmap is an attribute
  accessed through \<open>attr_ops\<close>; the allocator of memory is the predicate \<open>mem\<close>. The flags of the
  zones are a set.
\<close>

unbundle bit_operations_syntax

section \<open>The volume\<close>

datatype zone = ZONE_MFT | ZONE_DATA1 | ZONE_DATA2

datatype NTFS_CLUSTER_ALLOCATION_ZONES = MFT_ZONE | DATA_ZONE

definition NTFS_LCNALLOC_BSIZE :: int where "NTFS_LCNALLOC_BSIZE = 4096"
definition NTFS_LCNALLOC_SKIP :: int where "NTFS_LCNALLOC_SKIP = 4096"

record 'a lcn_volume =
  lcnbmp_na :: 'a
  nr_clusters :: int
  mft_lcn :: int
  mft_zone_start :: int
  mft_zone_end :: int
  mft_zone_pos :: int
  data1_zone_pos :: int
  data2_zone_pos :: int
  full_zones :: "zone set"
  free_clusters :: int

section \<open>Zone positions\<close>

definition ntfs_cluster_set_zone_pos :: "int \<Rightarrow> int \<Rightarrow> int \<Rightarrow> int \<Rightarrow> int" where
  "ntfs_cluster_set_zone_pos start zend pos tc = (if zend \<le> tc then start else if start \<le> tc then tc else pos)"

definition ntfs_cluster_update_zone_pos :: "'a lcn_volume \<Rightarrow> zone \<Rightarrow> int \<Rightarrow> 'a lcn_volume" where
  "ntfs_cluster_update_zone_pos vol z tc =
     (case z of
        ZONE_MFT \<Rightarrow> vol\<lparr>mft_zone_pos :=
          ntfs_cluster_set_zone_pos (mft_lcn vol) (mft_zone_end vol) (mft_zone_pos vol) tc\<rparr>
      | ZONE_DATA1 \<Rightarrow> vol\<lparr>data1_zone_pos :=
          ntfs_cluster_set_zone_pos (mft_zone_end vol) (nr_clusters vol) (data1_zone_pos vol) tc\<rparr>
      | ZONE_DATA2 \<Rightarrow> vol\<lparr>data2_zone_pos :=
          ntfs_cluster_set_zone_pos 0 (mft_zone_start vol) (data2_zone_pos vol) tc\<rparr>)"

definition zone_of :: "'a lcn_volume \<Rightarrow> int \<Rightarrow> zone" where
  "zone_of vol lcn =
     (if mft_zone_end vol \<le> lcn then ZONE_DATA1 else if lcn < mft_zone_start vol then ZONE_DATA2 else ZONE_MFT)"

definition update_full_status :: "'a lcn_volume \<Rightarrow> int \<Rightarrow> 'a lcn_volume" where
  "update_full_status vol lcn =
     (let z = zone_of vol lcn
      in if z \<in> full_zones vol
         then (ntfs_cluster_update_zone_pos vol z lcn)\<lparr>full_zones := full_zones vol - {z}\<rparr>
         else vol)"

section \<open>The longest free range of a window\<close>

text \<open>The run so far, the longest run and its start; bytes of zeros and ones are taken at once.\<close>

type_synonym range_state = "nat \<times> nat \<times> int"

definition range_bit :: "u8 \<Rightarrow> nat \<Rightarrow> nat \<Rightarrow> range_state \<Rightarrow> range_state" where
  "range_bit x i j = (\<lambda>(run, max_range, start_pos).
     if bit x j then
       (if max_range < run then (0, run, int i * 8 + (int j - int run)) else (0, max_range, start_pos))
     else (run + 1, max_range, start_pos))"

definition range_byte :: "u8 \<Rightarrow> nat \<Rightarrow> range_state \<Rightarrow> range_state" where
  "range_byte x i = (\<lambda>(run, max_range, start_pos).
     if x = 0 then (run + 8, max_range, start_pos)
     else if x = 255 then
       (if max_range < run then (0, run, int i * 8 - int run) else (0, max_range, start_pos))
     else fold (range_bit x i) [0..<8] (run, max_range, start_pos))"

fun range_loop :: "bytes \<Rightarrow> nat \<Rightarrow> range_state \<Rightarrow> range_state" where
  "range_loop [] i s = s"
| "range_loop (x # buf) i s = range_loop buf (i + 1) (range_byte x i s)"

definition max_empty_bit_range :: "bytes \<Rightarrow> int" where
  "max_empty_bit_range buf =
     (case range_loop buf 0 (0, 0, -1) of
        (run, max_range, start_pos) \<Rightarrow>
          if max_range < run then int (length buf) * 8 - int run else start_pos)"

section \<open>Freeing clusters\<close>

text \<open>The loop of \<open>ntfs_cluster_free_from_rl\<close>: the number of clusters freed and the outcome.\<close>

fun free_rl_loop ::
    "(nat \<Rightarrow> bool) \<Rightarrow> 'a attr_ops \<Rightarrow> 'a lcn_volume \<Rightarrow> runlist \<Rightarrow> int \<Rightarrow> ('a lcn_volume \<times> int \<times> unit result) option"
where
  "free_rl_loop mem aops vol [] nr_freed = Some (vol, nr_freed, Fault)"
| "free_rl_loop mem aops vol (e # rl) nr_freed =
     (if rl_length e = 0 then Some (vol, nr_freed, Ok ())
      else if 0 \<le> rl_lcn e then
        (let vol = update_full_status vol (rl_lcn e)
         in case ntfs_bitmap_clear_run mem aops (lcnbmp_na vol) (rl_lcn e) (rl_length e) of
              None \<Rightarrow> None
            | Some (na, Ok _) \<Rightarrow> free_rl_loop mem aops (vol\<lparr>lcnbmp_na := na\<rparr>) rl (nr_freed + rl_length e)
            | Some (na, r) \<Rightarrow> Some (vol\<lparr>lcnbmp_na := na\<rparr>, nr_freed, r))
      else free_rl_loop mem aops vol rl nr_freed)"

definition ntfs_cluster_free_from_rl ::
    "(nat \<Rightarrow> bool) \<Rightarrow> 'a attr_ops \<Rightarrow> 'a lcn_volume \<Rightarrow> runlist \<Rightarrow> ('a lcn_volume \<times> unit result) option" where
  "ntfs_cluster_free_from_rl mem aops vol rl =
     (case free_rl_loop mem aops vol rl 0 of
        None \<Rightarrow> None
      | Some (vol, nr_freed, r) \<Rightarrow> Some (vol\<lparr>free_clusters := free_clusters vol + nr_freed\<rparr>, r))"

definition ntfs_cluster_free_basic ::
    "(nat \<Rightarrow> bool) \<Rightarrow> 'a attr_ops \<Rightarrow> 'a lcn_volume \<Rightarrow> int \<Rightarrow> int \<Rightarrow> ('a lcn_volume \<times> unit result) option" where
  "ntfs_cluster_free_basic mem aops vol lcn count =
     (if 0 \<le> lcn then
        (let vol = update_full_status vol lcn
         in case ntfs_bitmap_clear_run mem aops (lcnbmp_na vol) lcn count of
              None \<Rightarrow> None
            | Some (na, Ok _) \<Rightarrow>
                Some (vol\<lparr>lcnbmp_na := na, free_clusters := free_clusters vol + count\<rparr>, Ok ())
            | Some (na, r) \<Rightarrow> Some (vol\<lparr>lcnbmp_na := na\<rparr>, r))
      else Some (vol, Ok ()))"

text \<open>
  \<open>ntfs_attr_find_vcn\<close> of \<open>attrib.c\<close>: the part of the runlist from the run that holds a virtual
  cluster on. A region that is not mapped is mapped once, by the parameter \<open>map_rl\<close>, which gives
  the new runlist of the attribute.
\<close>

datatype find_result = Found runlist | NeedMap | NotFound errno | Overrun

fun find_vcn_from :: "runlist \<Rightarrow> int \<Rightarrow> find_result" where
  "find_vcn_from (e # e1 # rl) vcn =
     (if rl_length e \<noteq> 0 \<and> \<not> vcn < rl_vcn e1 then find_vcn_from (e1 # rl) vcn
      else if rl_length e \<noteq> 0 \<and> LCN_HOLE \<le> rl_lcn e then Found (e # e1 # rl)
      else if rl_lcn e = LCN_RL_NOT_MAPPED then NeedMap
      else if rl_lcn e = LCN_ENOENT then NotFound ENOENT
      else if rl_lcn e = LCN_EINVAL then NotFound EINVAL
      else NotFound EIO)"
| "find_vcn_from [e] vcn =
     (if rl_length e \<noteq> 0 then Overrun
      else if rl_lcn e = LCN_RL_NOT_MAPPED then NeedMap
      else if rl_lcn e = LCN_ENOENT then NotFound ENOENT
      else if rl_lcn e = LCN_EINVAL then NotFound EINVAL
      else NotFound EIO)"
| "find_vcn_from [] vcn = Overrun"

definition find_vcn_once :: "runlist option \<Rightarrow> int \<Rightarrow> find_result" where
  "find_vcn_once rl0 vcn =
     (case rl0 of None \<Rightarrow> NeedMap
      | Some rl \<Rightarrow> if rl \<noteq> [] \<and> vcn < rl_vcn (hd rl) then NeedMap else find_vcn_from rl vcn)"

definition ntfs_attr_find_vcn ::
    "(int \<Rightarrow> runlist result) \<Rightarrow> runlist option \<Rightarrow> int \<Rightarrow> runlist result" where
  "ntfs_attr_find_vcn map_rl rl0 vcn =
     (if vcn < 0 then Err EINVAL
      else case find_vcn_once rl0 vcn of
        Found rl \<Rightarrow> Ok rl
      | NotFound e \<Rightarrow> Err e
      | Overrun \<Rightarrow> Fault
      | NeedMap \<Rightarrow>
          (case map_rl vcn of
             Ok rl1 \<Rightarrow>
               (case find_vcn_once (Some rl1) vcn of
                  Found rl \<Rightarrow> Ok rl | NotFound e \<Rightarrow> Err e | NeedMap \<Rightarrow> Err EIO | Overrun \<Rightarrow> Fault)
           | Err e \<Rightarrow> Err (if e = EINVAL \<or> e = ENOENT then EIO else e)
           | Fault \<Rightarrow> Fault))"

text \<open>One run of \<open>ntfs_cluster_free\<close>. The number of freed clusters is returned as an \<open>int\<close>.\<close>

definition free_run ::
    "(nat \<Rightarrow> bool) \<Rightarrow> 'a attr_ops \<Rightarrow> 'a lcn_volume \<Rightarrow> int \<Rightarrow> int \<Rightarrow> ('a lcn_volume \<times> int result) option" where
  "free_run mem aops vol lcn to_free =
     (let vol = update_full_status vol lcn
      in case ntfs_bitmap_clear_run mem aops (lcnbmp_na vol) lcn to_free of
           None \<Rightarrow> None
         | Some (na, Ok _) \<Rightarrow> Some (vol\<lparr>lcnbmp_na := na\<rparr>, Ok to_free)
         | Some (na, Err e) \<Rightarrow> Some (vol\<lparr>lcnbmp_na := na\<rparr>, Err e)
         | Some (na, Fault) \<Rightarrow> Some (vol\<lparr>lcnbmp_na := na\<rparr>, Fault))"

text \<open>The remaining runs; the result is the number freed and the outcome.\<close>

fun free_rest ::
    "(nat \<Rightarrow> bool) \<Rightarrow> 'a attr_ops \<Rightarrow> 'a lcn_volume \<Rightarrow> runlist \<Rightarrow> int \<Rightarrow> int \<Rightarrow>
       ('a lcn_volume \<times> int \<times> unit result) option" where
  "free_rest mem aops vol [] count nr_freed = Some (vol, nr_freed, Fault)"
| "free_rest mem aops vol (e # rl) count nr_freed =
     (if rl_length e = 0 \<or> count = 0 then
        Some (vol, nr_freed, if count \<noteq> -1 \<and> count \<noteq> 0 then Err EIO else Ok ())
      else if rl_lcn e < 0 \<and> rl_lcn e \<noteq> LCN_HOLE then Some (vol, nr_freed, Err EIO)
      else
        let to_free = (if 0 \<le> count \<and> count < rl_length e then count else rl_length e);
            count = (if 0 \<le> count then count - to_free else count)
        in if rl_lcn e \<noteq> LCN_HOLE then
             (case free_run mem aops vol (rl_lcn e) to_free of
                None \<Rightarrow> None
              | Some (vol, Ok n) \<Rightarrow> free_rest mem aops vol rl count (nr_freed + n)
              | Some (vol, Err e) \<Rightarrow> Some (vol, nr_freed, Err e)
              | Some (vol, Fault) \<Rightarrow> Some (vol, nr_freed, Fault))
           else free_rest mem aops vol rl count nr_freed)"

definition ntfs_cluster_free ::
    "(nat \<Rightarrow> bool) \<Rightarrow> 'a attr_ops \<Rightarrow> (int \<Rightarrow> runlist result) \<Rightarrow> 'a lcn_volume \<Rightarrow> runlist option \<Rightarrow> int \<Rightarrow> int \<Rightarrow>
       ('a lcn_volume \<times> int result) option" where
  "ntfs_cluster_free mem aops map_rl vol rl0 start_vcn count =
     (if start_vcn < 0 \<or> (count < 0 \<and> count \<noteq> -1) then Some (vol, Err EINVAL)
      else case ntfs_attr_find_vcn map_rl rl0 start_vcn of
        Err e \<Rightarrow> Some (vol, if e = ENOENT then Ok 0 else Err e)
      | Fault \<Rightarrow> Some (vol, Fault)
      | Ok [] \<Rightarrow> Some (vol, Fault)
      | Ok (e # rl) \<Rightarrow>
          if rl_lcn e < 0 \<and> rl_lcn e \<noteq> LCN_HOLE then Some (vol, Err EIO)
          else
            let delta = start_vcn - rl_vcn e;
                to_free = (if 0 \<le> count \<and> count < rl_length e - delta then count else rl_length e - delta)
            in (case (if rl_lcn e \<noteq> LCN_HOLE then free_run mem aops vol (rl_lcn e + delta) to_free
                      else Some (vol, Ok 0)) of
                  None \<Rightarrow> None
                | Some (vol, Err e) \<Rightarrow> Some (vol, Err e)
                | Some (vol, Fault) \<Rightarrow> Some (vol, Fault)
                | Some (vol, Ok nr_freed) \<Rightarrow>
                    (case free_rest mem aops vol rl (if 0 \<le> count then count - to_free else count) nr_freed of
                       None \<Rightarrow> None
                     | Some (vol, nr_freed, r) \<Rightarrow>
                         Some (vol\<lparr>free_clusters := free_clusters vol + nr_freed\<rparr>,
                           res_bind r (\<lambda>_. Ok (s32 nr_freed))))))"

section \<open>Allocating clusters\<close>

record alloc_state =
  zone_start :: int
  zone_end :: int
  bmp_pos :: int
  prev_lcn :: int
  prev_run_len :: int
  clusters :: nat
  al_rl :: runlist
  rlsize :: nat
  pass :: nat
  search_zone :: zone
  done_zones :: "zone set"
  has_guess :: bool
  used_zone_pos :: bool

definition bitmap_writeback ::
    "'a attr_ops \<Rightarrow> 'a lcn_volume \<Rightarrow> int \<Rightarrow> bytes \<Rightarrow> bool \<Rightarrow> 'a lcn_volume \<times> errno option" where
  "bitmap_writeback aops vol pos b writeback =
     (if \<not> writeback then (vol, None)
      else case na_pwrite aops (lcnbmp_na vol) pos b of
        (na, Inl e) \<Rightarrow> (vol\<lparr>lcnbmp_na := na\<rparr>, Some e)
      | (na, Inr written) \<Rightarrow> (vol\<lparr>lcnbmp_na := na\<rparr>, if written = length b then None else Some EIO))"

text \<open>A new cluster extends the last run or starts a new one.\<close>

definition push_cluster :: "int \<Rightarrow> int \<Rightarrow> alloc_state \<Rightarrow> alloc_state" where
  "push_cluster start_vcn c st =
     (let rl = al_rl st
      in if prev_lcn st = c - prev_run_len st \<and> rl \<noteq> [] then
           st\<lparr>prev_run_len := prev_run_len st + 1,
              al_rl := butlast rl @ [(last rl)\<lparr>rl_length := prev_run_len st + 1\<rparr>]\<rparr>
         else
           st\<lparr>prev_lcn := c, prev_run_len := 1,
              al_rl := rl @ [\<lparr>rl_vcn = (if rl \<noteq> [] then rl_vcn (last rl) + prev_run_len st else start_vcn),
                rl_lcn = c, rl_length = 1\<rparr>]\<rparr>)"

text \<open>The memory of the runlist grows by a page when two more elements would not fit.\<close>

definition rl_full :: "alloc_state \<Rightarrow> bool" where
  "rl_full st \<longleftrightarrow> rlsize st \<le> (length (al_rl st) + 2) * 24"

definition rl_grow :: "alloc_state \<Rightarrow> alloc_state" where
  "rl_grow st = (if rl_full st then st\<lparr>rlsize := rlsize st + 4096\<rparr> else st)"

text \<open>One cluster is taken: bit, number of free clusters and runlist.\<close>

definition mark_bit :: "bytes \<Rightarrow> nat \<Rightarrow> bytes" where
  "mark_bit buf k = buf[k div 8 := bit_put True (k mod 8) (buf ! (k div 8))]"

definition count_taken :: "'a lcn_volume \<Rightarrow> 'a lcn_volume" where
  "count_taken vol = (if free_clusters vol \<le> 0 then vol else vol\<lparr>free_clusters := free_clusters vol - 1\<rparr>)"

definition record_taken :: "int \<Rightarrow> int \<Rightarrow> alloc_state \<Rightarrow> alloc_state" where
  "record_taken start_vcn c st = (push_cluster start_vcn c (rl_grow st))\<lparr>clusters := clusters st - 1\<rparr>"

lemma record_taken_simps [simp]:
  "clusters (record_taken v c st) = clusters st - 1" "has_guess (record_taken v c st) = has_guess st"
  "bmp_pos (record_taken v c st) = bmp_pos st" "search_zone (record_taken v c st) = search_zone st"
  "used_zone_pos (record_taken v c st) = used_zone_pos st" "zone_start (record_taken v c st) = zone_start st"
  "zone_end (record_taken v c st) = zone_end st" "pass (record_taken v c st) = pass st"
  "done_zones (record_taken v c st) = done_zones st"
  by (simp_all add: record_taken_def push_cluster_def rl_grow_def Let_def)

datatype scan_end = Exhausted | Finished | NoMem

text \<open>The loop over the bits of the window; \<open>lcn\<close> counts from the first bit of the window.\<close>

function alloc_scan ::
    "(nat \<Rightarrow> bool) \<Rightarrow> int \<Rightarrow> 'a lcn_volume \<Rightarrow> alloc_state \<Rightarrow> bytes \<Rightarrow> int \<Rightarrow> bool \<Rightarrow>
       'a lcn_volume \<times> alloc_state \<times> bytes \<times> bool \<times> scan_end"
where
  "alloc_scan mem start_vcn vol st buf lcn writeback =
     (if int (length buf) * 8 \<le> lcn then (vol, st, buf, writeback, Exhausted)
      else if has_guess st then
        (if bm_bit buf (nat lcn) then (vol, st\<lparr>has_guess := False\<rparr>, buf, writeback, Exhausted)
         else if rl_full st \<and> \<not> mem (rlsize (rl_grow st)) then (vol, rl_grow st, buf, writeback, NoMem)
         else
           let buf = mark_bit buf (nat lcn); vol = count_taken vol;
               c = lcn + bmp_pos st; st = record_taken start_vcn c st
           in if clusters st = 0
              then (if used_zone_pos st
                    then ntfs_cluster_update_zone_pos vol (search_zone st) (c + 1 + NTFS_LCNALLOC_SKIP)
                    else vol, st, buf, True, Finished)
              else alloc_scan mem start_vcn vol st buf (lcn + 1) True)
      else
        let r = max_empty_bit_range buf
        in if r < 0 then (vol, st, buf, writeback, Exhausted)
           else alloc_scan mem start_vcn vol (st\<lparr>has_guess := True\<rparr>) buf r writeback)"
  by pat_completeness auto
termination
  by (relation "measure (\<lambda>(mem, start_vcn, vol, st, buf, lcn, wb). 2 * clusters st + (if has_guess st then 0 else 1))")
    auto

declare alloc_scan.simps [simp del]

text \<open>The next zone, its position and its end.\<close>

definition switch_zone :: "'a lcn_volume \<Rightarrow> alloc_state \<Rightarrow> alloc_state" where
  "switch_zone vol st =
     (let to_data1 = st\<lparr>search_zone := ZONE_DATA1, zone_start := data1_zone_pos vol, zone_end := nr_clusters vol,
            pass := (if data1_zone_pos vol = mft_zone_end vol then 2 else 1)\<rparr>
      in case search_zone st of
           ZONE_MFT \<Rightarrow> to_data1
         | ZONE_DATA1 \<Rightarrow> st\<lparr>search_zone := ZONE_DATA2, zone_start := data2_zone_pos vol,
             zone_end := mft_zone_start vol, pass := (if data2_zone_pos vol = 0 then 2 else 1)\<rparr>
         | ZONE_DATA2 \<Rightarrow>
             if ZONE_DATA1 \<notin> done_zones st then to_data1
             else st\<lparr>search_zone := ZONE_MFT, zone_start := mft_zone_pos vol, zone_end := mft_zone_end vol,
               pass := (if mft_zone_pos vol = mft_zone_start vol then 2 else 1)\<rparr>)"

text \<open>Progress through the zones, for the termination of the search.\<close>

lemma all_zones: "S = {ZONE_MFT, ZONE_DATA1, ZONE_DATA2} \<longleftrightarrow> ZONE_MFT \<in> S \<and> ZONE_DATA1 \<in> S \<and> ZONE_DATA2 \<in> S"
proof
  assume S: "ZONE_MFT \<in> S \<and> ZONE_DATA1 \<in> S \<and> ZONE_DATA2 \<in> S"
  have "z \<in> S" for z using S by (cases z) auto
  moreover have "z \<in> {ZONE_MFT, ZONE_DATA1, ZONE_DATA2}" for z by (cases z) auto
  ultimately show "S = {ZONE_MFT, ZONE_DATA1, ZONE_DATA2}" by blast
qed simp

definition zone_rank :: "zone \<Rightarrow> zone set \<Rightarrow> nat" where
  "zone_rank z D = 4 * ((if ZONE_MFT \<in> D then 0 else 1) + (if ZONE_DATA1 \<in> D then 0 else 1) +
       (if ZONE_DATA2 \<in> D then 0 else 1)) +
     (if z \<in> D then (case z of ZONE_MFT \<Rightarrow> 3 | ZONE_DATA1 \<Rightarrow> 2 | ZONE_DATA2 \<Rightarrow> 1) else 0)"

definition mark_done :: "alloc_state \<Rightarrow> alloc_state" where
  "mark_done st = st\<lparr>done_zones := insert (search_zone st) (done_zones st)\<rparr>"

lemma zone_rank_switch:
  assumes "done_zones (mark_done st) \<noteq> {ZONE_MFT, ZONE_DATA1, ZONE_DATA2}"
  shows "zone_rank (search_zone (switch_zone vol (mark_done st))) (done_zones (switch_zone vol (mark_done st))) <
    zone_rank (search_zone st) (done_zones st)"
  using assms unfolding all_zones
  by (cases "search_zone st") (auto simp: mark_done_def switch_zone_def zone_rank_def Let_def)

text \<open>
  From \<open>done_zones_check\<close> on: the zone is full, and the search goes on in the next zone that is
  not empty, or ends.
\<close>

function done_zones_check :: "'a lcn_volume \<Rightarrow> alloc_state \<Rightarrow> 'a lcn_volume \<times> alloc_state option" where
  "done_zones_check vol st =
     (let z = search_zone st; st1 = mark_done st; vol = vol\<lparr>full_zones := insert z (full_zones vol)\<rparr>
      in if done_zones st1 = {ZONE_MFT, ZONE_DATA1, ZONE_DATA2} then (vol, None)
         else
           let vol = (if al_rl st \<noteq> [] \<and> used_zone_pos st
                 then ntfs_cluster_update_zone_pos vol z
                        (rl_lcn (last (al_rl st)) + rl_length (last (al_rl st)) + NTFS_LCNALLOC_SKIP)
                 else vol);
               st2 = switch_zone vol st1;
               st2 = st2\<lparr>bmp_pos := zone_start st2\<rparr>
           in if zone_start st2 = zone_end st2 then done_zones_check vol st2 else (vol, Some st2))"
  by pat_completeness auto
termination
  by (relation "measure (\<lambda>(vol, st). zone_rank (search_zone st) (done_zones st))") (auto simp: zone_rank_switch)

declare done_zones_check.simps [simp del]

definition zone_pass_done :: "'a lcn_volume \<Rightarrow> alloc_state \<Rightarrow> 'a lcn_volume \<times> alloc_state option" where
  "zone_pass_done vol st =
     (if pass st = 1 then
        (let start = (case search_zone st of ZONE_MFT \<Rightarrow> mft_zone_start vol | ZONE_DATA1 \<Rightarrow> mft_zone_end vol
               | ZONE_DATA2 \<Rightarrow> 0)
         in (vol, Some (st\<lparr>pass := 2, zone_end := max (zone_start st) start, zone_start := start, bmp_pos := start\<rparr>)))
      else done_zones_check vol st)"

definition terminate_rl :: "runlist \<Rightarrow> runlist" where
  "terminate_rl rl = rl @ [\<lparr>rl_vcn = rl_vcn (last rl) + rl_length (last rl), rl_lcn = LCN_RL_NOT_MAPPED, rl_length = 0\<rparr>]"

text \<open>The jump to \<open>err_ret\<close>: what was allocated is freed again.\<close>

definition alloc_fail ::
    "(nat \<Rightarrow> bool) \<Rightarrow> 'a attr_ops \<Rightarrow> 'a lcn_volume \<Rightarrow> alloc_state \<Rightarrow> errno \<Rightarrow> ('a lcn_volume \<times> runlist result) option" where
  "alloc_fail mem aops vol st err =
     (if al_rl st = [] then Some (vol, Err err)
      else case ntfs_cluster_free_from_rl mem aops vol (terminate_rl (al_rl st)) of
        None \<Rightarrow> None | Some (vol, r) \<Rightarrow> Some (vol, Err err))"

datatype 'a alloc_out =
    Continue "'a lcn_volume" alloc_state
  | Return "('a lcn_volume \<times> runlist result) option"

definition next_pass ::
    "(nat \<Rightarrow> bool) \<Rightarrow> 'a attr_ops \<Rightarrow> 'a lcn_volume \<Rightarrow> alloc_state \<Rightarrow> 'a alloc_out" where
  "next_pass mem aops vol st =
     (case zone_pass_done vol st of
        (vol, Some st) \<Rightarrow> Continue vol st
      | (vol, None) \<Rightarrow> Return (alloc_fail mem aops vol st ENOSPC))"

text \<open>Where the search goes on after a window.\<close>

definition next_window :: "'a lcn_volume \<Rightarrow> alloc_state \<Rightarrow> nat \<Rightarrow> alloc_state" where
  "next_window vol st br =
     (if \<not> used_zone_pos st then
        (let start = (case search_zone st of ZONE_MFT \<Rightarrow> mft_zone_pos vol | ZONE_DATA1 \<Rightarrow> data1_zone_pos vol
               | ZONE_DATA2 \<Rightarrow> data2_zone_pos vol)
         in st\<lparr>used_zone_pos := True, zone_start := start, bmp_pos := start,
               pass := (if start = 0 \<or> start = mft_zone_start vol \<or> start = mft_zone_end vol then 2 else pass st)\<rparr>)
      else st\<lparr>bmp_pos := bmp_pos st + int br * 8\<rparr>)"

text \<open>One round of the outer loop.\<close>

definition alloc_round ::
    "(nat \<Rightarrow> bool) \<Rightarrow> 'a attr_ops \<Rightarrow> int \<Rightarrow> 'a lcn_volume \<Rightarrow> alloc_state \<Rightarrow> 'a alloc_out" where
  "alloc_round mem aops start_vcn vol st =
     (if search_zone st \<in> full_zones vol then next_pass mem aops vol st
      else
        let last_read_pos = bmp_pos st div 8
        in case na_pread aops (lcnbmp_na vol) last_read_pos NTFS_LCNALLOC_BSIZE of
             (na, Inl e) \<Rightarrow> Return (alloc_fail mem aops (vol\<lparr>lcnbmp_na := na\<rparr>) st e)
           | (na, Inr b) \<Rightarrow>
               let vol = vol\<lparr>lcnbmp_na := na\<rparr>
               in if b = [] then next_pass mem aops vol st
                  else
                    (case alloc_scan mem start_vcn vol (st\<lparr>bmp_pos := bmp_pos st div 8 * 8\<rparr>) b (bmp_pos st mod 8) False of
                       (vol, st, b, wb, NoMem) \<Rightarrow>
                         (case bitmap_writeback aops vol last_read_pos b wb of
                            (vol, None) \<Rightarrow> Return (alloc_fail mem aops vol st ENOMEM)
                          | (vol, Some e) \<Rightarrow> Return (alloc_fail mem aops vol st e))
                     | (vol, st, b, wb, Finished) \<Rightarrow>
                         (case bitmap_writeback aops vol last_read_pos b wb of
                            (vol, None) \<Rightarrow> Return (Some (vol, Ok (terminate_rl (al_rl st))))
                          | (vol, Some e) \<Rightarrow> Return (alloc_fail mem aops vol st e))
                     | (vol, st, b, wb, Exhausted) \<Rightarrow>
                         (case bitmap_writeback aops vol last_read_pos b wb of
                            (vol, Some e) \<Rightarrow> Return (alloc_fail mem aops vol st e)
                          | (vol, None) \<Rightarrow>
                              let st = next_window vol st (length b)
                              in if bmp_pos st < zone_end st then Continue vol st
                                 else next_pass mem aops vol st)))"

partial_function (option) alloc_loop ::
    "(nat \<Rightarrow> bool) \<Rightarrow> 'a attr_ops \<Rightarrow> int \<Rightarrow> 'a lcn_volume \<Rightarrow> alloc_state \<Rightarrow> ('a lcn_volume \<times> runlist result) option"
where
  "alloc_loop mem aops start_vcn vol st =
     (case alloc_round mem aops start_vcn vol st of
        Continue vol st \<Rightarrow> alloc_loop mem aops start_vcn vol st
      | Return r \<Rightarrow> r)"

definition alloc_start :: "'a lcn_volume \<Rightarrow> nat \<Rightarrow> int \<Rightarrow> NTFS_CLUSTER_ALLOCATION_ZONES \<Rightarrow> alloc_state" where
  "alloc_start vol count start_lcn zone =
     (let guess = (0 \<le> start_lcn);
          start = (if guess then start_lcn else if zone = DATA_ZONE then data1_zone_pos vol else mft_zone_pos vol)
      in \<lparr>zone_start = start,
          zone_end = (if start < mft_zone_start vol then mft_zone_start vol
             else if start < mft_zone_end vol then mft_zone_end vol else nr_clusters vol),
          bmp_pos = start, prev_lcn = 0, prev_run_len = 0, clusters = count, al_rl = [], rlsize = 0,
          pass = (if start = 0 \<or> start = mft_zone_start vol \<or> start = mft_zone_end vol then 2 else 1),
          search_zone = (if start < mft_zone_start vol then ZONE_DATA2
             else if start < mft_zone_end vol then ZONE_MFT else ZONE_DATA1),
          done_zones = {}, has_guess = guess, used_zone_pos = (\<not> guess)\<rparr>)"

definition ntfs_cluster_alloc ::
    "(nat \<Rightarrow> bool) \<Rightarrow> 'a attr_ops \<Rightarrow> 'a lcn_volume \<Rightarrow> int \<Rightarrow> int \<Rightarrow> int \<Rightarrow> NTFS_CLUSTER_ALLOCATION_ZONES \<Rightarrow>
       ('a lcn_volume \<times> runlist result) option" where
  "ntfs_cluster_alloc mem aops vol start_vcn count start_lcn zone =
     (if count < 0 \<or> start_lcn < -1 then Some (vol, Err EINVAL)
      else if count = 0 then
        Some (vol, if mem 0x1000 then Ok [\<lparr>rl_vcn = start_vcn, rl_lcn = LCN_RL_NOT_MAPPED, rl_length = 0\<rparr>]
                   else Err ENOMEM)
      else if \<not> mem (nat NTFS_LCNALLOC_BSIZE) then Some (vol, Err ENOMEM)
      else alloc_loop mem aops start_vcn vol (alloc_start vol (nat count) start_lcn zone))"

end
