(* ===== verification/Lcnalloc_Range.thy ===== *)
theory Lcnalloc_Range
  imports Lcnalloc
begin

text \<open>
  The search for a free range against its specification: the bytewise loop is a loop over all bits, and
  what it finds is a longest range of clear bits.
\<close>

section \<open>Bytes at once are bits one by one\<close>

lemma range_byte_bits: "range_byte x i s = fold (range_bit x i) [0..<8] s"
proof -
  have upt: "[0..<8] = [0, 1, 2, 3, 4, 5, 6, 7 :: nat]" by (simp add: upt_rec)
  obtain run mx st where s: "s = (run, mx, st)" by (cases s)
  consider "x = 0" | "x = 255" | "x \<noteq> 0" "x \<noteq> 255" by blast
  then show ?thesis
  proof cases
    case 1
    then show ?thesis unfolding upt s by (simp add: range_byte_def range_bit_def)
  next
    case 2
    then show ?thesis unfolding upt s by (simp add: range_byte_def range_bit_def)
  next
    case 3
    then show ?thesis unfolding s by (simp add: range_byte_def)
  qed
qed

definition range_step :: "bytes \<Rightarrow> nat \<Rightarrow> range_state \<Rightarrow> range_state" where
  "range_step buf k = (\<lambda>(run, mx, st).
     if bm_bit buf k then (if mx < run then (0, run, int k - int run) else (0, mx, st)) else (run + 1, mx, st))"

lemma range_loop_steps:
  "i \<le> length buf \<Longrightarrow> range_loop (drop i buf) i s = fold (range_step buf) [8 * i..<8 * length buf] s"
proof (induction "length buf - i" arbitrary: i s)
  case 0
  then show ?case by simp
next
  case (Suc n)
  then have i: "i < length buf" by simp
  have "range_bit (buf ! i) i j = range_step buf (8 * i + j)" if "j < 8" for j
    using that by (auto simp: range_bit_def range_step_def bm_bit_def fun_eq_iff algebra_simps)
  then have "fold (range_bit (buf ! i) i) [0..<8] s = fold (\<lambda>j. range_step buf (8 * i + j)) [0..<8] s"
    by (intro fold_cong) auto
  also have "\<dots> = fold (range_step buf) (map (\<lambda>j. 8 * i + j) [0..<8]) s" by (simp add: fold_map comp_def)
  also have "map (\<lambda>j. 8 * i + j) [0..<8] = [8 * i..<8 * Suc i]"
    by (rule nth_equalityI) auto
  finally have byte: "range_byte (buf ! i) i s = fold (range_step buf) [8 * i..<8 * Suc i] s"
    by (simp add: range_byte_bits)
  have "[8 * i..<8 * length buf] = [8 * i..<8 * Suc i] @ [8 * Suc i..<8 * length buf]"
    using upt_add_eq_append [of "8 * i" "8 * Suc i" "8 * length buf - 8 * Suc i"] i by simp
  then show ?case
    using Suc.hyps(1) [of "Suc i" "range_byte (buf ! i) i s"] Suc.hyps(2) i byte
    by (simp add: Cons_nth_drop_Suc [symmetric])
qed

section \<open>Longest ranges\<close>

definition clear :: "bytes \<Rightarrow> nat \<Rightarrow> nat \<Rightarrow> bool" where
  "clear buf p n \<longleftrightarrow> (\<forall>k. p \<le> k \<and> k < p + n \<longrightarrow> \<not> bm_bit buf k)"

definition range_inv :: "bytes \<Rightarrow> nat \<Rightarrow> range_state \<Rightarrow> bool" where
  "range_inv buf k = (\<lambda>(run, mx, st).
     run \<le> k \<and> clear buf (k - run) run \<and> (\<forall>p \<le> k. clear buf p (k - p) \<longrightarrow> k - p \<le> run) \<and>
     (mx = 0 \<and> st = -1 \<or> (\<exists>p. st = int p \<and> 0 < mx \<and> p + mx \<le> k \<and> clear buf p mx)) \<and>
     (\<forall>p n. p + n \<le> k \<and> clear buf p n \<longrightarrow> n \<le> max mx run))"

lemma range_inv_step:
  assumes "range_inv buf k s"
  shows "range_inv buf (Suc k) (range_step buf k s)"
proof -
  obtain run mx st where s: "s = (run, mx, st)" by (cases s)
  have inv: "run \<le> k" "clear buf (k - run) run" "\<And>p. p \<le> k \<Longrightarrow> clear buf p (k - p) \<Longrightarrow> k - p \<le> run"
    "mx = 0 \<and> st = -1 \<or> (\<exists>p. st = int p \<and> 0 < mx \<and> p + mx \<le> k \<and> clear buf p mx)"
    "\<And>p n. p + n \<le> k \<Longrightarrow> clear buf p n \<Longrightarrow> n \<le> max mx run"
    using assms by (auto simp: range_inv_def s)
  show ?thesis
  proof (cases "bm_bit buf k")
    case True
    have no_k: "n = 0 \<or> p + n \<le> k" if "p + n \<le> Suc k" "clear buf p n" for p n
    proof (rule ccontr)
      assume "\<not> (n = 0 \<or> p + n \<le> k)"
      then have "p \<le> k \<and> k < p + n" using that(1) by auto
      then show False using that(2) True by (auto simp: clear_def)
    qed
    have mx: "n \<le> max mx run" if "p + n \<le> Suc k" "clear buf p n" for p n
      using no_k [OF that] that(2) inv(5) [of p n] by auto
    have ends: "\<forall>p \<le> Suc k. clear buf p (Suc k - p) \<longrightarrow> Suc k - p \<le> 0"
    proof (intro allI impI)
      fix p assume "p \<le> Suc k" "clear buf p (Suc k - p)"
      then show "Suc k - p \<le> 0" using no_k [of p "Suc k - p"] by simp
    qed
    show ?thesis
    proof (cases "mx < run")
      case rec: True
      have "\<exists>p. int k - int run = int p \<and> 0 < run \<and> p + run \<le> Suc k \<and> clear buf p run"
        using rec inv(1,2) by (intro exI [of _ "k - run"]) (auto simp: of_nat_diff)
      then show ?thesis using True rec ends mx by (auto simp: range_inv_def range_step_def s clear_def)
    next
      case False
      then show ?thesis using True ends mx inv(4) by (auto simp: range_inv_def range_step_def s clear_def)
    qed
  next
    case False
    have "clear buf (k - run) (Suc run)"
      using inv(1,2) False by (auto simp: clear_def less_Suc_eq)
    moreover have ends: "Suc k - p \<le> Suc run" if "p \<le> Suc k" "clear buf p (Suc k - p)" for p
    proof (cases "p = Suc k")
      case False
      then have "p \<le> k" "clear buf p (k - p)" using that by (auto simp: clear_def)
      then show ?thesis using inv(3) [of p] by simp
    qed simp
    moreover have "n \<le> max mx (Suc run)" if "p + n \<le> Suc k" "clear buf p n" for p n
    proof (cases "p + n = Suc k")
      case True
      then have "n = Suc k - p" "p \<le> Suc k" by auto
      then show ?thesis using ends [of p] that(2) by simp
    next
      case False
      then show ?thesis using inv(5) [of p n] that by auto
    qed
    moreover have "mx = 0 \<and> st = -1 \<or> (\<exists>p. st = int p \<and> 0 < mx \<and> p + mx \<le> Suc k \<and> clear buf p mx)"
      using inv(4) by force
    ultimately show ?thesis
      using False inv(1) by (auto simp: range_inv_def range_step_def s)
  qed
qed

lemma range_inv_fold: "range_inv buf k s \<Longrightarrow> k \<le> n \<Longrightarrow> range_inv buf n (fold (range_step buf) [k..<n] s)"
proof (induction n)
  case (Suc n)
  then show ?case by (cases "k \<le> n") (auto intro: range_inv_step simp: le_Suc_eq)
qed simp

lemma max_empty_bit_range_cases:
  obtains (none) "max_empty_bit_range buf = -1" and "\<forall>k < 8 * length buf. bm_bit buf k"
  | (range) p n where "max_empty_bit_range buf = int p" and "0 < n" and "p + n \<le> 8 * length buf" and "clear buf p n"
    and "\<forall>q m. q + m \<le> 8 * length buf \<and> clear buf q m \<longrightarrow> m \<le> n"
proof -
  let ?N = "8 * length buf"
  have start: "range_inv buf 0 (0, 0, -1)" by (auto simp: range_inv_def clear_def)
  obtain run mx st where res: "range_loop buf 0 (0, 0, -1) = (run, mx, st)" using prod_cases3 by blast
  have inv: "range_inv buf ?N (run, mx, st)"
    using range_inv_fold [OF start, of ?N] range_loop_steps [of 0 buf "(0, 0, -1)"] res by simp
  then have i: "run \<le> ?N" "clear buf (?N - run) run" "mx = 0 \<and> st = -1 \<or> (\<exists>p. st = int p \<and> 0 < mx \<and> p + mx \<le> ?N \<and> clear buf p mx)"
    "\<And>p n. p + n \<le> ?N \<Longrightarrow> clear buf p n \<Longrightarrow> n \<le> max mx run"
    by (auto simp: range_inv_def)
  have r: "max_empty_bit_range buf = (if mx < run then int (?N - run) else st)"
    using i(1) by (simp add: max_empty_bit_range_def res of_nat_diff mult.commute)
  consider "mx < run" | "\<not> mx < run" "mx = 0" | "\<not> mx < run" "0 < mx" by linarith
  then show thesis
  proof cases
    case 1
    then show thesis using range [of "?N - run" run] i(1,2,4) r by auto
  next
    case 2
    have "bm_bit buf k" if "k < ?N" for k
    proof (rule ccontr)
      assume "\<not> bm_bit buf k"
      then have "clear buf k 1" by (auto simp: clear_def less_Suc_eq)
      then show False using i(4) [of k 1] 2 that by simp
    qed
    then show thesis using none 2 i(3) r by auto
  next
    case 3
    then obtain p where "st = int p" "p + mx \<le> ?N" "clear buf p mx" using i(3) by auto
    then show thesis using range [of p mx] 3 i(4) r by auto
  qed
qed

text \<open>(C23) The search over a window of the bitmap returns the start of a longest range of clear bits,
  and -1 exactly if every bit is set.\<close>

theorem max_empty_bit_range_longest:
  "if \<forall>k < 8 * length buf. bm_bit buf k then max_empty_bit_range buf = -1
   else \<exists>p n. max_empty_bit_range buf = int p \<and> 0 < n \<and> p + n \<le> 8 * length buf \<and> clear buf p n \<and>
     (\<forall>q m. q + m \<le> 8 * length buf \<and> clear buf q m \<longrightarrow> m \<le> n)"
proof (rule max_empty_bit_range_cases [of buf])
  fix p n assume r: "max_empty_bit_range buf = int p" "0 < n" "p + n \<le> 8 * length buf" "clear buf p n"
    "\<forall>q m. q + m \<le> 8 * length buf \<and> clear buf q m \<longrightarrow> m \<le> n"
  then have "\<not> bm_bit buf p" "p < 8 * length buf" by (auto simp: clear_def)
  then have "\<not> (\<forall>k < 8 * length buf. bm_bit buf k)" by blast
  then show ?thesis using r by auto
qed auto

theorem max_empty_bit_range_longest_witness:
  "\<exists>p n. max_empty_bit_range [0xff, 0x0f, 0xf0] = int p \<and> 0 < n \<and> p + n \<le> 24 \<and> clear [0xff, 0x0f, 0xf0] p n \<and> 8 \<le> n"
proof -
  have bits: "\<not> bm_bit [0xff, 0x0f, 0xf0] 12" "list_all (\<lambda>k. \<not> bm_bit [0xff, 0x0f, 0xf0] k) [12..<20]"
    by code_simp+
  from bits(2) have "clear [0xff, 0x0f, 0xf0] 12 8"
    unfolding clear_def list_all_iff atLeastLessThan_upt [symmetric] by simp
  moreover have "12 < 8 * length [0xff, 0x0f, 0xf0 :: u8]" by simp
  with bits(1) have "\<not> (\<forall>k < 8 * length [0xff, 0x0f, 0xf0 :: u8]. bm_bit [0xff, 0x0f, 0xf0] k)" by blast
  then obtain p n where "max_empty_bit_range [0xff, 0x0f, 0xf0] = int p" "0 < n"
      "p + n \<le> 8 * length [0xff, 0x0f, 0xf0 :: u8]" "clear [0xff, 0x0f, 0xf0] p n"
      "\<forall>q m. q + m \<le> 8 * length [0xff, 0x0f, 0xf0 :: u8] \<and> clear [0xff, 0x0f, 0xf0] q m \<longrightarrow> m \<le> n"
    using max_empty_bit_range_longest [of "[0xff, 0x0f, 0xf0]"] by (simp only: if_False) blast
  moreover from this(5) have "12 + 8 \<le> 8 * length [0xff, 0x0f, 0xf0 :: u8] \<and> clear [0xff, 0x0f, 0xf0] 12 8 \<longrightarrow> 8 \<le> n"
    by blast
  ultimately show ?thesis by (intro exI [of _ p] exI [of _ n]) simp
qed

end
