(* ===== verification/Lcnalloc_Free.thy ===== *)
theory Lcnalloc_Free
  imports Lcnalloc_Range
begin

text \<open>
  Freeing clusters clears exactly their bits and counts exactly them, over any attribute that
  keeps its interface.
\<close>

text \<open>The clusters of a runlist that are on the volume.\<close>

definition real_cells :: "runlist \<Rightarrow> int list" where
  "real_cells rs = filter (\<lambda>x. 0 \<le> x) (cells rs)"

lemma real_cells_simps [simp]:
  "real_cells [] = []" "real_cells (e # es) = (if 0 \<le> rl_lcn e then run_cells e else []) @ real_cells es"
  by (auto simp: real_cells_def run_cells_def filter_empty_conv)

lemma real_cells_all: "\<forall>e \<in> set rs. 0 \<le> rl_lcn e \<Longrightarrow> real_cells rs = cells rs"
  by (induction rs) auto

lemma set_run_cells: "0 \<le> rl_lcn e \<Longrightarrow> set (run_cells e) = {rl_lcn e..<rl_lcn e + rl_length e}"
proof (intro set_eqI iffI)
  fix x assume "0 \<le> rl_lcn e" "x \<in> {rl_lcn e..<rl_lcn e + rl_length e}"
  then show "x \<in> set (run_cells e)"
    by (auto simp: run_cells_def intro!: image_eqI [of _ _ "nat (x - rl_lcn e)"])
qed (auto simp: run_cells_def)

definition cleared :: "int set \<Rightarrow> bytes \<Rightarrow> bytes \<Rightarrow> bool" where
  "cleared A c c' \<longleftrightarrow> length c' = length c \<and> (\<forall>k < 8 * length c. bm_bit c' k \<longleftrightarrow> bm_bit c k \<and> int k \<notin> A)"

lemma cleared_refl [simp]: "cleared {} c c"
  by (simp add: cleared_def)

lemma cleared_trans: "cleared A c c1 \<Longrightarrow> cleared B c1 c2 \<Longrightarrow> cleared (A \<union> B) c c2"
  by (auto simp: cleared_def)

lemma cleared_run: "bits_put False p (p + n) c c' \<Longrightarrow> cleared {int p..<int p + int n} c c'"
  by (auto simp: cleared_def bits_put_def)

text \<open>The fields freeing leaves alone.\<close>

definition same_volume :: "'a lcn_volume \<Rightarrow> 'a lcn_volume \<Rightarrow> bool" where
  "same_volume vol vol' \<longleftrightarrow> nr_clusters vol' = nr_clusters vol \<and> mft_lcn vol' = mft_lcn vol \<and>
     mft_zone_start vol' = mft_zone_start vol \<and> mft_zone_end vol' = mft_zone_end vol"

lemma same_volume_refl [simp]: "same_volume vol vol"
  by (simp add: same_volume_def)

lemma same_volume_trans: "same_volume a b \<Longrightarrow> same_volume b c \<Longrightarrow> same_volume a c"
  by (simp add: same_volume_def)

lemma update_zone_pos_simps [simp]:
  "lcnbmp_na (ntfs_cluster_update_zone_pos vol z tc) = lcnbmp_na vol"
  "free_clusters (ntfs_cluster_update_zone_pos vol z tc) = free_clusters vol"
  "full_zones (ntfs_cluster_update_zone_pos vol z tc) = full_zones vol"
  "same_volume vol (ntfs_cluster_update_zone_pos vol z tc)"
  by (simp_all add: ntfs_cluster_update_zone_pos_def same_volume_def split: zone.splits)

lemma update_full_status_simps [simp]:
  "lcnbmp_na (update_full_status vol lcn) = lcnbmp_na vol"
  "free_clusters (update_full_status vol lcn) = free_clusters vol"
  "same_volume vol (update_full_status vol lcn)"
  using update_zone_pos_simps(4) [of vol "zone_of vol lcn" lcn]
  by (auto simp: update_full_status_def Let_def same_volume_def)

text \<open>The bitmap of the clusters of a volume is an attribute that keeps its interface.\<close>

locale cluster_bitmap = byte_attr aops content ok
  for aops :: "'a attr_ops" and content :: "'a \<Rightarrow> bytes" and ok :: "'a \<Rightarrow> bool"
begin

text \<open>Clearing a run of clusters that lies in the bitmap.\<close>

lemma clear_run_exact:
  assumes "ok na" and "0 \<le> lcn" and "0 \<le> n" and "lcn + n \<le> 8 * int (length (content na))"
    and "8 * length (content na) + 8 \<le> 2 ^ 34" and "\<forall>k \<le> 8192. mem k"
  shows "\<exists>na'. ntfs_bitmap_clear_run mem aops na lcn n = Some (na', Ok ()) \<and>
    cleared {lcn..<lcn + n} (content na) (content na') \<and> ok na'"
proof -
  have "nat lcn + nat n \<le> 8 * length (content na)" using assms(2-4) by simp
  then obtain na' where "ntfs_bitmap_set_bits_in_run mem aops na (int (nat lcn)) (int (nat n)) False = Some (na', Ok ())"
    "bits_put False (nat lcn) (nat lcn + nat n) (content na) (content na')" "ok na'"
    using set_bits_exact [OF assms(1), of "nat lcn" "nat n" mem False] assms(5,6) by auto
  then show ?thesis using cleared_run assms(2,3) by (fastforce simp: ntfs_bitmap_clear_run_def)
qed

lemma free_rl_loop_exact:
  assumes "ok (lcnbmp_na vol)" and "\<forall>e \<in> set rs. 0 < rl_length e" and "rl_length t = 0"
    and "\<forall>x \<in> set (real_cells rs). x < 8 * int (length (content (lcnbmp_na vol)))"
    and "8 * length (content (lcnbmp_na vol)) + 8 \<le> 2 ^ 34" and "\<forall>k \<le> 8192. mem k"
  shows "\<exists>vol'. free_rl_loop mem aops vol (rs @ t # rest) n = Some (vol', n + int (length (real_cells rs)), Ok ()) \<and>
    cleared (set (real_cells rs)) (content (lcnbmp_na vol)) (content (lcnbmp_na vol')) \<and> ok (lcnbmp_na vol') \<and>
    free_clusters vol' = free_clusters vol \<and> same_volume vol vol'"
  using assms
proof (induction rs arbitrary: vol n)
  case (Cons e rs)
  show ?case
  proof (cases "0 \<le> rl_lcn e")
    case False
    then show ?thesis using Cons.IH [of vol n] Cons.prems by auto
  next
    case True
    let ?v = "update_full_status vol (rl_lcn e)"
    have len: "0 < rl_length e" using Cons.prems(2) by simp
    have "rl_lcn e + rl_length e - 1 \<in> set (real_cells (e # rs))"
      using True len by (simp add: set_run_cells)
    from bspec [OF Cons.prems(4) this]
    have fit: "rl_lcn e + rl_length e \<le> 8 * int (length (content (lcnbmp_na vol)))" by simp
    obtain na' where na': "ntfs_bitmap_clear_run mem aops (lcnbmp_na vol) (rl_lcn e) (rl_length e) = Some (na', Ok ())"
      "cleared {rl_lcn e..<rl_lcn e + rl_length e} (content (lcnbmp_na vol)) (content na')" "ok na'"
      using clear_run_exact [OF Cons.prems(1) True _ fit Cons.prems(5,6)] len by auto
    have lenc: "length (content na') = length (content (lcnbmp_na vol))" using na'(2) by (simp add: cleared_def)
    let ?v' = "?v\<lparr>lcnbmp_na := na'\<rparr>"
    obtain vol' where vol': "free_rl_loop mem aops ?v' (rs @ t # rest) (n + rl_length e) =
        Some (vol', n + rl_length e + int (length (real_cells rs)), Ok ())"
      "cleared (set (real_cells rs)) (content na') (content (lcnbmp_na vol'))" "ok (lcnbmp_na vol')"
      "free_clusters vol' = free_clusters vol" "same_volume ?v' vol'"
      using Cons.IH [of ?v' "n + rl_length e"] Cons.prems na'(3) lenc by auto
    have "same_volume vol vol'"
      using same_volume_trans [OF update_full_status_simps(3) [of vol "rl_lcn e"]] vol'(5) by (simp add: same_volume_def)
    moreover have "cleared (set (real_cells (e # rs))) (content (lcnbmp_na vol)) (content (lcnbmp_na vol'))"
      using cleared_trans [OF na'(2) vol'(2)] True by (simp add: set_run_cells)
    ultimately show ?thesis
      using True len na'(1) vol' by (auto simp: Let_def add.assoc)
  qed
qed auto

end

end
