(* ===== verification/Lcnalloc_Alloc.thy ===== *)
theory Lcnalloc_Alloc
  imports Lcnalloc_Free
begin

text \<open>
  The allocator takes only clusters that were free, marks exactly these, and undoes everything
  when it fails; it always returns.
\<close>

section \<open>The runlist under construction\<close>

definition rl_built :: "int \<Rightarrow> alloc_state \<Rightarrow> bool" where
  "rl_built sv st \<longleftrightarrow> runs_from sv (al_rl st) \<and> (\<forall>e \<in> set (al_rl st). 0 \<le> rl_lcn e) \<and>
     (al_rl st \<noteq> [] \<longrightarrow> prev_lcn st = rl_lcn (last (al_rl st)) \<and> prev_run_len st = rl_length (last (al_rl st)))"

lemma run_cells_extend:
  assumes "0 \<le> rl_lcn e" and "0 \<le> rl_length e"
  shows "run_cells (e\<lparr>rl_length := rl_length e + 1\<rparr>) = run_cells e @ [rl_lcn e + rl_length e]"
proof -
  have "nat (rl_length e + 1) = Suc (nat (rl_length e))" using assms(2) by simp
  then show ?thesis using assms by (simp add: run_cells_def)
qed

lemma push_cluster_built:
  assumes "rl_built sv st" and "0 \<le> c"
  shows "rl_built sv (push_cluster sv c st)" and "cells (al_rl (push_cluster sv c st)) = cells (al_rl st) @ [c]"
proof -
  have "rl_built sv (push_cluster sv c st) \<and> cells (al_rl (push_cluster sv c st)) = cells (al_rl st) @ [c]"
  proof (cases "al_rl st = []")
    case True
    then show ?thesis using assms(2) by (simp add: rl_built_def push_cluster_def run_cells_def lcn_defs)
  next
    case False
    then obtain rs e where rl: "al_rl st = rs @ [e]" by (metis rev_exhaust)
    have b: "runs_from sv rs" "rl_vcn e = sv + runs_len rs" "0 < rl_length e" "0 \<le> rl_lcn e" "\<forall>e \<in> set rs. 0 \<le> rl_lcn e"
      "prev_lcn st = rl_lcn e" "prev_run_len st = rl_length e"
      using assms(1) rl by (auto simp: rl_built_def)
    show ?thesis
    proof (cases "rl_lcn e = c - rl_length e")
      case True
      then show ?thesis
        using b rl run_cells_extend [of e] by (auto simp: rl_built_def push_cluster_def Let_def lcn_defs)
    next
      case False
      then show ?thesis
        using b rl assms(2) by (auto simp: rl_built_def push_cluster_def Let_def lcn_defs run_cells_def)
    qed
  qed
  then show "rl_built sv (push_cluster sv c st)" and "cells (al_rl (push_cluster sv c st)) = cells (al_rl st) @ [c]"
    by auto
qed

lemma record_taken_built:
  assumes "rl_built sv st" and "0 \<le> c"
  shows "rl_built sv (record_taken sv c st)" and "cells (al_rl (record_taken sv c st)) = cells (al_rl st) @ [c]"
proof -
  have "rl_built sv (rl_grow st)" "al_rl (rl_grow st) = al_rl st"
    using assms(1) by (simp_all add: rl_grow_def rl_built_def)
  then show "rl_built sv (record_taken sv c st)" and "cells (al_rl (record_taken sv c st)) = cells (al_rl st) @ [c]"
    using push_cluster_built [of sv "rl_grow st" c] assms(2) by (simp_all add: record_taken_def rl_built_def)
qed

section \<open>What has been taken so far\<close>

text \<open>
  The bitmap is the original one with exactly the clusters of the runlist set, and these were
  clear; together with the clusters still wanted they are the requested number.
\<close>

definition alloc_ok :: "bytes \<Rightarrow> int \<Rightarrow> nat \<Rightarrow> int \<Rightarrow> bytes \<Rightarrow> 'a lcn_volume \<Rightarrow> alloc_state \<Rightarrow> bool" where
  "alloc_ok c0 F0 N sv d vol st \<longleftrightarrow>
     length d = length c0 \<and>
     (\<forall>k < 8 * length c0. bm_bit d k \<longleftrightarrow> bm_bit c0 k \<or> int k \<in> set (cells (al_rl st))) \<and>
     (\<forall>x \<in> set (cells (al_rl st)). 0 \<le> x \<and> x < 8 * int (length c0) \<and> \<not> bm_bit c0 (nat x)) \<and>
     distinct (cells (al_rl st)) \<and> rl_built sv st \<and> length (cells (al_rl st)) + clusters st = N \<and>
     (int N \<le> F0 \<longrightarrow> free_clusters vol = F0 - int (length (cells (al_rl st))))"

lemma bm_bit_put_at:
  assumes "p + length buf \<le> length c" and "j < 8 * length c"
  shows "bm_bit (put_at c p buf) j = (if 8 * p \<le> j \<and> j < 8 * (p + length buf) then bm_bit buf (j - 8 * p) else bm_bit c j)"
proof (cases "8 * p \<le> j \<and> j < 8 * (p + length buf)")
  case True
  define i where "i = j - 8 * p"
  have j: "j = 8 * p + i" using True by (simp add: i_def)
  then have "i < 8 * length buf" using True by simp
  then show ?thesis using assms unfolding j by (auto simp: bm_bit_def nth_put_at)
next
  case False
  then have "\<not> (p \<le> j div 8 \<and> j div 8 < p + length buf)" by auto
  then show ?thesis using False assms by (auto simp: bm_bit_def nth_put_at)
qed

lemma put_at_window: "put_at c p (take n (drop p c)) = c"
proof -
  have "drop (p + length (take n (drop p c))) c = drop n (drop p c)" by (auto simp: min_def add.commute)
  then show ?thesis by (simp only: put_at_def append_take_drop_id)
qed

lemma length_mark_bit [simp]: "length (mark_bit buf k) = length buf"
  by (simp add: mark_bit_def)

lemma bm_bit_mark_bit:
  assumes "k < 8 * length buf" and "j < 8 * length buf"
  shows "bm_bit (mark_bit buf k) j \<longleftrightarrow> j = k \<or> bm_bit buf j"
proof (cases "j div 8 = k div 8")
  case True
  moreover have "j = k \<longleftrightarrow> j mod 8 = k mod 8" using True by (metis div_mult_mod_eq)
  ultimately show ?thesis using assms by (auto simp: bm_bit_def mark_bit_def)
qed (auto simp: bm_bit_def mark_bit_def)

lemma alloc_ok_take:
  assumes "alloc_ok c0 F0 N sv (put_at c p buf) vol st" and "p + length buf \<le> length c" and "bmp_pos st = 8 * int p"
    and "k < 8 * length buf" and "\<not> bm_bit buf k" and "0 < clusters st"
  shows "alloc_ok c0 F0 N sv (put_at c p (mark_bit buf k)) (count_taken vol) (record_taken sv (int k + bmp_pos st) st)"
proof -
  let ?rl = "al_rl st"
  define x where "x = 8 * p + k"
  have c: "int k + bmp_pos st = int x" using assms(3) by (simp add: x_def)
  have inv: "length c = length c0" "\<And>j. j < 8 * length c0 \<Longrightarrow> bm_bit (put_at c p buf) j \<longleftrightarrow> bm_bit c0 j \<or> int j \<in> set (cells ?rl)"
    "\<forall>x \<in> set (cells ?rl). 0 \<le> x \<and> x < 8 * int (length c0) \<and> \<not> bm_bit c0 (nat x)"
    "distinct (cells ?rl)" "rl_built sv st" "length (cells ?rl) + clusters st = N"
    "int N \<le> F0 \<longrightarrow> free_clusters vol = F0 - int (length (cells ?rl))"
    using assms(1,2) by (auto simp: alloc_ok_def)
  have lt: "x < 8 * length c0" using assms(2,4) inv(1) by (simp add: x_def)
  have "\<not> bm_bit (put_at c p buf) x" using assms(2,4,5) lt inv(1) by (simp add: bm_bit_put_at x_def)
  then have fresh: "\<not> bm_bit c0 x" "int x \<notin> set (cells ?rl)" using inv(2) [OF lt] by auto
  have bits: "bm_bit (put_at c p (mark_bit buf k)) j \<longleftrightarrow> bm_bit (put_at c p buf) j \<or> j = x" if "j < 8 * length c0" for j
  proof (cases "8 * p \<le> j \<and> j < 8 * (p + length buf)")
    case True
    then have "j - 8 * p < 8 * length buf" "j = x \<longleftrightarrow> j - 8 * p = k" by (auto simp: x_def)
    then show ?thesis using True that assms(2,4) inv(1) by (auto simp: bm_bit_put_at bm_bit_mark_bit)
  qed (use that assms(2,4) inv(1) in \<open>auto simp: bm_bit_put_at x_def\<close>)
  note b = record_taken_built [OF inv(5), of "int x"]
  have "int x < 8 * int (length c0)" using lt by linarith
  then show ?thesis
    unfolding alloc_ok_def c using inv assms(2,6) lt fresh bits b by (auto simp: count_taken_def)
qed

section \<open>A window\<close>

lemma alloc_ok_cong:
  assumes "free_clusters vol' = free_clusters vol" and "al_rl st' = al_rl st" and "prev_lcn st' = prev_lcn st"
    and "prev_run_len st' = prev_run_len st" and "clusters st' = clusters st"
  shows "alloc_ok c0 F0 N sv d vol' st' = alloc_ok c0 F0 N sv d vol st"
  using assms by (simp add: alloc_ok_def rl_built_def)

definition same_search :: "alloc_state \<Rightarrow> alloc_state \<Rightarrow> bool" where
  "same_search st st' \<longleftrightarrow> zone_start st' = zone_start st \<and> zone_end st' = zone_end st \<and> bmp_pos st' = bmp_pos st \<and>
     pass st' = pass st \<and> search_zone st' = search_zone st \<and> done_zones st' = done_zones st \<and>
     used_zone_pos st' = used_zone_pos st"

definition zones_ok :: "'a lcn_volume \<Rightarrow> bool" where
  "zones_ok vol \<longleftrightarrow> 0 \<le> mft_lcn vol \<and> 0 \<le> mft_zone_start vol \<and> 0 \<le> mft_zone_end vol \<and> 0 \<le> mft_zone_pos vol \<and>
     0 \<le> data1_zone_pos vol \<and> 0 \<le> data2_zone_pos vol"

lemma zones_ok_update [simp]: "zones_ok vol \<Longrightarrow> zones_ok (ntfs_cluster_update_zone_pos vol z tc)"
  by (auto simp: zones_ok_def ntfs_cluster_update_zone_pos_def ntfs_cluster_set_zone_pos_def split: zone.splits)

text \<open>Volumes that differ in the counters and positions only.\<close>

definition scan_frame :: "'a lcn_volume \<Rightarrow> 'a lcn_volume \<Rightarrow> bool" where
  "scan_frame vol vol' \<longleftrightarrow> lcnbmp_na vol' = lcnbmp_na vol \<and> full_zones vol' = full_zones vol \<and> same_volume vol vol' \<and>
     (zones_ok vol \<longrightarrow> zones_ok vol')"

lemma scan_frame_trans: "scan_frame a b \<Longrightarrow> scan_frame b c \<Longrightarrow> scan_frame a c"
  by (auto simp: scan_frame_def intro: same_volume_trans)

lemma scan_frame_simps [simp]:
  "scan_frame vol vol" "scan_frame vol (count_taken vol)" "scan_frame vol (ntfs_cluster_update_zone_pos vol z tc)"
  by (auto simp: scan_frame_def count_taken_def same_volume_def zones_ok_def)
    (simp_all add: ntfs_cluster_update_zone_pos_def ntfs_cluster_set_zone_pos_def split: zone.splits)

definition scan_ok ::
    "bytes \<Rightarrow> int \<Rightarrow> nat \<Rightarrow> int \<Rightarrow> bytes \<Rightarrow> nat \<Rightarrow> 'a lcn_volume \<Rightarrow> alloc_state \<Rightarrow> nat \<Rightarrow>
       'a lcn_volume \<times> alloc_state \<times> bytes \<times> bool \<times> scan_end \<Rightarrow> bool" where
  "scan_ok c0 F0 N sv c p vol st n = (\<lambda>(vol', st', buf', wb', e).
     alloc_ok c0 F0 N sv (put_at c p buf') vol' st' \<and> length buf' = n \<and>
     (wb' \<or> put_at c p buf' = c) \<and> same_search st st' \<and> scan_frame vol vol' \<and>
     (if e = Finished then clusters st' = 0 else 0 < clusters st'))"

lemma alloc_scan_ok:
  assumes "alloc_ok c0 F0 N sv (put_at c p buf) vol st" and "p + length buf \<le> length c" and "bmp_pos st = 8 * int p"
    and "0 \<le> lcn" and "0 < clusters st" and "wb \<or> put_at c p buf = c"
  shows "scan_ok c0 F0 N sv c p vol st (length buf) (alloc_scan mem sv vol st buf lcn wb)"
  using assms
proof (induction mem sv vol st buf lcn wb rule: alloc_scan.induct)
  case (1 mem sv vol st buf lcn wb)
  note prems = "1.prems"
  show ?case
  proof (cases "int (length buf) * 8 \<le> lcn")
    case True
    then show ?thesis
      using prems by (subst alloc_scan.simps) (simp add: scan_ok_def same_search_def)
  next
    case inside: False
    then have k: "nat lcn < 8 * length buf" "int (nat lcn) = lcn" using prems(4) by auto
    show ?thesis
    proof (cases "has_guess st")
      case guess: True
      consider (stop) "bm_bit buf (nat lcn)" | (nomem) "\<not> bm_bit buf (nat lcn)" "rl_full st" "\<not> mem (rlsize (rl_grow st))"
        | (go) "\<not> bm_bit buf (nat lcn)" "\<not> (rl_full st \<and> \<not> mem (rlsize (rl_grow st)))" by blast
      then show ?thesis
      proof cases
        case stop
        then show ?thesis
          using prems inside guess alloc_ok_cong [of vol vol "st\<lparr>has_guess := False\<rparr>" st c0 F0 N sv "put_at c p buf"]
          by (subst alloc_scan.simps) (simp add: scan_ok_def same_search_def)
      next
        case nomem
        then show ?thesis
          using prems inside guess alloc_ok_cong [of vol vol "rl_grow st" st c0 F0 N sv "put_at c p buf"]
          by (subst alloc_scan.simps) (simp add: scan_ok_def same_search_def rl_grow_def)
      next
        case go
        let ?buf = "mark_bit buf (nat lcn)" and ?vol = "count_taken vol" and ?st = "record_taken sv (lcn + bmp_pos st) st"
        have ok: "alloc_ok c0 F0 N sv (put_at c p ?buf) ?vol ?st"
          using alloc_ok_take [OF prems(1,2,3) k(1) go(1) prems(5)] unfolding k(2) .
        show ?thesis
        proof (cases "clusters ?st = 0")
          case True
          have "alloc_scan mem sv vol st buf lcn wb =
              (if used_zone_pos ?st
               then ntfs_cluster_update_zone_pos ?vol (search_zone ?st) (lcn + bmp_pos st + 1 + NTFS_LCNALLOC_SKIP)
               else ?vol, ?st, ?buf, True, Finished)"
            using inside guess go True by (subst alloc_scan.simps) (simp add: Let_def)
          moreover have "scan_frame vol (ntfs_cluster_update_zone_pos ?vol z tc)" for z tc
            by (rule scan_frame_trans [of _ ?vol]) simp_all
          ultimately show ?thesis
            using ok True alloc_ok_cong [of "ntfs_cluster_update_zone_pos ?vol (search_zone ?st)
              (lcn + bmp_pos st + 1 + NTFS_LCNALLOC_SKIP)" ?vol ?st ?st c0 F0 N sv "put_at c p ?buf"]
            by (auto simp: scan_ok_def same_search_def)
        next
          case False
          have "scan_ok c0 F0 N sv c p ?vol ?st (length ?buf) (alloc_scan mem sv ?vol ?st ?buf (lcn + 1) True)"
            by (rule "1.IH"(1)) (use inside guess go False ok prems in auto)
          moreover have "alloc_scan mem sv vol st buf lcn wb = alloc_scan mem sv ?vol ?st ?buf (lcn + 1) True"
            using inside guess go False by (subst alloc_scan.simps) (auto simp: Let_def)
          ultimately show ?thesis
            using scan_frame_trans [of vol ?vol] by (auto simp: scan_ok_def same_search_def)
        qed
      qed
    next
      case noguess: False
      show ?thesis
      proof (cases "max_empty_bit_range buf < 0")
        case True
        then show ?thesis
          using prems inside noguess by (subst alloc_scan.simps) (simp add: scan_ok_def same_search_def)
      next
        case False
        let ?st = "st\<lparr>has_guess := True\<rparr>"
        have "alloc_ok c0 F0 N sv (put_at c p buf) vol ?st"
          using prems(1) alloc_ok_cong [of vol vol ?st st c0 F0 N sv "put_at c p buf"] by simp
        then have "scan_ok c0 F0 N sv c p vol ?st (length buf)
            (alloc_scan mem sv vol ?st buf (max_empty_bit_range buf) wb)"
          by (intro "1.IH"(2)) (use inside noguess False prems in auto)
        moreover have "alloc_scan mem sv vol st buf lcn wb = alloc_scan mem sv vol ?st buf (max_empty_bit_range buf) wb"
          using inside noguess False by (subst alloc_scan.simps) (simp add: Let_def)
        ultimately show ?thesis by (auto simp: scan_ok_def same_search_def)
      qed
    qed
  qed
qed

section \<open>Progress\<close>

text \<open>
  Every round that goes on comes closer to the end: it leaves the hint, leaves a zone, leaves the
  first pass of a zone, or advances in the zone.
\<close>

definition search_order :: "(alloc_state \<times> alloc_state) set" where
  "search_order = measures [\<lambda>st. if used_zone_pos st then 0 else 1, \<lambda>st. zone_rank (search_zone st) (done_zones st),
     \<lambda>st. if pass st = 1 then 1 else 0, \<lambda>st. nat (zone_end st - bmp_pos st)]"

lemma wf_search_order: "wf search_order"
  by (simp add: search_order_def)

lemma search_order_trans: "(a, b) \<in> search_order \<Longrightarrow> (b, c) \<in> search_order \<Longrightarrow> (a, c) \<in> search_order"
  by (auto simp: search_order_def split: if_splits)

text \<open>What the change of pass or zone keeps of the volume and of the allocation.\<close>

definition pass_frame :: "'a lcn_volume \<Rightarrow> alloc_state \<Rightarrow> 'a lcn_volume \<Rightarrow> alloc_state \<Rightarrow> bool" where
  "pass_frame vol st vol' st' \<longleftrightarrow> lcnbmp_na vol' = lcnbmp_na vol \<and> free_clusters vol' = free_clusters vol \<and>
     same_volume vol vol' \<and> al_rl st' = al_rl st \<and> prev_lcn st' = prev_lcn st \<and> prev_run_len st' = prev_run_len st \<and>
     clusters st' = clusters st \<and> used_zone_pos st' = used_zone_pos st"

lemma switch_zone_frame [simp]:
  "al_rl (switch_zone vol st) = al_rl st" "prev_lcn (switch_zone vol st) = prev_lcn st"
  "prev_run_len (switch_zone vol st) = prev_run_len st" "clusters (switch_zone vol st) = clusters st"
  "used_zone_pos (switch_zone vol st) = used_zone_pos st" "done_zones (switch_zone vol st) = done_zones st"
  by (simp_all add: switch_zone_def Let_def split: zone.splits)

lemma mark_done_frame [simp]:
  "al_rl (mark_done st) = al_rl st" "prev_lcn (mark_done st) = prev_lcn st"
  "prev_run_len (mark_done st) = prev_run_len st" "clusters (mark_done st) = clusters st"
  "used_zone_pos (mark_done st) = used_zone_pos st" "search_zone (mark_done st) = search_zone st"
  by (simp_all add: mark_done_def)

lemma zone_start_switch: "zones_ok vol \<Longrightarrow> 0 \<le> zone_start (switch_zone vol st)"
  by (auto simp: zones_ok_def switch_zone_def Let_def split: zone.splits)

lemma done_zones_check_frame:
  assumes "done_zones_check vol st = (vol', r)" and "zones_ok vol"
  shows "zones_ok vol' \<and> pass_frame vol st vol' (case r of None \<Rightarrow> st | Some st' \<Rightarrow> st') \<and>
    (\<forall>st'. r = Some st' \<longrightarrow> 0 \<le> bmp_pos st' \<and>
      zone_rank (search_zone st') (done_zones st') < zone_rank (search_zone st) (done_zones st))"
  using assms
proof (induction vol st rule: done_zones_check.induct)
  case (1 vol st)
  define z where "z = search_zone st"
  define vol1 where "vol1 = vol\<lparr>full_zones := insert z (full_zones vol)\<rparr>"
  have v1: "zones_ok vol1" "lcnbmp_na vol1 = lcnbmp_na vol" "free_clusters vol1 = free_clusters vol" "same_volume vol vol1"
    using "1.prems"(2) by (auto simp: vol1_def zones_ok_def same_volume_def)
  show ?case
  proof (cases "done_zones (mark_done st) = {ZONE_MFT, ZONE_DATA1, ZONE_DATA2}")
    case True
    then have "vol' = vol1" "r = None"
      using "1.prems"(1) by (simp_all add: done_zones_check.simps [of vol st] Let_def vol1_def z_def)
    then show ?thesis using v1 by (simp add: pass_frame_def)
  next
    case False
    define vol2 where "vol2 = (if al_rl st \<noteq> [] \<and> used_zone_pos st
      then ntfs_cluster_update_zone_pos vol1 z
        (rl_lcn (last (al_rl st)) + rl_length (last (al_rl st)) + NTFS_LCNALLOC_SKIP)
      else vol1)"
    define st2 where "st2 = (switch_zone vol2 (mark_done st))\<lparr>bmp_pos := zone_start (switch_zone vol2 (mark_done st))\<rparr>"
    have v2: "zones_ok vol2" "lcnbmp_na vol2 = lcnbmp_na vol" "free_clusters vol2 = free_clusters vol" "same_volume vol vol2"
      using v1 by (auto simp: vol2_def intro: same_volume_trans)
    have s2: "al_rl st2 = al_rl st" "prev_lcn st2 = prev_lcn st" "prev_run_len st2 = prev_run_len st"
      "clusters st2 = clusters st" "used_zone_pos st2 = used_zone_pos st" "0 \<le> bmp_pos st2"
      "zone_rank (search_zone st2) (done_zones st2) < zone_rank (search_zone st) (done_zones st)"
      using zone_start_switch [OF v2(1)] zone_rank_switch [OF False, of vol2] by (simp_all add: st2_def)
    have eq: "done_zones_check vol st = (if zone_start st2 = zone_end st2 then done_zones_check vol2 st2 else (vol2, Some st2))"
      using False by (simp add: done_zones_check.simps [of vol st] Let_def vol1_def vol2_def st2_def z_def)
    show ?thesis
    proof (cases "zone_start st2 = zone_end st2")
      case True
      then have "done_zones_check vol2 st2 = (vol', r)" using eq "1.prems"(1) by simp
      then have "zones_ok vol' \<and> pass_frame vol2 st2 vol' (case r of None \<Rightarrow> st2 | Some st' \<Rightarrow> st') \<and>
        (\<forall>st'. r = Some st' \<longrightarrow> 0 \<le> bmp_pos st' \<and>
          zone_rank (search_zone st') (done_zones st') < zone_rank (search_zone st2) (done_zones st2))"
        using True v2(1) False
        by (intro "1.IH" [OF z_def refl vol1_def False vol2_def refl, folded st2_def]) (auto simp: st2_def)
      then show ?thesis
        using v2 s2 by (auto simp: pass_frame_def split: option.splits intro: same_volume_trans)
    next
      case False
      then have "vol' = vol2" "r = Some st2" using eq "1.prems"(1) by simp_all
      then show ?thesis using v2 s2 by (simp add: pass_frame_def)
    qed
  qed
qed

lemma zone_pass_done_frame:
  assumes "zone_pass_done vol st = (vol', r)" and "zones_ok vol"
  shows "zones_ok vol' \<and> pass_frame vol st vol' (case r of None \<Rightarrow> st | Some st' \<Rightarrow> st') \<and>
    (\<forall>st'. r = Some st' \<longrightarrow> 0 \<le> bmp_pos st' \<and> (st', st) \<in> search_order)"
proof (cases "pass st = 1")
  case True
  then show ?thesis
    using assms by (auto simp: zone_pass_done_def Let_def pass_frame_def search_order_def zones_ok_def split: zone.splits)
next
  case False
  then have "done_zones_check vol st = (vol', r)" using assms(1) by (simp add: zone_pass_done_def)
  from done_zones_check_frame [OF this assms(2)] show ?thesis
    by (auto simp: pass_frame_def search_order_def split: option.splits)
qed

section \<open>The allocator\<close>

text \<open>The outcome of an allocation, against the bitmap and the counter at the beginning.\<close>

definition alloc_result ::
    "bytes \<Rightarrow> int \<Rightarrow> nat \<Rightarrow> int \<Rightarrow> bytes \<Rightarrow> int \<Rightarrow> runlist result \<Rightarrow> bool" where
  "alloc_result c0 F0 N sv c F res =
     (case res of
        Ok rl \<Rightarrow>
          \<exists>rs t. rl = rs @ [t] \<and> rl_length t = 0 \<and> rl_lcn t = LCN_RL_NOT_MAPPED \<and> rl_vcn t = sv + int N \<and>
            runs_from sv rs \<and> (\<forall>e \<in> set rs. 0 \<le> rl_lcn e) \<and> length (cells rs) = N \<and> distinct (cells rs) \<and>
            (\<forall>x \<in> set (cells rs). 0 \<le> x \<and> x < 8 * int (length c0) \<and> \<not> bm_bit c0 (nat x)) \<and>
            length c = length c0 \<and> (\<forall>k < 8 * length c0. bm_bit c k \<longleftrightarrow> bm_bit c0 k \<or> int k \<in> set (cells rs)) \<and>
            (int N \<le> F0 \<longrightarrow> F = F0 - int N)
      | Err e \<Rightarrow> (e = ENOSPC \<or> e = ENOMEM) \<and> c = c0 \<and> (int N \<le> F0 \<longrightarrow> F = F0)
      | Fault \<Rightarrow> False)"

lemma alloc_result_done:
  assumes "alloc_ok c0 F0 N sv c vol st" and "clusters st = 0" and "0 < N"
  shows "alloc_result c0 F0 N sv c (free_clusters vol) (Ok (terminate_rl (al_rl st)))"
proof -
  have b: "rl_built sv st" "length (cells (al_rl st)) = N" using assms(1,2) by (auto simp: alloc_ok_def)
  then have ne: "al_rl st \<noteq> []" using assms(3) by auto
  then obtain rs e where rl: "al_rl st = rs @ [e]" by (metis rev_exhaust)
  have "int N = runs_len (al_rl st)" using b length_cells [of sv "al_rl st"] by (simp add: rl_built_def)
  moreover have "rl_vcn e = sv + runs_len rs" using b(1) rl by (simp add: rl_built_def)
  ultimately have "rl_vcn (last (al_rl st)) + rl_length (last (al_rl st)) = sv + int N" using rl by simp
  then show ?thesis
    using assms(1) b by (auto simp: alloc_result_def terminate_rl_def alloc_ok_def rl_built_def
      intro!: exI [of _ "al_rl st"])
qed

context cluster_bitmap
begin

definition loop_inv :: "bytes \<Rightarrow> int \<Rightarrow> nat \<Rightarrow> int \<Rightarrow> 'a lcn_volume \<Rightarrow> alloc_state \<Rightarrow> bool" where
  "loop_inv c0 F0 N sv vol st \<longleftrightarrow> ok (lcnbmp_na vol) \<and> alloc_ok c0 F0 N sv (content (lcnbmp_na vol)) vol st \<and>
     zones_ok vol \<and> 0 \<le> bmp_pos st \<and> 0 < clusters st"

definition returns_ok :: "bytes \<Rightarrow> int \<Rightarrow> nat \<Rightarrow> int \<Rightarrow> 'a lcn_volume \<Rightarrow> ('a lcn_volume \<times> runlist result) option \<Rightarrow> bool" where
  "returns_ok c0 F0 N sv vol r \<longleftrightarrow> (\<exists>vol' res. r = Some (vol', res) \<and> ok (lcnbmp_na vol') \<and> same_volume vol vol' \<and>
     alloc_result c0 F0 N sv (content (lcnbmp_na vol')) (free_clusters vol') res)"

lemma alloc_fail_ok:
  assumes "ok (lcnbmp_na vol)" and "alloc_ok c0 F0 N sv (content (lcnbmp_na vol)) vol st"
    and "8 * length c0 + 8 \<le> 2 ^ 34" and "\<forall>k \<le> 8192. mem k" and "e = ENOSPC \<or> e = ENOMEM"
  shows "returns_ok c0 F0 N sv vol (alloc_fail mem aops vol st e)"
proof -
  let ?c = "content (lcnbmp_na vol)" and ?A = "cells (al_rl st)"
  have inv: "length ?c = length c0" "\<And>k. k < 8 * length c0 \<Longrightarrow> bm_bit ?c k \<longleftrightarrow> bm_bit c0 k \<or> int k \<in> set ?A"
    "\<forall>x \<in> set ?A. 0 \<le> x \<and> x < 8 * int (length c0) \<and> \<not> bm_bit c0 (nat x)" "rl_built sv st"
    "int N \<le> F0 \<longrightarrow> free_clusters vol = F0 - int (length ?A)"
    using assms(2) by (auto simp: alloc_ok_def)
  show ?thesis
  proof (cases "al_rl st = []")
    case True
    then have "?c = c0" using inv(1,2) by (intro bytes_eq_bits) auto
    then show ?thesis
      using True assms(1,5) inv(5) by (simp add: returns_ok_def alloc_fail_def alloc_result_def)
  next
    case False
    have real: "real_cells (al_rl st) = ?A" using inv(4) by (intro real_cells_all) (simp add: rl_built_def)
    define t where "t = \<lparr>rl_vcn = rl_vcn (last (al_rl st)) + rl_length (last (al_rl st)), rl_lcn = LCN_RL_NOT_MAPPED,
      rl_length = 0\<rparr>"
    have t: "terminate_rl (al_rl st) = al_rl st @ t # []" "rl_length t = 0" by (simp_all add: terminate_rl_def t_def)
    have pos: "\<forall>e \<in> set (al_rl st). 0 < rl_length e" using inv(4) by (auto simp: rl_built_def dest: runs_from_nonzero)
    obtain vol' where vol': "free_rl_loop mem aops vol (al_rl st @ t # []) 0 = Some (vol', int (length ?A), Ok ())"
      "cleared (set ?A) ?c (content (lcnbmp_na vol'))" "ok (lcnbmp_na vol')" "free_clusters vol' = free_clusters vol"
      "same_volume vol vol'"
      using free_rl_loop_exact [OF assms(1) pos t(2), of mem "[]" 0] inv(1,3) assms(3,4) unfolding real by auto
    have "content (lcnbmp_na vol') = c0"
      using vol'(2) inv(1-3) by (intro bytes_eq_bits) (auto simp: cleared_def)
    then show ?thesis
      using False vol' t(1) inv(5) assms(5)
      by (auto simp: returns_ok_def alloc_fail_def ntfs_cluster_free_from_rl_def alloc_result_def same_volume_def)
  qed
qed

lemma next_pass_ok:
  assumes "loop_inv c0 F0 N sv vol st" and "8 * length c0 + 8 \<le> 2 ^ 34" and "\<forall>k \<le> 8192. mem k"
  shows "case next_pass mem aops vol st of
      Continue vol' st' \<Rightarrow> loop_inv c0 F0 N sv vol' st' \<and> same_volume vol vol' \<and> (st', st) \<in> search_order
    | Return r \<Rightarrow> returns_ok c0 F0 N sv vol r"
proof -
  obtain vol' r where z: "zone_pass_done vol st = (vol', r)" by fastforce
  note fr = zone_pass_done_frame [OF z]
  have inv: "ok (lcnbmp_na vol)" "alloc_ok c0 F0 N sv (content (lcnbmp_na vol)) vol st" "zones_ok vol" "0 < clusters st"
    using assms(1) by (auto simp: loop_inv_def)
  show ?thesis
  proof (cases r)
    case None
    then have f: "lcnbmp_na vol' = lcnbmp_na vol" "free_clusters vol' = free_clusters vol" "same_volume vol vol'"
      using fr inv(3) by (auto simp: pass_frame_def)
    then have "returns_ok c0 F0 N sv vol' (alloc_fail mem aops vol' st ENOSPC)"
      using inv(1,2) alloc_ok_cong [of vol' vol st st] by (intro alloc_fail_ok assms) auto
    then show ?thesis
      using None z f(3) by (auto simp: next_pass_def returns_ok_def intro: same_volume_trans)
  next
    case (Some st')
    then have f: "pass_frame vol st vol' st'" "zones_ok vol'" "0 \<le> bmp_pos st'" "(st', st) \<in> search_order"
      using fr inv(3) by auto
    then have "loop_inv c0 F0 N sv vol' st'"
      using inv alloc_ok_cong [of vol' vol st' st] by (auto simp: loop_inv_def pass_frame_def)
    then show ?thesis using Some z f by (simp add: next_pass_def pass_frame_def)
  qed
qed

lemma writeback_ok:
  assumes "ok (lcnbmp_na vol)" and "wb \<or> put_at (content (lcnbmp_na vol)) p b = content (lcnbmp_na vol)"
    and "p + length b \<le> length (content (lcnbmp_na vol))"
  shows "\<exists>na'. bitmap_writeback aops vol (int p) b wb = (vol\<lparr>lcnbmp_na := na'\<rparr>, None) \<and> ok na' \<and>
    content na' = put_at (content (lcnbmp_na vol)) p b"
proof (cases wb)
  case True
  then show ?thesis
    using na_pwrite_law [OF assms(1), of "int p" b] assms(3) by (auto simp: bitmap_writeback_def)
next
  case False
  then show ?thesis using assms(1,2) by (auto simp: bitmap_writeback_def intro!: exI [of _ "lcnbmp_na vol"])
qed

lemma next_window_order:
  assumes "same_search st0 st" and "st0 = st1\<lparr>bmp_pos := bmp_pos st1 div 8 * 8\<rparr>" and "0 < n"
  shows "(next_window vol st n, st1) \<in> search_order \<or>
    (\<not> bmp_pos (next_window vol st n) < zone_end (next_window vol st n) \<and>
      (\<forall>st'. (st', next_window vol st n) \<in> search_order \<longrightarrow> (st', st1) \<in> search_order))"
proof -
  have "bmp_pos st1 < bmp_pos st1 div 8 * 8 + int n * 8" using assms(3) by linarith
  then show ?thesis
    using assms by (auto simp: next_window_def search_order_def same_search_def Let_def)
qed

lemma next_window_ok:
  assumes "loop_inv c0 F0 N sv vol st"
  shows "loop_inv c0 F0 N sv vol (next_window vol st n)"
  using assms alloc_ok_cong [of vol vol "next_window vol st n" st]
  by (auto simp: loop_inv_def next_window_def Let_def zones_ok_def split: zone.splits)

lemma alloc_round_ok:
  assumes "loop_inv c0 F0 N sv vol st" and "8 * length c0 + 8 \<le> 2 ^ 34" and "\<forall>k \<le> 8192. mem k"
  shows "case alloc_round mem aops sv vol st of
      Continue vol' st' \<Rightarrow> loop_inv c0 F0 N sv vol' st' \<and> same_volume vol vol' \<and> (st', st) \<in> search_order
    | Return r \<Rightarrow> returns_ok c0 F0 N sv vol r"
proof (cases "search_zone st \<in> full_zones vol")
  case True
  then show ?thesis using next_pass_ok [OF assms] by (simp add: alloc_round_def)
next
  case zone: False
  let ?c = "content (lcnbmp_na vol)"
  define p where "p = nat (bmp_pos st div 8)"
  have inv: "ok (lcnbmp_na vol)" "alloc_ok c0 F0 N sv ?c vol st" "zones_ok vol" "0 \<le> bmp_pos st" "0 < clusters st"
    using assms(1) by (auto simp: loop_inv_def)
  have p: "bmp_pos st div 8 = int p" "bmp_pos st div 8 * 8 = 8 * int p" using inv(4) by (auto simp: p_def)
  define b where "b = take 4096 (drop p ?c)"
  obtain na1 where na1: "na_pread aops (lcnbmp_na vol) (int p) NTFS_LCNALLOC_BSIZE = (na1, Inr b)" "content na1 = ?c" "ok na1"
    using na_pread_law [OF inv(1), of "int p" NTFS_LCNALLOC_BSIZE] by (auto simp: b_def NTFS_LCNALLOC_BSIZE_def)
  define vol1 where "vol1 = vol\<lparr>lcnbmp_na := na1\<rparr>"
  have vol1: "same_volume vol vol1" "loop_inv c0 F0 N sv vol1 st" "lcnbmp_na vol1 = na1"
    using inv na1(2,3) alloc_ok_cong [of vol1 vol st st] by (auto simp: loop_inv_def vol1_def same_volume_def zones_ok_def)
  show ?thesis
  proof (cases "b = []")
    case True
    then have "alloc_round mem aops sv vol st = next_pass mem aops vol1 st"
      using zone na1(1) by (simp add: alloc_round_def p Let_def vol1_def)
    then show ?thesis
      using next_pass_ok [OF vol1(2) assms(2,3)] vol1(1)
      by (auto simp: returns_ok_def split: alloc_out.splits intro: same_volume_trans)
  next
    case False
    define st0 where "st0 = st\<lparr>bmp_pos := bmp_pos st div 8 * 8\<rparr>"
    have fit: "p + length b \<le> length ?c" using False by (auto simp: b_def)
    have put: "put_at ?c p b = ?c" unfolding b_def by (rule put_at_window)
    have "alloc_ok c0 F0 N sv (put_at ?c p b) vol1 st0"
      unfolding put using inv(2) alloc_ok_cong [of vol1 vol st0 st] by (simp add: vol1_def st0_def)
    then have scan: "scan_ok c0 F0 N sv ?c p vol1 st0 (length b) (alloc_scan mem sv vol1 st0 b (bmp_pos st mod 8) False)"
      by (rule alloc_scan_ok) (use fit put inv(4,5) p in \<open>auto simp: st0_def\<close>)
    obtain vol2 st2 b2 wb e where res: "alloc_scan mem sv vol1 st0 b (bmp_pos st mod 8) False = (vol2, st2, b2, wb, e)"
      by (metis prod_cases5)
    have s: "alloc_ok c0 F0 N sv (put_at ?c p b2) vol2 st2" "length b2 = length b" "wb \<or> put_at ?c p b2 = ?c"
      "same_search st0 st2" "scan_frame vol1 vol2" "if e = Finished then clusters st2 = 0 else 0 < clusters st2"
      using scan unfolding res by (auto simp: scan_ok_def)
    have na2: "lcnbmp_na vol2 = na1" using s(5) vol1(3) by (simp add: scan_frame_def)
    obtain na3 where na3: "bitmap_writeback aops vol2 (int p) b2 wb = (vol2\<lparr>lcnbmp_na := na3\<rparr>, None)" "ok na3"
      "content na3 = put_at ?c p b2"
      using writeback_ok [of vol2 wb p b2] s(2,3) fit na1(2,3) na2 by auto
    define vol3 where "vol3 = vol2\<lparr>lcnbmp_na := na3\<rparr>"
    have vol3: "same_volume vol vol3" "ok (lcnbmp_na vol3)" "alloc_ok c0 F0 N sv (content (lcnbmp_na vol3)) vol3 st2" "zones_ok vol3"
      using s(1,5) na3 vol1 inv(3) alloc_ok_cong [of vol3 vol2 st2 st2]
      by (auto simp: vol3_def scan_frame_def same_volume_def zones_ok_def vol1_def)
    note eq = zone na1(1) False res [unfolded vol1_def st0_def p(1)] na3(1)
    have same_ret: "returns_ok c0 F0 N sv vol r" if "returns_ok c0 F0 N sv vol3 r" for r
      using that vol3(1) by (auto simp: returns_ok_def intro: same_volume_trans)
    show ?thesis
    proof (cases e)
      case NoMem
      then have "alloc_round mem aops sv vol st = Return (alloc_fail mem aops vol3 st2 ENOMEM)"
        using eq by (simp add: alloc_round_def p(1) Let_def vol3_def)
      then show ?thesis using alloc_fail_ok [OF vol3(2,3) assms(2,3), of ENOMEM] same_ret by simp
    next
      case Finished
      then have "alloc_round mem aops sv vol st = Return (Some (vol3, Ok (terminate_rl (al_rl st2))))"
        using eq by (simp add: alloc_round_def p(1) Let_def vol3_def)
      moreover have "0 < N" using inv(2,5) by (auto simp: alloc_ok_def)
      ultimately show ?thesis
        using alloc_result_done [OF vol3(3)] s(6) Finished vol3(1,2) by (simp add: returns_ok_def)
    next
      case Exhausted
      define st3 where "st3 = next_window vol3 st2 (length b2)"
      have round: "alloc_round mem aops sv vol st =
          (if bmp_pos st3 < zone_end st3 then Continue vol3 st3 else next_pass mem aops vol3 st3)"
        using eq Exhausted by (simp add: alloc_round_def p(1) Let_def vol3_def st3_def)
      have "loop_inv c0 F0 N sv vol3 st2"
        using vol3(2-4) s(4,6) Exhausted inv(4) by (simp add: loop_inv_def same_search_def st0_def)
      then have inv3: "loop_inv c0 F0 N sv vol3 st3" unfolding st3_def by (rule next_window_ok)
      have n: "0 < length b2" using False s(2) by simp
      show ?thesis
        using round inv3 next_pass_ok [OF inv3 assms(2,3)] vol3(1) same_ret
          next_window_order [OF s(4) st0_def n, of vol3, folded st3_def]
        by (auto split: alloc_out.splits intro: same_volume_trans search_order_trans)
    qed
  qed
qed

lemma alloc_loop_ok:
  assumes "loop_inv c0 F0 N sv vol st" and "8 * length c0 + 8 \<le> 2 ^ 34" and "\<forall>k \<le> 8192. mem k"
  shows "returns_ok c0 F0 N sv vol (alloc_loop mem aops sv vol st)"
  using assms(1)
proof (induction st arbitrary: vol rule: wf_induct_rule [OF wf_search_order])
  case (1 st)
  show ?case
  proof (cases "alloc_round mem aops sv vol st")
    case (Continue vol' st')
    then have "loop_inv c0 F0 N sv vol' st'" "same_volume vol vol'" "(st', st) \<in> search_order"
      using alloc_round_ok [OF "1.prems" assms(2,3)] by auto
    then show ?thesis
      using "1.IH" [of st' vol'] Continue
      by (subst alloc_loop.simps) (auto simp: returns_ok_def intro: same_volume_trans)
  next
    case (Return r)
    then show ?thesis using alloc_round_ok [OF "1.prems" assms(2,3)] by (subst alloc_loop.simps) simp
  qed
qed

text \<open>The whole allocator.\<close>

lemma cluster_alloc_ok:
  assumes "ok (lcnbmp_na vol)" and "zones_ok vol" and "0 < count" and "-1 \<le> start_lcn"
    and "8 * length (content (lcnbmp_na vol)) + 8 \<le> 2 ^ 34" and "\<forall>k \<le> 8192. mem k"
  shows "returns_ok (content (lcnbmp_na vol)) (free_clusters vol) (nat count) sv vol
    (ntfs_cluster_alloc mem aops vol sv count start_lcn zone)"
proof -
  have "loop_inv (content (lcnbmp_na vol)) (free_clusters vol) (nat count) sv vol (alloc_start vol (nat count) start_lcn zone)"
    using assms(1-4) by (auto simp: loop_inv_def alloc_ok_def rl_built_def alloc_start_def Let_def zones_ok_def)
  from alloc_loop_ok [OF this assms(5,6)] show ?thesis
    using assms(3,4,6) by (simp add: ntfs_cluster_alloc_def NTFS_LCNALLOC_BSIZE_def)
qed

end

end
