(* ===== verification/Bitmap_Disk.thy ===== *)
theory Bitmap_Disk
  imports Bitmap_Runs Runlist_IO
begin

text \<open>
  A bitmap on disk: an attribute whose value is stored in the clusters of a runlist provides the
  interface of \<open>Bitmap_Runs\<close>, so a run of bits is set exactly through bitmap, runlist,
  device and system calls.
\<close>

section \<open>An attribute stored along a runlist\<close>

record rl_attr =
  a_dev :: "disk_file ntfs_device"
  a_rl :: runlist
  a_bits :: nat
  a_size :: nat

definition rl_attr_pread :: "rl_attr \<Rightarrow> int \<Rightarrow> int \<Rightarrow> rl_attr \<times> (errno + bytes)" where
  "rl_attr_pread na pos count =
     (if pos < 0 \<or> count < 0 then (na, Inl EINVAL)
      else if int (a_size na) \<le> pos then (na, Inr [])
      else case ntfs_rl_pread disk_ops (a_bits na) (a_dev na) (Some (a_rl na)) pos (min count (int (a_size na) - pos)) of
        Some (dev, Ok b) \<Rightarrow> (na\<lparr>a_dev := dev\<rparr>, Inr b)
      | Some (dev, Err e) \<Rightarrow> (na\<lparr>a_dev := dev\<rparr>, Inl e)
      | _ \<Rightarrow> (na, Inl EIO))"

definition rl_attr_pwrite :: "rl_attr \<Rightarrow> int \<Rightarrow> bytes \<Rightarrow> rl_attr \<times> (errno + nat)" where
  "rl_attr_pwrite na pos b =
     (if pos < 0 then (na, Inl EINVAL)
      else case ntfs_rl_pwrite disk_ops False (a_bits na) (a_dev na) (Some (a_rl na)) 0 pos b of
        Some (dev, Ok n) \<Rightarrow> (na\<lparr>a_dev := dev\<rparr>, Inr (nat n))
      | Some (dev, Err e) \<Rightarrow> (na\<lparr>a_dev := dev\<rparr>, Inl e)
      | _ \<Rightarrow> (na, Inl EIO))"

definition rl_attr_ops :: "rl_attr attr_ops" where
  "rl_attr_ops = \<lparr>na_pread = rl_attr_pread, na_pwrite = rl_attr_pwrite\<rparr>"

definition rl_addrs :: "rl_attr \<Rightarrow> nat option list" where
  "rl_addrs na = addrs (a_bits na) (rl_runs (a_rl na))"

definition rl_content :: "rl_attr \<Rightarrow> bytes" where
  "rl_content na = map (fetch (disk_data (a_dev na))) (take (a_size na) (rl_addrs na))"

text \<open>All clusters are allocated, on the device, and none is used twice.\<close>

definition rl_ok :: "rl_attr \<Rightarrow> bool" where
  "rl_ok na \<longleftrightarrow> wf_rl 0 (a_rl na) \<and> runs_on (a_bits na) (length (disk_data (a_dev na))) (rl_runs (a_rl na)) \<and>
     a_size na \<le> length (rl_addrs na) \<and> None \<notin> set (rl_addrs na) \<and> distinct (rl_addrs na) \<and>
     \<not> d_readonly (a_dev na)"

lemma masked_all: "length as = length bs \<Longrightarrow> None \<notin> set as \<Longrightarrow> masked as bs = bs"
  by (induction as bs rule: list_induct2) (auto simp: masked_def)

lemma fetch_store_at:
  assumes "distinct as" and "None \<notin> set as" and "pos + length b \<le> length as"
    and "\<forall>x. Some x \<in> set as \<longrightarrow> x < length disk"
  shows "map (fetch (store disk (take (length b) (drop pos as)) b)) as = put_at (map (fetch disk) as) pos b"
proof -
  define w where "w = take (length b) (drop pos as)"
  define d where "d = store disk w b"
  have as: "as = take pos as @ w @ drop (pos + length b) as"
    by (metis append_take_drop_id drop_drop add.commute w_def)
  have "distinct (take pos as @ w @ drop (pos + length b) as)" using assms(1) as by simp
  then have other: "fetch d a = fetch disk a" if "a \<in> set (take pos as) \<union> set (drop (pos + length b) as)" for a
    using that store_other [of _ w disk b] by (auto simp: d_def fetch_def split: option.splits)
  have "filter (\<lambda>a. a \<noteq> None) w = w" using assms(2) as by (metis (mono_tags, lifting) Un_iff filter_id_conv set_append)
  moreover have "distinct w" unfolding w_def using assms(1) by simp
  moreover have "\<forall>x. Some x \<in> set w \<longrightarrow> x < length disk" using assms(4) unfolding w_def by (meson in_set_dropD in_set_takeD)
  moreover have lw: "length w = length b" using assms(3) by (simp add: w_def)
  ultimately have "map (fetch d) w = masked w b" unfolding d_def by (intro fetch_store) auto
  also have "\<dots> = b" using lw assms(2) as by (intro masked_all) (auto simp: w_def dest: in_set_takeD in_set_dropD)
  finally have w: "map (fetch d) w = b" .
  have "map (fetch d) as = map (fetch d) (take pos as) @ map (fetch d) w @ map (fetch d) (drop (pos + length b) as)"
    using arg_cong [OF as, of "map (fetch d)"] by simp
  also have "\<dots> = put_at (map (fetch disk) as) pos b"
    unfolding w using other by (simp add: put_at_def take_map drop_map)
  finally show ?thesis by (simp add: d_def w_def)
qed

interpretation disk_attr: byte_attr rl_attr_ops rl_content rl_ok
proof
  fix na :: rl_attr and pos count :: int
  assume na: "rl_ok na" "0 \<le> pos" "0 \<le> count"
  let ?A = "rl_addrs na" and ?n = "min count (int (a_size na) - pos)"
  have wf: "wf_rl 0 (a_rl na)" "runs_on (a_bits na) (length (disk_data (a_dev na))) (rl_runs (a_rl na))"
    "a_size na \<le> length ?A" using na(1) by (auto simp: rl_ok_def)
  show "\<exists>na'. na_pread rl_attr_ops na pos count = (na', Inr (take (nat count) (drop (nat pos) (rl_content na)))) \<and>
    rl_content na' = rl_content na \<and> rl_ok na'"
  proof (cases "int (a_size na) \<le> pos")
    case True
    then show ?thesis using na wf(3) by (simp add: rl_attr_ops_def rl_attr_pread_def rl_content_def)
  next
    case False
    have n: "0 \<le> ?n" "\<not> length ?A \<le> nat pos" using na(2,3) False wf(3) by (simp, linarith)
    have "(if ?n = 0 then Ok [] else Ok (map f (take (nat ?n) xs))) = Ok (map f (take (nat ?n) xs))" for f and xs :: "'x list"
      by simp
    with gather_exact [OF wf(1,2) na(2) n(1)] n(2) obtain dev' where
      "ntfs_rl_pread disk_ops (a_bits na) (a_dev na) (Some (a_rl na)) pos ?n =
        Some (dev', Ok (map (fetch (disk_data (a_dev na))) (take (nat ?n) (drop (nat pos) ?A))))"
      "disk_data dev' = disk_data (a_dev na)" "d_readonly dev' = d_readonly (a_dev na)"
      unfolding rl_addrs_def by auto
    then show ?thesis
      using na False by (auto simp: rl_attr_ops_def rl_attr_pread_def rl_content_def rl_ok_def rl_addrs_def
        take_map drop_map drop_take min_def nat_diff_distrib)
  qed
next
  fix na :: rl_attr and pos :: int and b :: bytes
  assume na: "rl_ok na" "0 \<le> pos" "nat pos + length b \<le> length (rl_content na)"
  let ?A = "rl_addrs na"
  have wf: "wf_rl 0 (a_rl na)" "runs_on (a_bits na) (length (disk_data (a_dev na))) (rl_runs (a_rl na))"
    "a_size na \<le> length ?A" "None \<notin> set ?A" "distinct ?A" "\<not> d_readonly (a_dev na)"
    using na(1) by (auto simp: rl_ok_def)
  have room: "nat pos + length b \<le> a_size na" using na(3) wf(3) by (simp add: rl_content_def)
  show "\<exists>na'. na_pwrite rl_attr_ops na pos b = (na', Inr (length b)) \<and>
    rl_content na' = put_at (rl_content na) (nat pos) b \<and> rl_ok na'"
  proof (cases "b = []")
    case True
    then show ?thesis using na by (auto simp: rl_attr_ops_def rl_attr_pwrite_def ntfs_rl_pwrite_def put_at_def)
  next
    case False
    have fit: "nat pos + length b \<le> length ?A" using room wf(3) by simp
    from scatter_exact [OF wf(1,2) na(2) wf(6) False] fit obtain dev' where w:
      "ntfs_rl_pwrite disk_ops False (a_bits na) (a_dev na) (Some (a_rl na)) 0 pos b = Some (dev', Ok (int (length b)))"
      "disk_data dev' = store (disk_data (a_dev na)) (take (length b) (drop (nat pos) ?A)) b" "\<not> d_readonly dev'"
      unfolding rl_addrs_def by blast
    have "\<forall>x. Some x \<in> set ?A \<longrightarrow> x < length (disk_data (a_dev na))"
      using addrs_bound [OF wf(2)] unfolding rl_addrs_def by blast
    from fetch_store_at [OF wf(5,4) fit this]
    have "map (fetch (disk_data dev')) ?A = put_at (map (fetch (disk_data (a_dev na))) ?A) (nat pos) b"
      unfolding w(2) .
    then have "map (fetch (disk_data dev')) (take (a_size na) ?A) = put_at (rl_content na) (nat pos) b"
      using room wf(3) by (simp add: rl_content_def put_at_def flip: take_map) (simp add: take_drop min_def)
    then show ?thesis
      using w na(2) wf by (auto simp: rl_attr_ops_def rl_attr_pwrite_def rl_content_def rl_ok_def rl_addrs_def)
  qed
qed

section \<open>Setting and clearing runs\<close>

text \<open>(C22) Setting or clearing a run of bits of a bitmap on disk gives exactly the bits of the run the
  value, whatever its alignment and however many windows of 8 KiB it spans, and
  changes no other bit; the run has to lie in the bitmap and below bit 2^34 - 8.\<close>

theorem bitmap_run_on_disk:
  assumes "rl_ok na" and "0 \<le> start" and "0 \<le> count"
    and "nat start + nat count \<le> 8 * length (rl_content na)" and "start + count \<le> 2 ^ 34 - 8"
  shows "\<exists>na'. ntfs_bitmap_set_bits_in_run (\<lambda>n. True) rl_attr_ops na start count v = Some (na', Ok ()) \<and>
    length (rl_content na') = length (rl_content na) \<and>
    (\<forall>k < 8 * length (rl_content na). bm_bit (rl_content na') k =
      (if nat start \<le> k \<and> k < nat start + nat count then v else bm_bit (rl_content na) k))"
proof -
  have "nat start + nat count + 8 \<le> 2 ^ 34" using assms(2,3,5) by simp
  from disk_attr.set_bits_exact [OF assms(1,4) this, of "\<lambda>n. True" v] assms(2,3)
  show ?thesis by (auto simp: bits_put_def)
qed

definition demo_bitmap :: rl_attr where
  "demo_bitmap = \<lparr>a_dev = demo_disk 16,
     a_rl = [\<lparr>rl_vcn = 0, rl_lcn = 3, rl_length = 1\<rparr>, \<lparr>rl_vcn = 1, rl_lcn = 1, rl_length = 1\<rparr>,
       \<lparr>rl_vcn = 2, rl_lcn = LCN_ENOENT, rl_length = 0\<rparr>], a_bits = 1, a_size = 4\<rparr>"

lemma demo_bitmap_ok: "rl_ok demo_bitmap" "length (rl_content demo_bitmap) = 4"
  by (simp_all add: rl_ok_def rl_content_def rl_addrs_def demo_bitmap_def demo_disk_def wf_rl_def rl_runs_def rl_end_def
    rl_get_def lcn_defs addrs_def run_addrs_def upt_rec)

theorem bitmap_run_on_disk_witness:
  "\<exists>na'. ntfs_bitmap_set_bits_in_run (\<lambda>n. True) rl_attr_ops demo_bitmap 5 20 True = Some (na', Ok ()) \<and>
    bm_bit (rl_content na') 5 \<and> bm_bit (rl_content na') 24 \<and>
    bm_bit (rl_content na') 25 = bm_bit (rl_content demo_bitmap) 25"
  using bitmap_run_on_disk [OF demo_bitmap_ok(1), of 5 20 True] demo_bitmap_ok(2) by auto

text \<open>Above that the byte position is truncated to 32 bits: setting the byte of bits at 2^34 asks for
  a write at a negative position and fails with \<open>EINVAL\<close>.\<close>

theorem bitmap_position_wraps:
  assumes "\<And>na pos b. pos < 0 \<Longrightarrow> na_pwrite aops na pos b = (na, Inl EINVAL)" and "mem 1"
  shows "ntfs_bitmap_set_run mem aops na (2 ^ 34) 8 = Some (na, Err EINVAL)"
proof -
  have "handle_last aops True na (2 ^ 34) 8 1 0 0 0 [fill_byte True] = (na, Ok (8, 0, 0, [fill_byte True]))"
    by (simp add: handle_last_def)
  moreover have "na_pwrite aops na (- (2 ^ 31)) [fill_byte True] = (na, Inl EINVAL)" using assms(1) by simp
  ultimately have "set_run_loop aops True na (2 ^ 34) 8 1 0 0 0 [fill_byte True] = Some (na, Err EINVAL)"
    by (subst set_run_loop.simps) (simp add: s32_def)
  then show ?thesis using assms(2) by (simp add: ntfs_bitmap_set_run_def ntfs_bitmap_set_bits_in_run_def)
qed

theorem bitmap_position_wraps_witness:
  "ntfs_bitmap_set_run (\<lambda>n. True) rl_attr_ops demo_bitmap (2 ^ 34) 8 = Some (demo_bitmap, Err EINVAL)"
  by (rule bitmap_position_wraps) (simp_all add: rl_attr_ops_def rl_attr_pwrite_def)

end
