(* ===== verification/Lcnalloc_Fragment.thy ===== *)
theory Lcnalloc_Fragment
  imports Lcnalloc Bitmap_Disk
begin

text \<open>
  Concrete volumes, and a bitmap on which the allocator fails although clusters are free.
\<close>

section \<open>A bitmap in memory\<close>

text \<open>The value of an attribute that is kept in memory.\<close>

definition mem_attr_ops :: "bytes attr_ops" where
  "mem_attr_ops =
     \<lparr>na_pread = (\<lambda>c pos count. if pos < 0 \<or> count < 0 then (c, Inl EINVAL) else (c, Inr (take (nat count) (drop (nat pos) c)))),
      na_pwrite = (\<lambda>c pos b. if pos < 0 \<or> int (length c) < pos + int (length b) then (c, Inl EINVAL)
        else (put_at c (nat pos) b, Inr (length b)))\<rparr>"

interpretation mem_attr: byte_attr mem_attr_ops "\<lambda>c. c" "\<lambda>c. True"
  by unfold_locales (auto simp: mem_attr_ops_def)

definition demo_volume :: "'a \<Rightarrow> 'a lcn_volume" where
  "demo_volume bm = \<lparr>lcnbmp_na = bm, nr_clusters = 16, mft_lcn = 4, mft_zone_start = 4, mft_zone_end = 8, mft_zone_pos = 4,
     data1_zone_pos = 8, data2_zone_pos = 0, full_zones = {}, free_clusters = 8\<rparr>"

definition sparse_bitmap :: bytes where
  "sparse_bitmap = [0xaa, 0xaa]"


lemmas [code] = alloc_loop.simps set_run_loop.simps pread_retry.simps pwrite_retry.simps

text \<open>Fragmented free space can be out of reach: the search of a zone goes on after a window as soon as
  one free range of it is used up, and a zone it has left is not searched again. With every second
  of 16 clusters free, a request for 4 clusters fails for lack of space.\<close>

theorem fragmented_space_not_found:
  "card {k. k < 16 \<and> \<not> bm_bit sparse_bitmap k} = 8 \<and>
   (\<exists>vol'. ntfs_cluster_alloc (\<lambda>n. True) mem_attr_ops (demo_volume sparse_bitmap) 0 4 (-1) DATA_ZONE =
      Some (vol', Err ENOSPC) \<and> free_clusters vol' = 8)"
proof
  have "{k. k < 16 \<and> \<not> bm_bit sparse_bitmap k} = set (filter (\<lambda>k. \<not> bm_bit sparse_bitmap k) [0..<16])"
    by auto
  moreover have "card (set (filter (\<lambda>k. \<not> bm_bit sparse_bitmap k) [0..<16])) = 8" by code_simp
  ultimately show "card {k. k < 16 \<and> \<not> bm_bit sparse_bitmap k} = 8" by simp
  have "map_option (\<lambda>(v, r). (free_clusters v, r))
    (ntfs_cluster_alloc (\<lambda>n. True) mem_attr_ops (demo_volume sparse_bitmap) 0 4 (-1) DATA_ZONE) = Some (8, Err ENOSPC)"
    by code_simp
  then show "\<exists>vol'. ntfs_cluster_alloc (\<lambda>n. True) mem_attr_ops (demo_volume sparse_bitmap) 0 4 (-1) DATA_ZONE =
      Some (vol', Err ENOSPC) \<and> free_clusters vol' = 8" by auto
qed

text \<open>A request that is met, on a bitmap on disk: three clusters of the data zone.\<close>

lemma demo_alloc:
  "\<exists>vol'. ntfs_cluster_alloc (\<lambda>n. True) rl_attr_ops (demo_volume demo_bitmap) 0 3 (-1) DATA_ZONE =
     Some (vol', Ok [\<lparr>rl_vcn = 0, rl_lcn = 8, rl_length = 3\<rparr>, \<lparr>rl_vcn = 3, rl_lcn = LCN_RL_NOT_MAPPED, rl_length = 0\<rparr>])"
proof -
  have "map_option snd (ntfs_cluster_alloc (\<lambda>n. True) rl_attr_ops (demo_volume demo_bitmap) 0 3 (-1) DATA_ZONE) =
     Some (Ok [\<lparr>rl_vcn = 0, rl_lcn = 8, rl_length = 3\<rparr>, \<lparr>rl_vcn = 3, rl_lcn = LCN_RL_NOT_MAPPED, rl_length = 0\<rparr>])"
    by code_simp
  then show ?thesis by auto
qed

end
