(* ===== verification/Lcnalloc_Disk.thy ===== *)
theory Lcnalloc_Disk
  imports Lcnalloc_Alloc Lcnalloc_Fragment
begin

text \<open>
  Allocation and freeing of clusters on a volume whose bitmap is stored on disk.
\<close>

section \<open>Volumes\<close>

interpretation disk_vol: cluster_bitmap rl_attr_ops rl_content rl_ok
  by (intro cluster_bitmap.intro disk_attr.byte_attr_axioms)

abbreviation bitmap_of :: "rl_attr lcn_volume \<Rightarrow> bytes" where
  "bitmap_of vol \<equiv> rl_content (lcnbmp_na vol)"

text \<open>The bitmap is intact and small enough for the positions the code computes.\<close>

definition vol_ok :: "rl_attr lcn_volume \<Rightarrow> bool" where
  "vol_ok vol \<longleftrightarrow> rl_ok (lcnbmp_na vol) \<and> zones_ok vol \<and> 8 * length (bitmap_of vol) + 8 \<le> 2 ^ 34"

lemma alloc_result_runlist:
  assumes "alloc_result c0 F0 N sv c F (Ok rl)"
  shows "wf_rl sv rl \<and> length (rl_cells rl) = N \<and> distinct (rl_cells rl) \<and>
    (\<forall>x \<in> set (rl_cells rl). 0 \<le> x \<and> x < 8 * int (length c0) \<and> \<not> bm_bit c0 (nat x)) \<and>
    length c = length c0 \<and> (\<forall>k < 8 * length c0. bm_bit c k \<longleftrightarrow> bm_bit c0 k \<or> int k \<in> set (rl_cells rl)) \<and>
    (int N \<le> F0 \<longrightarrow> F = F0 - int N)"
proof -
  obtain rs t where rl: "rl = rs @ [t]" "rl_length t = 0" "rl_lcn t = LCN_RL_NOT_MAPPED" "rl_vcn t = sv + int N"
    "runs_from sv rs" "length (cells rs) = N" "distinct (cells rs)"
    "\<forall>x \<in> set (cells rs). 0 \<le> x \<and> x < 8 * int (length c0) \<and> \<not> bm_bit c0 (nat x)"
    "length c = length c0" "\<forall>k < 8 * length c0. bm_bit c k \<longleftrightarrow> bm_bit c0 k \<or> int k \<in> set (cells rs)"
    "int N \<le> F0 \<longrightarrow> F = F0 - int N"
    using assms by (auto simp: alloc_result_def)
  have "wf_rl sv (rs @ t # [])"
    using rl length_cells [OF rl(5)] by (intro wf_rlI) (auto simp: lcn_defs)
  moreover have "rl_cells rl = cells rs"
    using rl_runs_shape(1) [OF rl(5,2), of "[]"] rl(1) by (simp add: rl_cells_def)
  ultimately show ?thesis using rl by simp
qed

text \<open>(C24) When the allocator succeeds, the runlist it returns is well formed and maps exactly the requested
  number of virtual clusters to distinct clusters, all of which were free; in the bitmap
  exactly these are now set, and the count of free clusters is lower by their number.\<close>

theorem cluster_alloc_exact:
  assumes "vol_ok vol" and "0 < count" and "-1 \<le> start_lcn"
    and "ntfs_cluster_alloc (\<lambda>n. True) rl_attr_ops vol start_vcn count start_lcn zone = Some (vol', Ok rl)"
  shows "wf_rl start_vcn rl \<and> length (rl_cells rl) = nat count \<and> distinct (rl_cells rl) \<and>
    (\<forall>x \<in> set (rl_cells rl). 0 \<le> x \<and> x < 8 * int (length (bitmap_of vol)) \<and> \<not> bm_bit (bitmap_of vol) (nat x)) \<and>
    length (bitmap_of vol') = length (bitmap_of vol) \<and>
    (\<forall>k < 8 * length (bitmap_of vol). bm_bit (bitmap_of vol') k \<longleftrightarrow>
      bm_bit (bitmap_of vol) k \<or> int k \<in> set (rl_cells rl)) \<and>
    (count \<le> free_clusters vol \<longrightarrow> free_clusters vol' = free_clusters vol - count)"
proof -
  have "disk_vol.returns_ok (bitmap_of vol) (free_clusters vol) (nat count) start_vcn vol (Some (vol', Ok rl))"
    using disk_vol.cluster_alloc_ok [of vol count start_lcn "\<lambda>n. True" start_vcn zone] assms
    by (simp add: vol_ok_def)
  then have "alloc_result (bitmap_of vol) (free_clusters vol) (nat count) start_vcn (bitmap_of vol')
      (free_clusters vol') (Ok rl)"
    by (simp add: disk_vol.returns_ok_def)
  from alloc_result_runlist [OF this] assms(2) show ?thesis by simp
qed

lemma demo_vol_ok: "vol_ok (demo_volume demo_bitmap)"
  by (simp add: vol_ok_def demo_volume_def zones_ok_def demo_bitmap_ok)

theorem cluster_alloc_exact_witness:
  "\<exists>vol' rl. ntfs_cluster_alloc (\<lambda>n. True) rl_attr_ops (demo_volume demo_bitmap) 0 3 (-1) DATA_ZONE = Some (vol', Ok rl) \<and>
    wf_rl 0 rl \<and> length (rl_cells rl) = 3 \<and> free_clusters vol' = 5"
proof -
  obtain vol' rl where r:
    "ntfs_cluster_alloc (\<lambda>n. True) rl_attr_ops (demo_volume demo_bitmap) 0 3 (-1) DATA_ZONE = Some (vol', Ok rl)"
    using demo_alloc by blast
  from cluster_alloc_exact [OF demo_vol_ok _ _ r] have "wf_rl 0 rl \<and> length (rl_cells rl) = 3 \<and> free_clusters vol' = 5"
    by (simp add: demo_volume_def)
  with r show ?thesis by blast
qed

text \<open>(C25) On a device without input and output errors, where every allocation of at most 8192 bytes
  succeeds and larger ones may fail, the allocator returns whatever the bitmap holds. It fails only
  with \<open>ENOSPC\<close> or \<open>ENOMEM\<close>, and it has then restored the bitmap, and the count of free clusters
  too unless more clusters were asked for than that count. (The 8192 bytes cover the buffer of the search and
  what releasing the clusters of a failed allocation needs; \<open>ENOMEM\<close> is for a runlist that
  outgrows them.)\<close>

theorem cluster_alloc_returns:
  assumes "vol_ok vol" and "0 < count" and "-1 \<le> start_lcn" and "\<forall>n \<le> 8192. mem n"
  shows "\<exists>vol' r. ntfs_cluster_alloc mem rl_attr_ops vol start_vcn count start_lcn zone = Some (vol', r) \<and>
    (case r of Ok rl \<Rightarrow> True
     | Err e \<Rightarrow> (e = ENOSPC \<or> e = ENOMEM) \<and> bitmap_of vol' = bitmap_of vol \<and>
         (count \<le> free_clusters vol \<longrightarrow> free_clusters vol' = free_clusters vol)
     | Fault \<Rightarrow> False)"
proof -
  obtain vol' r where r: "ntfs_cluster_alloc mem rl_attr_ops vol start_vcn count start_lcn zone = Some (vol', r)"
    "alloc_result (bitmap_of vol) (free_clusters vol) (nat count) start_vcn (bitmap_of vol') (free_clusters vol') r"
    using disk_vol.cluster_alloc_ok [of vol count start_lcn mem start_vcn zone] assms
    by (auto simp: vol_ok_def disk_vol.returns_ok_def)
  then show ?thesis using assms(2) by (cases r) (auto simp: alloc_result_def)
qed

theorem cluster_alloc_returns_witness:
  "\<exists>vol' r. ntfs_cluster_alloc (\<lambda>n. n \<le> 8192) rl_attr_ops (demo_volume demo_bitmap) 0 64 (-1) MFT_ZONE = Some (vol', r) \<and> r \<noteq> Fault"
proof -
  obtain vol' r where "ntfs_cluster_alloc (\<lambda>n. n \<le> 8192) rl_attr_ops (demo_volume demo_bitmap) 0 64 (-1) MFT_ZONE = Some (vol', r)"
    "case r of Ok rl \<Rightarrow> True | Err e \<Rightarrow> (e = ENOSPC \<or> e = ENOMEM) \<and> bitmap_of vol' = bitmap_of (demo_volume demo_bitmap) \<and>
         (64 \<le> free_clusters (demo_volume demo_bitmap) \<longrightarrow> free_clusters vol' = free_clusters (demo_volume demo_bitmap))
     | Fault \<Rightarrow> False"
    using cluster_alloc_returns [OF demo_vol_ok, of 64 "-1" "\<lambda>n. n \<le> 8192" 0 MFT_ZONE] by auto
  then show ?thesis by (cases r) auto
qed

text \<open>(C26) Freeing the runlist of an allocation gives the bitmap and the count of free clusters back.\<close>

theorem alloc_free_roundtrip:
  assumes "vol_ok vol" and "0 < count" and "-1 \<le> start_lcn" and "count \<le> free_clusters vol"
    and "ntfs_cluster_alloc (\<lambda>n. True) rl_attr_ops vol start_vcn count start_lcn zone = Some (vol', Ok rl)"
  shows "\<exists>vol''. ntfs_cluster_free_from_rl (\<lambda>n. True) rl_attr_ops vol' rl = Some (vol'', Ok ()) \<and>
    bitmap_of vol'' = bitmap_of vol \<and> free_clusters vol'' = free_clusters vol"
proof -
  have "disk_vol.returns_ok (bitmap_of vol) (free_clusters vol) (nat count) start_vcn vol (Some (vol', Ok rl))"
    using disk_vol.cluster_alloc_ok [of vol count start_lcn "\<lambda>n. True" start_vcn zone] assms
    by (simp add: vol_ok_def)
  then have ok: "rl_ok (lcnbmp_na vol')" and "alloc_result (bitmap_of vol) (free_clusters vol) (nat count) start_vcn
      (bitmap_of vol') (free_clusters vol') (Ok rl)"
    by (simp_all add: disk_vol.returns_ok_def)
  then obtain rs t where rl: "rl = rs @ t # []" "rl_length t = 0" "runs_from start_vcn rs" "\<forall>e \<in> set rs. 0 \<le> rl_lcn e"
    "length (cells rs) = nat count"
    "\<forall>x \<in> set (cells rs). 0 \<le> x \<and> x < 8 * int (length (bitmap_of vol)) \<and> \<not> bm_bit (bitmap_of vol) (nat x)"
    "length (bitmap_of vol') = length (bitmap_of vol)"
    "\<forall>k < 8 * length (bitmap_of vol). bm_bit (bitmap_of vol') k \<longleftrightarrow> bm_bit (bitmap_of vol) k \<or> int k \<in> set (cells rs)"
    "free_clusters vol' = free_clusters vol - count"
    using assms(2,4) by (auto simp: alloc_result_def)
  have real: "real_cells rs = cells rs" using rl(4) by (rule real_cells_all)
  have pos: "\<forall>e \<in> set rs. 0 < rl_length e" using rl(3) by (blast dest: runs_from_nonzero)
  obtain vol'' where vol'': "free_rl_loop (\<lambda>n. True) rl_attr_ops vol' (rs @ t # []) 0 = Some (vol'', int (nat count), Ok ())"
    "cleared (set (cells rs)) (bitmap_of vol') (bitmap_of vol'')" "free_clusters vol'' = free_clusters vol'"
    using disk_vol.free_rl_loop_exact [OF ok pos rl(2), of "\<lambda>n. True" "[]" 0] rl(5-7) assms(1)
    unfolding real by (auto simp: vol_ok_def)
  have "bitmap_of vol'' = bitmap_of vol"
    using vol''(2) rl(6-8) by (intro bytes_eq_bits) (auto simp: cleared_def)
  then show ?thesis
    using vol''(1,3) rl(1,9) assms(2) by (simp add: ntfs_cluster_free_from_rl_def)
qed

theorem alloc_free_roundtrip_witness:
  "\<exists>vol' rl vol''. ntfs_cluster_alloc (\<lambda>n. True) rl_attr_ops (demo_volume demo_bitmap) 0 3 (-1) DATA_ZONE = Some (vol', Ok rl) \<and>
    ntfs_cluster_free_from_rl (\<lambda>n. True) rl_attr_ops vol' rl = Some (vol'', Ok ()) \<and>
    bitmap_of vol'' = bitmap_of (demo_volume demo_bitmap)"
proof -
  obtain vol' rl where r:
    "ntfs_cluster_alloc (\<lambda>n. True) rl_attr_ops (demo_volume demo_bitmap) 0 3 (-1) DATA_ZONE = Some (vol', Ok rl)"
    using demo_alloc by blast
  have "3 \<le> free_clusters (demo_volume demo_bitmap)" by (simp add: demo_volume_def)
  from alloc_free_roundtrip [OF demo_vol_ok _ _ this r] r show ?thesis by auto
qed

end
