(* ===== verification/Decompress.thy ===== *)
theory Decompress
  imports NTFS_Prelude
begin

text \<open>
  Decompression of a compression block (\<open>ntfs_decompress\<close> of \<open>libntfs-3g/compress.c\<close>). The
  destination is filled from its start, so the bytes written so far are the state; \<open>cap\<close> is
  the number of bytes the destination really has and the list \<open>cb\<close> what is allocated for
  the compression block, so that an access outside of either is \<open>Fault\<close>.
\<close>

unbundle bit_operations_syntax

definition NTFS_SB_SIZE :: nat where "NTFS_SB_SIZE = 0x1000"
definition NTFS_SB_SIZE_MASK :: nat where "NTFS_SB_SIZE_MASK = 0x0fff"
definition NTFS_SB_IS_COMPRESSED :: nat where "NTFS_SB_IS_COMPRESSED = 0x8000"

lemmas sb_defs = NTFS_SB_SIZE_def NTFS_SB_SIZE_MASK_def NTFS_SB_IS_COMPRESSED_def

section \<open>Phrases\<close>

text \<open>The loop that finds the number of bits of a distance, 4 less than it.\<close>

fun lg_of :: "nat \<Rightarrow> nat" where
  "lg_of i = (if i < 0x10 then 0 else Suc (lg_of (i div 2)))"

declare lg_of.simps [simp del]

text \<open>The copy byte by byte, and the copy that takes what does not overlap at once.\<close>

fun copy_bytes :: "bytes \<Rightarrow> nat \<Rightarrow> nat \<Rightarrow> bytes" where
  "copy_bytes out pos 0 = out"
| "copy_bytes out pos (Suc n) = copy_bytes (out @ [out ! pos]) (pos + 1) n"

definition copy_phrase :: "bytes \<Rightarrow> nat \<Rightarrow> nat \<Rightarrow> bytes" where
  "copy_phrase out pos len =
     (let max_non_overlap = length out - pos
      in if len \<le> max_non_overlap then out @ take len (drop pos out)
         else copy_bytes (out @ take max_non_overlap (drop pos out)) (pos + max_non_overlap)
                (len - max_non_overlap))"

section \<open>Tokens, sub-blocks and compression blocks\<close>

text \<open>A phrase token at \<open>pos\<close>; the sub-block started at \<open>s\<close> in the destination.\<close>

definition phrase_token :: "bytes \<Rightarrow> nat \<Rightarrow> nat \<Rightarrow> nat \<Rightarrow> bytes \<Rightarrow> bytes result" where
  "phrase_token cb cap s pos out =
     (if length out = s then Err EOVERFLOW
      else if length cb < pos + 2 then Fault
      else
        let lg = lg_of (length out - s - 1); pt = le_at 2 cb pos;
            distance = pt div 2 ^ (12 - lg) + 1
        in if length out < s + distance then Err EOVERFLOW
           else
             let len = (pt AND (0xfff div 2 ^ lg)) + 3
             in if s + NTFS_SB_SIZE < length out + len then Err EOVERFLOW
                else if cap < length out + len then Fault
                else Ok (copy_phrase out (length out - distance) len))"

text \<open>The tokens of one tag; \<open>e\<close> is the end of the sub-block in the compression block.\<close>

fun sb_tokens :: "nat \<Rightarrow> bytes \<Rightarrow> nat \<Rightarrow> nat \<Rightarrow> nat \<Rightarrow> u8 \<Rightarrow> nat \<Rightarrow> bytes \<Rightarrow> (nat \<times> bytes) result" where
  "sb_tokens 0 cb cap s e tag pos out = Ok (pos, out)"
| "sb_tokens (Suc n) cb cap s e tag pos out =
     (if e \<le> pos \<or> s + NTFS_SB_SIZE < length out then Ok (pos, out)
      else if \<not> bit tag 0 then
        (if length cb \<le> pos \<or> cap \<le> length out then Fault
         else sb_tokens n cb cap s e (drop_bit 1 tag) (pos + 1) (out @ [byte_at cb pos]))
      else case phrase_token cb cap s pos out of
             Ok out \<Rightarrow> sb_tokens n cb cap s e (drop_bit 1 tag) (pos + 2) out
           | Err err \<Rightarrow> Err err
           | Fault \<Rightarrow> Fault)"

lemma sb_tokens_pos: "sb_tokens n cb cap s e tag pos out = Ok (pos', out') \<Longrightarrow> pos \<le> pos'"
proof (induction n arbitrary: tag pos out)
  case (Suc n)
  then show ?case by (auto split: if_splits result.splits dest!: Suc.IH)
qed simp

text \<open>The tags of a sub-block; what is missing at the end is filled with zeros.\<close>

function sb_loop :: "bytes \<Rightarrow> nat \<Rightarrow> nat \<Rightarrow> nat \<Rightarrow> nat \<Rightarrow> bytes \<Rightarrow> (nat \<times> bytes) result" where
  "sb_loop cb cap s e pos out =
     (if pos = e then
        (if length out < s + NTFS_SB_SIZE then
           (if cap < s + NTFS_SB_SIZE then Fault
            else Ok (pos, out @ replicate (s + NTFS_SB_SIZE - length out) 0))
         else Ok (pos, out))
      else if e < pos \<or> s + NTFS_SB_SIZE < length out then Err EOVERFLOW
      else if length cb \<le> pos then Fault
      else case sb_tokens 8 cb cap s e (byte_at cb pos) (pos + 1) out of
             Ok (pos, out) \<Rightarrow> sb_loop cb cap s e pos out
           | Err err \<Rightarrow> Err err
           | Fault \<Rightarrow> Fault)"
  by pat_completeness auto
termination
  by (relation "measure (\<lambda>(cb, cap, s, e, pos, out). e - pos)") (auto dest!: sb_tokens_pos)

declare sb_loop.simps [simp del]

lemma sb_loop_pos: "sb_loop cb cap s e pos out = Ok (pos', out') \<Longrightarrow> pos' = e"
proof (induction cb cap s e pos out rule: sb_loop.induct)
  case (1 cb cap s e pos out)
  then show ?case
    by (subst (asm) sb_loop.simps [of cb cap s e pos out]) (auto split: if_splits result.splits)
qed

function cb_loop :: "nat \<Rightarrow> nat \<Rightarrow> bytes \<Rightarrow> nat \<Rightarrow> nat \<Rightarrow> bytes \<Rightarrow> bytes result" where
  "cb_loop cap dest_size cb cb_size pos out =
     (if pos = cb_size then Ok out
      else if length cb < pos + 2 then Fault
      else
        let hdr = le_at 2 cb pos
        in if hdr = 0 \<or> length out = dest_size then Ok out
           else if dest_size < length out + NTFS_SB_SIZE then Err EOVERFLOW
           else if cb_size < pos + 6 then Err EOVERFLOW
           else
             let e = pos + (hdr AND NTFS_SB_SIZE_MASK) + 3
             in if cb_size < e then Err EOVERFLOW
                else if hdr AND NTFS_SB_IS_COMPRESSED = 0 then
                  (if e - (pos + 2) \<noteq> NTFS_SB_SIZE then Err EOVERFLOW
                   else if length cb < pos + 2 + NTFS_SB_SIZE \<or> cap < length out + NTFS_SB_SIZE then Fault
                   else cb_loop cap dest_size cb cb_size (pos + 2 + NTFS_SB_SIZE)
                          (out @ take NTFS_SB_SIZE (drop (pos + 2) cb)))
                else case sb_loop cb cap (length out) e (pos + 2) out of
                       Ok (pos, out) \<Rightarrow> cb_loop cap dest_size cb cb_size pos out
                     | Err err \<Rightarrow> Err err
                     | Fault \<Rightarrow> Fault)"
  by pat_completeness auto
termination
  by (relation "measure (\<lambda>(cap, dest_size, cb, cb_size, pos, out). cb_size - pos)") (auto dest!: sb_loop_pos)

declare cb_loop.simps [simp del]

definition ntfs_decompress :: "nat \<Rightarrow> nat \<Rightarrow> bytes \<Rightarrow> nat \<Rightarrow> bytes result" where
  "ntfs_decompress cap dest_size cb cb_size = cb_loop cap dest_size cb cb_size 0 []"

section \<open>Copying\<close>

lemma length_copy_bytes [simp]: "length (copy_bytes out pos n) = length out + n"
  by (induction n arbitrary: out pos) auto

lemma length_copy_phrase [simp]: "pos \<le> length out \<Longrightarrow> length (copy_phrase out pos n) = length out + n"
  by (simp add: copy_phrase_def Let_def)

lemma copy_bytes_add: "copy_bytes out pos (m + n) = copy_bytes (copy_bytes out pos m) (pos + m) n"
  by (induction m arbitrary: out pos) auto

lemma copy_bytes_no_overlap: "pos + n \<le> length out \<Longrightarrow> copy_bytes out pos n = out @ take n (drop pos out)"
proof (induction n arbitrary: out pos)
  case (Suc n)
  then have "copy_bytes out pos (Suc n) = (out @ [out ! pos]) @ take n (drop (pos + 1) out)" by simp
  then show ?case using Suc.prems by (simp add: Cons_nth_drop_Suc [symmetric])
qed simp

text \<open>Taking what does not overlap at once is the copy byte by byte.\<close>

lemma copy_phrase_bytes: "pos \<le> length out \<Longrightarrow> copy_phrase out pos len = copy_bytes out pos len"
proof (cases "len \<le> length out - pos")
  case False
  assume pos: "pos \<le> length out"
  let ?m = "length out - pos"
  have "copy_bytes out pos (?m + (len - ?m)) = copy_bytes (copy_bytes out pos ?m) (pos + ?m) (len - ?m)"
    by (rule copy_bytes_add)
  with False pos show ?thesis by (simp add: copy_phrase_def copy_bytes_no_overlap)
qed (simp add: copy_phrase_def copy_bytes_no_overlap)

lemma copy_bytes_eqI:
  assumes "p \<le> length data" and "0 < d" and "d \<le> p" and "p + n \<le> length data"
    and "\<forall>k < n. data ! (p + k) = data ! (p - d + k)"
  shows "copy_bytes (pre @ take p data) (length pre + p - d) n = pre @ take (p + n) data"
  using assms
proof (induction n arbitrary: p)
  case (Suc n)
  have len: "length (take p data) = p" using Suc.prems by simp
  have "(pre @ take p data) ! (length pre + p - d) = data ! (p - d)"
    using Suc.prems(2,3) len by (auto simp: nth_append)
  also have "\<dots> = data ! p" using Suc.prems(5) by (metis add_0_right zero_less_Suc)
  finally have "copy_bytes (pre @ take p data) (length pre + p - d) (Suc n) =
      copy_bytes (pre @ take (Suc p) data) (length pre + Suc p - d) n"
    using Suc.prems(3,4) by (simp add: take_Suc_conv_app_nth Suc_diff_le)
  also have "\<dots> = pre @ take (Suc p + n) data"
  proof (rule Suc.IH)
    show "\<forall>k < n. data ! (Suc p + k) = data ! (Suc p - d + k)"
    proof (intro allI impI)
      fix k assume "k < n"
      then have "data ! (p + Suc k) = data ! (p - d + Suc k)" using Suc.prems(5) by blast
      then show "data ! (Suc p + k) = data ! (Suc p - d + k)" using Suc.prems(3) by (simp add: Suc_diff_le)
    qed
  qed (use Suc.prems in auto)
  finally show ?case by simp
qed simp

end
