(* ===== verification/Decompress_Safety.thy ===== *)
theory Decompress_Safety
  imports Decompress
begin

text \<open>
  What the decompression of arbitrary bytes can access: with one byte to spare behind both
  buffers it never leaves them; without, it does.
\<close>

lemma lg_of_bound: "i < 2 ^ (k + 4) \<Longrightarrow> lg_of i \<le> k"
proof (induction k arbitrary: i)
  case 0
  then show ?case by (simp add: lg_of.simps [of i])
next
  case (Suc k)
  then have "i < 2 ^ (k + 4) * 2" by (simp only: add_Suc power_Suc2)
  then have "i div 2 < 2 ^ (k + 4)" by (rule less_mult_imp_div_less)
  then show ?case using Suc.IH by (simp add: lg_of.simps [of i])
qed

section \<open>No access outside of the buffers\<close>

lemma phrase_token_safe:
  assumes "pos < e" and "e < length cb" and "s + NTFS_SB_SIZE < cap"
  shows "phrase_token cb cap s pos out \<noteq> Fault"
  using assms by (auto simp: phrase_token_def Let_def)

lemma phrase_token_length:
  "phrase_token cb cap s pos out = Ok out' \<Longrightarrow> s \<le> length out \<Longrightarrow> length out < length out' \<and> length out' \<le> s + NTFS_SB_SIZE"
  by (auto simp: phrase_token_def Let_def split: if_splits)

lemma sb_tokens_safe:
  assumes "e < length cb" and "s + NTFS_SB_SIZE < cap" and "s \<le> length out" and "length out \<le> s + NTFS_SB_SIZE + 1"
  shows "sb_tokens n cb cap s e tag pos out \<noteq> Fault \<and>
    (\<forall>pos' out'. sb_tokens n cb cap s e tag pos out = Ok (pos', out') \<longrightarrow>
       s \<le> length out' \<and> length out' \<le> s + NTFS_SB_SIZE + 1)"
  using assms(3,4)
proof (induction n arbitrary: tag pos out)
  case (Suc n)
  show ?case
  proof (cases "e \<le> pos \<or> s + NTFS_SB_SIZE < length out")
    case True
    with Suc.prems show ?thesis by simp
  next
    case go: False
    show ?thesis
    proof (cases "bit tag 0")
      case False
      have "sb_tokens (Suc n) cb cap s e tag pos out =
          sb_tokens n cb cap s e (drop_bit 1 tag) (pos + 1) (out @ [byte_at cb pos])"
        using go False assms(1,2) by simp
      moreover have "s \<le> length (out @ [byte_at cb pos])" "length (out @ [byte_at cb pos]) \<le> s + NTFS_SB_SIZE + 1"
        using go Suc.prems(1) by simp_all
      note Suc.IH [OF this, of "drop_bit 1 tag" "pos + 1"]
      ultimately show ?thesis by simp
    next
      case True
      show ?thesis
      proof (cases "phrase_token cb cap s pos out")
        case (Ok out1)
        have "s \<le> length out1" "length out1 \<le> s + NTFS_SB_SIZE + 1"
          using phrase_token_length [OF Ok Suc.prems(1)] Suc.prems(1) by simp_all
        note Suc.IH [OF this, of "drop_bit 1 tag" "pos + 2"]
        then show ?thesis using go True Ok by simp
      next
        case Fault
        then show ?thesis using phrase_token_safe [OF _ assms(1,2), of pos out] go by simp
      qed (use go True in simp)
    qed
  qed
qed simp

lemma sb_loop_safe:
  assumes "e < length cb" and "s + NTFS_SB_SIZE < cap" and "s \<le> length out" and "length out \<le> s + NTFS_SB_SIZE + 1"
  shows "sb_loop cb cap s e pos out \<noteq> Fault \<and>
    (\<forall>pos' out'. sb_loop cb cap s e pos out = Ok (pos', out') \<longrightarrow>
       s + NTFS_SB_SIZE \<le> length out' \<and> length out' \<le> s + NTFS_SB_SIZE + 1)"
  using assms
proof (induction cb cap s e pos out rule: sb_loop.induct)
  case (1 cb cap s e pos out)
  consider "pos = e" | "pos \<noteq> e" "e < pos \<or> s + NTFS_SB_SIZE < length out"
    | "pos < e" "\<not> s + NTFS_SB_SIZE < length out" by linarith
  then show ?case
  proof cases
    case 3
    show ?thesis
    proof (cases "sb_tokens 8 cb cap s e (byte_at cb pos) (pos + 1) out")
      case (Ok po)
      obtain p o1 where po: "po = (p, o1)" by (cases po)
      have o1: "s \<le> length o1" "length o1 \<le> s + NTFS_SB_SIZE + 1"
        using sb_tokens_safe [OF 1(2,3,4,5), of 8 "byte_at cb pos" "pos + 1"] Ok po by simp_all
      have "pos \<noteq> e" "\<not> (e < pos \<or> s + NTFS_SB_SIZE < length out)" "\<not> length cb \<le> pos"
        using 3 1(2) by simp_all
      from 1(1) [OF this _ _ 1(2,3) o1] 3 1(2) Ok po show ?thesis
        by (subst (1 2) sb_loop.simps) simp
    qed (use 3 1(2) sb_tokens_safe [OF 1(2,3,4,5), of 8 "byte_at cb pos" "pos + 1"] in
        \<open>simp_all add: sb_loop.simps [of cb cap s e pos out]\<close>)
  next
    case pos_e: 1
    then show ?thesis using 1(2-5) by (auto simp: sb_loop.simps [of cb cap s e e out])
  qed (use 1(2-5) in \<open>auto simp: sb_loop.simps [of cb cap s e pos out]\<close>)
qed

lemma cb_loop_safe:
  assumes "cb_size < length cb" and "dest_size < cap" and "pos \<le> cb_size" and "length out \<le> dest_size + 1"
  shows "cb_loop cap dest_size cb cb_size pos out \<noteq> Fault \<and>
    (\<forall>out'. cb_loop cap dest_size cb cb_size pos out = Ok out' \<longrightarrow> length out' \<le> dest_size + 1)"
  using assms
proof (induction cap dest_size cb cb_size pos out rule: cb_loop.induct)
  case (1 cap dest_size cb cb_size pos out)
  let ?hdr = "le_at 2 cb pos"
  let ?e = "pos + (?hdr AND NTFS_SB_SIZE_MASK) + 3"
  show ?case
  proof (cases "pos = cb_size \<or> ?hdr = 0 \<or> length out = dest_size \<or> dest_size < length out + NTFS_SB_SIZE \<or>
      cb_size < pos + 6 \<or> cb_size < ?e")
    case True
    then show ?thesis using 1(3-6)
      by (subst (1 2) cb_loop.simps) (auto simp: Let_def)
  next
    case False
    then have go: "pos \<noteq> cb_size" "\<not> length cb < pos + 2" "\<not> (?hdr = 0 \<or> length out = dest_size)"
      "\<not> dest_size < length out + NTFS_SB_SIZE" "\<not> cb_size < pos + 6" "\<not> cb_size < ?e"
      using 1(3,5) by auto
    show ?thesis
    proof (cases "?hdr AND NTFS_SB_IS_COMPRESSED = 0")
      case plain: True
      show ?thesis
      proof (cases "?e - (pos + 2) = NTFS_SB_SIZE")
        case True
        then have fit: "\<not> (length cb < pos + 2 + NTFS_SB_SIZE \<or> cap < length out + NTFS_SB_SIZE)"
          "pos + 2 + NTFS_SB_SIZE \<le> cb_size" using go 1(3,4) by (auto simp: sb_defs)
        have "length (out @ take NTFS_SB_SIZE (drop (pos + 2) cb)) \<le> dest_size + 1"
          using go(4) by simp
        from 1(1) [OF go(1,2) refl go(3-5) refl go(6) plain _ fit(1) 1(3,4) fit(2) this] True plain go fit(1)
        show ?thesis by (subst (1 2) cb_loop.simps) (simp add: Let_def)
      qed (use plain go in \<open>simp add: cb_loop.simps [of cap dest_size cb cb_size pos out] Let_def\<close>)
    next
      case comp: False
      have e: "?e < length cb" "length out + NTFS_SB_SIZE < cap" using go 1(3,4) by simp_all
      note sb = sb_loop_safe [OF e, of out "pos + 2"]
      show ?thesis
      proof (cases "sb_loop cb cap (length out) ?e (pos + 2) out")
        case (Ok po)
        obtain p o1 where po: "po = (p, o1)" by (cases po)
        have "p \<le> cb_size" "length o1 \<le> dest_size + 1"
          using Ok po sb go sb_loop_pos [of cb cap "length out" ?e "pos + 2" out p o1] by simp_all
        from 1(2) [OF go(1,2) refl go(3-5) refl go(6) comp Ok po [symmetric] 1(3,4) this] Ok po comp go
        show ?thesis by (subst (1 2) cb_loop.simps) (simp add: Let_def)
      qed (use comp go sb in \<open>simp_all add: cb_loop.simps [of cap dest_size cb cb_size pos out] Let_def\<close>)
    qed
  qed
qed

text \<open>(C30) Whatever the compressed bytes are, the decompression ends, reads at most the byte behind the
  compression block and writes at most the byte behind the destination: buffers with one byte
  to spare are never left.\<close>

theorem decompress_stays_inside:
  assumes "cb_size + 1 \<le> length cb" and "dest_size + 1 \<le> cap"
  shows "ntfs_decompress cap dest_size cb cb_size \<noteq> Fault \<and>
    (\<forall>out. ntfs_decompress cap dest_size cb cb_size = Ok out \<longrightarrow> length out \<le> dest_size + 1)"
  using cb_loop_safe [of cb_size cb dest_size cap 0 "[]"] assms by (simp add: ntfs_decompress_def)

theorem decompress_stays_inside_witness:
  "ntfs_decompress 4097 4096 (replicate 4096 0xb1 @ [0]) 4096 \<noteq> Fault"
  using decompress_stays_inside [of 4096 "replicate 4096 0xb1 @ [0]" 4096 4097] by simp

text \<open>A stream whose second token fills the sub-block and whose third is a symbol.\<close>

definition overflow_stream :: bytes where
  "overflow_stream = [0x04, 0xb0, 0x02, 0x41, 0xfc, 0x0f, 0x42, 0x00, 0x00]"

lemma le_at_2: "i + 1 < length bs \<Longrightarrow> le_at 2 bs i = unat (bs ! i) + 256 * unat (bs ! (i + 1))"
  by (simp add: le_at_def byte_at_def numeral_2_eq_2)

lemma overflow_phrase:
  "4096 \<le> cap \<Longrightarrow> \<exists>out. phrase_token overflow_stream cap 0 4 [0x41] = Ok out \<and> length out = 4096"
  by (simp add: phrase_token_def overflow_stream_def le_at_2 lg_of.simps [of 0] sb_defs)

lemma overflow_tokens:
  assumes "4096 \<le> cap"
  shows "\<exists>out. length out = 4096 \<and> sb_tokens (Suc (Suc (Suc (Suc 4)))) overflow_stream cap 0 7 0x02 3 [] =
    (if cap = 4096 then Fault else Ok (7, out @ [0x42]))"
proof -
  let ?S = overflow_stream
  obtain out where out: "phrase_token ?S cap 0 4 [0x41] = Ok out" "length out = 4096"
    using overflow_phrase [OF assms] by blast
  have 1: "sb_tokens (Suc n) ?S cap 0 7 0x02 3 [] = sb_tokens n ?S cap 0 7 (drop_bit 1 0x02) 4 [0x41]" for n
    using assms by (simp add: overflow_stream_def byte_at_def)
  have 2: "sb_tokens (Suc n) ?S cap 0 7 (drop_bit 1 0x02) 4 [0x41] =
      sb_tokens n ?S cap 0 7 (drop_bit 1 (drop_bit 1 0x02)) 6 out" for n
    using out by (simp add: sb_defs)
  have 3: "sb_tokens (Suc n) ?S cap 0 7 (drop_bit 1 (drop_bit 1 0x02)) 6 out =
      (if cap = 4096 then Fault else sb_tokens n ?S cap 0 7 (drop_bit 1 (drop_bit 1 (drop_bit 1 0x02))) 7 (out @ [0x42]))" for n
    using assms out(2) by (simp add: sb_defs overflow_stream_def byte_at_def)
  have 4: "sb_tokens (Suc n) ?S cap 0 7 t 7 o1 = Ok (7, o1)" for n t o1 by simp
  show ?thesis
    unfolding 1 2 3 4 by (rule exI [of _ out]) (simp add: out(2))
qed

lemma overflow_sub_block:
  assumes "4096 \<le> cap"
  shows "\<exists>out. length out = 4096 \<and> sb_loop overflow_stream cap 0 7 2 [] =
    (if cap = 4096 then Fault else Ok (7, out @ [0x42]))"
proof -
  have eight: "8 = Suc (Suc (Suc (Suc 4)))" by simp
  obtain out where out: "length out = 4096" "sb_tokens 8 overflow_stream cap 0 7 0x02 3 [] =
      (if cap = 4096 then Fault else Ok (7, out @ [0x42]))"
    using overflow_tokens [OF assms] unfolding eight by blast
  have at: "byte_at overflow_stream 2 = 0x02" "length overflow_stream = 9"
    by (simp_all add: overflow_stream_def byte_at_def)
  have "sb_loop overflow_stream cap 0 7 7 (out @ [0x42]) = Ok (7, out @ [0x42])"
    using out(1) by (simp add: sb_loop.simps [of _ _ _ 7 7] sb_defs)
  then have "sb_loop overflow_stream cap 0 7 2 [] = (if cap = 4096 then Fault else Ok (7, out @ [0x42]))"
    using out(2) at by (simp add: sb_loop.simps [of _ _ _ 7 2] del: sb_tokens.simps)
  with out(1) show ?thesis by blast
qed

text \<open>(C31) The buffers the reader of compressed attributes passes have no byte to spare. Then a symbol
  behind a full sub-block is written one byte behind the destination, and a phrase that starts with the last
  byte of the compression block is read one byte behind it.\<close>

theorem decompress_leaves_buffers:
  "ntfs_decompress 4096 4096 overflow_stream 9 = Fault \<and>
   (\<exists>out. ntfs_decompress 4097 4096 overflow_stream 9 = Ok out \<and> length out = 4097) \<and>
   ntfs_decompress 4096 4096 [0x03, 0xb0, 0x04, 0x41, 0x41, 0x00] 6 = Fault"
proof (intro conjI)
  let ?S = overflow_stream
  have head: "le_at 2 ?S 0 = 0xb004" "0xb004 AND NTFS_SB_SIZE_MASK = 4" "0xb004 AND NTFS_SB_IS_COMPRESSED \<noteq> 0"
    "length ?S = 9"
    by (simp_all add: overflow_stream_def le_at_2 sb_defs)
  have stop: "le_at 2 ?S 7 = 0" by (simp add: overflow_stream_def le_at_2)
  note start = cb_loop.simps [of _ _ ?S 9 0 "[]"]
  show "ntfs_decompress 4096 4096 ?S 9 = Fault"
    using overflow_sub_block [of 4096] head by (auto simp: ntfs_decompress_def start NTFS_SB_SIZE_def numeral_2_eq_2)
  obtain out where out: "length out = 4096" "sb_loop ?S 4097 0 7 2 [] = Ok (7, out @ [0x42])"
    using overflow_sub_block [of 4097] by auto
  have "cb_loop 4097 4096 ?S 9 7 (out @ [0x42]) = Ok (out @ [0x42])"
    using head(4) stop by (simp add: cb_loop.simps [of _ _ ?S 9 7])
  then have "ntfs_decompress 4097 4096 ?S 9 = Ok (out @ [0x42])"
    using out(2) head by (simp add: ntfs_decompress_def start NTFS_SB_SIZE_def numeral_2_eq_2)
  with out(1) show "\<exists>out. ntfs_decompress 4097 4096 ?S 9 = Ok out \<and> length out = 4097" by simp
  have "sb_tokens (Suc (Suc (Suc n))) [0x03, 0xb0, 0x04, 0x41, 0x41, 0x00] 4096 0 6 0x04 3 [] = Fault" for n
    by (simp add: phrase_token_def byte_at_def sb_defs)
  from this [of 5] have "sb_tokens 8 [0x03, 0xb0, 0x04, 0x41, 0x41, 0x00] 4096 0 6 0x04 3 [] = Fault"
    by (simp del: sb_tokens.simps)
  then have "sb_loop [0x03, 0xb0, 0x04, 0x41, 0x41, 0x00] 4096 0 6 (Suc (Suc 0)) [] = Fault"
    by (simp add: sb_loop.simps [of _ _ _ 6 "Suc (Suc 0)"] byte_at_def sb_defs numeral_2_eq_2 numeral_3_eq_3 del: sb_tokens.simps)
  then show "ntfs_decompress 4096 4096 [0x03, 0xb0, 0x04, 0x41, 0x41, 0x00] 6 = Fault"
    by (simp add: ntfs_decompress_def cb_loop.simps [of _ _ _ 6 0] le_at_2 sb_defs)
qed

end
