(* ===== verification/Compress.thy ===== *)
theory Compress
  imports Decompress
begin

text \<open>
  Compression of a 4096-byte block: the search for matches over hash chains (\<open>ntfs_hash\<close>,
  \<open>ntfs_best_match\<close>, \<open>ntfs_skip_position\<close>) and the lazy parser \<open>ntfs_compress_block\<close> of
  \<open>libntfs-3g/compress.c\<close>. The input buffer has \<open>bufsize\<close> bytes, the length of the list.
\<close>

definition NICE_MATCH_LEN :: nat where "NICE_MATCH_LEN = 18"
definition MAX_SEARCH_DEPTH :: nat where "MAX_SEARCH_DEPTH = 24"
definition HASH_SHIFT :: nat where "HASH_SHIFT = 14"
definition HASH_MULTIPLIER :: u32 where "HASH_MULTIPLIER = 0x1E35A7BD"

lemmas match_defs = NICE_MATCH_LEN_def MAX_SEARCH_DEPTH_def HASH_SHIFT_def

section \<open>The match finder\<close>

text \<open>The chains: \<open>head\<close> has the latest position of every hash value, \<open>prev\<close> the one before a
  position, -1 ends a chain. At first \<open>prev\<close> is not initialised.\<close>

record COMPRESS_CONTEXT =
  cx_size :: nat
  cx_rel :: int
  cx_mxsz :: nat
  cx_head :: "nat \<Rightarrow> int"
  cx_prev :: "nat \<Rightarrow> int"

definition ntfs_hash :: "bytes \<Rightarrow> nat \<Rightarrow> nat" where
  "ntfs_hash inbuf i =
     (let str = ucast (inbuf ! i) OR push_bit 8 (ucast (inbuf ! (i + 1))) OR push_bit 16 (ucast (inbuf ! (i + 2)))
      in unat (drop_bit (32 - HASH_SHIFT) (str * HASH_MULTIPLIER)))"

text \<open>A match as long as possible, once it is nice.\<close>

function run_on :: "bytes \<Rightarrow> nat \<Rightarrow> nat \<Rightarrow> nat \<Rightarrow> nat \<Rightarrow> nat" where
  "run_on inbuf m i max_len best =
     (if best < max_len \<and> inbuf ! (m + best) = inbuf ! (i + best) then run_on inbuf m i max_len (best + 1) else best)"
  by pat_completeness auto
termination by (relation "measure (\<lambda>(inbuf, m, i, max_len, best). max_len - best)") auto

declare run_on.simps [simp del]

text \<open>The match is extended; the flag tells whether it is nice.\<close>

function extend_match :: "bytes \<Rightarrow> nat \<Rightarrow> nat \<Rightarrow> nat \<Rightarrow> nat \<Rightarrow> nat \<Rightarrow> nat \<times> bool" where
  "extend_match inbuf m i max_len nice_len best =
     (if nice_len \<le> best + 1 then (run_on inbuf m i max_len (best + 1), True)
      else if inbuf ! (m + (best + 1)) = inbuf ! (i + (best + 1))
      then extend_match inbuf m i max_len nice_len (best + 1)
      else (best + 1, False))"
  by pat_completeness auto
termination by (relation "measure (\<lambda>(inbuf, m, i, max_len, nice_len, best). nice_len - best)") auto

declare extend_match.simps [simp del]

text \<open>Whether the match at \<open>m\<close> is longer than the best one: the last bytes are compared first.\<close>

definition longer_match :: "bytes \<Rightarrow> nat \<Rightarrow> nat \<Rightarrow> nat \<Rightarrow> bool" where
  "longer_match inbuf m i best \<longleftrightarrow>
     \<not> (inbuf ! (m + best) \<noteq> inbuf ! (i + best) \<or> inbuf ! (m + (best - 1)) \<noteq> inbuf ! (i + (best - 1)) \<or>
        inbuf ! m \<noteq> inbuf ! i) \<and>
     list_all (\<lambda>len. inbuf ! (m + len) = inbuf ! (i + len)) [1..<best - 1]"

fun search_chain ::
    "nat \<Rightarrow> bytes \<Rightarrow> (nat \<Rightarrow> int) \<Rightarrow> nat \<Rightarrow> nat \<Rightarrow> nat \<Rightarrow> int \<Rightarrow> nat \<Rightarrow> nat \<Rightarrow> nat \<times> nat"
where
  "search_chain 0 inbuf prev i max_len nice_len cur best best_matchptr = (best, best_matchptr)"
| "search_chain (Suc depth) inbuf prev i max_len nice_len cur best best_matchptr =
     (if cur < 0 then (best, best_matchptr)
      else if longer_match inbuf (nat cur) i best then
        (case extend_match inbuf (nat cur) i max_len nice_len best of
           (best, nice) \<Rightarrow>
             if nice then (best, nat cur)
             else search_chain depth inbuf prev i max_len nice_len (prev (nat cur)) best (nat cur))
      else search_chain depth inbuf prev i max_len nice_len (prev (nat cur)) best best_matchptr)"

text \<open>The current sequence becomes the head of its chain.\<close>

definition insert_position :: "bytes \<Rightarrow> nat \<Rightarrow> COMPRESS_CONTEXT \<Rightarrow> COMPRESS_CONTEXT" where
  "insert_position inbuf i ctx =
     (let hash = ntfs_hash inbuf i
      in ctx\<lparr>cx_prev := (cx_prev ctx)(i := cx_head ctx hash), cx_head := (cx_head ctx)(hash := int i)\<rparr>)"

definition ntfs_best_match :: "bytes \<Rightarrow> nat \<Rightarrow> nat \<Rightarrow> COMPRESS_CONTEXT \<Rightarrow> COMPRESS_CONTEXT" where
  "ntfs_best_match inbuf i best_len ctx =
     (let max_len = min (length inbuf - i) (cx_mxsz ctx); nice_len = min NICE_MATCH_LEN max_len
      in if max_len < 4 then ctx\<lparr>cx_size := best_len, cx_rel := 0\<rparr>
         else
           let cur_match = cx_head ctx (ntfs_hash inbuf i); ctx = insert_position inbuf i ctx
           in if max_len \<le> best_len then ctx\<lparr>cx_size := best_len, cx_rel := 0\<rparr>
              else case search_chain MAX_SEARCH_DEPTH inbuf (cx_prev ctx) i max_len nice_len cur_match best_len i of
                     (best_len, best_matchptr) \<Rightarrow> ctx\<lparr>cx_size := best_len, cx_rel := int best_matchptr - int i\<rparr>)"

definition ntfs_skip_position :: "bytes \<Rightarrow> nat \<Rightarrow> COMPRESS_CONTEXT \<Rightarrow> COMPRESS_CONTEXT" where
  "ntfs_skip_position inbuf i ctx = (if length inbuf - i < 4 then ctx else insert_position inbuf i ctx)"

section \<open>The parser\<close>

text \<open>\<open>co_out\<close> is the output buffer up to \<open>xout\<close>; the header and the reserved tag are
  filled in later. \<open>mxoff\<close> is \<open>1 << bp\<close> throughout and not kept.\<close>

record comp_state =
  co_i :: nat
  co_bp :: nat
  co_ctx :: COMPRESS_CONTEXT
  co_out :: bytes
  co_ptag :: nat
  co_tag :: u8
  co_ntag :: nat
  co_have_match :: bool

text \<open>The number of bits for a distance grows with the position.\<close>

function adjust_bp :: "nat \<Rightarrow> nat \<Rightarrow> nat \<Rightarrow> nat \<times> nat" where
  "adjust_bp i bp mxsz = (if 2 ^ bp < i then adjust_bp i (bp + 1) ((mxsz + 2) div 2) else (bp, mxsz))"
  by pat_completeness auto
termination
  by (relation "measure (\<lambda>(i, bp, mxsz). i - 2 ^ bp)") (auto intro: diff_less_mono2)

declare adjust_bp.simps [simp del]

definition ensure_match :: "bytes \<Rightarrow> comp_state \<Rightarrow> comp_state" where
  "ensure_match inbuf st =
     (if co_have_match st then st
      else case adjust_bp (co_i st) (co_bp st) (cx_mxsz (co_ctx st)) of
             (bp, mxsz) \<Rightarrow> st\<lparr>co_bp := bp, co_ctx := ntfs_best_match inbuf (co_i st) 2 ((co_ctx st)\<lparr>cx_mxsz := mxsz\<rparr>)\<rparr>)"

definition emit_literal :: "bytes \<Rightarrow> bool \<Rightarrow> comp_state \<Rightarrow> comp_state" where
  "emit_literal inbuf have st =
     st\<lparr>co_out := co_out st @ [inbuf ! co_i st], co_i := co_i st + 1, co_have_match := have\<rparr>"

text \<open>The token of a match of length \<open>len\<close> at the relative position \<open>offs\<close>, which is negative.\<close>

definition emit_match :: "nat \<Rightarrow> int \<Rightarrow> nat \<Rightarrow> comp_state \<Rightarrow> comp_state" where
  "emit_match bp offs len st =
     (let q = nat (- offs - 1) * 2 ^ (16 - bp) + (len - 3)
      in st\<lparr>co_out := co_out st @ [word_of_nat (q mod 256), word_of_nat (q div 256 mod 256)],
            co_tag := co_tag st OR push_bit (8 - co_ntag st) 1\<rparr>)"

definition skip_positions :: "bytes \<Rightarrow> nat \<Rightarrow> nat \<Rightarrow> comp_state \<Rightarrow> comp_state" where
  "skip_positions inbuf i j st =
     st\<lparr>co_ctx := fold (ntfs_skip_position inbuf) [i..<j] (co_ctx st), co_i := j, co_have_match := False\<rparr>"

definition store_tag :: "comp_state \<Rightarrow> comp_state" where
  "store_tag st =
     (if co_ntag st = 1 then
        st\<lparr>co_out := (co_out st)[co_ptag st := co_tag st] @ [0], co_ntag := 8, co_ptag := length (co_out st), co_tag := 0\<rparr>
      else st\<lparr>co_ntag := co_ntag st - 1\<rparr>)"

text \<open>The body of the loop up to the tag; the flag tells that a match reached the end of the input.\<close>

definition comp_token :: "bytes \<Rightarrow> comp_state \<Rightarrow> comp_state \<times> bool" where
  "comp_token inbuf st =
     (let st = ensure_match inbuf st; i = co_i st; size = cx_size (co_ctx st);
          offs = cx_rel (co_ctx st); bp_cur = co_bp st; j = i + size
      in if size < 3 then (emit_literal inbuf False st, False)
         else if NICE_MATCH_LEN \<le> size then
           (let st = emit_match bp_cur offs size st
            in if j = length inbuf then (st\<lparr>co_i := j, co_ntag := co_ntag st - 1\<rparr>, True)
               else (skip_positions inbuf (i + 1) j st, False))
         else
           let ctx = co_ctx st;
               st = (if 2 ^ bp_cur < i + 1
                     then st\<lparr>co_bp := bp_cur + 1, co_ctx := ctx\<lparr>cx_mxsz := (cx_mxsz ctx + 2) div 2\<rparr>\<rparr> else st);
               st = st\<lparr>co_ctx := ntfs_best_match inbuf (i + 1) size (co_ctx st)\<rparr>;
               k = i + 1 + cx_size (co_ctx st)
           in if j + 1 < k then (emit_literal inbuf True st, False)
              else (skip_positions inbuf (i + 2) j (emit_match bp_cur offs size st), False))"

lemma comp_token_progress: "comp_token inbuf st = (st', False) \<Longrightarrow> co_i st < co_i st'"
  by (auto simp: comp_token_def Let_def emit_literal_def skip_positions_def ensure_match_def match_defs
      split: if_splits prod.splits)

lemma store_tag_i [simp]: "co_i (store_tag st) = co_i st"
  by (simp add: store_tag_def)

function comp_loop :: "bytes \<Rightarrow> comp_state \<Rightarrow> comp_state" where
  "comp_loop inbuf st =
     (if length inbuf \<le> co_i st \<or> NTFS_SB_SIZE + 2 \<le> length (co_out st) then st
      else case comp_token inbuf st of
             (st', True) \<Rightarrow> st'
           | (st', False) \<Rightarrow> comp_loop inbuf (store_tag st'))"
  by pat_completeness auto
termination
  by (relation "measure (\<lambda>(inbuf, st). length inbuf - co_i st)")
    (auto dest!: sym [THEN comp_token_progress] comp_token_progress)

declare comp_loop.simps [simp del]

definition comp_start :: "(nat \<Rightarrow> int) \<Rightarrow> comp_state" where
  "comp_start prev0 =
     \<lparr>co_i = 0, co_bp = 4,
      co_ctx = \<lparr>cx_size = 0, cx_rel = 0, cx_mxsz = 2 ^ (16 - 4) + 2, cx_head = (\<lambda>_. -1), cx_prev = prev0\<rparr>,
      co_out = [0, 0, 0], co_ptag = 2, co_tag = 0, co_ntag = 8, co_have_match = False\<rparr>"

text \<open>After the loop: the last tag, and the block compressed or, when that is not shorter, as it is.\<close>

definition comp_finish :: "bytes \<Rightarrow> comp_state \<Rightarrow> bytes" where
  "comp_finish inbuf st =
     (let out = (if co_ntag st = 8 then butlast (co_out st) else (co_out st)[co_ptag st := co_tag st]);
          xout = length out
      in if length inbuf \<le> co_i st \<and> xout < NTFS_SB_SIZE + 2
         then out[0 := word_of_int ((int xout - 3) mod 256), 1 := 0xb0 + word_of_int ((int xout - 3) div 256 mod 16)]
         else [0xff, 0x3f] @ inbuf @ replicate (NTFS_SB_SIZE - length inbuf) 0)"

text \<open>\<open>mem\<close> tells whether the context can be allocated, \<open>prev0\<close> what is in its memory.\<close>

definition ntfs_compress_block :: "bool \<Rightarrow> (nat \<Rightarrow> int) \<Rightarrow> bytes \<Rightarrow> bytes result" where
  "ntfs_compress_block mem prev0 inbuf =
     (if mem then Ok (comp_finish inbuf (comp_loop inbuf (comp_start prev0))) else Err ENOMEM)"

end
