(* ===== verification/Compress_Match.thy ===== *)
theory Compress_Match
  imports Compress
begin

text \<open>
  The match finder finds matches: whatever the chains hold, the reported length and
  distance name an earlier occurrence of the bytes at the current position.
\<close>

definition agree :: "bytes \<Rightarrow> nat \<Rightarrow> nat \<Rightarrow> nat \<Rightarrow> bool" where
  "agree inbuf m i n \<longleftrightarrow> (\<forall>k < n. inbuf ! (m + k) = inbuf ! (i + k))"

lemma agree_Suc: "agree inbuf m i (n + 1) \<longleftrightarrow> agree inbuf m i n \<and> inbuf ! (m + n) = inbuf ! (i + n)"
  by (auto simp: agree_def less_Suc_eq)

lemma run_on_agree:
  assumes "agree inbuf m i best" and "best \<le> max_len"
  shows "best \<le> run_on inbuf m i max_len best \<and> run_on inbuf m i max_len best \<le> max_len \<and>
    agree inbuf m i (run_on inbuf m i max_len best)"
  using assms
proof (induction inbuf m i max_len best rule: run_on.induct)
  case (1 inbuf m i max_len best)
  show ?case
  proof (cases "best < max_len \<and> inbuf ! (m + best) = inbuf ! (i + best)")
    case True
    then have "agree inbuf m i (best + 1)" "best + 1 \<le> max_len" using 1(2) by (simp_all add: agree_Suc [simplified])
    from 1(1) [OF True this] True show ?thesis by (simp add: run_on.simps [of inbuf m i max_len best])
  next
    case False
    then have "run_on inbuf m i max_len best = best" by (subst run_on.simps) (rule if_not_P)
    with 1(2,3) show ?thesis by simp
  qed
qed

lemma extend_match_agree:
  assumes "agree inbuf m i (best + 1)" and "best < max_len" and "nice_len \<le> max_len"
    and "extend_match inbuf m i max_len nice_len best = (b, nice)"
  shows "best < b \<and> b \<le> max_len \<and> agree inbuf m i b \<and> (nice \<or> b < nice_len)"
  using assms
proof (induction inbuf m i max_len nice_len best rule: extend_match.induct)
  case (1 inbuf m i max_len nice_len best)
  consider "nice_len \<le> best + 1" | "best + 1 < nice_len" "inbuf ! (m + (best + 1)) = inbuf ! (i + (best + 1))"
    | "best + 1 < nice_len" "inbuf ! (m + (best + 1)) \<noteq> inbuf ! (i + (best + 1))" by linarith
  then show ?case
  proof cases
    case nice: 1
    then have "b = run_on inbuf m i max_len (best + 1)" "nice"
      using 1(5) by (simp_all add: extend_match.simps [of inbuf m i max_len nice_len best])
    with run_on_agree [OF 1(2), of max_len] 1(3) show ?thesis by simp
  next
    case 2
    then have "agree inbuf m i (best + 1 + 1)" using 1(2) agree_Suc by blast
    moreover have "extend_match inbuf m i max_len nice_len (best + 1) = (b, nice)"
      using 1(5) 2 by (simp add: extend_match.simps [of inbuf m i max_len nice_len best])
    ultimately have "best + 1 < b \<and> b \<le> max_len \<and> agree inbuf m i b \<and> (nice \<or> b < nice_len)"
      using 1(1) 2 1(4) by simp
    then show ?thesis by simp
  next
    case 3
    then have "b = best + 1" "\<not> nice"
      using 1(5) by (auto simp: extend_match.simps [of inbuf m i max_len nice_len best])
    with 3 1(2,4) show ?thesis by simp
  qed
qed

lemma longer_match_agree:
  assumes "longer_match inbuf m i best" and "2 \<le> best"
  shows "agree inbuf m i (best + 1)"
  unfolding agree_def
proof (intro allI impI)
  fix k assume "k < best + 1"
  then consider "k = best" | "k = best - 1" | "k = 0" | "1 \<le> k" "k < best - 1" using assms(2) by linarith
  then show "inbuf ! (m + k) = inbuf ! (i + k)"
    by cases (use assms in \<open>auto simp: longer_match_def list_all_iff\<close>)
qed

section \<open>Chains\<close>

definition in_chain :: "nat set \<Rightarrow> int \<Rightarrow> bool" where
  "in_chain S c \<longleftrightarrow> c < 0 \<or> nat c \<in> S"

definition chains_ok :: "nat \<Rightarrow> COMPRESS_CONTEXT \<Rightarrow> bool" where
  "chains_ok i ctx \<longleftrightarrow> (\<exists>S \<subseteq> {..<i}. (\<forall>h. in_chain S (cx_head ctx h)) \<and> (\<forall>p \<in> S. in_chain S (cx_prev ctx p)))"

lemma chains_ok_mono: "chains_ok i ctx \<Longrightarrow> i \<le> j \<Longrightarrow> chains_ok j ctx"
  unfolding chains_ok_def by (meson lessThan_subset_iff order_trans)

lemma chains_ok_update [simp]:
  "chains_ok i (ctx\<lparr>cx_size := s, cx_rel := r\<rparr>) = chains_ok i ctx"
  "chains_ok i (ctx\<lparr>cx_mxsz := mx\<rparr>) = chains_ok i ctx"
  by (simp_all add: chains_ok_def)

lemma insert_position_simps [simp]:
  "cx_mxsz (insert_position inbuf i ctx) = cx_mxsz ctx" "cx_size (insert_position inbuf i ctx) = cx_size ctx"
  "cx_rel (insert_position inbuf i ctx) = cx_rel ctx"
  by (simp_all add: insert_position_def Let_def)

lemma chains_ok_insert:
  assumes "chains_ok i ctx"
  shows "chains_ok (i + 1) (insert_position inbuf i ctx)"
proof -
  obtain S where S: "S \<subseteq> {..<i}" "\<forall>h. in_chain S (cx_head ctx h)" "\<forall>p \<in> S. in_chain S (cx_prev ctx p)"
    using assms by (auto simp: chains_ok_def)
  then have "insert i S \<subseteq> {..<i + 1}" "\<forall>h. in_chain (insert i S) (cx_head (insert_position inbuf i ctx) h)"
    "\<forall>p \<in> insert i S. in_chain (insert i S) (cx_prev (insert_position inbuf i ctx) p)"
    by (auto simp: insert_position_def Let_def in_chain_def)
  then show ?thesis unfolding chains_ok_def by blast
qed

lemma search_chain_agree:
  assumes "\<forall>p \<in> S. in_chain S (prev p)" and "nice_len \<le> max_len"
    and "in_chain S cur" and "2 \<le> best" and "best < max_len"
    and "search_chain depth inbuf prev i max_len nice_len cur best bm = (b, m)"
  shows "(b, m) = (best, bm) \<or> (m \<in> S \<and> best < b \<and> b \<le> max_len \<and> agree inbuf m i b)"
  using assms(3-)
proof (induction depth arbitrary: cur best bm)
  case (Suc depth)
  show ?case
  proof (cases "cur < 0")
    case False
    then have S: "nat cur \<in> S" "in_chain S (prev (nat cur))" using Suc.prems(1) assms(1) by (auto simp: in_chain_def)
    show ?thesis
    proof (cases "longer_match inbuf (nat cur) i best")
      case True
      obtain b1 nice where e: "extend_match inbuf (nat cur) i max_len nice_len best = (b1, nice)" by force
      from extend_match_agree [OF longer_match_agree [OF True Suc.prems(2)] Suc.prems(3) assms(2) e]
      have b1: "best < b1" "b1 \<le> max_len" "agree inbuf (nat cur) i b1" "nice \<or> b1 < nice_len" by auto
      show ?thesis
      proof (cases nice)
        case True
        with e \<open>longer_match _ _ _ _\<close> Suc.prems(4) False S b1 show ?thesis by simp
      next
        case plain: False
        have "search_chain depth inbuf prev i max_len nice_len (prev (nat cur)) b1 (nat cur) = (b, m)"
          using e True plain Suc.prems(4) False by simp
        moreover have "2 \<le> b1" "b1 < max_len" using b1 plain Suc.prems(2) assms(2) by auto
        ultimately have "(b, m) = (b1, nat cur) \<or> (m \<in> S \<and> b1 < b \<and> b \<le> max_len \<and> agree inbuf m i b)"
          using Suc.IH S(2) by blast
        then show ?thesis using b1 S(1) by auto
      qed
    next
      case no: False
      then have "search_chain depth inbuf prev i max_len nice_len (prev (nat cur)) best bm = (b, m)"
        using Suc.prems(4) False by simp
      from Suc.IH [OF S(2) Suc.prems(2,3) this] show ?thesis .
    qed
  qed (use Suc.prems in simp)
qed simp

section \<open>The reported match\<close>

definition match_at :: "bytes \<Rightarrow> nat \<Rightarrow> nat \<Rightarrow> nat \<Rightarrow> int \<Rightarrow> bool" where
  "match_at inbuf mxsz i len rel \<longleftrightarrow> rel < 0 \<and> - rel \<le> int i \<and> i + len \<le> length inbuf \<and> len \<le> mxsz \<and>
     agree inbuf (i - nat (- rel)) i len"

lemma best_match_ok:
  assumes "chains_ok i ctx" and "2 \<le> best_len"
  shows "chains_ok (i + 1) (ntfs_best_match inbuf i best_len ctx) \<and>
    cx_mxsz (ntfs_best_match inbuf i best_len ctx) = cx_mxsz ctx \<and>
    (cx_size (ntfs_best_match inbuf i best_len ctx) = best_len \<or>
     (best_len < cx_size (ntfs_best_match inbuf i best_len ctx) \<and>
      match_at inbuf (cx_mxsz ctx) i (cx_size (ntfs_best_match inbuf i best_len ctx))
        (cx_rel (ntfs_best_match inbuf i best_len ctx))))"
proof -
  let ?max = "min (length inbuf - i) (cx_mxsz ctx)" and ?ctx = "insert_position inbuf i ctx"
  consider "?max < 4" | "4 \<le> ?max" "?max \<le> best_len" | "4 \<le> ?max" "best_len < ?max" by linarith
  then show ?thesis
  proof cases
    case 1
    then show ?thesis using chains_ok_mono [OF assms(1)] by (simp add: ntfs_best_match_def Let_def)
  next
    case 2
    then have "\<not> ?max < 4" by linarith
    with 2(2) show ?thesis using chains_ok_insert [OF assms(1)] by (simp add: ntfs_best_match_def Let_def)
  next
    case 3
    obtain S where S: "S \<subseteq> {..<i}" "\<forall>h. in_chain S (cx_head ctx h)" "\<forall>p \<in> S. in_chain S (cx_prev ctx p)"
      using assms(1) by (auto simp: chains_ok_def)
    have prev: "\<forall>p \<in> S. in_chain S (cx_prev ?ctx p)" using S by (auto simp: insert_position_def Let_def)
    obtain b m where r: "search_chain MAX_SEARCH_DEPTH inbuf (cx_prev ?ctx) i ?max (min NICE_MATCH_LEN ?max)
        (cx_head ctx (ntfs_hash inbuf i)) best_len i = (b, m)" by force
    have best: "ntfs_best_match inbuf i best_len ctx = ?ctx\<lparr>cx_size := b, cx_rel := int m - int i\<rparr>"
      using 3 r linorder_not_less [of ?max 4] linorder_not_le [of ?max best_len] by (simp add: ntfs_best_match_def Let_def)
    have "(b, m) = (best_len, i) \<or> (m \<in> S \<and> best_len < b \<and> b \<le> ?max \<and> agree inbuf m i b)"
      using S(2) by (intro search_chain_agree [OF prev min.cobounded2 _ assms(2) 3(2) r]) blast
    then show ?thesis
    proof
      assume "(b, m) = (best_len, i)"
      then show ?thesis using chains_ok_insert [OF assms(1)] best by simp
    next
      assume m: "m \<in> S \<and> best_len < b \<and> b \<le> ?max \<and> agree inbuf m i b"
      then have "m < i" using S(1) by auto
      then have "i - nat (int i - int m) = m" by linarith
      with \<open>m < i\<close> have "match_at inbuf (cx_mxsz ctx) i b (int m - int i)" using m 3 by (auto simp: match_at_def)
      then show ?thesis using chains_ok_insert [OF assms(1)] best m by simp
    qed
  qed
qed

lemma skip_position_ok:
  "chains_ok i ctx \<Longrightarrow> chains_ok (i + 1) (ntfs_skip_position inbuf i ctx) \<and>
     cx_mxsz (ntfs_skip_position inbuf i ctx) = cx_mxsz ctx"
  using chains_ok_insert [of i ctx inbuf] chains_ok_mono [of i ctx "i + 1"] by (simp add: ntfs_skip_position_def)

lemma skip_fold_ok:
  assumes "chains_ok i ctx" and "i \<le> j"
  shows "chains_ok j (fold (ntfs_skip_position inbuf) [i..<j] ctx) \<and>
    cx_mxsz (fold (ntfs_skip_position inbuf) [i..<j] ctx) = cx_mxsz ctx"
  using assms(2)
proof (induction rule: dec_induct)
  case (step n)
  then show ?case using skip_position_ok [of n] by simp
qed (use assms in simp)

end
