(* ===== verification/Compress_Tokens.thy ===== *)
theory Compress_Tokens
  imports Compress_Match
begin

text \<open>
  The stream of a compressed block as a list of tokens: what the tokens mean, how they are
  encoded in groups of eight, and that the decompression of the encoded groups gives back the data
  they were made for.
\<close>

section \<open>Tokens\<close>

datatype tok = Lit u8 | Copy nat nat

fun is_copy :: "tok \<Rightarrow> bool" where
  "is_copy (Lit b) = False" | "is_copy (Copy d l) = True"

fun tok_len :: "tok \<Rightarrow> nat" where
  "tok_len (Lit b) = 1" | "tok_len (Copy d l) = l"

text \<open>The number of bits of a distance at position \<open>p\<close> of a block.\<close>

definition bits_at :: "nat \<Rightarrow> nat" where
  "bits_at p = lg_of (p - 1) + 4"

fun tok_code :: "nat \<Rightarrow> tok \<Rightarrow> bytes" where
  "tok_code p (Lit b) = [b]"
| "tok_code p (Copy d l) = le_bytes 2 ((d - 1) * 2 ^ (16 - bits_at p) + (l - 3))"

text \<open>The token at position \<open>p\<close> stands for the data there.\<close>

fun tok_ok :: "bytes \<Rightarrow> nat \<Rightarrow> tok \<Rightarrow> bool" where
  "tok_ok data p (Lit b) \<longleftrightarrow> p < length data \<and> data ! p = b"
| "tok_ok data p (Copy d l) \<longleftrightarrow> 0 < d \<and> d \<le> p \<and> 3 \<le> l \<and> p + l \<le> length data \<and>
     l - 3 < 2 ^ (16 - bits_at p) \<and> agree data (p - d) p l"

lemma tok_len_pos: "tok_ok data p t \<Longrightarrow> 0 < tok_len t \<and> p + tok_len t \<le> length data"
  by (cases t) auto

section \<open>Widths\<close>

lemma lg_of_least:
  "i < 2 ^ (lg_of i + 4) \<and> (\<forall>k. i < 2 ^ (k + 4) \<longrightarrow> lg_of i \<le> k)"
proof (induction i rule: lg_of.induct)
  case (1 i)
  show ?case
  proof (cases "i < 0x10")
    case True
    then show ?thesis by (simp add: lg_of.simps [of i])
  next
    case False
    have lg: "lg_of i = Suc (lg_of (i div 2))" using False by (subst lg_of.simps) simp
    have "i div 2 < 2 ^ (lg_of (i div 2) + 4)" using 1 False by simp
    then have "i < 2 * 2 ^ (lg_of (i div 2) + 4)" by linarith
    then have "i < 2 ^ (lg_of i + 4)" unfolding lg by (simp only: add_Suc power_Suc)
    moreover have "lg_of i \<le> k" if "i < 2 ^ (k + 4)" for k
    proof (cases k)
      case (Suc k')
      with that have "i < 2 ^ (k' + 4) * 2" by (simp only: add_Suc power_Suc2)
      then have "i div 2 < 2 ^ (k' + 4)" by (rule less_mult_imp_div_less)
      then show ?thesis using 1 False Suc unfolding lg by simp
    qed (use that False in simp)
    ultimately show ?thesis by blast
  qed
qed

lemma bits_at_ge: "4 \<le> bits_at p" and bits_at_holds: "p \<le> 2 ^ bits_at p"
  using lg_of_least [of "p - 1"] by (auto simp: bits_at_def)

lemma bits_at_least: "4 \<le> b \<Longrightarrow> p \<le> 2 ^ b \<Longrightarrow> bits_at p \<le> b"
proof -
  assume b: "4 \<le> b" "p \<le> 2 ^ b"
  then obtain k where k: "b = k + 4" using le_Suc_ex [of 4 b] by (auto simp: add.commute)
  have "p - 1 < 2 ^ (k + 4)"
    using b(2) unfolding k by (cases p) (simp_all add: Suc_le_eq)
  then show ?thesis using lg_of_least [of "p - 1"] by (auto simp: bits_at_def k)
qed

lemma bits_at_mono: "p \<le> q \<Longrightarrow> bits_at p \<le> bits_at q"
  using bits_at_least [of "bits_at q" p] bits_at_ge [of q] bits_at_holds [of q] by simp

lemma bits_at_le_12: "p \<le> 4096 \<Longrightarrow> bits_at p \<le> 12"
  using bits_at_least [of 12 p] by simp

section \<open>One phrase\<close>

lemma phrase_mask: "lg \<le> 8 \<Longrightarrow> q AND (0xfff div 2 ^ lg) = q mod 2 ^ (12 - lg)" for q :: nat
proof -
  assume "lg \<le> 8"
  then have "lg \<in> {0, 1, 2, 3, 4, 5, 6, 7, 8}" by auto
  then have "(0xfff :: nat) div 2 ^ lg = mask (12 - lg)" by (auto simp: mask_eq_exp_minus_1)
  then show ?thesis by (simp add: take_bit_eq_mask [symmetric] take_bit_eq_mod)
qed

lemma phrase_token_code:
  assumes "tok_ok data p (Copy d l)" and "has_bytes cb pos (tok_code p (Copy d l))"
    and "length data \<le> NTFS_SB_SIZE" and "length pre + NTFS_SB_SIZE \<le> cap"
  shows "phrase_token cb cap (length pre) pos (pre @ take p data) = Ok (pre @ take (p + l) data)"
proof -
  let ?lg = "lg_of (p - 1)" and ?q = "(d - 1) * 2 ^ (16 - bits_at p) + (l - 3)"
  have t: "0 < d" "d \<le> p" "3 \<le> l" "p + l \<le> length data" "l - 3 < 2 ^ (16 - bits_at p)" "agree data (p - d) p l"
    using assms(1) by simp_all
  have p: "p \<le> 4096" "length (take p data) = p" using t(4) assms(3) by (simp_all add: sb_defs)
  have lg: "?lg \<le> 8" using bits_at_le_12 [OF p(1)] by (simp add: bits_at_def)
  have k: "16 - bits_at p = 12 - ?lg" by (simp add: bits_at_def)
  have "d - 1 + 1 \<le> 2 ^ bits_at p" using t(1,2) bits_at_holds [of p] by simp
  then have "(d - 1 + 1) * 2 ^ (16 - bits_at p) \<le> 2 ^ bits_at p * 2 ^ (16 - bits_at p)" by (rule mult_le_mono1)
  also have "\<dots> = 65536" using bits_at_le_12 [OF p(1)] by (simp flip: power_add)
  finally have q: "?q < 65536" using t(5) by simp
  have pt: "le_at 2 cb pos = ?q"
    using has_bytes_le_at [OF assms(2)] q by (simp add: le_val_le_bytes del: le_bytes.simps)
  have room: "\<not> length cb < pos + 2" using assms(2) by (simp add: has_bytes_def)
  have dist: "?q div 2 ^ (12 - ?lg) + 1 = d" using t(1,5) unfolding k by simp
  have len: "(?q AND (0xfff div 2 ^ ?lg)) + 3 = l"
  proof -
    have "?q mod 2 ^ (12 - ?lg) = l - 3" using t(5) unfolding k by simp
    with t(3) show ?thesis unfolding phrase_mask [OF lg] by simp
  qed
  have copy: "copy_phrase (pre @ take p data) (length pre + p - d) l = pre @ take (p + l) data"
    using t p(2) copy_bytes_eqI [of p data d l pre] by (subst copy_phrase_bytes) (auto simp: agree_def)
  have bounds: "\<not> length pre + p < length pre + d" "\<not> length pre + NTFS_SB_SIZE < length pre + p + l"
    "\<not> cap < length pre + p + l" "length pre + p \<noteq> length pre"
    using t assms(3,4) by simp_all
  show ?thesis
    unfolding phrase_token_def Let_def length_append p(2) add_diff_cancel_left' pt dist len
    using bounds room copy by simp
qed

section \<open>Groups\<close>

fun toks_len :: "tok list \<Rightarrow> nat" where
  "toks_len [] = 0"
| "toks_len (t # ts) = tok_len t + toks_len ts"

fun toks_code :: "nat \<Rightarrow> tok list \<Rightarrow> bytes" where
  "toks_code p [] = []"
| "toks_code p (t # ts) = tok_code p t @ toks_code (p + tok_len t) ts"

fun toks_ok :: "bytes \<Rightarrow> nat \<Rightarrow> tok list \<Rightarrow> bool" where
  "toks_ok data p [] \<longleftrightarrow> p \<le> length data"
| "toks_ok data p (t # ts) \<longleftrightarrow> tok_ok data p t \<and> toks_ok data (p + tok_len t) ts"

lemma toks_snoc:
  "toks_len (ts @ [t]) = toks_len ts + tok_len t"
  "toks_code p (ts @ [t]) = toks_code p ts @ tok_code (p + toks_len ts) t"
  "toks_ok data p (ts @ [t]) \<longleftrightarrow> toks_ok data p ts \<and> tok_ok data (p + toks_len ts) t"
  by (induction ts arbitrary: p) (auto simp: ac_simps dest: tok_len_pos)

lemma toks_ok_len: "toks_ok data p ts \<Longrightarrow> p + toks_len ts \<le> length data"
  by (induction ts arbitrary: p) (fastforce simp: add.assoc)+

text \<open>The bits of the tag of a group.\<close>

definition tag_is :: "u8 \<Rightarrow> tok list \<Rightarrow> bool" where
  "tag_is tag ts \<longleftrightarrow> (\<forall>k < 8. bit tag k \<longleftrightarrow> k < length ts \<and> is_copy (ts ! k))"

lemma sb_tokens_code:
  assumes "toks_ok data p ts" and "has_bytes cb pos (toks_code p ts)" and "length ts \<le> n"
    and "length ts = n \<or> e = pos + length (toks_code p ts)" and "pos + length (toks_code p ts) \<le> e"
    and "\<forall>k < length ts. bit tag k \<longleftrightarrow> is_copy (ts ! k)"
    and "length data \<le> NTFS_SB_SIZE" and "length pre + NTFS_SB_SIZE \<le> cap"
  shows "sb_tokens n cb cap (length pre) e tag pos (pre @ take p data) =
    Ok (pos + length (toks_code p ts), pre @ take (p + toks_len ts) data)"
  using assms(1-6)
proof (induction ts arbitrary: p pos n tag)
  case Nil
  then show ?case by (cases n) auto
next
  case (Cons t ts)
  obtain m where n: "n = Suc m" using Cons.prems(3) by (cases n) auto
  have t: "tok_ok data p t" "toks_ok data (p + tok_len t) ts" using Cons.prems(1) by simp_all
  have code: "has_bytes cb pos (tok_code p t)" "has_bytes cb (pos + length (tok_code p t)) (toks_code (p + tok_len t) ts)"
    using Cons.prems(2) by (simp_all add: has_bytes_append)
  have nonempty: "0 < length (tok_code p t)" by (cases t) simp_all
  have "pos < e" using Cons.prems(5) nonempty unfolding toks_code.simps length_append by linarith
  then have go: "\<not> (e \<le> pos \<or> length pre + NTFS_SB_SIZE < length (pre @ take p data))"
    using tok_len_pos [OF t(1)] assms(7) by simp
  have "\<forall>k < length ts. bit (drop_bit 1 tag) k \<longleftrightarrow> is_copy (ts ! k)"
    using Cons.prems(6) by (auto simp: bit_drop_bit_eq Suc_less_eq dest: spec [of _ "Suc _"])
  from Cons.IH [OF t(2) code(2), of m "drop_bit 1 tag"] this Cons.prems(3-5)
  have rest: "sb_tokens m cb cap (length pre) e (drop_bit 1 tag) (pos + length (tok_code p t)) (pre @ take (p + tok_len t) data) =
      Ok (pos + length (toks_code p (t # ts)), pre @ take (p + toks_len (t # ts)) data)"
    by (simp add: n ac_simps)
  have tag: "bit tag 0 = is_copy t" using Cons.prems(6) by force
  show ?case
  proof (cases t)
    case (Lit b)
    have "byte_at cb pos = b" "pos < length cb"
      using code(1) Lit by (simp_all add: has_bytes_Cons)
    moreover have "pre @ take p data @ [b] = pre @ take (p + 1) data" "p < length data"
      using t(1) Lit by (simp_all add: take_Suc_conv_app_nth)
    ultimately show ?thesis
      using rest go tag assms(7,8) by (simp add: n Lit)
  next
    case (Copy d l)
    have "phrase_token cb cap (length pre) pos (pre @ take p data) = Ok (pre @ take (p + l) data)"
      using phrase_token_code t(1) code(1) assms(7,8) unfolding Copy by blast
    then show ?thesis using rest go tag by (simp add: n Copy del: take_append)
  qed
qed

section \<open>The groups of a block\<close>

type_synonym group = "u8 \<times> tok list"

fun groups_len :: "group list \<Rightarrow> nat" where
  "groups_len [] = 0"
| "groups_len ((tag, ts) # gs) = toks_len ts + groups_len gs"

fun groups_code :: "nat \<Rightarrow> group list \<Rightarrow> bytes" where
  "groups_code p [] = []"
| "groups_code p ((tag, ts) # gs) = tag # toks_code p ts @ groups_code (p + toks_len ts) gs"

text \<open>Only the last group may have fewer than eight tokens.\<close>

fun groups_ok :: "bytes \<Rightarrow> nat \<Rightarrow> group list \<Rightarrow> bool" where
  "groups_ok data p [] \<longleftrightarrow> p \<le> length data"
| "groups_ok data p ((tag, ts) # gs) \<longleftrightarrow> tag_is tag ts \<and> toks_ok data p ts \<and> length ts \<le> 8 \<and>
     (length ts = 8 \<or> gs = []) \<and> groups_ok data (p + toks_len ts) gs"

abbreviation full_groups :: "group list \<Rightarrow> bool" where
  "full_groups gs \<equiv> (\<forall>g \<in> set gs. length (snd g) = 8)"

lemma groups_snoc:
  "groups_len (gs @ [(tag, ts)]) = groups_len gs + toks_len ts"
  "groups_code p (gs @ [(tag, ts)]) = groups_code p gs @ tag # toks_code (p + groups_len gs) ts"
  "full_groups gs \<Longrightarrow> groups_ok data p (gs @ [(tag, ts)]) \<longleftrightarrow>
     groups_ok data p gs \<and> tag_is tag ts \<and> toks_ok data (p + groups_len gs) ts \<and> length ts \<le> 8"
  by (induction gs arbitrary: p rule: groups_len.induct) (auto simp: ac_simps dest: toks_ok_len)

lemma groups_ok_len: "groups_ok data p gs \<Longrightarrow> p + groups_len gs \<le> length data"
  by (induction data p gs rule: groups_ok.induct) auto

lemma sb_loop_code:
  assumes "groups_ok data p gs" and "has_bytes cb pos (groups_code p gs)"
    and "length data \<le> NTFS_SB_SIZE" and "length pre + NTFS_SB_SIZE \<le> cap"
  shows "sb_loop cb cap (length pre) (pos + length (groups_code p gs)) pos (pre @ take p data) =
    Ok (pos + length (groups_code p gs), pre @ take (p + groups_len gs) data @
      replicate (NTFS_SB_SIZE - (p + groups_len gs)) 0)"
  using assms(1,2)
proof (induction gs arbitrary: p pos rule: groups_len.induct)
  case 1
  then show ?case using assms(3,4) by (subst sb_loop.simps) auto
next
  case (2 tag ts gs)
  let ?code = "toks_code p ts"
  let ?e = "pos + length (groups_code p ((tag, ts) # gs))"
  have g: "tag_is tag ts" "toks_ok data p ts" "length ts \<le> 8" "length ts = 8 \<or> gs = []"
    "groups_ok data (p + toks_len ts) gs" using 2(2) by simp_all
  have code: "pos < length cb" "byte_at cb pos = tag" "has_bytes cb (pos + 1) ?code"
    "has_bytes cb (pos + 1 + length ?code) (groups_code (p + toks_len ts) gs)"
    using 2(3) by (simp_all add: has_bytes_Cons has_bytes_append)
  have e: "?e = pos + 1 + length ?code + length (groups_code (p + toks_len ts) gs)" by simp
  have "\<forall>k < length ts. bit tag k \<longleftrightarrow> is_copy (ts ! k)" using g(1,3) by (auto simp: tag_is_def)
  then have "sb_tokens 8 cb cap (length pre) ?e tag (pos + 1) (pre @ take p data) =
      Ok (pos + 1 + length ?code, pre @ take (p + toks_len ts) data)"
    using g code(3) assms(3,4) by (intro sb_tokens_code) auto
  moreover have "\<not> length pre + NTFS_SB_SIZE < length (pre @ take p data)"
    using toks_ok_len [OF g(2)] assms(3) by simp
  ultimately have "sb_loop cb cap (length pre) ?e pos (pre @ take p data) =
      sb_loop cb cap (length pre) ?e (pos + 1 + length ?code) (pre @ take (p + toks_len ts) data)"
    using code(1,2) assms(3) by (subst sb_loop.simps) (simp del: sb_tokens.simps take_append)
  also have "\<dots> = Ok (?e, pre @ take (p + toks_len ts + groups_len gs) data @
      replicate (NTFS_SB_SIZE - (p + toks_len ts + groups_len gs)) 0)"
    unfolding e by (rule 2(1) [OF g(5) code(4)])
  finally show ?case by (simp add: add.assoc)
qed

end
