(* ===== verification/Compress_Parser.thy ===== *)
theory Compress_Parser
  imports Compress_Tokens
begin

text \<open>
  What one step of the parser does: it emits the code of a token that stands for the data at
  its position, and keeps the state of the match finder and the width of distances in order.
\<close>

section \<open>The state of the parser\<close>

definition ctx_inv :: "bytes \<Rightarrow> comp_state \<Rightarrow> bool" where
  "ctx_inv data st \<longleftrightarrow> co_i st \<le> length data \<and> 4 \<le> co_bp st \<and> co_bp st \<le> bits_at (co_i st) \<and>
     cx_mxsz (co_ctx st) = 2 ^ (16 - co_bp st) + 2 \<and>
     (if co_have_match st
      then chains_ok (co_i st + 1) (co_ctx st) \<and> co_bp st = bits_at (co_i st) \<and> 3 \<le> cx_size (co_ctx st) \<and>
        match_at data (2 ^ (16 - bits_at (co_i st)) + 2) (co_i st) (cx_size (co_ctx st)) (cx_rel (co_ctx st))
      else chains_ok (co_i st) (co_ctx st))"

definition ready :: "bytes \<Rightarrow> comp_state \<Rightarrow> bool" where
  "ready data st \<longleftrightarrow> co_bp st = bits_at (co_i st) \<and> cx_mxsz (co_ctx st) = 2 ^ (16 - co_bp st) + 2 \<and>
     chains_ok (co_i st + 1) (co_ctx st) \<and>
     (cx_size (co_ctx st) < 3 \<or>
      match_at data (2 ^ (16 - bits_at (co_i st)) + 2) (co_i st) (cx_size (co_ctx st)) (cx_rel (co_ctx st)))"

lemma mxsz_next: "bp < 16 \<Longrightarrow> (2 ^ (16 - bp) + 2 + 2) div 2 = 2 ^ (16 - (bp + 1)) + (2 :: nat)"
proof -
  assume "bp < 16"
  then obtain k where "16 - bp = Suc k" "16 - (bp + 1) = k" by (metis Suc_diff_Suc Suc_eq_plus1)
  then show ?thesis by simp
qed

lemma adjust_bp_bits:
  assumes "4 \<le> bp" and "bp \<le> bits_at i" and "mxsz = 2 ^ (16 - bp) + 2" and "i \<le> 4096"
  shows "adjust_bp i bp mxsz = (bits_at i, 2 ^ (16 - bits_at i) + 2)"
  using assms
proof (induction i bp mxsz rule: adjust_bp.induct)
  case (1 i bp mxsz)
  show ?case
  proof (cases "2 ^ bp < i")
    case True
    then have "bp \<noteq> bits_at i" using bits_at_holds [of i] by auto
    with 1(3) have "bp + 1 \<le> bits_at i" by simp
    moreover have "(mxsz + 2) div 2 = 2 ^ (16 - (bp + 1)) + 2"
      using 1(3-5) bits_at_le_12 [of i] mxsz_next [of bp] by simp
    ultimately show ?thesis using 1(1) [OF True] 1(2,5) True by (simp add: adjust_bp.simps [of i bp])
  next
    case False
    then have "bits_at i = bp" using bits_at_least [OF 1(2), of i] 1(3) by simp
    with 1(4) False show ?thesis by (simp add: adjust_bp.simps [of i bp])
  qed
qed

text \<open>The parts that a step of the parser does not touch.\<close>

definition same_output :: "comp_state \<Rightarrow> comp_state \<Rightarrow> bool" where
  "same_output st st' \<longleftrightarrow> co_out st' = co_out st \<and> co_ptag st' = co_ptag st \<and> co_tag st' = co_tag st \<and>
     co_ntag st' = co_ntag st \<and> co_i st' = co_i st"

lemma ensure_match_ready:
  assumes "ctx_inv data st" and "length data \<le> 4096"
  shows "ready data (ensure_match data st) \<and> same_output st (ensure_match data st)"
proof (cases "co_have_match st")
  case True
  then show ?thesis using assms(1) by (simp add: ensure_match_def ctx_inv_def ready_def same_output_def)
next
  case False
  let ?mx = "2 ^ (16 - bits_at (co_i st)) + 2"
  let ?ctx = "(co_ctx st)\<lparr>cx_mxsz := ?mx\<rparr>"
  have adj: "adjust_bp (co_i st) (co_bp st) (cx_mxsz (co_ctx st)) = (bits_at (co_i st), ?mx)"
    using assms by (intro adjust_bp_bits) (auto simp: ctx_inv_def)
  have "chains_ok (co_i st) ?ctx" using assms(1) False by (simp add: ctx_inv_def)
  from best_match_ok [OF this order_refl, of data] adj False show ?thesis
    by (auto simp: ensure_match_def ready_def same_output_def)
qed

lemma next_bits: "bits_at (i + 1) = (if 2 ^ bits_at i < i + 1 then bits_at i + 1 else bits_at i)"
proof -
  have "bits_at i \<le> bits_at (i + 1)" by (rule bits_at_mono) simp
  moreover have "bits_at (i + 1) \<le> bits_at i" if "\<not> 2 ^ bits_at i < i + 1"
    using that bits_at_least [OF bits_at_ge [of i], of "i + 1"] by simp
  moreover have "bits_at (i + 1) \<noteq> bits_at i" if "2 ^ bits_at i < i + 1"
    using that bits_at_holds [of "i + 1"] by auto
  moreover have "i + 1 \<le> 2 ^ (bits_at i + 1)" 
    using bits_at_holds [of i] zero_less_power [of "2 :: nat" "bits_at i", OF zero_less_numeral] unfolding power_add power_one_right by linarith
  then have "bits_at (i + 1) \<le> bits_at i + 1" using bits_at_ge [of i] by (intro bits_at_least) auto
  ultimately show ?thesis by auto
qed

section \<open>One token\<close>

text \<open>A step emits the code of a token that stands for the data at the current position.\<close>

definition emits :: "bytes \<Rightarrow> comp_state \<Rightarrow> comp_state \<Rightarrow> tok \<Rightarrow> bool" where
  "emits data st st' t \<longleftrightarrow> tok_ok data (co_i st) t \<and> co_i st' = co_i st + tok_len t \<and>
     co_out st' = co_out st @ tok_code (co_i st) t \<and> co_ptag st' = co_ptag st \<and>
     co_tag st' = (if is_copy t then co_tag st OR push_bit (8 - co_ntag st) 1 else co_tag st)"

lemma emit_match_code:
  assumes "match_at data (2 ^ (16 - bits_at (co_i st)) + 2) (co_i st) len rel" and "3 \<le> len"
  shows "emits data st ((emit_match (bits_at (co_i st)) rel len st)\<lparr>co_i := co_i st + len\<rparr>) (Copy (nat (- rel)) len)"
proof -
  have "nat (- rel) - 1 = nat (- rel - 1)" "0 < nat (- rel)" "nat (- rel) \<le> co_i st"
    using assms(1) by (auto simp: match_at_def)
  moreover have "len - 3 < 2 ^ (16 - bits_at (co_i st))" using assms by (auto simp: match_at_def)
  ultimately show ?thesis
    using assms by (simp add: emits_def emit_match_def Let_def match_at_def numeral_2_eq_2)
qed

lemma comp_token_emits:
  assumes "ctx_inv data st" and "length data \<le> 4096" and "co_i st < length data"
    and "comp_token data st = (st', brk)"
  shows "\<exists>t. emits data st st' t \<and>
    (if brk then co_ntag st' = co_ntag st - 1 \<and> co_i st' = length data
     else co_ntag st' = co_ntag st \<and> ctx_inv data st')"
proof -
  define s0 where "s0 = ensure_match data st"
  let ?i = "co_i st" and ?size = "cx_size (co_ctx s0)" and ?rel = "cx_rel (co_ctx s0)"
  have r: "co_bp s0 = bits_at ?i" "cx_mxsz (co_ctx s0) = 2 ^ (16 - bits_at ?i) + 2" "chains_ok (?i + 1) (co_ctx s0)"
    "?size < 3 \<or> match_at data (2 ^ (16 - bits_at ?i) + 2) ?i ?size ?rel"
    and o: "co_out s0 = co_out st" "co_ptag s0 = co_ptag st" "co_tag s0 = co_tag st" "co_ntag s0 = co_ntag st"
      "co_i s0 = ?i"
    using ensure_match_ready [OF assms(1,2)] unfolding s0_def [symmetric] by (auto simp: ready_def same_output_def)
  have mono: "bits_at ?i \<le> bits_at (?i + 1)" by (rule bits_at_mono) simp
  show ?thesis
  proof (cases "?size < 3")
    case True
    then have st': "st' = emit_literal data False s0" "brk = False" using assms(4) by (auto simp: comp_token_def Let_def s0_def)
    have "emits data st st' (Lit (data ! ?i))"
      using assms(3) o by (simp add: st' emit_literal_def emits_def)
    moreover have "ctx_inv data st'"
      using r o mono bits_at_ge assms(3) by (simp add: st' emit_literal_def ctx_inv_def)
    ultimately show ?thesis using st' o by (auto simp: emit_literal_def)
  next
    case size: False
    let ?j = "?i + ?size" and ?d = "nat (- ?rel)"
    have m: "match_at data (2 ^ (16 - bits_at ?i) + 2) ?i ?size ?rel" using r(4) size by simp
    have j: "?j \<le> length data" using m by (simp add: match_at_def)
    have mono_j: "bits_at ?i \<le> bits_at ?j" "bits_at (?i + 1) \<le> bits_at ?j" using size by (simp_all add: bits_at_mono)
    show ?thesis
    proof (cases "NICE_MATCH_LEN \<le> ?size")
      case True
      let ?em = "emit_match (bits_at ?i) ?rel ?size s0"
      have em: "emits data s0 (?em\<lparr>co_i := ?j\<rparr>) (Copy ?d ?size)"
        using emit_match_code [of data s0 ?size ?rel] m size o by simp
      show ?thesis
      proof (cases "?j = length data")
        case last: True
        then have st': "st' = ?em\<lparr>co_i := ?j, co_ntag := co_ntag ?em - 1\<rparr>" "brk"
          using assms(4) True size r(1) o(5) by (auto simp: comp_token_def Let_def s0_def)
        then have "emits data st st' (Copy ?d ?size)" using em o by (simp add: emits_def)
        then show ?thesis using st' o last by (auto simp: emit_match_def Let_def)
      next
        case more: False
        then have st': "st' = skip_positions data (?i + 1) ?j ?em" "\<not> brk"
          using assms(4) True size r(1) o(5) by (auto simp: comp_token_def Let_def s0_def)
        then have "emits data st st' (Copy ?d ?size)" using em o by (simp add: emits_def skip_positions_def)
        moreover have "ctx_inv data st'"
          using skip_fold_ok [OF r(3), of ?j data] size r(1,2) j mono_j bits_at_ge [of ?i]
          by (simp add: st' skip_positions_def emit_match_def Let_def ctx_inv_def)
        ultimately show ?thesis using st' o by (auto simp: skip_positions_def emit_match_def Let_def)
      qed
    next
      case lazy: False
      let ?ctx = "co_ctx s0" and ?bp = "bits_at ?i"
      define s1 where "s1 = (if 2 ^ ?bp < ?i + 1 then s0\<lparr>co_bp := ?bp + 1, co_ctx := ?ctx\<lparr>cx_mxsz := (cx_mxsz ?ctx + 2) div 2\<rparr>\<rparr> else s0)"
      define c2 where "c2 = ntfs_best_match data (?i + 1) ?size (co_ctx s1)"
      define s2 where "s2 = s1\<lparr>co_ctx := c2\<rparr>"
      have s1: "co_bp s1 = bits_at (?i + 1)" "cx_mxsz (co_ctx s1) = 2 ^ (16 - bits_at (?i + 1)) + 2"
        "chains_ok (?i + 1) (co_ctx s1)" "same_output s0 s1"
        using r next_bits [of ?i] mxsz_next [of ?bp] assms(2,3) bits_at_le_12 [of ?i] by (auto simp: same_output_def s1_def)
      have c2: "chains_ok (?i + 1 + 1) c2" "cx_mxsz c2 = 2 ^ (16 - bits_at (?i + 1)) + 2"
        "cx_size c2 = ?size \<or> (?size < cx_size c2 \<and>
           match_at data (2 ^ (16 - bits_at (?i + 1)) + 2) (?i + 1) (cx_size c2) (cx_rel c2))"
        using best_match_ok [OF s1(3), of ?size data] s1(2) size by (simp_all add: c2_def)
      have s2: "co_out s2 = co_out st" "co_ptag s2 = co_ptag st" "co_tag s2 = co_tag st" "co_ntag s2 = co_ntag st"
        "co_i s2 = ?i" "co_ctx s2 = c2" "co_bp s2 = bits_at (?i + 1)"
        using s1(1,4) o by (simp_all add: same_output_def s2_def)
      have step: "comp_token data st = (if ?j + 1 < ?i + 1 + cx_size c2 then (emit_literal data True s2, False)
          else (skip_positions data (?i + 2) ?j (emit_match ?bp ?rel ?size s2), False))"
        using size lazy r(1) o(5) by (simp add: comp_token_def Let_def s0_def s1_def c2_def s2_def)
      show ?thesis
      proof (cases "?j + 1 < ?i + 1 + cx_size c2")
        case True
        then have st': "st' = emit_literal data True s2" "\<not> brk" using step assms(4) by simp_all
        have "emits data st st' (Lit (data ! ?i))"
          using assms(3) s2 by (simp add: st' emit_literal_def emits_def)
        moreover have "ctx_inv data st'"
          using c2 s2 True size assms(3) bits_at_ge [of "?i + 1"] by (auto simp: st' emit_literal_def ctx_inv_def)
        ultimately show ?thesis using st' s2 by (auto simp: emit_literal_def)
      next
        case False
        let ?em = "emit_match ?bp ?rel ?size s2"
        have st': "st' = skip_positions data (?i + 2) ?j ?em" "\<not> brk" using False step assms(4) by simp_all
        have "emits data s2 (?em\<lparr>co_i := ?j\<rparr>) (Copy ?d ?size)"
          using emit_match_code [of data s2 ?size ?rel] m size s2(5) by simp
        then have "emits data st st' (Copy ?d ?size)" using st' s2 by (simp add: emits_def skip_positions_def)
        moreover have "ctx_inv data st'"
          using skip_fold_ok [of "?i + 2" c2 ?j data] c2(1,2) s2 size j mono_j bits_at_ge [of "?i + 1"]
          by (simp add: st' skip_positions_def emit_match_def Let_def ctx_inv_def)
        ultimately show ?thesis using st' s2 by (auto simp: skip_positions_def emit_match_def Let_def)
      qed
    qed
  qed
qed

end
