(* ===== verification/Compress_Roundtrip.thy ===== *)
theory Compress_Roundtrip
  imports Compress_Parser
begin

text \<open>
  The parser emits well formed groups of tokens for its input, and what it emits the decompression
  reads back.
\<close>

section \<open>The output of the parser\<close>

text \<open>The full groups \<open>gs\<close>, the reserved tag and the tokens \<open>g\<close> of the group being built.\<close>

definition pending :: "bytes \<Rightarrow> comp_state \<Rightarrow> group list \<Rightarrow> tok list \<Rightarrow> bool" where
  "pending data st gs g \<longleftrightarrow> full_groups gs \<and> groups_ok data 0 gs \<and> toks_ok data (groups_len gs) g \<and>
     co_ntag st = 8 - length g \<and> length g \<le> 8 \<and> tag_is (co_tag st) g \<and>
     co_out st = [0, 0] @ groups_code 0 gs @ [0] @ toks_code (groups_len gs) g \<and>
     co_ptag st = 2 + length (groups_code 0 gs) \<and> co_i st = groups_len gs + toks_len g"

lemma tag_is_snoc:
  assumes "tag_is tag g" and "length g < 8"
  shows "tag_is (if is_copy t then tag OR push_bit (length g) 1 else tag) (g @ [t])"
proof -
  have "bit (push_bit (length g) 1 :: u8) k \<longleftrightarrow> k = length g" if "k < 8" for k
    using that assms(2) by (auto simp: bit_simps)
  then show ?thesis using assms by (auto simp: tag_is_def nth_append bit_or_iff less_Suc_eq)
qed

lemma pending_emit:
  assumes "pending data st gs g" and "length g < 8" and "emits data st st' t"
  shows "pending data (st'\<lparr>co_ntag := co_ntag st - 1\<rparr>) gs (g @ [t])"
proof -
  have n: "8 - co_ntag st = length g" using assms(1,2) by (simp add: pending_def)
  have "co_tag st' = (if is_copy t then co_tag st OR push_bit (length g) 1 else co_tag st)"
    using assms(3) unfolding emits_def n by blast
  moreover have "tag_is (co_tag st) g" using assms(1) by (simp add: pending_def)
  ultimately have tag: "tag_is (co_tag st') (g @ [t])" using tag_is_snoc assms(2) by simp
  have "tok_ok data (co_i st) t" "co_i st' = co_i st + tok_len t" "co_out st' = co_out st @ tok_code (co_i st) t"
    "co_ptag st' = co_ptag st" using assms(3) by (simp_all add: emits_def)
  then show ?thesis using assms(1,2) tag by (auto simp: pending_def toks_snoc)
qed

lemma pending_store_tag:
  assumes "pending data (st\<lparr>co_ntag := co_ntag st - 1\<rparr>) gs g" and "0 < co_ntag st"
  shows "\<exists>gs' g'. pending data (store_tag st) gs' g' \<and> length g' < 8"
proof (cases "co_ntag st = 1")
  case True
  then have g: "length g = 8" using assms(1) by (simp add: pending_def)
  have "pending data (store_tag st) (gs @ [(co_tag st, g)]) []"
    using assms(1) True g toks_ok_len [of data "groups_len gs" g] groups_snoc(3) [of gs data 0 "co_tag st" g]
    by (auto simp: pending_def store_tag_def groups_snoc(1,2) tag_is_def list_update_append)
  then show ?thesis by force
next
  case False
  then have "store_tag st = st\<lparr>co_ntag := co_ntag st - 1\<rparr>" by (simp add: store_tag_def)
  moreover have "length g < 8" using assms False by (auto simp: pending_def)
  ultimately show ?thesis using assms(1) by auto
qed

lemma store_tag_simps [simp]:
  "co_bp (store_tag st) = co_bp st" "co_ctx (store_tag st) = co_ctx st" "co_have_match (store_tag st) = co_have_match st"
  by (simp_all add: store_tag_def)

lemma ctx_inv_store_tag: "ctx_inv data st \<Longrightarrow> ctx_inv data (store_tag st)"
  unfolding ctx_inv_def store_tag_simps store_tag_i .

lemma comp_loop_pending:
  assumes "ctx_inv data st" and "pending data st gs g" and "length g < 8" and "length data \<le> 4096"
  shows "\<exists>gs' g'. pending data (comp_loop data st) gs' g'"
  using assms
proof (induction data st arbitrary: gs g rule: comp_loop.induct)
  case (1 data st)
  show ?case
  proof (cases "length data \<le> co_i st \<or> NTFS_SB_SIZE + 2 \<le> length (co_out st)")
    case True
    then have "comp_loop data st = st" by (subst comp_loop.simps) simp
    with 1(3) show ?thesis by auto
  next
    case False
    obtain st' brk where step: "comp_token data st = (st', brk)" by force
    from comp_token_emits [OF 1(2,5) _ step] False obtain t where
      t: "emits data st st' t" "if brk then co_ntag st' = co_ntag st - 1 \<and> co_i st' = length data
        else co_ntag st' = co_ntag st \<and> ctx_inv data st'" by auto
    have p: "pending data (st'\<lparr>co_ntag := co_ntag st - 1\<rparr>) gs (g @ [t])" by (rule pending_emit [OF 1(3,4) t(1)])
    show ?thesis
    proof (cases brk)
      case True
      then have "comp_loop data st = st'" using False step by (subst comp_loop.simps) simp
      moreover have "st'\<lparr>co_ntag := co_ntag st - 1\<rparr> = st'" using t(2) True by simp
      ultimately show ?thesis using p by metis
    next
      case go: False
      have "0 < co_ntag st'" using 1(3,4) t(2) go by (simp add: pending_def)
      then obtain gs1 g1 where g1: "pending data (store_tag st') gs1 g1" "length g1 < 8"
        using pending_store_tag [of data st' gs "g @ [t]"] p t(2) go by auto
      have "comp_loop data st = comp_loop data (store_tag st')"
        using False go step by (subst comp_loop.simps) simp
      with 1(1) [OF False step [symmetric]] g1 t(2) go ctx_inv_store_tag 1(5) show ?thesis by simp
    qed
  qed
qed

text \<open>The start of the parser.\<close>

lemma comp_start_inv:
  "ctx_inv data (comp_start prev0)" "pending data (comp_start prev0) [] []"
proof -
  have "chains_ok 0 (co_ctx (comp_start prev0))"
    unfolding chains_ok_def by (rule exI [of _ "{}"]) (simp add: comp_start_def in_chain_def)
  then show "ctx_inv data (comp_start prev0)" using bits_at_ge [of 0] by (simp add: ctx_inv_def comp_start_def)
qed (simp add: pending_def comp_start_def tag_is_def)

section \<open>The finished block\<close>

lemma header_bytes:
  assumes "n < 4096"
  shows "[word_of_int (int n mod 256), 0xb0 + word_of_int (int n div 256 mod 16)] = le_bytes 2 (0xb000 + n)"
proof -
  have hi: "n div 256 < 16" using assms by simp
  have v: "0xb000 + n = n + 0xb0 * 256" by simp
  have lo: "(0xb000 + n) mod 256 = n mod 256" unfolding v by (rule mod_mult_self1)
  have "(0xb000 + n) div 256 = 0xb0 + n div 256" unfolding v by (rule div_mult_self1) simp
  then have up: "(0xb000 + n) div 256 mod 256 = 0xb0 + n div 256" using hi by simp
  have le: "le_bytes 2 v = [word_of_nat (v mod 256), word_of_nat (v div 256 mod 256)]" for v
    by (simp add: numeral_2_eq_2)
  have "int n mod 256 = int (n mod 256)" by (simp add: zmod_int)
  then have "word_of_int (int n mod 256) = (word_of_nat (n mod 256) :: u8)" by (simp only: of_int_of_nat_eq)
  moreover have "int n div 256 mod 16 = int (n div 256)" using hi by (simp add: zdiv_int [symmetric] zmod_int [symmetric])
  ultimately show ?thesis unfolding le lo up by simp
qed

text \<open>A block is stored as it is, or it is the header and the groups of all data.\<close>

lemma comp_finish_cases:
  assumes "0 < length data" and "length data \<le> 4096"
  shows "(\<exists>gs. groups_ok data 0 gs \<and> groups_len gs = length data \<and> length (groups_code 0 gs) < 4096 \<and>
       0 < length (groups_code 0 gs) \<and>
       comp_finish data (comp_loop data (comp_start prev0)) =
         le_bytes 2 (0xb000 + (length (groups_code 0 gs) - 1)) @ groups_code 0 gs) \<or>
     comp_finish data (comp_loop data (comp_start prev0)) =
       le_bytes 2 0x3fff @ data @ replicate (NTFS_SB_SIZE - length data) 0"
proof -
  let ?st = "comp_loop data (comp_start prev0)"
  obtain gs g where p: "pending data ?st gs g"
    using comp_loop_pending [OF comp_start_inv(1,2) _ assms(2), of prev0] by auto
  define gs' where "gs' = (if g = [] then gs else gs @ [(co_tag ?st, g)])"
  let ?out = "if co_ntag ?st = 8 then butlast (co_out ?st) else (co_out ?st)[co_ptag ?st := co_tag ?st]"
  have "co_ntag ?st = 8 \<longleftrightarrow> g = []" using p by (cases g) (auto simp: pending_def)
  then have out: "?out = [0, 0] @ groups_code 0 gs'"
    using p by (cases "g = []") (auto simp: pending_def groups_snoc butlast_append list_update_append gs'_def)
  have gs: "groups_ok data 0 gs'" "co_i ?st = groups_len gs'"
    using p groups_snoc(3) [of gs data 0 "co_tag ?st" g] by (auto simp: pending_def groups_snoc(1) gs'_def)
  show ?thesis
  proof (cases "length data \<le> co_i ?st \<and> length ?out < NTFS_SB_SIZE + 2")
    case True
    then have len: "groups_len gs' = length data" using gs groups_ok_len [OF gs(1)] by simp
    have "gs' \<noteq> []" using len assms(1) by auto
    then have pos: "0 < length (groups_code 0 gs')" by (cases gs' rule: groups_len.cases) auto
    have small: "length (groups_code 0 gs') < 4096" using True out by (simp add: sb_defs)
    let ?n = "length (groups_code 0 gs') - 1"
    have n: "int (length ?out) - 3 = int ?n" using pos unfolding out by (cases "groups_code 0 gs'") simp_all
    have "comp_finish data ?st = ?out[0 := word_of_int ((int (length ?out) - 3) mod 256),
        1 := 0xb0 + word_of_int ((int (length ?out) - 3) div 256 mod 16)]"
      using True by (simp add: comp_finish_def Let_def)
    also have "\<dots> = word_of_int (int ?n mod 256) # (0xb0 + word_of_int (int ?n div 256 mod 16)) # groups_code 0 gs'"
      unfolding n unfolding out by simp
    also have "\<dots> = le_bytes 2 (0xb000 + ?n) @ groups_code 0 gs'"
      using header_bytes [of ?n] small by simp
    finally show ?thesis using gs(1) len pos small by blast
  next
    case False
    then have "comp_finish data ?st = [0xff, 0x3f] @ data @ replicate (NTFS_SB_SIZE - length data) 0"
      unfolding comp_finish_def Let_def by (rule if_not_P)
    moreover have "le_bytes 2 0x3fff = [0xff, 0x3f]" by (simp add: numeral_2_eq_2)
    ultimately show ?thesis by simp
  qed
qed

lemma le_at_has_bytes: "has_bytes cb pos (le_bytes 2 v @ xs) \<Longrightarrow> v < 65536 \<Longrightarrow> le_at 2 cb pos = v"
  using has_bytes_le_at [of cb pos "le_bytes 2 v" 2] by (simp add: has_bytes_append le_val_le_bytes del: le_bytes.simps)

lemma header_bits:
  assumes "n < 4096"
  shows "(0xb000 + n) AND NTFS_SB_SIZE_MASK = n" "(0xb000 + n) AND NTFS_SB_IS_COMPRESSED \<noteq> 0"
proof -
  have "(n + 11 * 4096) mod 4096 = n" using assms by (simp only: mod_mult_self1 mod_less)
  then have "(0xb000 + n) AND mask 12 = n"
    by (simp add: take_bit_eq_mask [symmetric] take_bit_eq_mod add.commute)
  then show "(0xb000 + n) AND NTFS_SB_SIZE_MASK = n" by (simp add: sb_defs mask_eq_exp_minus_1)
  have "(0xb000 + n) div 2 ^ 15 = 1" using assms by (intro div_nat_eqI) simp_all
  then have "bit (0xb000 + n) 15" unfolding bit_iff_odd by simp
  then have "(0xb000 + n) AND 2 ^ 15 \<noteq> 0" using and_exp_eq_0_iff_not_bit [of "0xb000 + n" 15] by blast
  then show "(0xb000 + n) AND NTFS_SB_IS_COMPRESSED \<noteq> 0" by (simp add: sb_defs)
qed

text \<open>Decompression of one block inside a compression block.\<close>

lemma cb_loop_block:
  assumes "0 < length data" and "length data \<le> 4096"
    and "has_bytes cb pos (comp_finish data (comp_loop data (comp_start prev0)))"
    and "pos + 6 \<le> cb_size" and "pos + length (comp_finish data (comp_loop data (comp_start prev0))) \<le> cb_size"
    and "cb_size \<le> length cb" and "length pre + NTFS_SB_SIZE \<le> dest_size" and "dest_size \<le> cap"
  shows "cb_loop cap dest_size cb cb_size pos pre =
    cb_loop cap dest_size cb cb_size (pos + length (comp_finish data (comp_loop data (comp_start prev0))))
      (pre @ data @ replicate (NTFS_SB_SIZE - length data) 0)"
proof -
  let ?blk = "comp_finish data (comp_loop data (comp_start prev0))"
  have go: "pos \<noteq> cb_size" "\<not> length cb < pos + 2" "length pre \<noteq> dest_size" "\<not> dest_size < length pre + NTFS_SB_SIZE"
    "\<not> cb_size < pos + 6" using assms(4,6,7) by (auto simp: sb_defs)
  from comp_finish_cases [OF assms(1,2), of prev0] show ?thesis
  proof (elim disjE exE conjE)
    fix gs assume gs: "groups_ok data 0 gs" "groups_len gs = length data" "length (groups_code 0 gs) < 4096"
      "0 < length (groups_code 0 gs)"
      and blk: "?blk = le_bytes 2 (0xb000 + (length (groups_code 0 gs) - 1)) @ groups_code 0 gs"
    define n where "n = length (groups_code 0 gs) - 1"
    have n: "n < 4096" "length (groups_code 0 gs) = n + 1" using gs(3,4) by (simp_all add: n_def)
    note blk = blk [folded n_def]
    have hdr: "le_at 2 cb pos = 0xb000 + n" using le_at_has_bytes assms(3) n(1) unfolding blk by simp
    have len: "length ?blk = n + 3" using n(2) unfolding blk by simp
    have code: "has_bytes cb (pos + 2) (groups_code 0 gs)" using assms(3) unfolding blk by (simp add: has_bytes_append)
    have e: "pos + 2 + length (groups_code 0 gs) = pos + n + 3" using n(2) by simp
    have "sb_loop cb cap (length pre) (pos + n + 3) (pos + 2) (pre @ take 0 data) =
        Ok (pos + n + 3, pre @ take (0 + groups_len gs) data @ replicate (NTFS_SB_SIZE - (0 + groups_len gs)) 0)"
      using sb_loop_code [OF gs(1) code, of pre cap] assms(2,7,8) unfolding e by (simp add: sb_defs)
    then have sb: "sb_loop cb cap (length pre) (pos + n + 3) (pos + 2) pre =
        Ok (pos + n + 3, pre @ data @ replicate (NTFS_SB_SIZE - length data) 0)" by (simp add: gs(2))
    have "\<not> cb_size < pos + n + 3" using assms(5) len by simp
    then show ?thesis
      unfolding len by (subst cb_loop.simps) (simp add: go hdr header_bits [OF n(1)] Let_def sb [unfolded add.assoc] add.assoc del: add_2_eq_Suc add_2_eq_Suc')
  next
    assume blk: "?blk = le_bytes 2 0x3fff @ data @ replicate (NTFS_SB_SIZE - length data) 0"
    have hdr: "le_at 2 cb pos = 0x3fff" using le_at_has_bytes assms(3) unfolding blk by simp
    let ?rest = "data @ replicate (NTFS_SB_SIZE - length data) 0"
    have len: "length ?blk = 2 + NTFS_SB_SIZE" "length ?rest = NTFS_SB_SIZE" using assms(2) unfolding blk by (simp_all add: sb_defs)
    have "has_bytes cb (pos + 2) ?rest"
      using assms(3) has_bytes_append [of cb pos "le_bytes 2 0x3fff" ?rest] unfolding blk length_le_bytes by blast
    then have "take NTFS_SB_SIZE (drop (pos + 2) cb) = ?rest" unfolding has_bytes_def len(2) by blast
    moreover have "(0x3fff :: nat) AND NTFS_SB_SIZE_MASK = 0xfff" "(0x3fff :: nat) AND NTFS_SB_IS_COMPRESSED = 0"
      by (simp_all add: sb_defs)
    moreover have "\<not> cb_size < pos + 0xfff + 3" "\<not> (length cb < pos + 2 + NTFS_SB_SIZE \<or> cap < length pre + NTFS_SB_SIZE)"
      using assms(5-8) len(1) by (simp_all add: sb_defs)
    moreover have "pos + 0xfff + 3 - (pos + 2) = NTFS_SB_SIZE" by (simp add: sb_defs)
    ultimately show ?thesis
      unfolding len by (subst cb_loop.simps) (simp add: go hdr Let_def add.assoc del: add_2_eq_Suc add_2_eq_Suc')
  qed
qed

lemma block_decode:
  assumes "blk = comp_finish data (comp_loop data (comp_start prev0))" and "0 < length data" and "length data \<le> 4096"
  shows "3 \<le> length blk \<and> length blk \<le> 4098 \<and>
    ntfs_decompress 4096 4096 (blk @ [0, 0, 0, 0]) (length blk + 4) = Ok (data @ replicate (4096 - length data) 0)"
proof -
  have len: "3 \<le> length blk" "length blk \<le> 4098"
    using comp_finish_cases [OF assms(2,3), of prev0] assms(3) unfolding assms(1) by (auto simp: sb_defs Suc_le_eq)
  have "has_bytes (blk @ [0, 0, 0, 0]) 0 blk" by (simp add: has_bytes_def)
  then have "ntfs_decompress 4096 4096 (blk @ [0, 0, 0, 0]) (length blk + 4) =
      cb_loop 4096 4096 (blk @ [0, 0, 0, 0]) (length blk + 4) (length blk) (data @ replicate (4096 - length data) 0)"
    using cb_loop_block [OF assms(2,3), of "blk @ [0, 0, 0, 0]" 0 prev0 "length blk + 4" "[]" 4096 4096] len(1)
    unfolding ntfs_decompress_def assms(1) by (simp add: sb_defs)
  also have "\<dots> = Ok (data @ replicate (4096 - length data) 0)"
    using assms(3) by (subst cb_loop.simps) (simp add: Let_def)
  finally show ?thesis using len by simp
qed

text \<open>Full blocks have an encoder with its decoder.\<close>

definition full_block :: "bytes \<Rightarrow> bool" where
  "full_block data \<longleftrightarrow> length data = 4096"

definition block_code :: "(nat \<Rightarrow> int) \<Rightarrow> bytes \<Rightarrow> bytes" where
  "block_code prev0 data = comp_finish data (comp_loop data (comp_start prev0))"

definition block_data :: "bytes \<Rightarrow> bytes option" where
  "block_data blk = (case ntfs_decompress 4096 4096 (blk @ [0, 0, 0, 0]) (length blk + 4) of Ok d \<Rightarrow> Some d | _ \<Rightarrow> None)"

interpretation block_codec: codec "block_code prev0" block_data full_block for prev0
  by unfold_locales (simp add: block_data_def block_code_def full_block_def block_decode)

text \<open>(C27) What the parser makes of a block of 1 to 4096 bytes, whatever memory it finds for its
  chains, is 3 to 4098 bytes long. Wherever it stands in a compression block, whatever is behind
  it and whatever has been decompressed before it, decompression consumes exactly these bytes and
  appends the block, filled up with zeros to 4096 bytes, provided that six bytes are left in the
  compression block and 4096 at the destination. In particular a compression block of it
  and four zero bytes decompresses to the block.\<close>

theorem compress_block_roundtrip:
  assumes "ntfs_compress_block mem prev0 data = Ok blk" and "0 < length data" and "length data \<le> 4096"
  shows "3 \<le> length blk \<and> length blk \<le> 4098 \<and>
    (\<forall>cb pos cb_size pre dest_size cap. has_bytes cb pos blk \<and> pos + length blk \<le> cb_size \<and> pos + 6 \<le> cb_size \<and>
        cb_size \<le> length cb \<and> length pre + 4096 \<le> dest_size \<and> dest_size \<le> cap \<longrightarrow>
      cb_loop cap dest_size cb cb_size pos pre =
        cb_loop cap dest_size cb cb_size (pos + length blk) (pre @ data @ replicate (4096 - length data) 0)) \<and>
    ntfs_decompress 4096 4096 (blk @ [0, 0, 0, 0]) (length blk + 4) = Ok (data @ replicate (4096 - length data) 0)"
proof -
  have blk: "blk = comp_finish data (comp_loop data (comp_start prev0))"
    using assms(1) by (simp add: ntfs_compress_block_def split: if_splits)
  have sb: "NTFS_SB_SIZE = 4096" by (simp add: sb_defs)
  show ?thesis
    using block_decode [OF blk assms(2,3)] cb_loop_block [OF assms(2,3), of _ _ prev0, folded blk, unfolded sb] by blast
qed

theorem compress_block_roundtrip_witness:
  "\<exists>blk. ntfs_compress_block True (\<lambda>_. 7) (concat (replicate 20 [1, 2, 3, 4])) = Ok blk \<and>
    ntfs_decompress 4096 4096 (blk @ [0, 0, 0, 0]) (length blk + 4) =
      Ok (concat (replicate 20 [1, 2, 3, 4]) @ replicate 4016 0)"
proof -
  let ?data = "concat (replicate 20 [1, 2, 3, 4]) :: bytes"
  have len: "length ?data = 80" by (simp add: length_concat sum_list_replicate)
  obtain blk where blk: "ntfs_compress_block True (\<lambda>_. 7) ?data = Ok blk" by (simp add: ntfs_compress_block_def)
  have "0 < length ?data" "length ?data \<le> 4096" using len by simp_all
  from compress_block_roundtrip [OF blk this] blk len show ?thesis by auto
qed

end
