(* ===== verification/Compress_Set.thy ===== *)
theory Compress_Set
  imports Compress_Roundtrip Device Runlist
begin

text \<open>
  A set of blocks is compressed and written as a whole (\<open>ntfs_comp_set\<close>), read and
  decompressed for appending (\<open>ntfs_read_append\<close>); \<open>write_clusters\<close> and
  \<open>read_clusters\<close> run along a part of a runlist, and \<open>ntfs_is_cb_compressed\<close> and
  \<open>valid_compressed_run\<close> look at its holes.
\<close>

section \<open>Transfers along a runlist\<close>

text \<open>The part of the data that goes to a run: it is written, and the result tells whether all of it was.
  The offset is 0 but for the first run.\<close>

definition write_run ::
    "'d ntfs_device_operations \<Rightarrow> nat \<Rightarrow> 'd ntfs_device \<Rightarrow> runlist_element \<Rightarrow> int \<Rightarrow> bytes \<Rightarrow> int \<Rightarrow>
       'd ntfs_device \<times> int option"
where
  "write_run dops csb dev e offs outbuf put =
     (let room = s32 (s32 (rl_length e * 2 ^ csb) - offs); left = int (length outbuf) - put;
          count = (if left < room then left else room);
          xpos = rl_lcn e * 2 ^ csb + offs
      in case (if count < 0 then (dev, -1, EINVAL)
               else ntfs_pwrite dops dev xpos (take (nat count) (drop (nat put) outbuf))) of
           (dev, xput, err) \<Rightarrow> (dev, if xput = count then Some count else None))"

fun write_clusters ::
    "'d ntfs_device_operations \<Rightarrow> nat \<Rightarrow> 'd ntfs_device \<Rightarrow> runlist \<Rightarrow> int \<Rightarrow> bytes \<Rightarrow> int \<Rightarrow> 'd ntfs_device \<times> int result"
where
  "write_clusters dops csb dev [] offs outbuf put = (dev, Fault)"
| "write_clusters dops csb dev (e # rl) offs outbuf put =
     (if put < 0 then (dev, Fault)
      else case write_run dops csb dev e offs outbuf put of
        (dev, None) \<Rightarrow> (dev, Ok put)
      | (dev, Some count) \<Rightarrow>
          if put + count < int (length outbuf) then write_clusters dops csb dev rl 0 outbuf (put + count)
          else (dev, Ok (put + count)))"

definition read_run ::
    "'d ntfs_device_operations \<Rightarrow> nat \<Rightarrow> 'd ntfs_device \<Rightarrow> runlist_element \<Rightarrow> int \<Rightarrow> int \<Rightarrow> 'd ntfs_device \<times> bytes option"
where
  "read_run dops csb dev e offs left =
     (let room = (rl_length e * 2 ^ csb - offs) mod 2 ^ 32; count = (if left < room then left else room);
          xpos = rl_lcn e * 2 ^ csb + offs
      in case ntfs_pread dops dev xpos count of
           (dev, Inr b) \<Rightarrow> (dev, if int (length b) = count then Some b else None)
         | (dev, Inl err) \<Rightarrow> (dev, None))"

fun read_clusters ::
    "'d ntfs_device_operations \<Rightarrow> nat \<Rightarrow> 'd ntfs_device \<Rightarrow> runlist \<Rightarrow> int \<Rightarrow> nat \<Rightarrow> bytes \<Rightarrow> 'd ntfs_device \<times> bytes result"
where
  "read_clusters dops csb dev [] offs to_read got = (dev, Fault)"
| "read_clusters dops csb dev (e # rl) offs to_read got =
     (case read_run dops csb dev e offs (int to_read - int (length got)) of
        (dev, None) \<Rightarrow> (dev, Ok got)
      | (dev, Some b) \<Rightarrow>
          if length got + length b < to_read then read_clusters dops csb dev rl 0 to_read (got @ b)
          else (dev, Ok (got @ b)))"

section \<open>Compression of a set of blocks\<close>

text \<open>The compressed forms of one, two and more zeros.\<close>

definition onezero :: bytes where "onezero = [0x01, 0xb0, 0x00, 0x00]"
definition twozeroes :: bytes where "twozeroes = [0x02, 0xb0, 0x00, 0x00, 0x00]"
definition morezeroes :: bytes where "morezeroes = [0x03, 0xb0, 0x02, 0x00]"

definition zero_block :: "bytes \<Rightarrow> bool" where
  "zero_block blk \<longleftrightarrow>
     (if length blk = 4 then blk = onezero else if length blk = 5 then blk = twozeroes
      else if length blk = 6 then take 4 blk = morezeroes else False)"

text \<open>How far from its start the parser of a block writes or reserves bytes: before it notices
  that a block does not shrink it has gone on behind what it finally returns.\<close>

definition block_extent :: "(nat \<Rightarrow> int) \<Rightarrow> bytes \<Rightarrow> nat" where
  "block_extent prev0 data =
     (let st = comp_loop data (comp_start prev0) in max (length (co_out st)) (length (comp_finish data st)))"

text \<open>The loop over the blocks; \<open>mem\<close> and \<open>prev0\<close> give for every block whether its context
  can be allocated and what it holds. An \<open>Err\<close> is \<open>fail\<close>, and a \<open>Fault\<close> a write behind the \<open>room\<close>
  bytes of the output buffer.\<close>

function comp_blocks ::
    "(nat \<Rightarrow> bool) \<Rightarrow> (nat \<Rightarrow> nat \<Rightarrow> int) \<Rightarrow> nat \<Rightarrow> nat \<Rightarrow> nat \<Rightarrow> bytes \<Rightarrow> nat \<Rightarrow> bytes \<Rightarrow> bool \<Rightarrow>
       (bytes \<times> bool) result"
where
  "comp_blocks mem prev0 room clsz cb_size inbuf p outbuf allzeroes =
     (if length inbuf \<le> p then Ok (outbuf, allzeroes)
      else
        let bsz = (if p + NTFS_SB_SIZE < length inbuf then NTFS_SB_SIZE else length inbuf - p);
            data = take bsz (drop p inbuf)
        in case ntfs_compress_block (mem p) (prev0 p) data of
             Ok blk \<Rightarrow>
               if room < length outbuf + block_extent (prev0 p) data then Fault
               else if cb_size < length outbuf + length blk + clsz + 2 then Err EIO
               else comp_blocks mem prev0 room clsz cb_size inbuf (p + NTFS_SB_SIZE) (outbuf @ blk)
                      (allzeroes \<and> zero_block blk)
           | Err e \<Rightarrow> Err e
           | Fault \<Rightarrow> Fault)"
  by pat_completeness auto
termination
  by (relation "measure (\<lambda>(mem, prev0, room, clsz, cb_size, inbuf, p, outbuf, z). length inbuf - p)")
    (auto simp: sb_defs)

declare comp_blocks.simps [simp del]

definition round_up :: "nat \<Rightarrow> nat \<Rightarrow> nat" where
  "round_up n sz = ((n - 1) OR (sz - 1)) + 1"

text \<open>The size of the output buffer.\<close>

definition set_room :: "nat \<Rightarrow> nat" where
  "set_room cb_size = cb_size + 2 * (cb_size div NTFS_SB_SIZE) + 2"

definition ntfs_comp_set ::
    "bool \<Rightarrow> (nat \<Rightarrow> bool) \<Rightarrow> (nat \<Rightarrow> nat \<Rightarrow> int) \<Rightarrow> 'd ntfs_device_operations \<Rightarrow> nat \<Rightarrow> nat \<Rightarrow> 'd ntfs_device \<Rightarrow>
       runlist \<Rightarrow> int \<Rightarrow> bytes \<Rightarrow> 'd ntfs_device \<times> int result"
where
  "ntfs_comp_set memout mem prev0 dops csb cb_size dev rl offs inbuf =
     (if \<not> memout then (dev, Ok (-1))
      else case comp_blocks mem prev0 (set_room cb_size) (2 ^ csb) cb_size inbuf 0 [] True of
        Fault \<Rightarrow> (dev, Fault)
      | Err e \<Rightarrow> (dev, Ok (-1))
      | Ok (outbuf, True) \<Rightarrow> (dev, Ok 0)
      | Ok (outbuf, False) \<Rightarrow>
          let outbuf = outbuf @ [0, 0];
              rounded = round_up (length outbuf) (2 ^ csb)
          in if set_room cb_size < length outbuf \<or> set_room cb_size < rounded then (dev, Fault)
             else
               let outbuf = outbuf @ replicate (rounded - length outbuf) 0
               in case write_clusters dops csb dev rl offs outbuf 0 of
                    (dev, Ok written) \<Rightarrow> (dev, Ok (if written \<noteq> int rounded then -2 else written))
                  | (dev, r) \<Rightarrow> (dev, r))"

text \<open>Existing data is read, decompressed and overwritten from \<open>pos\<close> on; \<open>stale\<close> is what the
  output buffer held. Success is \<open>Ok\<close> of the buffer, \<open>Err\<close> any failure.\<close>

definition ntfs_read_append ::
    "(nat \<Rightarrow> bool) \<Rightarrow> 'd ntfs_device_operations \<Rightarrow> nat \<Rightarrow> nat \<Rightarrow> 'd ntfs_device \<Rightarrow> runlist \<Rightarrow> int \<Rightarrow> nat \<Rightarrow> nat \<Rightarrow>
       bool \<Rightarrow> bytes \<Rightarrow> bytes \<Rightarrow> 'd ntfs_device \<times> bytes result"
where
  "ntfs_read_append mem dops csb cb_size dev rl offs compsz pos appending stale b =
     (if length stale < pos + length b then (dev, Fault)
      else if compsz = cb_size then
        (if length stale < compsz then (dev, Fault)
         else (dev, Ok (put_at (put_at stale 0 (replicate compsz 0)) pos b)))
      else if \<not> mem compsz then (dev, Err ENOMEM)
      else
        let decompsz = (if appending then round_up pos NTFS_SB_SIZE else cb_size)
        in case read_clusters dops csb dev rl offs compsz [] of
             (dev, Ok compbuf) \<Rightarrow>
               (dev, if length compbuf = compsz
                     then (case ntfs_decompress (length stale) decompsz compbuf compsz of
                             Ok out \<Rightarrow> Ok (put_at (put_at stale 0 out) pos b)
                           | Err e \<Rightarrow> Err e
                           | Fault \<Rightarrow> Fault)
                     else Err EIO)
           | (dev, r) \<Rightarrow> (dev, r))"

section \<open>Holes\<close>

text \<open>Whether a compression block that starts at a mapped run is compressed: it is if a hole follows
  in it. \<open>find_vcn\<close> gives the rest of the runlist from the run with a cluster on.\<close>

definition run_unmapped :: "runlist \<Rightarrow> bool" where
  "run_unmapped rl \<longleftrightarrow> rl = [] \<or> rl_lcn (hd rl) < LCN_HOLE \<or> rl_length (hd rl) = 0"

partial_function (option) cb_compressed_loop ::
    "(int \<Rightarrow> runlist option) \<Rightarrow> runlist \<Rightarrow> int \<Rightarrow> bool option"
where
  "cb_compressed_loop find_vcn rl cb_clusters =
     (if cb_clusters \<le> 0 then Some False
      else
        let rl = tl rl; vcn = rl_vcn (hd rl);
            found = (if run_unmapped rl then find_vcn vcn else Some rl)
        in case found of
             None \<Rightarrow> Some True
           | Some rl \<Rightarrow>
               if run_unmapped rl then Some True
               else if rl_vcn (hd rl) < vcn
               then cb_compressed_loop find_vcn rl (cb_clusters - (rl_length (hd rl) - (vcn - rl_vcn (hd rl))))
               else if rl_lcn (hd rl) = LCN_HOLE then Some True
               else if cb_clusters \<le> rl_length (hd rl) then Some False
               else cb_compressed_loop find_vcn rl (cb_clusters - rl_length (hd rl)))"

definition ntfs_is_cb_compressed :: "(int \<Rightarrow> runlist option) \<Rightarrow> runlist \<Rightarrow> int \<Rightarrow> int \<Rightarrow> bool option" where
  "ntfs_is_cb_compressed find_vcn rl cb_start_vcn cb_clusters =
     cb_compressed_loop find_vcn rl (cb_clusters - (rl_length (hd rl) - (cb_start_vcn - rl_vcn (hd rl))))"

text \<open>The checks from a run on that is the first of its compression block.\<close>

fun valid_run_from :: "int \<Rightarrow> bool \<Rightarrow> runlist \<Rightarrow> bool result" where
  "valid_run_from cbc fullcheck (e # e1 # rl) =
     (if rl_length e = 0 then Ok True
      else case valid_run_from cbc fullcheck (e1 # rl) of
        Ok ok \<Rightarrow> Ok (ok \<and> rl_vcn e + rl_length e = rl_vcn e1 \<and>
          (rl_lcn e = LCN_HOLE \<longrightarrow> (rl_vcn e + rl_length e) mod cbc = 0 \<and> (fullcheck \<longrightarrow> rl_lcn e1 \<noteq> LCN_HOLE)))
      | Err err \<Rightarrow> Err err
      | Fault \<Rightarrow> Fault)"
| "valid_run_from cbc fullcheck [e] = (if rl_length e = 0 then Ok True else Fault)"
| "valid_run_from cbc fullcheck [] = Fault"

text \<open>\<open>i\<close> is the index of the run in the runlist; the loop goes back to the start of a block.\<close>

fun block_start :: "int \<Rightarrow> runlist \<Rightarrow> nat \<Rightarrow> nat result" where
  "block_start cbc rl 0 = (if rl_vcn (rl ! 0) mod cbc = 0 then Ok 0 else Fault)"
| "block_start cbc rl (Suc i) = (if rl_vcn (rl ! Suc i) mod cbc = 0 then Ok (Suc i) else block_start cbc rl i)"

definition valid_compressed_run :: "int \<Rightarrow> bool \<Rightarrow> runlist \<Rightarrow> nat \<Rightarrow> bool result" where
  "valid_compressed_run cbc fullcheck rl i =
     (case block_start cbc rl i of
        Ok k \<Rightarrow> valid_run_from cbc fullcheck (drop k rl) | Err e \<Rightarrow> Err e | Fault \<Rightarrow> Fault)"

end
