(* ===== verification/Compress_Set_Exact.thy ===== *)
theory Compress_Set_Exact
  imports Compress_Set Decompress_Safety
begin

text \<open>
  What a compressed set of blocks holds: it decompresses to the data it was made from, it is
  dropped only when all data are zeros, and the blocks stay inside the buffer for them.
\<close>

text \<open>The data filled up to full blocks.\<close>

definition padded :: "bytes \<Rightarrow> bytes" where
  "padded data = data @ replicate ((length data + 4095) div 4096 * 4096 - length data) 0"

lemma length_padded: "length (padded data) = (length data + 4095) div 4096 * 4096"
  by (simp add: padded_def)

text \<open>One turn of the loop over the blocks.\<close>

definition block_at :: "(nat \<Rightarrow> nat \<Rightarrow> int) \<Rightarrow> bytes \<Rightarrow> nat \<Rightarrow> bytes" where
  "block_at prev0 inbuf p =
     (let data = take 4096 (drop p inbuf) in comp_finish data (comp_loop data (comp_start (prev0 p))))"

lemma comp_blocks_rec:
  "comp_blocks mem prev0 room clsz cb_size inbuf p out z =
    (if length inbuf \<le> p then Ok (out, z)
     else if \<not> mem p then Err ENOMEM
     else if room < length out + block_extent (prev0 p) (take 4096 (drop p inbuf)) then Fault
     else if cb_size < length out + length (block_at prev0 inbuf p) + clsz + 2 then Err EIO
     else comp_blocks mem prev0 room clsz cb_size inbuf (p + 4096) (out @ block_at prev0 inbuf p)
            (z \<and> zero_block (block_at prev0 inbuf p)))"
proof (cases "length inbuf \<le> p")
  case False
  then have data: "take (if p + NTFS_SB_SIZE < length inbuf then NTFS_SB_SIZE else length inbuf - p) (drop p inbuf) =
      take 4096 (drop p inbuf)"
    by (simp add: NTFS_SB_SIZE_def)
  from False show ?thesis
    unfolding comp_blocks.simps [of mem prev0 room clsz cb_size inbuf p] Let_def data
    by (simp add: ntfs_compress_block_def block_at_def Let_def NTFS_SB_SIZE_def)
qed (simp add: comp_blocks.simps)

lemma comp_blocks_induct [consumes 1, case_names finished more]:
  assumes "comp_blocks mem prev0 room clsz cb_size inbuf p out z = Ok (out', z')"
    and "\<And>p out z. length inbuf \<le> p \<Longrightarrow> out' = out \<Longrightarrow> z' = z \<Longrightarrow> P p out z"
    and "\<And>p out z. p < length inbuf \<Longrightarrow> length out + length (block_at prev0 inbuf p) + clsz + 2 \<le> cb_size \<Longrightarrow>
       comp_blocks mem prev0 room clsz cb_size inbuf (p + 4096) (out @ block_at prev0 inbuf p)
         (z \<and> zero_block (block_at prev0 inbuf p)) = Ok (out', z') \<Longrightarrow>
       P (p + 4096) (out @ block_at prev0 inbuf p) (z \<and> zero_block (block_at prev0 inbuf p)) \<Longrightarrow> P p out z"
  shows "P p out z"
  using assms(1)
proof (induction "length inbuf - p" arbitrary: p out z rule: less_induct)
  case less
  show ?case
  proof (cases "length inbuf \<le> p")
    case True
    with less(2) show ?thesis by (intro assms(2)) (simp_all add: comp_blocks_rec [of _ _ _ _ _ _ p])
  next
    case False
    have dec: "length inbuf - (p + 4096) < length inbuf - p" using False by simp
    have rest: "comp_blocks mem prev0 room clsz cb_size inbuf (p + 4096) (out @ block_at prev0 inbuf p)
        (z \<and> zero_block (block_at prev0 inbuf p)) = Ok (out', z')"
      and len: "length out + length (block_at prev0 inbuf p) + clsz + 2 \<le> cb_size"
      using less(2) False comp_blocks_rec [of mem prev0 room clsz cb_size inbuf p out z]
      by (simp_all split: if_splits)
    show ?thesis by (rule assms(3) [OF _ len rest less(1) [OF dec rest]]) (use False in simp)
  qed
qed

lemma comp_blocks_extends:
  assumes "comp_blocks mem prev0 room clsz cb_size inbuf p out z = Ok (out', z')"
  shows "\<exists>ext. out' = out @ ext"
  using assms by (induction rule: comp_blocks_induct) auto

lemma padded_step:
  assumes "p < length inbuf" and "4096 dvd p"
  shows "p + 4096 \<le> length (padded inbuf)"
    and "take p (padded inbuf) @ take 4096 (drop p inbuf) @ replicate (4096 - length (take 4096 (drop p inbuf))) 0 =
      take (p + 4096) (padded inbuf)"
proof -
  obtain k where k: "p = 4096 * k" using assms(2) by blast
  show len: "p + 4096 \<le> length (padded inbuf)"
  proof -
    have "(k + 1) * 4096 \<le> length inbuf + 4095" using assms(1) unfolding k by simp
    then have "(k + 1) * 4096 div 4096 \<le> (length inbuf + 4095) div 4096" by (rule div_le_mono)
    then have "k + 1 \<le> (length inbuf + 4095) div 4096" by simp
    then have "(k + 1) * 4096 \<le> (length inbuf + 4095) div 4096 * 4096" by (rule mult_le_mono1)
    then show ?thesis unfolding length_padded k by simp
  qed
  have "take 4096 (drop p (padded inbuf)) = take 4096 (drop p inbuf) @ replicate (4096 - length (take 4096 (drop p inbuf))) 0"
    using len assms(1) by (auto simp: padded_def min_def)
  then show "take p (padded inbuf) @ take 4096 (drop p inbuf) @ replicate (4096 - length (take 4096 (drop p inbuf))) 0 =
      take (p + 4096) (padded inbuf)" by (simp only: take_add)
qed

lemma padded_end: "4096 dvd p \<Longrightarrow> p \<le> length (padded inbuf) \<Longrightarrow> length inbuf \<le> p \<Longrightarrow> p = length (padded inbuf)"
proof -
  assume p: "4096 dvd p" "p \<le> length (padded inbuf)" "length inbuf \<le> p"
  then obtain k where k: "p = 4096 * k" by blast
  have "(length inbuf + 4095) div 4096 \<le> (k * 4096 + 4095) div 4096"
    using p(3) unfolding k by (intro div_le_mono) simp
  also have "\<dots> = k" by simp
  finally show ?thesis using p(2) unfolding length_padded k by simp
qed

lemma comp_blocks_decode:
  assumes "comp_blocks mem prev0 room clsz cb_size inbuf p out z = Ok (out', z')"
    and "4096 dvd p" and "p \<le> length (padded inbuf)" and "has_bytes cb 0 out'" and "cb_size \<le> length cb" and "0 < clsz"
    and "length (padded inbuf) \<le> dest_size" and "dest_size \<le> cap"
  shows "cb_loop cap dest_size cb cb_size (length out) (take p (padded inbuf)) =
    cb_loop cap dest_size cb cb_size (length out') (padded inbuf)"
  using assms(1-3)
proof (induction rule: comp_blocks_induct)
  case (finished p out z)
  with padded_end [of p inbuf] show ?case by simp
next
  case (more p out z)
  let ?data = "take 4096 (drop p inbuf)" and ?blk = "block_at prev0 inbuf p"
  have blk: "?blk = comp_finish ?data (comp_loop ?data (comp_start (prev0 p)))" by (simp add: block_at_def Let_def)
  have data: "0 < length ?data" "length ?data \<le> 4096" using more(1) by simp_all
  obtain ext where ext: "out' = out @ ?blk @ ext" using comp_blocks_extends [OF more(3)] by auto
  have "has_bytes cb (length out) ?blk"
    using assms(4) unfolding ext by (simp add: has_bytes_append)
  then have "cb_loop cap dest_size cb cb_size (length out) (take p (padded inbuf)) =
      cb_loop cap dest_size cb cb_size (length out + length ?blk) (take (p + 4096) (padded inbuf))"
    using cb_loop_block [OF data, of cb "length out" "prev0 p" cb_size "take p (padded inbuf)" dest_size cap]
      block_decode [OF blk data] more(2) assms(5-8) padded_step [OF more(1,5)]
    unfolding blk [symmetric] by (simp add: sb_defs)
  with more(4) padded_step [OF more(1,5)] more(5) show ?case by simp
qed

lemma comp_blocks_length:
  assumes "comp_blocks mem prev0 room clsz cb_size inbuf p out z = Ok (out', z')"
  shows "p < length inbuf \<Longrightarrow> length out' + clsz + 2 \<le> cb_size"
  using assms
proof (induction rule: comp_blocks_induct)
  case (more p out z)
  show ?case
  proof (cases "p + 4096 < length inbuf")
    case False
    then have "out' = out @ block_at prev0 inbuf p" using more(3) by (simp add: comp_blocks_rec [of _ _ _ _ _ _ "p + 4096"])
    with more(2) show ?thesis by simp
  qed (use more in blast)
qed simp

lemma comp_set_decode:
  assumes "comp_blocks mem prev0 room clsz cb_size inbuf 0 [] True = Ok (out, z)"
    and "0 < length inbuf" and "0 < clsz" and "has_bytes cb 0 (out @ [0, 0])" and "cb_size \<le> length cb"
    and "length (padded inbuf) \<le> dest_size" and "dest_size \<le> cap"
  shows "ntfs_decompress cap dest_size cb cb_size = Ok (padded inbuf)"
proof -
  have "has_bytes cb 0 out" "has_bytes cb (length out) [0, 0]"
    using assms(4) by (simp_all add: has_bytes_append)
  then have hdr: "le_at 2 cb (length out) = 0" using has_bytes_le_at [of cb "length out" "[0, 0]" 2] by simp
  have len: "length out + clsz + 2 \<le> cb_size" using comp_blocks_length [OF assms(1,2)] .
  have "ntfs_decompress cap dest_size cb cb_size = cb_loop cap dest_size cb cb_size (length out) (padded inbuf)"
    using comp_blocks_decode [OF assms(1) _ _ \<open>has_bytes cb 0 out\<close> assms(5,3,6,7)] by (simp add: ntfs_decompress_def)
  also have "\<dots> = Ok (padded inbuf)"
    using len assms(5) hdr by (subst cb_loop.simps) (simp add: Let_def)
  finally show ?thesis .
qed

end
