(* ===== verification/Compress_Set_Laws.thy ===== *)
theory Compress_Set_Laws
  imports Compress_Set_Exact
begin

text \<open>
  What \<open>ntfs_comp_set\<close> promises: the set it writes decompresses to the data and saves a cluster,
  nothing is written only for zeros, and the blocks stay inside the buffer for them.
\<close>

section \<open>Blocks of zeros\<close>

lemma set_copy_bytes: "pos < length out \<Longrightarrow> set (copy_bytes out pos n) = set out"
proof (induction n arbitrary: out pos)
  case (Suc n)
  then have "set (out @ [out ! pos]) = set out" by auto
  with Suc.IH [of "pos + 1" "out @ [out ! pos]"] Suc.prems show ?case by simp
qed simp

lemma phrase_token_set: "phrase_token cb cap s pos out = Ok out' \<Longrightarrow> s \<le> length out \<Longrightarrow> set out' = set out"
  by (auto simp: phrase_token_def Let_def copy_phrase_bytes set_copy_bytes split: if_splits)

text \<open>One symbol and then nothing or a phrase.\<close>

lemma one_symbol:
  assumes "byte_at cb 2 = tag" and "byte_at cb 3 = 0" and "6 < length cb"
    and "sb_loop cb 4096 0 e 2 [] = Ok (e, out)"
    and "(e = 4 \<and> tag = 0) \<or> (e = 5 \<and> tag = 0 \<and> byte_at cb 4 = 0) \<or> (e = 6 \<and> tag = 2)"
  shows "set out \<subseteq> {0}"
  using assms(5)
proof (elim disjE conjE)
  have 1: "sb_tokens (Suc n) cb 4096 0 e t 3 [] = sb_tokens n cb 4096 0 e (drop_bit 1 t) 4 [0]"
    if "\<not> bit t 0" "3 < e" for n t using that assms(2,3) by (simp add: sb_defs)
  have 2: "sb_tokens (Suc n) cb 4096 0 e t e o1 = Ok (e, o1)" for n t o1 by simp
  show "set out \<subseteq> {0}" if "e = 4" "tag = 0"
  proof -
    have "sb_tokens (Suc (Suc n)) cb 4096 0 4 0 3 [] = Ok (4, [0])" for n
      using 1 [of 0 "Suc n"] 2 [of n] that by simp
    from this [of 6] have "sb_tokens 8 cb 4096 0 4 0 3 [] = Ok (4, [0])" by (simp del: sb_tokens.simps)
    then have "sb_loop cb 4096 0 4 2 [] = sb_loop cb 4096 0 4 4 [0]"
      using assms(1,3) that by (subst sb_loop.simps) (simp del: sb_tokens.simps)
    then show ?thesis using assms(4) that by (auto simp: sb_loop.simps [of _ _ _ 4 4] sb_defs)
  qed
  show "set out \<subseteq> {0}" if "e = 5" "tag = 0" "byte_at cb 4 = 0"
  proof -
    have 3: "sb_tokens (Suc n) cb 4096 0 5 0 4 [0] = sb_tokens n cb 4096 0 5 0 5 [0, 0]" for n
      using that assms(3) by (simp add: sb_defs)
    have "sb_tokens (Suc (Suc (Suc n))) cb 4096 0 5 0 3 [] = Ok (5, [0, 0])" for n
      using 1 [of 0 "Suc (Suc n)"] 3 [of "Suc n"] 2 [of n] that by (simp del: sb_tokens.simps split: result.splits)
    from this [of 5] have "sb_tokens 8 cb 4096 0 5 0 3 [] = Ok (5, [0, 0])" by (simp del: sb_tokens.simps)
    then have "sb_loop cb 4096 0 5 2 [] = sb_loop cb 4096 0 5 5 [0, 0]"
      using assms(1,3) that by (subst sb_loop.simps) (simp del: sb_tokens.simps)
    then show ?thesis using assms(4) that by (auto simp: sb_loop.simps [of _ _ _ 5 5] sb_defs)
  qed
  show "set out \<subseteq> {0}" if "e = 6" "tag = 2"
  proof -
    have d: "drop_bit 1 (1 :: u8) = 0" "drop_bit 1 (2 :: u8) = 1" by code_simp+
    have 3: "sb_tokens (Suc n) cb 4096 0 6 1 4 [0] = (case phrase_token cb 4096 0 4 [0] of
        Ok o1 \<Rightarrow> sb_tokens n cb 4096 0 6 0 6 o1 | Err x \<Rightarrow> Err x | Fault \<Rightarrow> Fault)" for n
      by (simp add: sb_defs d(1) [unfolded One_nat_def] split: result.splits)
    have "sb_tokens (Suc (Suc (Suc n))) cb 4096 0 6 2 3 [] = (case phrase_token cb 4096 0 4 [0] of
        Ok o1 \<Rightarrow> Ok (6, o1) | Err x \<Rightarrow> Err x | Fault \<Rightarrow> Fault)" for n
      using 1 [of 2 "Suc (Suc n)"] 3 [of "Suc n"] 2 [of n] that d by (simp del: sb_tokens.simps split: result.splits)
    from this [of 5] have tok: "sb_tokens 8 cb 4096 0 6 2 3 [] = (case phrase_token cb 4096 0 4 [0] of
        Ok o1 \<Rightarrow> Ok (6, o1) | Err x \<Rightarrow> Err x | Fault \<Rightarrow> Fault)" by (simp del: sb_tokens.simps)
    then have loop: "sb_loop cb 4096 0 6 2 [] = (case phrase_token cb 4096 0 4 [0] of
        Ok o1 \<Rightarrow> sb_loop cb 4096 0 6 6 o1 | Err x \<Rightarrow> Err x | Fault \<Rightarrow> Fault)"
      using assms(1,3) that by (subst sb_loop.simps) (simp del: sb_tokens.simps split: result.splits)
    then obtain o1 where o1: "phrase_token cb 4096 0 4 [0] = Ok o1" "sb_loop cb 4096 0 6 6 o1 = Ok (6, out)"
      using assms(4) \<open>e = 6\<close> by (cases "phrase_token cb 4096 0 4 [0]") simp_all
    have "set o1 = {0}" using phrase_token_set [OF o1(1)] by simp
    moreover have "set out \<subseteq> set o1 \<union> {0}"
      using o1(2) by (subst (asm) sb_loop.simps) (auto split: if_splits)
    ultimately show ?thesis by blast
  qed
qed

lemma zero_block_zero:
  assumes "zero_block blk" and "blk = comp_finish data (comp_loop data (comp_start prev0))"
    and "0 < length data" and "length data \<le> 4096"
  shows "set data \<subseteq> {0}"
proof -
  let ?cb = "blk @ [0, 0, 0, 0]" and ?e = "length blk"
  have dec: "ntfs_decompress 4096 4096 ?cb (?e + 4) = Ok (data @ replicate (4096 - length data) 0)"
    using block_decode [OF assms(2-4)] by simp
  have len: "4 \<le> ?e" "?e \<le> 6" using assms(1) by (auto simp: zero_block_def split: if_splits)
  obtain a b where blk: "blk = onezero \<or> blk = twozeroes \<or> blk = morezeroes @ [a, b]"
  proof (cases "length blk = 6")
    case True
    then have "blk = take 4 blk @ [blk ! 4, blk ! 5]"
      by (intro nth_equalityI) (auto simp: nth_append less_Suc_eq numeral_eq_Suc)
    moreover have "take 4 blk = morezeroes" using assms(1) True by (simp add: zero_block_def)
    ultimately show thesis using that by metis
  qed (use assms(1) that in \<open>auto simp: zero_block_def split: if_splits\<close>)
  have hdr: "le_at 2 ?cb 0 = 0xb000 + (?e - 3)" "byte_at ?cb 3 = 0"
    using blk by (auto simp: le_at_2 onezero_def twozeroes_def morezeroes_def byte_at_def)
  have tag: "byte_at ?cb 2 = (if ?e = 6 then 2 else 0)" "?e = 5 \<longrightarrow> byte_at ?cb 4 = 0"
    using blk by (auto simp: onezero_def twozeroes_def morezeroes_def byte_at_def)
  have "?e - 3 < 4096" using len by simp
  note bits = header_bits [OF this]
  have "ntfs_decompress 4096 4096 ?cb (?e + 4) = (case sb_loop ?cb 4096 0 ?e 2 [] of
      Ok (pos, out) \<Rightarrow> cb_loop 4096 4096 ?cb (?e + 4) pos out | Err err \<Rightarrow> Err err | Fault \<Rightarrow> Fault)"
    unfolding ntfs_decompress_def using len hdr(1) bits by (subst cb_loop.simps) (simp add: Let_def sb_defs numeral_2_eq_2)
  with dec obtain pos out where out: "sb_loop ?cb 4096 0 ?e 2 [] = Ok (pos, out)"
    "cb_loop 4096 4096 ?cb (?e + 4) pos out = Ok (data @ replicate (4096 - length data) 0)"
    by (auto split: result.splits)
  have pos: "pos = ?e" by (rule sb_loop_pos [OF out(1)])
  have "le_at 2 ?cb ?e = 0" using has_bytes_le_at [of ?cb ?e "[0, 0]" 2] by (simp add: has_bytes_def)
  then have "cb_loop 4096 4096 ?cb (?e + 4) ?e out = Ok out" by (subst cb_loop.simps) (simp add: Let_def)
  then have "out = data @ replicate (4096 - length data) 0" using out(2) pos by simp
  moreover have "set out \<subseteq> {0}"
    using out(1) tag len unfolding pos by (intro one_symbol [OF refl hdr(2)]) auto
  ultimately show ?thesis by auto
qed

lemma comp_blocks_zero:
  assumes "comp_blocks mem prev0 room clsz cb_size inbuf p out z = Ok (out', z')"
  shows "z' \<longrightarrow> z \<and> set (drop p inbuf) \<subseteq> {0}"
  using assms
proof (induction rule: comp_blocks_induct)
  case (more p out z)
  let ?data = "take 4096 (drop p inbuf)"
  have split: "drop p inbuf = ?data @ drop (p + 4096) inbuf"
    by (metis add.commute append_take_drop_id drop_drop)
  have "set ?data \<subseteq> {0}" if "zero_block (block_at prev0 inbuf p)"
    using zero_block_zero [OF that, of ?data "prev0 p"] more(1) by (simp add: block_at_def Let_def)
  then show ?case using more(4) by (subst split) auto
qed simp

section \<open>Rounding\<close>

lemma round_up_pow2:
  assumes "0 < n"
  shows "round_up n (2 ^ k) = ((n - 1) div 2 ^ k + 1) * 2 ^ k"
proof -
  have "(n - 1) OR mask k = push_bit k (drop_bit k (n - 1)) OR mask k"
    by (auto simp: bit_eq_iff bit_simps)
  also have "\<dots> = push_bit k (drop_bit k (n - 1)) + mask k"
    by (rule disjunctive_add_eq_or [symmetric]) (auto simp: bit_eq_iff bit_simps)
  finally show ?thesis
    by (simp add: round_up_def mask_eq_exp_minus_1 push_bit_eq_mult drop_bit_eq_div)
qed

lemma round_up_bounds:
  assumes "0 < n"
  shows "n \<le> round_up n (2 ^ k)" "round_up n (2 ^ k) < n + 2 ^ k" "2 ^ k dvd round_up n (2 ^ k)"
proof -
  have "n - 1 = (n - 1) div 2 ^ k * 2 ^ k + (n - 1) mod 2 ^ k" "(n - 1) mod 2 ^ k < 2 ^ k"
    by (simp_all only: div_mult_mod_eq) simp
  then show "n \<le> round_up n (2 ^ k)" "round_up n (2 ^ k) < n + 2 ^ k"
    unfolding round_up_pow2 [OF assms] add_mult_distrib mult_1 using assms by linarith+
  show "2 ^ k dvd round_up n (2 ^ k)" unfolding round_up_pow2 [OF assms] by simp
qed

lemma dvd_next: "d dvd m \<Longrightarrow> d dvd n \<Longrightarrow> m < n \<Longrightarrow> m + d \<le> n" for d :: nat
  by (metis dvd_diff_nat dvd_imp_le less_imp_le le_diff_conv2 zero_less_diff add.commute)

section \<open>The buffer for the blocks\<close>

lemma comp_token_out: "comp_token inbuf st = (st', brk) \<Longrightarrow> length (co_out st') \<le> length (co_out st) + 2"
  by (auto simp: comp_token_def Let_def emit_literal_def emit_match_def skip_positions_def ensure_match_def
      split: if_splits prod.splits)

lemma comp_loop_out:
  "length (co_out st) \<le> 4100 \<Longrightarrow> length (co_out (comp_loop inbuf st)) \<le> 4100"
proof (induction inbuf st rule: comp_loop.induct)
  case (1 inbuf st)
  show ?case
  proof (cases "length inbuf \<le> co_i st \<or> NTFS_SB_SIZE + 2 \<le> length (co_out st)")
    case True
    then have "comp_loop inbuf st = st" by (subst comp_loop.simps) simp
    with 1(2) show ?thesis by simp
  next
    case False
    obtain st' brk where step: "comp_token inbuf st = (st', brk)" by force
    have out: "length (co_out st') \<le> 4099" using comp_token_out [OF step] False by (simp add: sb_defs)
    show ?thesis
    proof (cases brk)
      case True
      then have "comp_loop inbuf st = st'" using False step by (subst comp_loop.simps) simp
      with out show ?thesis by simp
    next
      case go: False
      have "comp_loop inbuf st = comp_loop inbuf (store_tag st')"
        using False go step by (subst comp_loop.simps) simp
      moreover have "length (co_out (store_tag st')) \<le> 4100" using out by (simp add: store_tag_def)
      ultimately show ?thesis using 1(1) [OF False step [symmetric]] go by simp
    qed
  qed
qed

lemma block_extent_bound: "0 < length data \<Longrightarrow> length data \<le> 4096 \<Longrightarrow> block_extent prev0 data \<le> 4100"
  using block_decode [OF refl, of data prev0] comp_loop_out [of "comp_start prev0" data]
  by (simp add: block_extent_def Let_def comp_start_def)

lemma comp_blocks_room:
  assumes "cb_size = 4096 * n" and "length inbuf \<le> cb_size" and "length out \<le> 4098 * k" and "p = 4096 * k"
  shows "comp_blocks mem prev0 (set_room cb_size) clsz cb_size inbuf p out z \<noteq> Fault"
  using assms(3,4)
proof (induction "length inbuf - p" arbitrary: p out z k rule: less_induct)
  case less
  show ?case
  proof (cases "length inbuf \<le> p")
    case True
    then show ?thesis by (simp add: comp_blocks_rec [of _ _ _ _ _ _ p])
  next
    case False
    let ?data = "take 4096 (drop p inbuf)" and ?blk = "block_at prev0 inbuf p"
    have data: "0 < length ?data" "length ?data \<le> 4096" using False by simp_all
    have "4096 * k < 4096 * n" using False assms(1,2) less.prems(2) by simp
    then have "k < n" by simp
    moreover have "set_room cb_size = 4098 * n + 2" by (simp add: set_room_def sb_defs assms(1))
    ultimately have "\<not> set_room cb_size < length out + block_extent (prev0 p) ?data"
      using less.prems(1) block_extent_bound [OF data, of "prev0 p"] by linarith
    moreover have "length ?blk \<le> 4098"
      using block_decode [OF refl data, of "prev0 p"] by (simp add: block_at_def Let_def)
    then have "comp_blocks mem prev0 (set_room cb_size) clsz cb_size inbuf (p + 4096) (out @ ?blk) (z \<and> zero_block ?blk) \<noteq> Fault"
      using False less.prems by (intro less.hyps [of _ _ "Suc k"]) auto
    ultimately show ?thesis using False by (subst comp_blocks_rec) simp
  qed
qed

section \<open>Compression of a set\<close>

text \<open>What is written when all blocks fit: whole clusters inside the output buffer.\<close>

lemma comp_set_written:
  assumes "0 < length inbuf" and "2 ^ csb dvd cb_size"
    and "comp_blocks mem prev0 (set_room cb_size) (2 ^ csb) cb_size inbuf 0 [] True = Ok (out, False)"
  obtains b where "b = (out @ [0, 0]) @ replicate (length b - (length out + 2)) 0" and "2 ^ csb dvd length b"
    and "length b + 2 ^ csb \<le> cb_size"
    and "ntfs_comp_set True mem prev0 dops csb cb_size dev rl offs inbuf =
        (case write_clusters dops csb dev rl offs b 0 of
           (dev, Ok written) \<Rightarrow> (dev, Ok (if written \<noteq> int (length b) then -2 else written)) | (dev, r) \<Rightarrow> (dev, r))"
proof -
  let ?n = "length (out @ [0, 0])"
  define b where "b = (out @ [0, 0]) @ replicate (round_up ?n (2 ^ csb) - ?n) 0"
  have n: "0 < ?n" by simp
  have len: "length b = round_up ?n (2 ^ csb)" using round_up_bounds(1) [OF n, of csb] by (simp add: b_def)
  have "?n + 2 ^ csb \<le> cb_size" using comp_blocks_length [OF assms(3,1)] by simp
  with round_up_bounds(2) [OF n, of csb] have less: "length b < cb_size" by (simp add: len)
  have dvd: "2 ^ csb dvd length b" using round_up_bounds(3) [OF n, of csb] by (simp only: len)
  have "?n \<le> set_room cb_size" "length b \<le> set_room cb_size"
    using less \<open>?n + 2 ^ csb \<le> cb_size\<close> by (simp_all add: set_room_def)
  then have "ntfs_comp_set True mem prev0 dops csb cb_size dev rl offs inbuf =
      (case write_clusters dops csb dev rl offs b 0 of
         (dev, Ok written) \<Rightarrow> (dev, Ok (if written \<noteq> int (length b) then -2 else written)) | (dev, r) \<Rightarrow> (dev, r))"
    unfolding len using assms(3) by (simp add: ntfs_comp_set_def Let_def b_def split: prod.split result.split)
  moreover have "b = (out @ [0, 0]) @ replicate (length b - (length out + 2)) 0" unfolding len by (simp add: b_def)
  ultimately show thesis using that dvd dvd_next [OF dvd assms(2) less] by blast
qed

text \<open>(C28) For data of at most one compression block of \<open>cb_size\<close> bytes, the compression of a set of
  blocks fails with -1, or reports 0 and then all data are zeros, or writes whole clusters, at
  least one cluster less than \<open>cb_size\<close>, and any compression block that starts with them
  decompresses to the data, filled up with zeros to whole blocks of 4096 bytes.\<close>

theorem comp_set_holds_data:
  assumes "0 < length inbuf" and "length inbuf \<le> cb_size" and "length (padded inbuf) \<le> dest_size"
    and "2 ^ csb dvd cb_size" and "4096 dvd cb_size"
  shows "ntfs_comp_set memout mem prev0 dops csb cb_size dev rl offs inbuf = (dev, Ok (-1)) \<or>
    ntfs_comp_set memout mem prev0 dops csb cb_size dev rl offs inbuf = (dev, Ok 0) \<and> set inbuf \<subseteq> {0} \<or>
    (\<exists>b. ntfs_comp_set memout mem prev0 dops csb cb_size dev rl offs inbuf =
        (case write_clusters dops csb dev rl offs b 0 of
           (dev, Ok written) \<Rightarrow> (dev, Ok (if written \<noteq> int (length b) then -2 else written)) | (dev, r) \<Rightarrow> (dev, r)) \<and>
      2 ^ csb dvd length b \<and> length b + 2 ^ csb \<le> cb_size \<and>
      (\<forall>cb. has_bytes cb 0 b \<and> length cb = cb_size \<longrightarrow> ntfs_decompress dest_size dest_size cb cb_size = Ok (padded inbuf)))"
proof (cases "comp_blocks mem prev0 (set_room cb_size) (2 ^ csb) cb_size inbuf 0 [] True")
  case (Ok oz)
  obtain out z where oz: "oz = (out, z)" by (cases oz)
  note blocks = Ok [unfolded oz]
  show ?thesis
  proof (cases "memout \<and> \<not> z")
    case False
    then show ?thesis using blocks comp_blocks_zero [OF blocks] by (auto simp: ntfs_comp_set_def)
  next
    case True
    with blocks have nz: "comp_blocks mem prev0 (set_room cb_size) (2 ^ csb) cb_size inbuf 0 [] True = Ok (out, False)" by simp
    obtain b where b: "b = (out @ [0, 0]) @ replicate (length b - (length out + 2)) 0" "2 ^ csb dvd length b"
      "length b + 2 ^ csb \<le> cb_size"
      "ntfs_comp_set True mem prev0 dops csb cb_size dev rl offs inbuf =
        (case write_clusters dops csb dev rl offs b 0 of
           (dev, Ok written) \<Rightarrow> (dev, Ok (if written \<noteq> int (length b) then -2 else written)) | (dev, r) \<Rightarrow> (dev, r))"
      by (rule comp_set_written [OF assms(1,4) nz, of dops dev rl offs])
    have "ntfs_decompress dest_size dest_size cb cb_size = Ok (padded inbuf)"
      if "has_bytes cb 0 b" "length cb = cb_size" for cb
    proof -
      have "has_bytes cb 0 (out @ [0, 0])"
        using that(1) has_bytes_append [of cb 0 "out @ [0, 0]"] b(1) by metis
      with comp_set_decode [OF nz assms(1) _ _ _ assms(3) order_refl, of cb] that(2) show ?thesis by simp
    qed
    moreover have mo: "memout = True" using True by simp
    ultimately show ?thesis unfolding mo using b(2-4) by (intro disjI2 exI [of _ b]) blast
  qed
next
  case (Err e)
  then show ?thesis by (simp add: ntfs_comp_set_def)
next
  case Fault
  obtain n where "cb_size = 4096 * n" using assms(5) by blast
  with Fault comp_blocks_room [of cb_size n inbuf "[]" 0 0 mem prev0 "2 ^ csb" True] assms(2) show ?thesis by simp
qed

theorem comp_set_holds_data_witness:
  "\<forall>dops dev rl. \<exists>r. ntfs_comp_set True (\<lambda>_. True) (\<lambda>_ _. 3) dops 9 8192 dev rl 0 [1, 2, 3] = r \<and>
    (r = (dev, Ok (-1)) \<or>
     (\<exists>b. r = (case write_clusters dops 9 dev rl 0 b 0 of
           (dev, Ok written) \<Rightarrow> (dev, Ok (if written \<noteq> int (length b) then -2 else written)) | (dev, r) \<Rightarrow> (dev, r)) \<and>
        length b \<le> 7680))"
proof (intro allI)
  fix dops :: "'d ntfs_device_operations" and dev rl
  have "(2 :: nat) ^ 9 dvd 8192" by simp
  from comp_set_holds_data [OF _ _ _ this, of "[1, 2, 3]" 4096 True "\<lambda>_. True" "\<lambda>_ _. 3" dops dev rl 0]
  show "\<exists>r. ntfs_comp_set True (\<lambda>_. True) (\<lambda>_ _. 3) dops 9 8192 dev rl 0 [1, 2, 3] = r \<and>
    (r = (dev, Ok (-1)) \<or>
     (\<exists>b. r = (case write_clusters dops 9 dev rl 0 b 0 of
           (dev, Ok written) \<Rightarrow> (dev, Ok (if written \<noteq> int (length b) then -2 else written)) | (dev, r) \<Rightarrow> (dev, r)) \<and>
        length b \<le> 7680))" by (auto simp: length_padded)
qed

text \<open>(C29) For data of at most one compression block, \<open>ntfs_comp_set\<close> never writes behind the output
  buffer, which has two bytes more than the compression block for each of its blocks and two more:
  neither do the blocks, of which the parser may write four bytes more than a full block before it
  gives up, nor the two zero bytes, nor the zeros that fill the last cluster. The only access out
  of bounds left is one of \<open>write_clusters\<close> behind the end of the runlist.\<close>

theorem comp_set_buffer_suffices:
  assumes "length inbuf \<le> cb_size" and "4096 dvd cb_size" and "2 ^ csb dvd cb_size"
    and "snd (ntfs_comp_set memout mem prev0 dops csb cb_size dev rl offs inbuf) = Fault"
  shows "\<exists>b. length b < cb_size \<and> 2 ^ csb dvd length b \<and> snd (write_clusters dops csb dev rl offs b 0) = Fault"
proof -
  obtain n where "cb_size = 4096 * n" using assms(2) by blast
  then have "comp_blocks mem prev0 (set_room cb_size) (2 ^ csb) cb_size inbuf 0 [] True \<noteq> Fault"
    using comp_blocks_room [of cb_size n inbuf "[]" 0 0 mem prev0 "2 ^ csb" True] assms(1) by simp
  then obtain out where out: "memout" "comp_blocks mem prev0 (set_room cb_size) (2 ^ csb) cb_size inbuf 0 [] True = Ok (out, False)"
    using assms(4) by (auto simp: ntfs_comp_set_def split: if_splits result.splits bool.splits)
  have "inbuf \<noteq> []" using out(2) by (auto simp: comp_blocks_rec [of _ _ _ _ _ "[]"])
  then have "0 < length inbuf" by simp
  then obtain b where b: "2 ^ csb dvd length b" "length b + 2 ^ csb \<le> cb_size"
    "ntfs_comp_set True mem prev0 dops csb cb_size dev rl offs inbuf =
        (case write_clusters dops csb dev rl offs b 0 of
           (dev, Ok written) \<Rightarrow> (dev, Ok (if written \<noteq> int (length b) then -2 else written)) | (dev, r) \<Rightarrow> (dev, r))"
    by (rule comp_set_written [OF _ assms(3) out(2), of dops dev rl offs])
  then have "snd (write_clusters dops csb dev rl offs b 0) = Fault"
    using assms(4) out(1) by (auto split: prod.splits result.splits)
  moreover have "length b < cb_size" using b(2) by (metis less_add_same_cancel1 order_less_le_trans zero_less_numeral zero_less_power)
  ultimately show ?thesis using b(1) by blast
qed

text \<open>A run that is longer than the compression block: the write stays inside the runlist.\<close>

lemma write_clusters_one_run:
  assumes "int (length b) \<le> s32 (s32 (rl_length e * 2 ^ csb))"
  shows "snd (write_clusters dops csb dev (e # rl) 0 b 0) \<noteq> Fault"
  using assms by (auto simp: write_run_def Let_def split: prod.splits option.splits if_splits)

theorem comp_set_buffer_suffices_witness:
  "\<forall>dops dev. snd (ntfs_comp_set True (\<lambda>_. True) (\<lambda>_ _. 3) dops 9 8192 dev
     [\<lparr>rl_vcn = 0, rl_lcn = 5, rl_length = 16\<rparr>] 0 (replicate 8192 7)) \<noteq> Fault"
proof (intro allI notI)
  fix dops :: "'d ntfs_device_operations" and dev
  let ?e = "\<lparr>rl_vcn = 0, rl_lcn = 5, rl_length = 16\<rparr>"
  assume fault: "snd (ntfs_comp_set True (\<lambda>_. True) (\<lambda>_ _. 3) dops 9 8192 dev [?e] 0 (replicate 8192 7)) = Fault"
  have "(2 :: nat) ^ 9 dvd 8192" by simp
  from comp_set_buffer_suffices [OF _ _ this fault]
  obtain b where "length b < 8192" "snd (write_clusters dops 9 dev [?e] 0 b 0) = Fault" by auto
  then show False using write_clusters_one_run [of b ?e 9 dops dev "[]"] by (simp add: s32_def)
qed

end
