(* ===== verification/Unistr.thy ===== *)
theory Unistr
  imports NTFS_Prelude
begin

text \<open>
  Names in UTF-16 (\<open>libntfs-3g/unistr.c\<close>): comparison, collation, case, conversion from
  and to UTF-8, and the names that DOS and Win32 forbid. A name is the list of its units; a C string is
  the list of its bytes without the terminating zero. The build is the one with
  \<open>ALLOW_BROKEN_UNICODE\<close> and UTF-8 as the encoding, and not for Apple systems.
\<close>

unbundle bit_operations_syntax

type_synonym ntfschar = u16
type_synonym ucs = "ntfschar list"

definition PATH_MAX :: nat where "PATH_MAX = 4096"
definition NTFS_MAX_NAME_LEN :: nat where "NTFS_MAX_NAME_LEN = 255"

section \<open>Comparison\<close>

text \<open>The upper case of a unit: units beyond the table are their own.\<close>

definition upper :: "ucs \<Rightarrow> ntfschar \<Rightarrow> ntfschar" where
  "upper upcase c = (if unat c < length upcase then upcase ! unat c else c)"

fun ntfs_ucsncmp :: "ucs \<Rightarrow> ucs \<Rightarrow> nat \<Rightarrow> int result" where
  "ntfs_ucsncmp s1 s2 0 = Ok 0"
| "ntfs_ucsncmp (c1 # s1) (c2 # s2) (Suc n) =
     (if c1 < c2 then Ok (-1) else if c2 < c1 then Ok 1 else if c1 = 0 then Ok 0 else ntfs_ucsncmp s1 s2 n)"
| "ntfs_ucsncmp s1 s2 (Suc n) = Fault"

fun ntfs_ucsncasecmp :: "ucs \<Rightarrow> ucs \<Rightarrow> ucs \<Rightarrow> nat \<Rightarrow> int result" where
  "ntfs_ucsncasecmp upcase s1 s2 0 = Ok 0"
| "ntfs_ucsncasecmp upcase (a # s1) (b # s2) (Suc n) =
     (let c1 = upper upcase a; c2 = upper upcase b
      in if c1 < c2 then Ok (-1) else if c2 < c1 then Ok 1 else if c1 = 0 then Ok 0
         else ntfs_ucsncasecmp upcase s1 s2 n)"
| "ntfs_ucsncasecmp upcase s1 s2 (Suc n) = Fault"

definition ntfs_names_are_equal :: "bool \<Rightarrow> ucs \<Rightarrow> ucs \<Rightarrow> ucs \<Rightarrow> bool result" where
  "ntfs_names_are_equal case_sensitive upcase s1 s2 =
     (if length s1 \<noteq> length s2 then Ok False
      else if s1 = [] then Ok True
      else if case_sensitive then res_bind (ntfs_ucsncmp s1 s2 (length s1)) (\<lambda>r. Ok (r = 0))
      else res_bind (ntfs_ucsncasecmp upcase s1 s2 (length s1)) (\<lambda>r. Ok (r = 0)))"

text \<open>The loops of \<open>ntfs_names_full_collate\<close>; \<open>cnt\<close> counts the units left, the current one
  included.\<close>

fun skip_equal :: "nat \<Rightarrow> ucs \<Rightarrow> ucs \<Rightarrow> nat \<times> ucs \<times> ucs" where
  "skip_equal cnt (a # n1) (b # n2) =
     (if cnt - 1 \<noteq> 0 \<and> a = b then skip_equal (cnt - 1) n1 n2 else (cnt - 1, a # n1, b # n2))"
| "skip_equal cnt n1 n2 = (cnt - 1, n1, n2)"

fun skip_upper :: "ucs \<Rightarrow> nat \<Rightarrow> ucs \<Rightarrow> ucs \<Rightarrow> ntfschar \<times> ntfschar" where
  "skip_upper upcase cnt (a # n1) (b # n2) =
     (let u1 = upper upcase a; u2 = upper upcase b
      in if u1 = u2 \<and> cnt - 1 \<noteq> 0 then skip_upper upcase (cnt - 1) n1 n2 else (u1, u2))"
| "skip_upper upcase cnt n1 n2 = (0, 0)"

definition ntfs_names_full_collate :: "bool \<Rightarrow> ucs \<Rightarrow> ucs \<Rightarrow> ucs \<Rightarrow> int" where
  "ntfs_names_full_collate case_sensitive upcase name1 name2 =
     (let cnt = min (length name1) (length name2);
          by_length = (if length name1 < length name2 then -1 else if length name2 < length name1 then 1 else 0)
      in if cnt = 0 then by_length
         else if case_sensitive then
           (case skip_equal cnt name1 name2 of
              (cnt, n1, n2) \<Rightarrow>
                let c1 = hd n1; c2 = hd n2; u1 = upper upcase c1; u2 = upper upcase c2;
                    (u1, u2) = (if u1 = u2 \<and> cnt \<noteq> 0 then skip_upper upcase cnt (tl n1) (tl n2) else (u1, u2))
                in if u1 < u2 then -1 else if u2 < u1 then 1
                   else if by_length \<noteq> 0 then by_length
                   else if c1 < c2 then -1 else if c2 < c1 then 1 else 0)
         else
           (case skip_upper upcase cnt name1 name2 of
              (u1, u2) \<Rightarrow> if u1 < u2 then -1 else if u2 < u1 then 1 else by_length))"

fun ntfs_ucsnlen :: "ucs \<Rightarrow> nat \<Rightarrow> nat result" where
  "ntfs_ucsnlen s 0 = Ok 0"
| "ntfs_ucsnlen (c # s) (Suc n) = (if c = 0 then Ok 0 else res_bind (ntfs_ucsnlen s n) (\<lambda>k. Ok (k + 1)))"
| "ntfs_ucsnlen [] (Suc n) = Fault"

definition ntfs_ucsndup :: "(nat \<Rightarrow> bool) \<Rightarrow> ucs \<Rightarrow> nat \<Rightarrow> ucs result" where
  "ntfs_ucsndup mem s maxlen =
     res_bind (ntfs_ucsnlen s maxlen) (\<lambda>len. if mem ((len + 1) * 2) then Ok (take len s @ [0]) else Err ENOMEM)"

definition ntfs_name_upcase :: "ucs \<Rightarrow> ucs \<Rightarrow> ucs" where
  "ntfs_name_upcase upcase name = map (upper upcase) name"

definition ntfs_name_locase :: "ucs option \<Rightarrow> ucs \<Rightarrow> ucs" where
  "ntfs_name_locase locase name = (case locase of None \<Rightarrow> name | Some tbl \<Rightarrow> map (upper tbl) name)"

text \<open>The table for lower case: the last unit with a given upper case wins.\<close>

definition ntfs_locase_table_build :: "(nat \<Rightarrow> bool) \<Rightarrow> ucs \<Rightarrow> ucs option" where
  "ntfs_locase_table_build mem uc =
     (if mem (2 * length uc) then
        Some (fold (\<lambda>i lc. let upp = unat (uc ! i)
                in if upp \<noteq> i \<and> upp < length uc then lc[upp := word_of_nat i] else lc)
          [0..<length uc] (map word_of_nat [0..<length uc]))
      else None)"

section \<open>From UTF-16 to UTF-8\<close>

text \<open>The count of bytes and whether the first half of a pair is pending, where the loop ends.\<close>

function utf8_count :: "nat \<Rightarrow> ucs \<Rightarrow> bool \<Rightarrow> nat \<Rightarrow> bool \<times> nat" where
  "utf8_count outs_len [] surrog count = (surrog, count)"
| "utf8_count outs_len (w # ins) surrog count =
     (let c = unat w
      in if w = 0 \<or> outs_len < count then (surrog, count)
         else if surrog then
           (if 0xdc00 \<le> c \<and> c < 0xe000 then utf8_count outs_len ins False (count + 4)
            else utf8_count outs_len (w # ins) False (count + 3))
         else if c < 0x80 then utf8_count outs_len ins False (count + 1)
         else if c < 0x800 then utf8_count outs_len ins False (count + 2)
         else if c < 0xd800 then utf8_count outs_len ins False (count + 3)
         else if c < 0xdc00 then utf8_count outs_len ins True count
         else utf8_count outs_len ins False (count + 3))"
  by pat_completeness auto
termination
  by (relation "measure (\<lambda>(outs_len, ins, surrog, count). 2 * length ins + (if surrog then 1 else 0))") auto

definition utf16_to_utf8_size :: "ucs \<Rightarrow> nat \<Rightarrow> nat result" where
  "utf16_to_utf8_size ins outs_len =
     (case utf8_count outs_len ins False 0 of
        (surrog, count) \<Rightarrow>
          let count = (if surrog \<and> count \<le> outs_len then count + 3 else count)
          in if outs_len < count then Err ENAMETOOLONG else Ok count)"

text \<open>Two, three and four bytes.\<close>

definition utf8_2 :: "nat \<Rightarrow> bytes" where
  "utf8_2 c = [word_of_nat (0xc0 OR (c div 64 AND 0x3f)), word_of_nat (0x80 OR (c AND 0x3f))]"

definition utf8_3 :: "nat \<Rightarrow> bytes" where
  "utf8_3 c = [word_of_nat (0xe0 OR c div 4096), word_of_nat (0x80 OR (c div 64 AND 0x3f)),
     word_of_nat (0x80 OR (c AND 0x3f))]"

definition utf8_pair :: "nat \<Rightarrow> nat \<Rightarrow> bytes" where
  "utf8_pair halfpair c =
     [word_of_nat (0xf0 + ((halfpair + 64) div 256 AND 7)), word_of_nat (0x80 + ((halfpair + 64) div 4 AND 63)),
      word_of_nat (0x80 + (c div 64 AND 15) + (halfpair AND 3) * 16), word_of_nat (0x80 + (c AND 63))]"

text \<open>The bytes the loop stores; \<open>halfpair\<close> is 0 when no first half is pending.\<close>

function utf8_store :: "ucs \<Rightarrow> nat \<Rightarrow> bytes" where
  "utf8_store [] halfpair = (if halfpair \<noteq> 0 then utf8_3 halfpair else [])"
| "utf8_store (w # ins) halfpair =
     (let c = unat w
      in if w = 0 then (if halfpair \<noteq> 0 then utf8_3 halfpair else [])
         else if halfpair \<noteq> 0 then
           (if 0xdc00 \<le> c \<and> c < 0xe000 then utf8_pair halfpair c @ utf8_store ins 0
            else utf8_3 halfpair @ utf8_store (w # ins) 0)
         else if c < 0x80 then word_of_nat c # utf8_store ins 0
         else if c < 0x800 then utf8_2 c @ utf8_store ins 0
         else if c < 0xd800 then utf8_3 c @ utf8_store ins 0
         else if c < 0xdc00 then utf8_store ins c
         else utf8_3 c @ utf8_store ins 0)"
  by pat_completeness auto
termination
  by (relation "measure (\<lambda>(ins, halfpair). 2 * length ins + (if halfpair \<noteq> 0 then 1 else 0))") auto

text \<open>\<open>outs\<close> is the size of the buffer of the caller, if there is one. The bytes and the
  terminator are stored without further checks.\<close>

definition ntfs_utf16_to_utf8 :: "(nat \<Rightarrow> bool) \<Rightarrow> nat option \<Rightarrow> ucs \<Rightarrow> bytes result" where
  "ntfs_utf16_to_utf8 mem outs ins =
     (let outs_len = (case outs of None \<Rightarrow> PATH_MAX | Some n \<Rightarrow> n)
      in if outs_len = 0 then Err ENAMETOOLONG
         else res_bind (utf16_to_utf8_size ins (outs_len - 1)) (\<lambda>size.
           let cap = (case outs of None \<Rightarrow> size + 1 | Some n \<Rightarrow> n)
           in if outs = None \<and> \<not> mem cap then Err ENOMEM
              else if cap < length (utf8_store ins 0) + 1 then Fault
              else Ok (utf8_store ins 0)))"

section \<open>From UTF-8 to UTF-16\<close>

text \<open>A byte of a string or its terminator.\<close>

definition str_at :: "bytes \<Rightarrow> nat \<Rightarrow> nat" where
  "str_at s i = (if i < length s then unat (s ! i) else 0)"

text \<open>The units needed for a string that is valid.\<close>

function utf16_count :: "bytes \<Rightarrow> nat \<Rightarrow> nat result" where
  "utf16_count s count =
     (let byte = str_at s 0
      in if byte = 0 then Ok count
         else if PATH_MAX \<le> count + 1 then Err ENAMETOOLONG
         else if byte < 0xc0 then utf16_count (drop 1 s) (count + 1)
         else if 0xf5 \<le> byte then Err EILSEQ
         else if str_at s 1 = 0 then Ok (count + 1)
         else if str_at s 2 = 0 then Ok (count + 1)
         else if byte < 0xe0 then utf16_count (drop 2 s) (count + 1)
         else if str_at s 3 = 0 then Ok (count + 1)
         else if byte < 0xf0 then utf16_count (drop 3 s) (count + 1)
         else if PATH_MAX \<le> count + 2 then Err ENAMETOOLONG
         else utf16_count (drop 4 s) (count + 2))"
  by pat_completeness auto
termination
  by (relation "measure (\<lambda>(s, count). length s)") (auto simp: str_at_def split: if_splits)

declare utf16_count.simps [simp del]

text \<open>One sequence: the value and the number of bytes, 0 at the end.\<close>

definition utf8_to_unicode :: "bytes \<Rightarrow> (nat \<times> nat) result" where
  "utf8_to_unicode s =
     (let byte = str_at s 0; cont = (\<lambda>i. str_at s i AND 0xc0 = 0x80); low = (\<lambda>i. str_at s i AND 0x3f)
      in if byte = 0 then Ok (0, 0)
         else if byte < 0x80 then Ok (1, byte)
         else if byte < 0xc2 then Err EILSEQ
         else if byte < 0xe0 then
           (if cont 1 then Ok (2, (byte AND 0x1f) * 64 OR low 1) else Err EILSEQ)
         else if byte < 0xf0 then
           (if cont 1 \<and> cont 2 then
              (let wc = (byte AND 0x0f) * 4096 OR low 1 * 64 OR low 2
               in if 0x800 \<le> wc \<and> wc \<le> 0xffff then Ok (3, wc) else Err EILSEQ)
            else Err EILSEQ)
         else if byte < 0xf5 then
           (if cont 1 \<and> cont 2 \<and> cont 3 then
              (let wc = (byte AND 0x07) * 262144 OR low 1 * 4096 OR low 2 * 64 OR low 3
               in if 0x10000 \<le> wc \<and> wc \<le> 0x10ffff then Ok (4, wc) else Err EILSEQ)
            else Err EILSEQ)
         else Err EILSEQ)"

lemma utf8_to_unicode_used:
  "utf8_to_unicode s = Ok (m, wc) \<Longrightarrow> m \<noteq> 0 \<Longrightarrow> 0 < length s"
  by (auto simp: utf8_to_unicode_def str_at_def Let_def split: if_splits)

definition utf16_units :: "nat \<Rightarrow> ucs" where
  "utf16_units wc =
     (if wc < 0x10000 then [word_of_nat wc]
      else [word_of_nat ((wc - 0x10000) div 1024 + 0xd800), word_of_nat ((wc - 0x10000 AND 0x3ff) + 0xdc00)])"

text \<open>The loop stores units and at the end the terminator into a buffer of \<open>cap\<close> units.\<close>

function utf16_store :: "nat \<Rightarrow> bytes \<Rightarrow> ucs \<Rightarrow> ucs result" where
  "utf16_store cap s out =
     (case utf8_to_unicode s of
        Ok (m, wc) \<Rightarrow>
          if m = 0 then (if cap < length out + 1 then Fault else Ok out)
          else if cap < length out + length (utf16_units wc) then Fault
          else utf16_store cap (drop m s) (out @ utf16_units wc)
      | Err e \<Rightarrow> Err e
      | Fault \<Rightarrow> Fault)"
  by pat_completeness auto
termination
  by (relation "measure (\<lambda>(cap, s, out). length s)") (auto dest: utf8_to_unicode_used)

declare utf16_store.simps [simp del]

definition ntfs_utf8_to_utf16 :: "(nat \<Rightarrow> bool) \<Rightarrow> nat option \<Rightarrow> bytes \<Rightarrow> ucs result" where
  "ntfs_utf8_to_utf16 mem outs s =
     res_bind (utf16_count s 0) (\<lambda>shorts.
       case outs of
         None \<Rightarrow> if mem ((shorts + 1) * 2) then utf16_store (shorts + 1) s [] else Err ENOMEM
       | Some cap \<Rightarrow> utf16_store cap s [])"

section \<open>Conversion of names\<close>

text \<open>\<open>None\<close> is a null pointer for the input.\<close>

definition ntfs_ucstombs :: "(nat \<Rightarrow> bool) \<Rightarrow> nat option \<Rightarrow> ucs option \<Rightarrow> bytes result" where
  "ntfs_ucstombs mem outs ins =
     (case ins of None \<Rightarrow> Err EINVAL
      | Some ins \<Rightarrow> if outs = Some 0 then Err ENAMETOOLONG else ntfs_utf16_to_utf8 mem outs ins)"

definition ntfs_mbstoucs :: "(nat \<Rightarrow> bool) \<Rightarrow> nat option \<Rightarrow> bytes option \<Rightarrow> ucs result" where
  "ntfs_mbstoucs mem outs s = (case s of None \<Rightarrow> Err EINVAL | Some s \<Rightarrow> ntfs_utf8_to_utf16 mem outs s)"

text \<open>The empty name stands for \<open>AT_UNNAMED\<close>.\<close>

definition ntfs_str2ucs :: "(nat \<Rightarrow> bool) \<Rightarrow> bytes \<Rightarrow> ucs result" where
  "ntfs_str2ucs mem s =
     res_bind (ntfs_mbstoucs mem None (Some s)) (\<lambda>ucs. if NTFS_MAX_NAME_LEN < length ucs then Err ENAMETOOLONG else Ok ucs)"

section \<open>Forbidden names\<close>

definition mainset :: nat where
  "mainset = 2 ^ (0x22 - 0x20) OR 2 ^ (0x2a - 0x20) OR 2 ^ (0x2f - 0x20) OR 2 ^ (0x3a - 0x20) OR 2 ^ (0x3c - 0x20) OR
     2 ^ (0x3e - 0x20) OR 2 ^ (0x3f - 0x20)"

definition ntfs_forbidden_chars :: "ucs \<Rightarrow> bool \<Rightarrow> bool" where
  "ntfs_forbidden_chars name strict \<longleftrightarrow>
     name = [] \<or> (strict \<and> (last name = 0x20 \<or> last name = 0x2e)) \<or>
     list_ex (\<lambda>w. let ch = unat w
       in ch < 0x20 \<or> (ch < 0x40 \<and> 2 ^ (ch - 0x20) AND mainset \<noteq> 0) \<or> ch = 0x5c \<or> ch = 0x7c) name"

text \<open>\<open>name\<close> is one of the reserved words, alone or with a suffix: the third letter selects the word.\<close>

definition device_name :: "ucs \<Rightarrow> ucs \<Rightarrow> ucs \<Rightarrow> bool" where
  "device_name upcase name word \<longleftrightarrow>
     (length name = 3 \<or> name ! 3 = 0x2e) \<and> ntfs_ucsncasecmp upcase name word 3 = Ok 0"

definition port_name :: "ucs \<Rightarrow> ucs \<Rightarrow> ucs \<Rightarrow> bool" where
  "port_name upcase name word \<longleftrightarrow>
     3 < length name \<and> 0x31 \<le> name ! 3 \<and> name ! 3 \<le> 0x39 \<and> (length name = 4 \<or> name ! 4 = 0x2e) \<and>
     ntfs_ucsncasecmp upcase name word 3 = Ok 0"

definition word_con :: ucs where "word_con = [0x63, 0x6f, 0x6e]"
definition word_prn :: ucs where "word_prn = [0x70, 0x72, 0x6e]"
definition word_aux :: ucs where "word_aux = [0x61, 0x75, 0x78]"
definition word_nul :: ucs where "word_nul = [0x6e, 0x75, 0x6c]"
definition word_com :: ucs where "word_com = [0x63, 0x6f, 0x6d]"
definition word_lpt :: ucs where "word_lpt = [0x6c, 0x70, 0x74]"

lemmas word_defs = word_con_def word_prn_def word_aux_def word_nul_def word_com_def word_lpt_def

definition name_hash :: "ucs \<Rightarrow> nat" where
  "name_hash name = ((unat (name ! 0) AND 31) * 48) XOR ((unat (name ! 1) AND 31) * 165)"

definition ntfs_forbidden_names :: "ucs \<Rightarrow> ucs \<Rightarrow> bool \<Rightarrow> bool" where
  "ntfs_forbidden_names upcase name strict \<longleftrightarrow>
     ntfs_forbidden_chars name strict \<or>
     (3 \<le> length name \<and> name_hash name mod 23 = 17 \<and>
      (let c = name ! 2 AND NOT 0x20
       in if c = 0x4e then device_name upcase name word_con \<or> device_name upcase name word_prn
          else if c = 0x58 then device_name upcase name word_aux
          else if c = 0x4c then device_name upcase name word_nul
          else if c = 0x4d then port_name upcase name word_com
          else if c = 0x54 then port_name upcase name word_lpt
          else False))"

fun ntfs_collapsible_chars :: "ucs \<Rightarrow> ucs \<Rightarrow> ucs \<Rightarrow> bool" where
  "ntfs_collapsible_chars upcase (cs # shortname) (ch # longname) =
     (length shortname = length longname \<and>
      (if cs \<noteq> ch \<and> (length upcase \<le> unat ch \<or> length upcase \<le> unat cs \<or> upcase ! unat cs \<noteq> upcase ! unat ch)
       then False else ntfs_collapsible_chars upcase shortname longname))"
| "ntfs_collapsible_chars upcase shortname longname = (length shortname = length longname)"

end
