(* ===== verification/Unistr_Utf.thy ===== *)
theory Unistr_Utf
  imports Unistr
begin

text \<open>
  Single characters in UTF-8: the bits of the bytes, and that a unit stored in one, two or three
  bytes is decoded to itself.
\<close>

section \<open>Bits of bytes\<close>

lemma nat_and_mask:
  "x AND 0x3f = x mod 64" "x AND 0x1f = x mod 32" "x AND 0x0f = x mod 16" "x AND 7 = x mod 8" "x AND 3 = x mod 4"
  "x AND 63 = x mod 64" "x AND 15 = x mod 16" "x AND 0x3ff = x mod 1024" for x :: nat
proof -
  have m: "x AND mask n = x mod 2 ^ n" for n by (simp add: take_bit_eq_mask [symmetric] take_bit_eq_mod)
  show "x AND 0x3f = x mod 64" "x AND 0x1f = x mod 32" "x AND 0x0f = x mod 16" "x AND 7 = x mod 8" "x AND 3 = x mod 4"
    "x AND 63 = x mod 64" "x AND 15 = x mod 16" "x AND 0x3ff = x mod 1024"
    using m [of 6] m [of 5] m [of 4] m [of 3] m [of 2] m [of 10] by (simp_all add: mask_eq_exp_minus_1)
qed

lemma nat_or_add: "x < 2 ^ n \<Longrightarrow> a * 2 ^ n OR x = a * 2 ^ n + x" for x a :: nat
proof -
  assume x: "x < 2 ^ n"
  have "push_bit n a AND x = 0"
  proof -
    have "k < n" if "bit x k" for k
      using that take_bit_nat_eq_self [OF x] bit_take_bit_iff [of n x k] by auto
    then have "\<not> bit (push_bit n a AND x) k" for k
      by (metis bit_and_iff bit_push_bit_iff not_less)
    then show ?thesis by (intro bit_eqI) simp
  qed
  then have "push_bit n a + x = push_bit n a OR x" by (rule disjunctive_add_eq_or)
  then show ?thesis by (simp add: push_bit_eq_mult)
qed

lemma lead_or:
  "x < 64 \<Longrightarrow> 0x80 OR x = 0x80 + x" "x < 64 \<Longrightarrow> 0xc0 OR x = 0xc0 + x" "x < 32 \<Longrightarrow> 0xe0 OR x = 0xe0 + x" for x :: nat
  using nat_or_add [of x 6 2] nat_or_add [of x 6 3] nat_or_add [of x 5 7] by simp_all

lemma top_bits: "x AND 0xc0 = x div 64 mod 4 * 64" for x :: nat
proof -
  have "x AND push_bit 6 (mask 2) = push_bit 6 (take_bit 2 (drop_bit 6 x))"
    by (auto simp: bit_eq_iff bit_simps)
  then show ?thesis by (simp add: mask_eq_exp_minus_1 push_bit_eq_mult drop_bit_eq_div take_bit_eq_mod)
qed

lemma cont_byte: "x < 64 \<Longrightarrow> (0x80 + x) AND 0xc0 = 0x80" "x < 64 \<Longrightarrow> (0x80 + x) AND 0x3f = x" for x :: nat
  unfolding top_bits nat_and_mask by (simp_all add: div_add1_eq mod_add_eq [symmetric])

lemma str_at_Cons [simp]:
  "str_at (b # s) 0 = unat b" "str_at (b # s) (Suc i) = str_at s i"
  "str_at (b # s) (numeral k) = str_at s (pred_numeral k)"
  by (simp_all add: str_at_def numeral_eq_Suc)

lemma unat_u8_of_nat: "n < 256 \<Longrightarrow> unat (word_of_nat n :: u8) = n"
  by (simp add: unat_of_nat)

section \<open>One character\<close>

text \<open>The bytes as numbers.\<close>

lemma utf8_2_bytes:
  assumes "c < 0x800"
  shows "utf8_2 c = map word_of_nat [0xc0 + c div 64, 0x80 + c mod 64]"
proof -
  have "c div 64 < 64" using assms by (simp add: less_mult_imp_div_less)
  then show ?thesis using lead_or(2) [of "c div 64"] lead_or(1) [of "c mod 64"]
    by (simp add: utf8_2_def nat_and_mask(1) del: mod_div_trivial)
qed

lemma utf8_3_bytes:
  assumes "c < 0x10000"
  shows "utf8_3 c = map word_of_nat [0xe0 + c div 4096, 0x80 + c div 64 mod 64, 0x80 + c mod 64]"
proof -
  have "c div 4096 < 32" using assms by (simp add: less_mult_imp_div_less)
  then show ?thesis using lead_or(3) [of "c div 4096"] lead_or(1) [of "c mod 64"] lead_or(1) [of "c div 64 mod 64"]
    by (simp add: utf8_3_def nat_and_mask(1))
qed

lemma str_at_bytes:
  "\<forall>n \<in> set ns. n < 256 \<Longrightarrow> i < length ns \<Longrightarrow> str_at (map word_of_nat ns @ s) i = ns ! i"
  by (simp add: str_at_def nth_append unat_of_nat)

lemma utf8_1_decode:
  assumes "0 < c" and "c < 0x80"
  shows "utf8_to_unicode (word_of_nat c # s) = Ok (1, c)"
proof -
  have "str_at (word_of_nat c # s) 0 = c" using assms(2) by (simp add: unat_of_nat)
  with assms show ?thesis by (simp add: utf8_to_unicode_def Let_def)
qed

lemma utf8_2_decode:
  assumes "0x80 \<le> c" and "c < 0x800"
  shows "utf8_to_unicode (utf8_2 c @ s) = Ok (2, c)"
proof -
  let ?b0 = "0xc0 + c div 64" and ?b1 = "0x80 + c mod 64"
  have hi: "2 \<le> c div 64" "c div 64 < 32"
    using div_le_mono [OF assms(1), of 64] assms(2) by (simp_all add: less_mult_imp_div_less)
  have small: "\<forall>n \<in> set [?b0, ?b1]. n < 256" using hi by simp
  have at: "str_at (utf8_2 c @ s) 0 = ?b0" "str_at (utf8_2 c @ s) 1 = ?b1"
    using str_at_bytes [OF small, of 0 s] str_at_bytes [OF small, of 1 s]
    unfolding utf8_2_bytes [OF assms(2)] by simp_all
  have "?b0 mod 32 = c div 64" using hi(2) by (simp add: mod_add_eq [of "0xc0" 32, symmetric])
  moreover have "c div 64 * 64 OR c mod 64 = c" using nat_or_add [of "c mod 64" 6 "c div 64"] by simp
  ultimately have wc: "(?b0 AND 0x1f) * 64 OR (?b1 AND 0x3f) = c"
    unfolding nat_and_mask(2) using cont_byte(2) [of "c mod 64"] by simp
  have cond: "?b0 \<noteq> 0" "\<not> ?b0 < 0x80" "\<not> ?b0 < 0xc2" "?b0 < 0xe0" "?b1 AND 0xc0 = 0x80"
    using hi cont_byte(1) [of "c mod 64"] by simp_all
  show ?thesis unfolding utf8_to_unicode_def Let_def at wc by (simp only: cond if_True if_False simp_thms)
qed

lemma utf8_3_decode:
  assumes "0x800 \<le> c" and "c < 0x10000"
  shows "utf8_to_unicode (utf8_3 c @ s) = Ok (3, c)"
proof -
  let ?b0 = "0xe0 + c div 4096" and ?b1 = "0x80 + c div 64 mod 64" and ?b2 = "0x80 + c mod 64"
  have hi: "c div 4096 < 16" using assms(2) by (simp add: less_mult_imp_div_less)
  have b1: "c div 64 mod 64 < 64" by simp
  have small: "\<forall>n \<in> set [?b0, ?b1, ?b2]. n < 256" using hi b1 mod_less_divisor [of 64 c] by auto
  have at: "str_at (utf8_3 c @ s) 0 = ?b0" "str_at (utf8_3 c @ s) 1 = ?b1" "str_at (utf8_3 c @ s) 2 = ?b2"
    using str_at_bytes [OF small, of 0 s] str_at_bytes [OF small, of 1 s] str_at_bytes [OF small, of 2 s]
    unfolding utf8_3_bytes [OF assms(2)] by simp_all
  have b0: "?b0 mod 16 = c div 4096" using hi by (simp add: mod_add_eq [of "0xe0" 16, symmetric])
  have "c div 64 mod 64 * 64 + c mod 64 = c mod 4096" using mod_mult2_eq [of c 64 64] by simp
  then have "c div 64 mod 64 * 64 OR c mod 64 = c mod 4096"
    using nat_or_add [of "c mod 64" 6 "c div 64 mod 64"] by simp
  moreover have "c div 4096 * 4096 OR c mod 4096 = c"
    using nat_or_add [of "c mod 4096" 12 "c div 4096"] by simp
  ultimately have wc: "(?b0 AND 0x0f) * 4096 OR (?b1 AND 0x3f) * 64 OR (?b2 AND 0x3f) = c"
    unfolding nat_and_mask(3) b0 cont_byte(2) [OF b1] using cont_byte(2) [of "c mod 64"] by simp
  have cond: "?b0 \<noteq> 0" "\<not> ?b0 < 0x80" "\<not> ?b0 < 0xc2" "\<not> ?b0 < 0xe0" "?b0 < 0xf0"
    "?b1 AND 0xc0 = 0x80" "?b2 AND 0xc0 = 0x80" "0x800 \<le> c" "c \<le> 0xffff"
    using hi assms cont_byte(1) [OF b1] cont_byte(1) [of "c mod 64"] by simp_all
  show ?thesis unfolding utf8_to_unicode_def Let_def at wc by (simp only: cond if_True if_False simp_thms)
qed

end
