(* ===== verification/Unistr_Pair.thy ===== *)
theory Unistr_Pair
  imports Unistr_Utf
begin

text \<open>
  Surrogate pairs: the four bytes of a pair decode to its code point and back to its two units.
\<close>

section \<open>Surrogate pairs\<close>

lemma pair_numbers:
  fixes p c :: nat
  assumes "0xd800 \<le> p" and "p < 0xdc00" and "0xdc00 \<le> c" and "c < 0xe000"
  defines "h \<equiv> p - 0xd800" and "l \<equiv> c - 0xdc00"
  shows "(p + 64) div 256 mod 8 = (h + 64) div 256" and "(p + 64) div 4 mod 64 = (h + 64) div 4 mod 64"
    and "p mod 4 = (h + 64) mod 4" and "c div 64 mod 16 = l div 64" and "c mod 64 = l mod 64"
    and "h < 1024" and "l < 1024" and "p = h + 0xd800" and "c = l + 0xdc00"
proof -
  show h: "h < 1024" and l: "l < 1024" unfolding h_def l_def using assms(1-4) by simp_all
  show p: "p = h + 0xd800" and c: "c = l + 0xdc00" unfolding h_def l_def using assms(1-4) by simp_all
  have "(h + 0xd800 + 64) div 256 = (h + 64 + 216 * 256) div 256" by simp
  also have "\<dots> = (h + 64) div 256 + 216" by (subst div_mult_self1) simp_all
  finally have a: "(h + 0xd800 + 64) div 256 = (h + 64) div 256 + 216" .
  have "(h + 64) div 256 < 8" using h by (simp add: less_mult_imp_div_less)
  then show "(p + 64) div 256 mod 8 = (h + 64) div 256" unfolding p a using mod_mult_self1 [of "(h + 64) div 256" 27 8] by simp
  have "(h + 0xd800 + 64) div 4 = (h + 64 + 13824 * 4) div 4" by simp
  also have "\<dots> = (h + 64) div 4 + 216 * 64" by (subst div_mult_self1) simp_all
  finally show "(p + 64) div 4 mod 64 = (h + 64) div 4 mod 64" unfolding p by (simp only: mod_mult_self1)
  have "(h + 0xd800) mod 4 = (h + 13824 * 4) mod 4" "(h + 64) mod 4 = (h + 16 * 4) mod 4" by simp_all
  then show "p mod 4 = (h + 64) mod 4" unfolding p by (simp only: mod_mult_self1)
  have "(l + 0xdc00) div 64 = (l + 880 * 64) div 64" by simp
  also have "\<dots> = l div 64 + 55 * 16" by (subst div_mult_self1) simp_all
  finally have b: "(l + 0xdc00) div 64 = l div 64 + 55 * 16" .
  have "l div 64 < 16" using l by (simp add: less_mult_imp_div_less)
  then show "c div 64 mod 16 = l div 64" unfolding c b by (simp only: mod_mult_self1 mod_less)
  have "(l + 0xdc00) mod 64 = (l + 880 * 64) mod 64" by simp
  then show "c mod 64 = l mod 64" unfolding c by (simp only: mod_mult_self1)
qed

lemma utf8_pair_bytes:
  fixes p c :: nat
  assumes "0xd800 \<le> p" and "p < 0xdc00" and "0xdc00 \<le> c" and "c < 0xe000"
  defines "h \<equiv> p - 0xd800" and "l \<equiv> c - 0xdc00"
  shows "utf8_pair p c = map word_of_nat
    [0xf0 + (h + 64) div 256, 0x80 + (h + 64) div 4 mod 64, 0x80 + (l div 64 + (h + 64) mod 4 * 16), 0x80 + l mod 64]"
  unfolding utf8_pair_def nat_and_mask pair_numbers(1-5) [OF assms(1-4)] h_def l_def by (simp add: add.assoc)

lemma joined_pair:
  fixes h l :: nat
  assumes "h < 1024" and "l < 1024"
  shows "(h + 64) div 256 * 262144 OR (h + 64) div 4 mod 64 * 4096 OR (l div 64 + (h + 64) mod 4 * 16) * 64 OR l mod 64
     = 0x10000 + h * 1024 + l"
proof -
  let ?x = "h + 64"
  have a: "(l div 64 + ?x mod 4 * 16) * 64 OR l mod 64 = ?x mod 4 * 1024 + l"
    using nat_or_add [of "l mod 64" 6 "l div 64 + ?x mod 4 * 16"] by (simp add: algebra_simps)
  have "?x mod 4 * 1024 + l < 4096" using assms(2) mod_less_divisor [of 4 ?x] by linarith
  then have b: "?x div 4 mod 64 * 4096 OR (?x mod 4 * 1024 + l) = ?x div 4 mod 64 * 4096 + (?x mod 4 * 1024 + l)"
    using nat_or_add [of _ 12] by simp
  have m: "?x mod 256 * 1024 = ?x div 4 mod 64 * 4096 + ?x mod 4 * 1024" using mod_mult2_eq [of ?x 4 64] by simp
  have "?x mod 256 < 256" by simp
  then have "?x mod 256 * 1024 + l < 262144" using assms(2) by linarith
  then have "?x div 256 * 262144 OR (?x mod 256 * 1024 + l) = ?x div 256 * 262144 + (?x mod 256 * 1024 + l)"
    using nat_or_add [of _ 18] by simp
  also have "\<dots> = ?x * 1024 + l"
  proof -
    have "d * 262144 + (m * 1024 + l) = x * 1024 + l" if "d * 256 + m = x" for d m x using that by auto
    then show ?thesis using div_mult_mod_eq [of ?x 256] by blast
  qed
  finally have "?x div 256 * 262144 OR (?x div 4 mod 64 * 4096 + (?x mod 4 * 1024 + l)) = 0x10000 + (h * 1024 + l)"
    unfolding m by (simp add: add.assoc)
  then show ?thesis unfolding a b by (simp only: add.assoc)
qed

lemma cont_byte_mod: "x < 64 \<Longrightarrow> (0x80 + x) mod 64 = x" for x :: nat
  using mod_add_eq [of "0x80" 64 x] by simp

lemma four_bytes:
  assumes "b0 < 256" and "b1 < 256" and "b2 < 256" and "b3 < 256"
  shows "str_at (map word_of_nat [b0, b1, b2, b3] @ s) 0 = b0" "str_at (map word_of_nat [b0, b1, b2, b3] @ s) 1 = b1"
    "str_at (map word_of_nat [b0, b1, b2, b3] @ s) 2 = b2" "str_at (map word_of_nat [b0, b1, b2, b3] @ s) 3 = b3"
  using assms by (simp_all add: unat_of_nat)

lemma utf8_pair_decode:
  assumes "0xd800 \<le> p" and "p < 0xdc00" and "0xdc00 \<le> c" and "c < 0xe000"
  shows "utf8_to_unicode (utf8_pair p c @ s) = Ok (4, 0x10000 + (p - 0xd800) * 1024 + (c - 0xdc00))"
proof -
  define h l where "h = p - 0xd800" and "l = c - 0xdc00"
  have hl: "h < 1024" "l < 1024" using assms by (simp_all add: h_def l_def)
  let ?y0 = "(h + 64) div 256" and ?y1 = "(h + 64) div 4 mod 64" and ?y2 = "l div 64 + (h + 64) mod 4 * 16" and ?y3 = "l mod 64"
  let ?b0 = "0xf0 + ?y0" and ?b1 = "0x80 + ?y1" and ?b2 = "0x80 + ?y2" and ?b3 = "0x80 + ?y3"
  have y0: "?y0 \<le> 4" using less_mult_imp_div_less [of "h + 64" 5 256] hl(1) by simp
  have "l div 64 < 16" using hl(2) by (simp add: less_mult_imp_div_less)
  then have y: "?y1 < 64" "?y2 < 64" "?y3 < 64" using mod_less_divisor [of 4 "h + 64"] by (simp, linarith, simp)
  have "?b0 < 256" "?b1 < 256" "?b2 < 256" "?b3 < 256" using y0 y by linarith+
  then have at: "str_at (utf8_pair p c @ s) 0 = ?b0" "str_at (utf8_pair p c @ s) 1 = ?b1"
    "str_at (utf8_pair p c @ s) 2 = ?b2" "str_at (utf8_pair p c @ s) 3 = ?b3"
    unfolding utf8_pair_bytes [OF assms] h_def [symmetric] l_def [symmetric] by (rule four_bytes)+
  have b0: "?b0 mod 8 = ?y0" using y0 mod_add_eq [of "0xf0" 8 ?y0] by simp
  have wc: "(?b0 AND 0x07) * 262144 OR (?b1 AND 0x3f) * 4096 OR (?b2 AND 0x3f) * 64 OR (?b3 AND 0x3f)
      = 0x10000 + h * 1024 + l"
    unfolding nat_and_mask b0 cont_byte_mod [OF y(1)] cont_byte_mod [OF y(2)] cont_byte_mod [OF y(3)]
    by (rule joined_pair [OF hl])
  have cond: "?b0 \<noteq> 0" "\<not> ?b0 < 0x80" "\<not> ?b0 < 0xc2" "\<not> ?b0 < 0xe0" "\<not> ?b0 < 0xf0" "?b0 < 0xf5"
    "?b1 AND 0xc0 = 0x80" "?b2 AND 0xc0 = 0x80" "?b3 AND 0xc0 = 0x80"
    "0x10000 \<le> 0x10000 + h * 1024 + l" "0x10000 + h * 1024 + l \<le> 0x10ffff"
    using hl y0 cont_byte(1) [OF y(1)] cont_byte(1) [OF y(2)] cont_byte(1) [OF y(3)] by simp_all
  show ?thesis unfolding utf8_to_unicode_def Let_def at wc h_def [symmetric] l_def [symmetric]
    by (simp only: cond if_True if_False simp_thms)
qed

lemma utf8_pair_units:
  assumes "0xd800 \<le> p" and "p < 0xdc00" and "0xdc00 \<le> c" and "c < 0xe000"
  shows "utf16_units (0x10000 + (p - 0xd800) * 1024 + (c - 0xdc00)) = [word_of_nat p, word_of_nat c]"
proof -
  define h l where "h = p - 0xd800" and "l = c - 0xdc00"
  have l: "l < 1024" and p: "p = h + 0xd800" and c: "c = l + 0xdc00" using assms by (simp_all add: h_def l_def)
  have "(h * 1024 + l) div 1024 = h" "(h * 1024 + l) mod 1024 = l" using l by simp_all
  then show ?thesis unfolding h_def [symmetric] l_def [symmetric] by (simp add: utf16_units_def nat_and_mask p c add.commute)
qed

end
