(* ===== verification/Unistr_Codec.thy ===== *)
theory Unistr_Codec
  imports Unistr_Pair
begin

text \<open>
  The conversions of whole names: the computed sizes are exact or sufficient, and a name converted
  to UTF-8 comes back from there, unpaired surrogates included.
\<close>

section \<open>Sizes\<close>

lemma utf8_sizes [simp]: "length (utf8_2 c) = 2" "length (utf8_3 c) = 3" "length (utf8_pair p c) = 4"
  by (simp_all add: utf8_2_def utf8_3_def utf8_pair_def)

text \<open>The count is \<open>t\<close> if that is within the limit, and beyond the limit otherwise.\<close>

definition counted :: "nat \<Rightarrow> nat \<Rightarrow> bool \<times> nat \<Rightarrow> bool" where
  "counted m t r =
     (let n = (if fst r \<and> snd r \<le> m then snd r + 3 else snd r) in if t \<le> m then n = t else m < n)"

lemma utf8_count_counted:
  "surrog = (hp \<noteq> 0) \<Longrightarrow> counted m (count + length (utf8_store ins hp)) (utf8_count m ins surrog count)"
proof (induction m ins surrog count arbitrary: hp rule: utf8_count.induct)
  case (1 m surrog count)
  then show ?case by (simp add: counted_def)
next
  case (2 m w ins surrog count)
  consider "w = 0 \<or> m < count" | (low) "w \<noteq> 0" "count \<le> m" "surrog" "0xdc00 \<le> unat w" "unat w < 0xe000"
    | (single) "w \<noteq> 0" "count \<le> m" "surrog" "\<not> (0xdc00 \<le> unat w \<and> unat w < 0xe000)"
    | (plain) "w \<noteq> 0" "count \<le> m" "\<not> surrog" by linarith
  then show ?case
  proof cases
    case 1
    then show ?thesis using "2.prems" by (auto simp: counted_def Let_def)
  next
    case low
    then show ?thesis using "2.IH"(1) [OF refl, of 0] "2.prems" by (simp add: add.assoc)
  next
    case single
    have "utf8_count m (w # ins) surrog count = utf8_count m (w # ins) False (count + 3)"
      using single by (subst utf8_count.simps(2)) (auto simp: Let_def simp del: utf8_count.simps)
    moreover have "utf8_store (w # ins) hp = utf8_3 hp @ utf8_store (w # ins) 0"
      using single "2.prems" by (subst utf8_store.simps(2)) (auto simp: Let_def simp del: utf8_store.simps)
    moreover have "counted m (count + 3 + length (utf8_store (w # ins) 0)) (utf8_count m (w # ins) False (count + 3))"
      using single by (intro "2.IH"(2) [OF refl]) simp_all
    ultimately show ?thesis by (simp add: add.assoc del: utf8_count.simps utf8_store.simps)
  next
    case plain
    then have "counted m (count + 1 + length (utf8_store ins 0)) (utf8_count m ins False (count + 1))" if "unat w < 0x80"
      using that "2.IH"(3) [OF refl, of 0] by simp
    moreover have "counted m (count + 2 + length (utf8_store ins 0)) (utf8_count m ins False (count + 2))"
      if "\<not> unat w < 0x80" "unat w < 0x800"
      using that plain "2.IH"(4) [OF refl, of 0] by simp
    moreover have "counted m (count + 3 + length (utf8_store ins 0)) (utf8_count m ins False (count + 3))"
      if "\<not> unat w < 0x800" "unat w < 0xd800 \<or> \<not> unat w < 0xdc00"
      using that plain "2.IH"(5) [OF refl, of 0] "2.IH"(7) [OF refl, of 0] by auto
    moreover have "counted m (count + length (utf8_store ins (unat w))) (utf8_count m ins True count)"
      if "\<not> unat w < 0xd800" "unat w < 0xdc00"
      using that plain "2.IH"(6) [OF refl, of "unat w"] by simp
    ultimately show ?thesis using plain "2.prems" by (simp add: Let_def add.assoc)
  qed
qed

lemma utf16_to_utf8_size_exact:
  "utf16_to_utf8_size ins m =
     (if length (utf8_store ins 0) \<le> m then Ok (length (utf8_store ins 0)) else Err ENAMETOOLONG)"
  using utf8_count_counted [of False 0 m 0 ins]
  by (auto simp: utf16_to_utf8_size_def counted_def Let_def split: prod.splits if_splits)

text \<open>(C37) The size computed before a name is converted to UTF-8 is exact: the unchecked stores
  never leave the buffer, allocated or given, and the conversion fails with \<open>ENAMETOOLONG\<close> exactly
  when bytes and terminator do not fit.\<close>

theorem utf16_to_utf8_exact:
  "ntfs_utf16_to_utf8 mem outs ins =
     (let n = length (utf8_store ins 0)
      in if (case outs of None \<Rightarrow> PATH_MAX | Some k \<Rightarrow> k) \<le> n then Err ENAMETOOLONG
         else if outs = None \<and> \<not> mem (n + 1) then Err ENOMEM
         else Ok (utf8_store ins 0))"
  by (cases outs) (auto simp: ntfs_utf16_to_utf8_def utf16_to_utf8_size_exact Let_def PATH_MAX_def)

section \<open>Counting and decoding advance together\<close>

lemma or_less: "x < 2 ^ n \<Longrightarrow> y < 2 ^ n \<Longrightarrow> x OR y < 2 ^ n" for x y :: nat
  by (metis take_bit_nat_eq_self take_bit_nat_less_exp take_bit_or)

lemma length_utf16_units: "length (utf16_units wc) = (if wc < 0x10000 then 1 else 2)"
  by (simp add: utf16_units_def)

lemma continuation_nonzero: "x AND 0xc0 = 0x80 \<Longrightarrow> x \<noteq> 0" for x :: nat
  by (rule notI) simp

lemma utf16_count_nil: "str_at s 0 = 0 \<Longrightarrow> utf16_count s k = Ok k"
  by (subst utf16_count.simps) simp

lemma str_at_drop: "str_at (drop m s) i = str_at s (m + i)"
  by (auto simp: str_at_def)

lemma two_byte_small: "(b AND 0x1f) * 64 OR (x AND 0x3f) < 0x10000" for b x :: nat
  using or_less [of "(b AND 0x1f) * 64" 16 "x AND 0x3f"] mod_less_divisor [of 32 b] mod_less_divisor [of 64 x]
  by (simp add: nat_and_mask)

lemma units_le_bytes:
  assumes "utf8_to_unicode s = Ok (m, wc)" and "m \<noteq> 0"
  shows "length (utf16_units wc) \<le> m"
proof (cases "wc < 0x10000")
  case False
  have "m = 3 \<or> m = 4" using assms False two_byte_small [of "str_at s 0" "str_at s 1"]
    unfolding utf8_to_unicode_def Let_def by (force split: if_splits)
  then show ?thesis by (auto simp: length_utf16_units)
qed (use assms(2) in \<open>simp add: length_utf16_units\<close>)

lemma utf16_count_step:
  assumes "utf8_to_unicode s = Ok (m, wc)" and "m \<noteq> 0"
  shows "utf16_count s k =
    (if PATH_MAX \<le> k + length (utf16_units wc) then Err ENAMETOOLONG
     else utf16_count (drop m s) (k + length (utf16_units wc)))"
proof -
  let ?b = "str_at s 0"
  consider (1) "m = 1" "wc = ?b" "?b \<noteq> 0" "?b < 0x80"
    | (2) "m = 2" "wc < 0x10000" "0xc2 \<le> ?b" "?b < 0xe0" "str_at s 1 \<noteq> 0"
    | (3) "m = 3" "wc < 0x10000" "0xe0 \<le> ?b" "?b < 0xf0" "str_at s 1 \<noteq> 0" "str_at s 2 \<noteq> 0"
    | (4) "m = 4" "0x10000 \<le> wc" "0xf0 \<le> ?b" "?b < 0xf5" "str_at s 1 \<noteq> 0" "str_at s 2 \<noteq> 0" "str_at s 3 \<noteq> 0"
    using assms two_byte_small [of ?b "str_at s 1"] unfolding utf8_to_unicode_def Let_def
    by (force dest: continuation_nonzero split: if_splits)
  then show ?thesis
  proof cases
    case 1
    then show ?thesis by (subst utf16_count.simps) (simp add: length_utf16_units Let_def)
  next
    case 2
    then show ?thesis using utf16_count_nil [of "drop 2 s" "k + 1"]
      by (subst utf16_count.simps) (simp add: length_utf16_units str_at_drop Let_def)
  next
    case 3
    then show ?thesis using utf16_count_nil [of "drop 3 s" "k + 1"]
      by (subst utf16_count.simps) (simp add: length_utf16_units str_at_drop Let_def)
  next
    case 4
    then show ?thesis by (subst utf16_count.simps) (simp add: length_utf16_units Let_def)
  qed
qed

lemma utf16_count_mono: "utf16_count s k = Ok n \<Longrightarrow> k \<le> n"
proof (induction s k rule: utf16_count.induct)
  case (1 s k)
  note IH = "1.IH" [OF refl]
  show ?case
  proof (rule ccontr)
    assume "\<not> k \<le> n"
    then have n: "\<not> k + 1 \<le> n" "\<not> k + 2 \<le> n" "k \<noteq> n" "k + 1 \<noteq> n" by simp_all
    show False using "1.prems" IH n unfolding utf16_count.simps [of s k] Let_def
      by (simp split: if_split_asm)
  qed
qed

lemma utf16_store_no_fault:
  "utf16_count s (length out) = Ok n \<Longrightarrow> cap = n + 1 \<Longrightarrow> utf16_store cap s out \<noteq> Fault"
proof (induction cap s out rule: utf16_store.induct)
  case (1 cap s out)
  show ?case
  proof (cases "utf8_to_unicode s")
    case (Ok q)
    obtain m wc where q: "q = (m, wc)" by (cases q)
    show ?thesis
    proof (cases "m = 0")
      case True
      then show ?thesis using 1(2,3) utf16_count_mono [OF 1(2)] by (subst utf16_store.simps) (simp add: Ok q)
    next
      case False
      have c: "utf16_count (drop m s) (length (out @ utf16_units wc)) = Ok n"
        using utf16_count_step [OF Ok [unfolded q] False, of "length out"] 1(2) by (simp split: if_splits)
      moreover have fits: "\<not> cap < length out + length (utf16_units wc)" using utf16_count_mono [OF c] 1(3) by simp
      ultimately have "utf16_store cap (drop m s) (out @ utf16_units wc) \<noteq> Fault"
        using 1(1) [OF Ok [unfolded q] refl False fits] 1(3) by simp
      then show ?thesis using False fits by (subst utf16_store.simps) (simp add: Ok q)
    qed
  qed (simp_all add: utf16_store.simps [of cap s out] utf8_to_unicode_def Let_def split: if_splits)
qed

text \<open>On arbitrary bytes the conversion from UTF-8 into the buffer it allocates never leaves that
  buffer: the units counted first suffice for the units stored and the terminator.\<close>

theorem utf8_to_utf16_stays_inside: "ntfs_utf8_to_utf16 mem None s \<noteq> Fault"
proof (cases "utf16_count s 0")
  case (Ok n)
  then show ?thesis using utf16_store_no_fault [of s "[]" n "n + 1"] by (simp add: ntfs_utf8_to_utf16_def)
next
  case Fault
  have "utf16_count s k \<noteq> Fault" for s k
    by (induction s k rule: utf16_count.induct) (subst utf16_count.simps, simp add: Let_def)
  then show ?thesis using Fault by simp
qed (simp add: ntfs_utf8_to_utf16_def)

section \<open>Names come back\<close>

text \<open>The units a pending first half and the rest of a name stand for.\<close>

abbreviation surrogate :: "nat \<Rightarrow> bool" where "surrogate hp \<equiv> 0xd800 \<le> hp \<and> hp < 0xdc00"

definition pending_units :: "ucs \<Rightarrow> nat \<Rightarrow> ucs" where
  "pending_units ins hp = (if hp = 0 then [] else [word_of_nat hp]) @ takeWhile (\<lambda>w. w \<noteq> 0) ins"

inductive encodes :: "bytes \<Rightarrow> ucs \<Rightarrow> bool" where
  encodes_nil: "encodes [] []"
| encodes_step: "(\<And>s. utf8_to_unicode (b @ s) = Ok (length b, wc)) \<Longrightarrow> b \<noteq> [] \<Longrightarrow> encodes s us \<Longrightarrow>
    encodes (b @ s) (utf16_units wc @ us)"

lemma encodes_unit:
  assumes "0 < c" and "c < 0x10000" and "encodes s us" and "b = (if c < 0x80 then [word_of_nat c] else if c < 0x800 then utf8_2 c else utf8_3 c)"
  shows "encodes (b @ s) (word_of_nat c # us)"
proof -
  have "utf8_to_unicode (b @ s) = Ok (length b, c)" for s
    using assms utf8_1_decode [of c s] utf8_2_decode [of c s] utf8_3_decode [of c s] by simp
  moreover have "b \<noteq> []" using assms(4) utf8_sizes(1,2) [of c] by (metis length_0_conv list.discI zero_neq_numeral)
  ultimately show ?thesis using encodes_step [of b c s us] assms(2,3) by (simp add: utf16_units_def)
qed

lemma encodes_pair:
  assumes "surrogate p" and "0xdc00 \<le> c" and "c < 0xe000" and "encodes s us"
  shows "encodes (utf8_pair p c @ s) (word_of_nat p # word_of_nat c # us)"
  using encodes_step [of "utf8_pair p c" "0x10000 + (p - 0xd800) * 1024 + (c - 0xdc00)" s us] assms
    utf8_pair_decode [of p c] utf8_pair_units [of p c] utf8_sizes(3) [of p c] by (metis append_Cons append_Nil list.size(3) zero_neq_numeral)

lemma utf8_store_encodes: "hp = 0 \<or> surrogate hp \<Longrightarrow> encodes (utf8_store ins hp) (pending_units ins hp)"
proof (induction ins hp rule: utf8_store.induct)
  case (1 hp)
  then show ?case using encodes_unit [OF _ _ encodes_nil, of hp] by (auto simp: pending_units_def encodes_nil)
next
  case (2 w ins hp)
  have w: "w = word_of_nat (unat w)" "unat w < 0x10000" using unsigned_less [of w, where 'a = nat] by simp_all
  consider (stop) "w = 0" | (low) "w \<noteq> 0" "hp \<noteq> 0" "0xdc00 \<le> unat w" "unat w < 0xe000"
    | (lone) "w \<noteq> 0" "hp \<noteq> 0" "\<not> (0xdc00 \<le> unat w \<and> unat w < 0xe000)" | (first) "w \<noteq> 0" "hp = 0" "surrogate (unat w)"
    | (plain) "w \<noteq> 0" "hp = 0" "\<not> surrogate (unat w)" by blast
  then show ?case
  proof cases
    case stop
    then show ?thesis using "2.prems" encodes_unit [OF _ _ encodes_nil, of hp] by (auto simp: pending_units_def encodes_nil)
  next
    case low
    have "encodes (utf8_store ins 0) (pending_units ins 0)" using low "2.IH"(1) [OF refl] by simp
    then show ?thesis
      using low "2.prems" encodes_pair [of hp "unat w" "utf8_store ins 0" "pending_units ins 0"]
      by (simp add: Let_def pending_units_def)
  next
    case lone
    have "utf8_store (w # ins) hp = utf8_3 hp @ utf8_store (w # ins) 0"
      using lone by (subst utf8_store.simps(2)) (auto simp: Let_def simp del: utf8_store.simps)
    moreover have "encodes (utf8_store (w # ins) 0) (pending_units (w # ins) 0)" using lone by (intro "2.IH"(2) [OF refl]) auto
    ultimately show ?thesis
      using lone(2) "2.prems" encodes_unit [of hp "utf8_store (w # ins) 0" "pending_units (w # ins) 0" "utf8_3 hp"]
      by (simp add: pending_units_def del: utf8_store.simps)
  next
    case first
    have "encodes (utf8_store ins (unat w)) (pending_units ins (unat w))" using first "2.IH"(6) [OF refl] by simp
    then show ?thesis using first by (auto simp: Let_def pending_units_def)
  next
    case plain
    let ?b = "if unat w < 0x80 then [word_of_nat (unat w)] else if unat w < 0x800 then utf8_2 (unat w) else utf8_3 (unat w)"
    have "0 < unat w" using plain(1) by (simp add: unat_gt_0)
    moreover have "utf8_store (w # ins) hp = ?b @ utf8_store ins 0" using plain by (simp add: Let_def)
    moreover have "encodes (utf8_store ins 0) (pending_units ins 0)"
    proof -
      consider "unat w < 0x80" | "\<not> unat w < 0x80" "unat w < 0x800" | "\<not> unat w < 0x800" "unat w < 0xd800"
        | "\<not> unat w < 0xdc00" using plain(3) by linarith
      then show ?thesis
      proof cases
        case 1
        then show ?thesis using "2.IH"(3) [OF refl] plain by simp
      next
        case 2
        then show ?thesis using "2.IH"(4) [OF refl] plain by simp
      next
        case 3
        then show ?thesis using "2.IH"(5) [OF refl] plain by simp
      next
        case 4
        then show ?thesis using "2.IH"(7) [OF refl] plain by simp
      qed
    qed
    ultimately show ?thesis
      using encodes_unit [OF _ w(2), of "utf8_store ins 0" "pending_units ins 0" ?b] plain(1,2) by (simp add: pending_units_def)
  qed
qed

lemma encodes_store:
  "encodes s us \<Longrightarrow> utf16_store cap s out = (if cap < length out + length us + 1 then Fault else Ok (out @ us))"
proof (induction arbitrary: out rule: encodes.induct)
  case encodes_nil
  then show ?case by (subst utf16_store.simps) (simp add: utf8_to_unicode_def str_at_def)
next
  case (encodes_step b wc s us)
  then show ?case by (subst utf16_store.simps) (simp add: add.assoc)
qed

lemma encodes_count:
  "encodes s us \<Longrightarrow> k + length us < PATH_MAX \<Longrightarrow> utf16_count s k = Ok (k + length us)"
proof (induction arbitrary: k rule: encodes.induct)
  case encodes_nil
  then show ?case by (simp add: utf16_count_nil str_at_def)
next
  case (encodes_step b wc s us)
  then show ?case using utf16_count_step [OF encodes_step.hyps(1) [of s], of k] by (simp add: add.assoc)
qed

lemma encodes_shorter: "encodes s us \<Longrightarrow> length us \<le> length s"
proof (induction rule: encodes.induct)
  case (encodes_step b wc s us)
  have "length (utf16_units wc) \<le> length b" using units_le_bytes [OF encodes_step.hyps(1)] encodes_step.hyps(2) by simp
  then show ?case using encodes_step.IH by simp
qed simp

text \<open>(C36) A name, unpaired surrogates included, that is converted to UTF-8 is converted back to itself,
  up to its first zero unit.\<close>

theorem utf8_name_roundtrip:
  assumes "ntfs_utf16_to_utf8 (\<lambda>_. True) None ins = Ok s"
  shows "ntfs_utf8_to_utf16 (\<lambda>_. True) None s = Ok (takeWhile (\<lambda>w. w \<noteq> 0) ins)"
proof -
  let ?us = "takeWhile (\<lambda>w. w \<noteq> 0) ins"
  have s: "s = utf8_store ins 0" "length s < PATH_MAX" using assms by (auto simp: utf16_to_utf8_exact Let_def split: if_splits)
  then have e: "encodes s ?us" using utf8_store_encodes [of 0 ins] by (simp add: pending_units_def)
  have "utf16_count s 0 = Ok (length ?us)" using encodes_count [OF e, of 0] encodes_shorter [OF e] s(2) by simp
  then show ?thesis using encodes_store [OF e, of "length ?us + 1" "[]"] by (simp add: ntfs_utf8_to_utf16_def)
qed

theorem utf8_name_roundtrip_witness:
  "ntfs_utf8_to_utf16 (\<lambda>_. True) None [0x41, 0xf0, 0x9f, 0x98, 0x80, 0xed, 0xb0, 0x80]
     = Ok [0x41, 0xd83d, 0xde00, 0xdc00]"
proof -
  have "utf8_store [0x41, 0xd83d, 0xde00, 0xdc00] 0 = [0x41, 0xf0, 0x9f, 0x98, 0x80, 0xed, 0xb0, 0x80]"
    by (simp add: utf8_pair_def utf8_3_def)
  then have "ntfs_utf16_to_utf8 (\<lambda>_. True) None [0x41, 0xd83d, 0xde00, 0xdc00]
     = Ok [0x41, 0xf0, 0x9f, 0x98, 0x80, 0xed, 0xb0, 0x80]"
    by (simp only: ntfs_utf16_to_utf8_def utf16_to_utf8_size_exact PATH_MAX_def option.case) simp
  from utf8_name_roundtrip [OF this] show ?thesis by simp
qed

end
