(* ===== verification/Collate.thy ===== *)
theory Collate
  imports Unistr
begin

text \<open>
  The orders of index entries (\<open>libntfs-3g/collate.c\<close>). A key is the memory from its pointer
  on, together with the length passed with it; a read behind that memory is a fault. Only the sign
  of the result of \<open>memcmp\<close> is documented, so that function of the C library is a parameter.
\<close>

section \<open>The code\<close>

definition NTFS_COLLATION_ERROR :: int where "NTFS_COLLATION_ERROR = -2"

type_synonym collate = "bytes \<Rightarrow> nat \<Rightarrow> bytes \<Rightarrow> nat \<Rightarrow> int result"

definition ntfs_collate_binary :: "(bytes \<Rightarrow> bytes \<Rightarrow> int) \<Rightarrow> collate" where
  "ntfs_collate_binary memcmp data1 data1_len data2 data2_len =
     (let n = min data1_len data2_len
      in if length data1 < n \<or> length data2 < n then Fault
         else let rc = memcmp (take n data1) (take n data2)
              in Ok (if rc = 0 \<and> data1_len \<noteq> data2_len then (if data1_len < data2_len then -1 else 1) else rc))"

definition ntfs_collate_ntofs_ulong :: collate where
  "ntfs_collate_ntofs_ulong data1 data1_len data2 data2_len =
     (if data1_len \<noteq> data2_len \<or> data1_len \<noteq> 4 then Ok NTFS_COLLATION_ERROR
      else if length data1 < 4 \<or> length data2 < 4 then Fault
      else let d1 = le_at 4 data1 0; d2 = le_at 4 data2 0
           in Ok (if d1 < d2 then -1 else if d1 = d2 then 0 else 1))"

text \<open>The loop of \<open>ntfs_collate_ntofs_ulongs\<close>, \<open>len\<close> bytes from the end.\<close>

function ulongs_loop :: "bytes \<Rightarrow> bytes \<Rightarrow> nat \<Rightarrow> int result" where
  "ulongs_loop data1 data2 len =
     (if length data1 < 4 \<or> length data2 < 4 then Fault
      else let d1 = le_at 4 data1 0; d2 = le_at 4 data2 0
           in if d1 = d2 \<and> 4 < len then ulongs_loop (drop 4 data1) (drop 4 data2) (len - 4)
              else Ok (if d1 < d2 then -1 else if d1 = d2 then 0 else 1))"
  by pat_completeness auto
termination by (relation "measure (\<lambda>(data1, data2, len). len)") auto

declare ulongs_loop.simps [simp del]

definition ntfs_collate_ntofs_ulongs :: collate where
  "ntfs_collate_ntofs_ulongs data1 data1_len data2 data2_len =
     (if data1_len \<noteq> data2_len \<or> data1_len = 0 \<or> data1_len mod 4 \<noteq> 0 then Ok NTFS_COLLATION_ERROR
      else ulongs_loop data1 data2 data1_len)"

definition ntfs_collate_ntofs_security_hash :: collate where
  "ntfs_collate_ntofs_security_hash data1 data1_len data2 data2_len =
     (if data1_len \<noteq> data2_len \<or> data1_len \<noteq> 8 then Ok NTFS_COLLATION_ERROR
      else if length data1 < 8 \<or> length data2 < 8 then Fault
      else let d1 = le_at 4 data1 0; d2 = le_at 4 data2 0; e1 = le_at 4 data1 4; e2 = le_at 4 data2 4
           in Ok (if d1 < d2 then -1 else if d2 < d1 then 1
                  else if e1 < e2 then -1 else if e2 < e1 then 1 else 0))"

text \<open>The name in a \<open>FILE_NAME_ATTR\<close>: its length at 0x40, its units from 0x42 on.\<close>

definition file_name_at :: "bytes \<Rightarrow> ucs result" where
  "file_name_at data =
     (if length data < 0x41 then Fault
      else let n = unat (byte_at data 0x40)
           in if length data < 0x42 + 2 * n then Fault
              else Ok (map (\<lambda>i. word_of_nat (le_at 2 data (0x42 + 2 * i))) [0..<n]))"

definition ntfs_collate_file_name :: "ucs \<Rightarrow> collate" where
  "ntfs_collate_file_name upcase data1 data1_len data2 data2_len =
     res_bind (file_name_at data1) (\<lambda>name1.
     res_bind (file_name_at data2) (\<lambda>name2. Ok (ntfs_names_full_collate True upcase name1 name2)))"

text \<open>The rule is the number stored in the index root.\<close>

definition ntfs_get_collate_function :: "(bytes \<Rightarrow> bytes \<Rightarrow> int) \<Rightarrow> ucs \<Rightarrow> nat \<Rightarrow> collate result" where
  "ntfs_get_collate_function memcmp upcase cr =
     (if cr = 0 then Ok (ntfs_collate_binary memcmp)
      else if cr = 1 then Ok (ntfs_collate_file_name upcase)
      else if cr = 18 then Ok ntfs_collate_ntofs_security_hash
      else if cr = 16 then Ok ntfs_collate_ntofs_ulong
      else if cr = 19 then Ok ntfs_collate_ntofs_ulongs
      else Err EOPNOTSUPP)"

section \<open>Lexicographic comparison\<close>

fun list_cmp :: "'a :: linorder list \<Rightarrow> 'a list \<Rightarrow> int" where
  "list_cmp [] [] = 0"
| "list_cmp [] (b # ys) = -1"
| "list_cmp (a # xs) [] = 1"
| "list_cmp (a # xs) (b # ys) = (if a < b then -1 else if b < a then 1 else list_cmp xs ys)"

lemma list_cmp_eq_0 [simp]: "list_cmp xs ys = 0 \<longleftrightarrow> xs = ys"
  by (induction xs ys rule: list_cmp.induct) auto

lemma list_cmp_flip: "list_cmp ys xs = - list_cmp xs ys"
  by (induction xs ys rule: list_cmp.induct) auto

lemma list_cmp_range: "list_cmp xs ys \<in> {-1, 0, 1}"
  by (induction xs ys rule: list_cmp.induct) auto

lemma list_cmp_trans: "list_cmp xs ys = -1 \<Longrightarrow> list_cmp ys zs = -1 \<Longrightarrow> list_cmp xs zs = -1"
proof (induction xs zs arbitrary: ys rule: list_cmp.induct)
  case (1 ys)
  then show ?case by (cases ys) auto
next
  case (3 a xs)
  then show ?case by (cases ys) auto
next
  case (4 a xs b zs)
  then show ?case by (cases ys) (auto split: if_splits)
qed simp

lemma list_cmp_append [simp]: "list_cmp (ps @ xs) (ps @ ys) = list_cmp xs ys"
  by (induction ps) auto

section \<open>Names\<close>

lemma skip_upper_cmp:
  assumes "n1 \<noteq> []" and "n2 \<noteq> []"
  shows "case skip_upper upcase (min (length n1) (length n2)) n1 n2 of (u1, u2) \<Rightarrow>
    list_cmp (map (upper upcase) n1) (map (upper upcase) n2) =
      (if u1 < u2 then -1 else if u2 < u1 then 1
       else if length n1 < length n2 then -1 else if length n2 < length n1 then 1 else 0)"
  using assms
proof (induction n1 arbitrary: n2)
  case (Cons a n1)
  obtain b n2' where n2: "n2 = b # n2'" using Cons.prems(2) by (cases n2) auto
  show ?case
  proof (cases "n1 = [] \<or> n2' = []")
    case True
    then show ?thesis by (cases n1; cases n2') (auto simp: n2 Let_def)
  next
    case False
    then show ?thesis using Cons.IH [of n2'] by (auto simp: n2 Let_def split: prod.splits if_splits)
  qed
qed simp

lemma skip_equal_split:
  assumes "n1 \<noteq> []" and "n2 \<noteq> []"
  obtains ps m1 m2 where "skip_equal (min (length n1) (length n2)) n1 n2 = (min (length m1) (length m2) - 1, m1, m2)"
    and "n1 = ps @ m1" and "n2 = ps @ m2" and "m1 \<noteq> []" and "m2 \<noteq> []"
    and "min (length m1) (length m2) = 1 \<or> hd m1 \<noteq> hd m2"
proof -
  have "\<exists>ps m1 m2. skip_equal (min (length n1) (length n2)) n1 n2 = (min (length m1) (length m2) - 1, m1, m2) \<and>
    n1 = ps @ m1 \<and> n2 = ps @ m2 \<and> m1 \<noteq> [] \<and> m2 \<noteq> [] \<and> (min (length m1) (length m2) = 1 \<or> hd m1 \<noteq> hd m2)"
    using assms
  proof (induction n1 arbitrary: n2)
    case (Cons a n1)
    obtain b n2' where n2: "n2 = b # n2'" using Cons.prems(2) by (cases n2) auto
    show ?case
    proof (cases "n1 \<noteq> [] \<and> n2' \<noteq> [] \<and> a = b")
      case True
      then obtain ps m1 m2 where r: "skip_equal (min (length n1) (length n2')) n1 n2' = (min (length m1) (length m2) - 1, m1, m2)"
        "n1 = ps @ m1" "n2' = ps @ m2" "m1 \<noteq> []" "m2 \<noteq> []" "min (length m1) (length m2) = 1 \<or> hd m1 \<noteq> hd m2"
        using Cons.IH [of n2'] by blast
      have "min (length (a # n1)) (length n2) - 1 = min (length n1) (length n2')" by (simp add: n2)
      then show ?thesis using True r by (intro exI [of _ "a # ps"] exI [of _ m1] exI [of _ m2]) (simp add: n2)
    next
      case False
      then show ?thesis by (intro exI [of _ "[]"] exI [of _ "a # n1"] exI [of _ n2]) (auto simp: n2)
    qed
  qed simp
  then show ?thesis using that by blast
qed

lemma full_collate_spec:
  "ntfs_names_full_collate case_sensitive upcase name1 name2 =
     (let r = list_cmp (ntfs_name_upcase upcase name1) (ntfs_name_upcase upcase name2)
      in if r \<noteq> 0 then r else if case_sensitive then list_cmp name1 name2 else 0)"
proof (cases "name1 = [] \<or> name2 = []")
  case True
  then show ?thesis by (cases name1; cases name2) (simp_all add: ntfs_names_full_collate_def ntfs_name_upcase_def)
next
  case False
  then have ne: "name1 \<noteq> []" "name2 \<noteq> []" by simp_all
  show ?thesis
  proof (cases case_sensitive)
    case False
    obtain u1 u2 where u: "skip_upper upcase (min (length name1) (length name2)) name1 name2 = (u1, u2)" by fastforce
    have "min (length name1) (length name2) \<noteq> 0" using ne by simp
    then show ?thesis using False skip_upper_cmp [OF ne, of upcase]
      by (simp add: ntfs_names_full_collate_def ntfs_name_upcase_def u Let_def)
  next
    case True
    obtain ps m1 m2 where s: "skip_equal (min (length name1) (length name2)) name1 name2 = (min (length m1) (length m2) - 1, m1, m2)"
      and n: "name1 = ps @ m1" "name2 = ps @ m2" and m: "m1 \<noteq> []" "m2 \<noteq> []"
      and stop: "min (length m1) (length m2) = 1 \<or> hd m1 \<noteq> hd m2" using skip_equal_split [OF ne] by metis
    obtain c1 t1 c2 t2 where c: "m1 = c1 # t1" "m2 = c2 # t2" using m by (metis list.exhaust)
    obtain u1 u2 where u: "skip_upper upcase (min (length m1) (length m2)) m1 m2 = (u1, u2)" by fastforce
    have us: "(if upper upcase c1 = upper upcase c2 \<and> min (length m1) (length m2) - 1 \<noteq> 0
        then skip_upper upcase (min (length m1) (length m2) - 1) t1 t2 else (upper upcase c1, upper upcase c2)) = (u1, u2)"
      using u unfolding c by (auto simp: Let_def split: if_splits)
    have up: "list_cmp (ntfs_name_upcase upcase name1) (ntfs_name_upcase upcase name2) =
      (if u1 < u2 then -1 else if u2 < u1 then 1
       else if length name1 < length name2 then -1 else if length name2 < length name1 then 1 else 0)"
      using skip_upper_cmp [OF m, of upcase] by (simp add: u n ntfs_name_upcase_def)
    have last: "list_cmp name1 name2 = (if c1 < c2 then -1 else if c2 < c1 then 1 else 0)"
      if "length name1 = length name2" using that stop by (auto simp: n c)
    have "(min (length name1) (length name2) = 0) = False" using ne by simp
    moreover have "hd m1 = c1" "hd m2 = c2" "tl m1 = t1" "tl m2 = t2" by (simp_all add: c)
    ultimately have "ntfs_names_full_collate True upcase name1 name2 =
      (if u1 < u2 then -1 else if u2 < u1 then 1
       else if length name1 < length name2 then -1 else if length name2 < length name1 then 1
       else if c1 < c2 then -1 else if c2 < c1 then 1 else 0)"
      by (simp only: ntfs_names_full_collate_def Let_def s prod.case us if_True if_False) simp
    then show ?thesis using True last by (simp add: up Let_def)
  qed
qed

text \<open>(C38) The single pass over two names is the order by the upper-cased names and, for equal ones when
  case matters, by the names themselves. It is total: exchanging the names negates the result, and
  two names meet only if they are equal (in upper case where case does not matter).\<close>

theorem full_collate_order:
  "ntfs_names_full_collate cs upcase name1 name2 =
     (let r = list_cmp (ntfs_name_upcase upcase name1) (ntfs_name_upcase upcase name2)
      in if r \<noteq> 0 then r else if cs then list_cmp name1 name2 else 0) \<and>
   ntfs_names_full_collate cs upcase name2 name1 = - ntfs_names_full_collate cs upcase name1 name2 \<and>
   (ntfs_names_full_collate cs upcase name1 name2 = 0) =
     (if cs then name1 = name2 else ntfs_name_upcase upcase name1 = ntfs_name_upcase upcase name2)"
  unfolding full_collate_spec Let_def list_cmp_flip [of name2 name1]
    list_cmp_flip [of "ntfs_name_upcase upcase name2" "ntfs_name_upcase upcase name1"]
  by auto

end
