(* ===== verification/Index_Node.thy ===== *)
theory Index_Node
  imports Collate
begin

text \<open>
  Nodes of an index (\<open>libntfs-3g/index.c\<close>, \<open>layout.h\<close>): the entries behind an
  \<open>INDEX_HEADER\<close>, in the value of an index root or in an index block. A node is the memory from its
  header on, a pointer to an entry is its distance from the header; an access behind the memory is a
  fault. An index block is the memory of the whole block.
\<close>

unbundle bit_operations_syntax

section \<open>Fields\<close>

definition INDEX_ENTRY_NODE :: nat where "INDEX_ENTRY_NODE = 1"
definition INDEX_ENTRY_END :: nat where "INDEX_ENTRY_END = 2"
definition LARGE_INDEX :: nat where "LARGE_INDEX = 1"
definition NODE_MASK :: nat where "NODE_MASK = 1"
definition sizeof_INDEX_ENTRY_HEADER :: nat where "sizeof_INDEX_ENTRY_HEADER = 16"
definition sizeof_INDEX_BLOCK :: nat where "sizeof_INDEX_BLOCK = 40"
definition INDEX_BLOCK_index :: nat where "INDEX_BLOCK_index = 24"

lemmas index_sizes = INDEX_ENTRY_NODE_def INDEX_ENTRY_END_def LARGE_INDEX_def NODE_MASK_def
  sizeof_INDEX_ENTRY_HEADER_def sizeof_INDEX_BLOCK_def INDEX_BLOCK_index_def

definition entries_offset :: "bytes \<Rightarrow> nat" where "entries_offset ih = le_at 4 ih 0"
definition index_length :: "bytes \<Rightarrow> nat" where "index_length ih = le_at 4 ih 4"
definition allocated_size :: "bytes \<Rightarrow> nat" where "allocated_size ih = le_at 4 ih 8"
definition ih_flags :: "bytes \<Rightarrow> nat" where "ih_flags ih = le_at 1 ih 12"

definition ie_length :: "bytes \<Rightarrow> nat \<Rightarrow> nat" where "ie_length ih p = le_at 2 ih (p + 8)"
definition ie_key_length :: "bytes \<Rightarrow> nat \<Rightarrow> nat" where "ie_key_length ih p = le_at 2 ih (p + 10)"
definition ie_flags :: "bytes \<Rightarrow> nat \<Rightarrow> nat" where "ie_flags ih p = le_at 2 ih (p + 12)"

definition set_index_length :: "bytes \<Rightarrow> nat \<Rightarrow> bytes" where "set_index_length ih n = put_at ih 4 (le_bytes 4 n)"
definition set_ie_length :: "bytes \<Rightarrow> nat \<Rightarrow> nat \<Rightarrow> bytes" where "set_ie_length ih p n = put_at ih (p + 8) (le_bytes 2 n)"
definition set_ie_flags :: "bytes \<Rightarrow> nat \<Rightarrow> nat \<Rightarrow> bytes" where "set_ie_flags ih p f = put_at ih (p + 12) (le_bytes 2 f)"

section \<open>Walking over entries\<close>

definition ntfs_ie_get_first :: "bytes \<Rightarrow> nat" where "ntfs_ie_get_first ih = entries_offset ih"

definition ntfs_ie_get_next :: "bytes \<Rightarrow> nat \<Rightarrow> nat result" where
  "ntfs_ie_get_next ih ie = (if length ih < ie + 10 then Fault else Ok (ie + ie_length ih ie))"

definition ntfs_ie_get_end :: "bytes \<Rightarrow> nat" where "ntfs_ie_get_end ih = index_length ih"

definition ntfs_ie_end :: "bytes \<Rightarrow> nat \<Rightarrow> bool result" where
  "ntfs_ie_end ih ie =
     (if length ih < ie + 14 then Fault else Ok (ie_flags ih ie AND INDEX_ENTRY_END \<noteq> 0 \<or> ie_length ih ie = 0))"

function ntfs_ie_get_last :: "bytes \<Rightarrow> nat \<Rightarrow> nat \<Rightarrow> nat result" where
  "ntfs_ie_get_last ih ie ies_end =
     (if ie < ies_end then
        (case ntfs_ie_end ih ie of
           Ok e \<Rightarrow> if e then Ok ie else ntfs_ie_get_last ih (ie + ie_length ih ie) ies_end
         | Err e \<Rightarrow> Err e
         | Fault \<Rightarrow> Fault)
      else Ok ie)"
  by pat_completeness auto
termination
  by (relation "measure (\<lambda>(ih, ie, ies_end). ies_end - ie)") (auto simp: ntfs_ie_end_def split: if_splits)

declare ntfs_ie_get_last.simps [simp del]

fun ie_skip :: "bytes \<Rightarrow> nat \<Rightarrow> nat \<Rightarrow> nat result" where
  "ie_skip ih ie 0 = Ok ie"
| "ie_skip ih ie (Suc n) = res_bind (ntfs_ie_get_next ih ie) (\<lambda>ie. ie_skip ih ie n)"

definition ntfs_ie_get_by_pos :: "bytes \<Rightarrow> nat \<Rightarrow> nat result" where
  "ntfs_ie_get_by_pos ih pos = ie_skip ih (ntfs_ie_get_first ih) pos"

text \<open>The search for the entry before another one need not end: \<open>None\<close> if it does not. The
  entry before the first one is a null pointer.\<close>

partial_function (option) ie_prev_loop :: "bytes \<Rightarrow> nat \<Rightarrow> nat \<Rightarrow> nat option \<Rightarrow> nat option result option" where
  "ie_prev_loop ih ie tmp ie_prev =
     (if tmp = ie then Some (Ok ie_prev)
      else if length ih < tmp + 10 then Some Fault
      else ie_prev_loop ih ie (tmp + ie_length ih tmp) (Some tmp))"

definition ntfs_ie_prev :: "bytes \<Rightarrow> nat \<Rightarrow> nat option result option" where
  "ntfs_ie_prev ih ie = ie_prev_loop ih ie (ntfs_ie_get_first ih) None"

function count_entries :: "bytes \<Rightarrow> nat \<Rightarrow> nat \<Rightarrow> nat \<Rightarrow> nat result" where
  "count_entries ih stop ie n =
     (case ntfs_ie_end ih ie of
        Ok e \<Rightarrow> if \<not> e \<and> ie < stop then count_entries ih stop (ie + ie_length ih ie) (n + 1) else Ok n
      | Err e \<Rightarrow> Err e
      | Fault \<Rightarrow> Fault)"
  by pat_completeness auto
termination
  by (relation "measure (\<lambda>(ih, stop, ie, n). stop - ie)") (auto simp: ntfs_ie_end_def split: if_splits)

declare count_entries.simps [simp del]

definition ntfs_ih_numof_entries :: "bytes \<Rightarrow> nat result" where
  "ntfs_ih_numof_entries ih = count_entries ih (ntfs_ie_get_end ih) (ntfs_ie_get_first ih) 0"

definition ntfs_ih_one_entry :: "bytes \<Rightarrow> bool result" where
  "ntfs_ih_one_entry ih = res_bind (ntfs_ih_numof_entries ih) (\<lambda>n. Ok (n = 1))"

definition ntfs_ih_zero_entry :: "bytes \<Rightarrow> bool result" where
  "ntfs_ih_zero_entry ih = res_bind (ntfs_ih_numof_entries ih) (\<lambda>n. Ok (n = 0))"

text \<open>The median: half of the entries before the last one are before it.\<close>

function count_median :: "bytes \<Rightarrow> nat \<Rightarrow> nat \<Rightarrow> nat \<Rightarrow> nat result" where
  "count_median ih stop ie i =
     (if ie < stop then
        (case ntfs_ie_end ih ie of
           Ok e \<Rightarrow> if e then Ok i else count_median ih stop (ie + ie_length ih ie) (i + 1)
         | Err e \<Rightarrow> Err e
         | Fault \<Rightarrow> Fault)
      else Ok i)"
  by pat_completeness auto
termination
  by (relation "measure (\<lambda>(ih, stop, ie, i). stop - ie)") (auto simp: ntfs_ie_end_def split: if_splits)

declare count_median.simps [simp del]

definition ntfs_ie_get_median :: "bytes \<Rightarrow> nat result" where
  "ntfs_ie_get_median ih =
     res_bind (count_median ih (ntfs_ie_get_end ih) (ntfs_ie_get_first ih) 0) (\<lambda>i.
       ie_skip ih (ntfs_ie_get_first ih) (i div 2))"

section \<open>Sub-node numbers\<close>

definition ntfs_ie_get_vcn :: "bytes \<Rightarrow> nat \<Rightarrow> int result" where
  "ntfs_ie_get_vcn ih ie =
     (let p = ie + ie_length ih ie
      in if length ih < ie + 10 \<or> p < 8 \<or> length ih < p then Fault else Ok (s64 (int (le_at 8 ih (p - 8)))))"

definition ntfs_ie_set_vcn :: "bytes \<Rightarrow> nat \<Rightarrow> int \<Rightarrow> bytes result" where
  "ntfs_ie_set_vcn ih ie vcn =
     (let p = ie + ie_length ih ie
      in if length ih < ie + 10 \<or> p < 8 \<or> length ih < p then Fault
         else Ok (put_at ih (p - 8) (le_bytes 8 (nat (vcn mod 2 ^ 64)))))"

section \<open>Insertion and deletion\<close>

text \<open>\<open>memmove\<close> inside a node; a negative size is a huge one.\<close>

definition move_in :: "bytes \<Rightarrow> nat \<Rightarrow> nat \<Rightarrow> int \<Rightarrow> bytes result" where
  "move_in ih to from n =
     (if n < 0 \<or> int (length ih) < int to + n \<or> int (length ih) < int from + n then Fault
      else Ok (put_at ih to (take (nat n) (drop from ih))))"

definition ntfs_ie_delete :: "bytes \<Rightarrow> nat \<Rightarrow> bytes result" where
  "ntfs_ie_delete ih ie =
     (if length ih < ie + 10 then Fault
      else let new_size = nat ((int (index_length ih) - int (ie_length ih ie)) mod 2 ^ 32);
               ih = set_index_length ih new_size
           in move_in ih ie (ie + ie_length ih ie) (int new_size - int ie))"

text \<open>The entry to insert is memory of its own.\<close>

definition ntfs_ie_insert :: "bytes \<Rightarrow> bytes \<Rightarrow> nat \<Rightarrow> bytes result" where
  "ntfs_ie_insert ih ie pos =
     (let ie_size = ie_length ie 0;
          ih = set_index_length ih ((index_length ih + ie_size) mod 2 ^ 32)
      in res_bind (move_in ih (pos + ie_size) pos (int (index_length ih) - int pos - int ie_size)) (\<lambda>ih.
           if length ie < ie_size \<or> length ih < pos + ie_size then Fault
           else Ok (put_at ih pos (take ie_size ie))))"

text \<open>Copies of entries: the bytes that \<open>realloc\<close> appends are not specified.\<close>

definition ntfs_ie_dup :: "(nat \<Rightarrow> bool) \<Rightarrow> bytes \<Rightarrow> nat \<Rightarrow> bytes result" where
  "ntfs_ie_dup mem ih ie =
     (let n = ie_length ih ie
      in if length ih < ie + 10 then Fault
         else if \<not> mem n then Err ENOMEM
         else if length ih < ie + n then Fault
         else Ok (take n (drop ie ih)))"

definition ntfs_ie_dup_novcn :: "(nat \<Rightarrow> bool) \<Rightarrow> bytes \<Rightarrow> nat \<Rightarrow> bytes result" where
  "ntfs_ie_dup_novcn mem ih ie =
     (if length ih < ie + 14 then Fault
      else let n = int (ie_length ih ie);
               size = (if ie_flags ih ie AND INDEX_ENTRY_NODE \<noteq> 0 then n - 8 else n)
           in if size < 0 \<or> \<not> mem (nat size) then Err ENOMEM
              else if length ih < ie + nat size \<or> size < 14 then Fault
              else let dup = take (nat size) (drop ie ih);
                       dup = set_ie_flags dup 0 (ie_flags dup 0 AND (2 ^ 16 - 1 - INDEX_ENTRY_NODE))
                   in Ok (set_ie_length dup 0 (nat size)))"

definition ntfs_ie_add_vcn :: "(nat \<Rightarrow> bool) \<Rightarrow> (nat \<Rightarrow> u8) \<Rightarrow> bytes \<Rightarrow> bytes result" where
  "ntfs_ie_add_vcn mem fresh ie =
     (let n = (ie_length ie 0 + 8) mod 2 ^ 16; old = set_ie_length ie 0 n
      in if \<not> mem n then Err ENOMEM
         else let p = take n (old @ map fresh [length ie..<n])
              in if n < 14 then Fault
                 else Ok (set_ie_flags p 0 (ie_flags p 0 OR INDEX_ENTRY_NODE)))"

text \<open>Insertion of an entry with a new right neighbour: the entry takes over the sub-node of the
  entry at the position, which gets the new one.\<close>

definition ntfs_ih_insert :: "(nat \<Rightarrow> bool) \<Rightarrow> (nat \<Rightarrow> u8) \<Rightarrow> bytes \<Rightarrow> bytes \<Rightarrow> int \<Rightarrow> nat \<Rightarrow> bytes result" where
  "ntfs_ih_insert mem fresh ih orig_ie new_vcn pos =
     res_bind (ntfs_ie_dup mem orig_ie 0) (\<lambda>ie.
     res_bind (if ie_flags ie 0 AND INDEX_ENTRY_NODE = 0 then ntfs_ie_add_vcn mem fresh ie else Ok ie) (\<lambda>ie.
     res_bind (ntfs_ie_get_by_pos ih pos) (\<lambda>ie_node.
     res_bind (ntfs_ie_get_vcn ih ie_node) (\<lambda>old_vcn.
     res_bind (ntfs_ie_set_vcn ih ie_node new_vcn) (\<lambda>ih.
     res_bind (ntfs_ie_insert ih ie ie_node) (\<lambda>ih.
       ntfs_ie_set_vcn ih ie_node old_vcn))))))"

section \<open>Lookup in a node\<close>

text \<open>The outcome: the entry and its number, the point of insertion, or the sub-node to go on
  with and the number of its entry.\<close>

datatype ie_search = Found nat nat | Not_Found nat | Keep_Searching int nat

definition ie_search_end :: "bytes \<Rightarrow> nat \<Rightarrow> nat \<Rightarrow> ie_search result" where
  "ie_search_end ih ie item =
     (if length ih < ie + 14 then Fault
      else if ie_flags ih ie AND INDEX_ENTRY_NODE = 0 then Ok (Not_Found ie)
      else res_bind (ntfs_ie_get_vcn ih ie) (\<lambda>vcn. if vcn < 0 then Err EINVAL else Ok (Keep_Searching vcn item)))"

function ie_lookup_loop :: "collate option \<Rightarrow> bytes \<Rightarrow> nat \<Rightarrow> bytes \<Rightarrow> nat \<Rightarrow> nat \<Rightarrow> nat \<Rightarrow> ie_search result" where
  "ie_lookup_loop collate key key_len ih index_end ie item =
     (if index_end < ie + sizeof_INDEX_ENTRY_HEADER then Err ERANGE
      else if length ih < ie + 14 then Fault
      else if index_end < ie + ie_length ih ie then Err ERANGE
      else case ntfs_ie_end ih ie of
        Fault \<Rightarrow> Fault
      | Err e \<Rightarrow> Err e
      | Ok True \<Rightarrow> ie_search_end ih ie item
      | Ok False \<Rightarrow>
          (case collate of
             None \<Rightarrow> Err EOPNOTSUPP
           | Some cmp \<Rightarrow>
               (case cmp key key_len (drop (ie + 16) ih) (ie_key_length ih ie) of
                  Fault \<Rightarrow> Fault
                | Err e \<Rightarrow> Err e
                | Ok rc \<Rightarrow>
                    if rc = NTFS_COLLATION_ERROR then Err ERANGE
                    else if rc = -1 then ie_search_end ih ie item
                    else if rc = 0 then Ok (Found ie item)
                    else ie_lookup_loop collate key key_len ih index_end (ie + ie_length ih ie) (item + 1))))"
  by pat_completeness auto
termination
  by (relation "measure (\<lambda>(collate, key, key_len, ih, index_end, ie, item). index_end - ie)")
    (auto simp: ntfs_ie_end_def sizeof_INDEX_ENTRY_HEADER_def split: if_splits)

declare ie_lookup_loop.simps [simp del]

definition ntfs_ie_lookup :: "collate option \<Rightarrow> bytes \<Rightarrow> nat \<Rightarrow> bytes \<Rightarrow> ie_search result" where
  "ntfs_ie_lookup collate key key_len ih =
     ie_lookup_loop collate key key_len ih (ntfs_ie_get_end ih) (ntfs_ie_get_first ih) 0"

end
