(* ===== verification/Index_Node_Laws.thy ===== *)
theory Index_Node_Laws
  imports Index_Node
begin

text \<open>
  What the operations on a node do to the list of its entries: the shape of a node, walking,
  insertion, deletion and the sub-node numbers.
\<close>

section \<open>Memory in pieces\<close>

lemma byte_at_append [simp]:
  "i < length xs \<Longrightarrow> byte_at (xs @ ys) i = byte_at xs i" "byte_at (xs @ ys) (length xs + i) = byte_at ys i"
  by (simp_all add: byte_at_def nth_append)

lemma le_at_append [simp]:
  "i + n \<le> length xs \<Longrightarrow> le_at n (xs @ ys) i = le_at n xs i" "le_at n (xs @ ys) (length xs + i) = le_at n ys i"
proof -
  show "i + n \<le> length xs \<Longrightarrow> le_at n (xs @ ys) i = le_at n xs i"
    unfolding le_at_def by (rule arg_cong [where f = le_val], rule map_cong) auto
  have "map (byte_at (xs @ ys)) [length xs + i..<length xs + i + n] = map (byte_at ys) [i..<i + n]"
    by (intro nth_equalityI) (auto simp: add.assoc)
  then show "le_at n (xs @ ys) (length xs + i) = le_at n ys i" by (simp add: le_at_def)
qed

lemma put_at_append:
  "i + length bs \<le> length xs \<Longrightarrow> put_at (xs @ ys) i bs = put_at xs i bs @ ys" "put_at (xs @ ys) (length xs + i) bs = xs @ put_at ys i bs"
  by (auto simp: put_at_def)

lemma put_at_whole: "length bs = length xs \<Longrightarrow> put_at xs 0 bs = bs"
  by (simp add: put_at_def)

section \<open>The shape of a node\<close>

definition is_end :: "bytes \<Rightarrow> bool" where "is_end e \<longleftrightarrow> ie_flags e 0 AND INDEX_ENTRY_END \<noteq> 0"
definition has_node :: "bytes \<Rightarrow> bool" where "has_node e \<longleftrightarrow> ie_flags e 0 AND INDEX_ENTRY_NODE \<noteq> 0"

definition entry_ok :: "bytes \<Rightarrow> bool" where
  "entry_ok e \<longleftrightarrow> 16 \<le> length e \<and> ie_length e 0 = length e \<and> (has_node e \<longrightarrow> 24 \<le> length e)"

definition entries_ok :: "bytes list \<Rightarrow> bool" where
  "entries_ok es \<longleftrightarrow> es \<noteq> [] \<and> list_all entry_ok es \<and> is_end (last es) \<and> list_all (\<lambda>e. \<not> is_end e) (butlast es)"

definition header_ok :: "bytes \<Rightarrow> bytes list \<Rightarrow> bool" where
  "header_ok h es \<longleftrightarrow> 16 \<le> length h \<and> entries_offset h = length h \<and> index_length h = length h + length (concat es) \<and>
     entries_ok es"

text \<open>The node with header \<open>h\<close> (and what lies before the first entry), entries and unused rest.\<close>

definition node :: "bytes \<Rightarrow> bytes list \<Rightarrow> bytes \<Rightarrow> bytes" where "node h es slack = h @ concat es @ slack"

definition entry_pos :: "bytes \<Rightarrow> bytes list \<Rightarrow> nat \<Rightarrow> nat" where
  "entry_pos h es k = length h + length (concat (take k es))"

lemma entry_pos_0 [simp]: "entry_pos h es 0 = length h"
  by (simp add: entry_pos_def)

lemma entry_pos_Suc: "k < length es \<Longrightarrow> entry_pos h es (Suc k) = entry_pos h es k + length (es ! k)"
  by (simp add: entry_pos_def take_Suc_conv_app_nth)

lemma concat_split: "k < length es \<Longrightarrow> concat es = concat (take k es) @ es ! k @ concat (drop (Suc k) es)"
  by (metis append_take_drop_id concat.simps(2) concat_append Cons_nth_drop_Suc)

lemma concat_halves: "concat es = concat (take k es) @ concat (drop k es)"
  by (metis append_take_drop_id concat_append)

lemma node_split:
  "k < length es \<Longrightarrow> node h es slack = (h @ concat (take k es)) @ es ! k @ (concat (drop (Suc k) es) @ slack)"
  by (simp add: node_def concat_split)

lemma entry_okD: "header_ok h es \<Longrightarrow> k < length es \<Longrightarrow> entry_ok (es ! k)"
  by (simp add: header_ok_def entries_ok_def list_all_length)

lemma is_end_nth:
  assumes "header_ok h es" and "k < length es"
  shows "is_end (es ! k) \<longleftrightarrow> Suc k = length es"
proof (cases "Suc k = length es")
  case True
  then have "k = length es - 1" by simp
  then have "es ! k = last es" using assms(2) by (subst last_conv_nth) auto
  then show ?thesis using assms(1) True by (simp add: header_ok_def entries_ok_def)
next
  case False
  then have k: "k < length (butlast es)" using assms(2) by simp
  have "\<not> is_end (butlast es ! k)" using assms(1) k by (auto simp: header_ok_def entries_ok_def list_all_length)
  then show ?thesis using False by (simp add: nth_butlast [OF k])
qed

section \<open>Reading\<close>

lemma node_header:
  assumes "header_ok h es"
  shows "entries_offset (node h es slack) = length h" "index_length (node h es slack) = entry_pos h es (length es)"
    "allocated_size (node h es slack) = allocated_size h" "ih_flags (node h es slack) = ih_flags h"
  using assms by (simp_all add: header_ok_def entries_offset_def index_length_def allocated_size_def ih_flags_def node_def entry_pos_def)

lemma length_node: "length (node h es slack) = entry_pos h es (length es) + length slack"
  by (simp add: node_def entry_pos_def)

lemma entry_field:
  assumes "k < length es" and "i + n \<le> length (es ! k)"
  shows "le_at n (node h es slack) (entry_pos h es k + i) = le_at n (es ! k) i"
proof -
  have "entry_pos h es k + i = length (h @ concat (take k es)) + i" by (simp add: entry_pos_def)
  then show ?thesis unfolding node_split [OF assms(1)] using assms(2) by (simp only: le_at_append)
qed

lemma entry_pos_bound:
  assumes "k < length es"
  shows "entry_pos h es k + length (es ! k) \<le> entry_pos h es (length es)"
  using arg_cong [OF concat_split [OF assms], of length] by (simp add: entry_pos_def)

lemma entry_fields:
  assumes "header_ok h es" and "k < length es"
  shows "ie_length (node h es slack) (entry_pos h es k) = length (es ! k)"
    and "ie_key_length (node h es slack) (entry_pos h es k) = ie_key_length (es ! k) 0"
    and "ie_flags (node h es slack) (entry_pos h es k) = ie_flags (es ! k) 0"
    and "entry_pos h es k + 16 \<le> length (node h es slack)"
    and "entry_pos h es k + length (es ! k) \<le> length (node h es slack)"
  using entry_okD [OF assms] entry_pos_bound [OF assms(2), of h] entry_field [OF assms(2), of 8 2 h slack]
    entry_field [OF assms(2), of 10 2 h slack] entry_field [OF assms(2), of 12 2 h slack]
  by (simp_all add: ie_length_def ie_key_length_def ie_flags_def entry_ok_def length_node)

lemma node_ie_end:
  assumes "header_ok h es" and "k < length es"
  shows "ntfs_ie_end (node h es slack) (entry_pos h es k) = Ok (Suc k = length es)"
proof -
  have "length (es ! k) \<noteq> 0" using entry_okD [OF assms] by (auto simp: entry_ok_def)
  then show ?thesis using entry_fields [OF assms, of slack] is_end_nth [OF assms] by (simp add: ntfs_ie_end_def is_end_def)
qed

lemma node_get_next:
  assumes "header_ok h es" and "k < length es"
  shows "ntfs_ie_get_next (node h es slack) (entry_pos h es k) = Ok (entry_pos h es (Suc k))"
  using entry_fields [OF assms, of slack] by (simp add: ntfs_ie_get_next_def entry_pos_Suc [OF assms(2)])

lemma node_first: "header_ok h es \<Longrightarrow> ntfs_ie_get_first (node h es slack) = entry_pos h es 0"
  by (simp add: ntfs_ie_get_first_def node_header)

lemma node_end: "header_ok h es \<Longrightarrow> ntfs_ie_get_end (node h es slack) = entry_pos h es (length es)"
  by (simp add: ntfs_ie_get_end_def node_header)

lemma entry_pos_less: "header_ok h es \<Longrightarrow> k < length es \<Longrightarrow> entry_pos h es k < entry_pos h es (length es)"
  using entry_pos_bound [of k es h] entry_okD [of h es k] by (auto simp: entry_ok_def)

lemma node_skip: "header_ok h es \<Longrightarrow> j + n \<le> length es \<Longrightarrow>
    ie_skip (node h es slack) (entry_pos h es j) n = Ok (entry_pos h es (j + n))"
  by (induction n arbitrary: j) (simp_all add: node_get_next)

lemma node_get_by_pos:
  "header_ok h es \<Longrightarrow> k \<le> length es \<Longrightarrow> ntfs_ie_get_by_pos (node h es slack) k = Ok (entry_pos h es k)"
  using node_skip [of h es 0 k slack] by (simp add: ntfs_ie_get_by_pos_def node_first)

lemma node_get_last:
  assumes "header_ok h es" and "k < length es"
  shows "ntfs_ie_get_last (node h es slack) (entry_pos h es k) (entry_pos h es (length es)) = Ok (entry_pos h es (length es - 1))"
  using assms(2)
proof (induction "length es - k" arbitrary: k)
  case (Suc d)
  note k = Suc.prems
  show ?case
  proof (cases "Suc k = length es")
    case True
    then have "length es - 1 = k" by simp
    then show ?thesis using node_ie_end [OF assms(1) k, of slack] True by (subst ntfs_ie_get_last.simps) simp
  next
    case False
    then have "ntfs_ie_get_last (node h es slack) (entry_pos h es (Suc k)) (entry_pos h es (length es))
      = Ok (entry_pos h es (length es - 1))" using Suc.hyps k by (intro Suc.hyps(1)) auto
    then show ?thesis using node_ie_end [OF assms(1) k, of slack] entry_pos_less [OF assms(1) k] False
      by (subst ntfs_ie_get_last.simps) (simp add: entry_fields(1) [OF assms(1) k] entry_pos_Suc [OF k])
  qed
qed simp

lemma node_count:
  assumes "header_ok h es" and "k < length es"
  shows "count_entries (node h es slack) (entry_pos h es (length es)) (entry_pos h es k) n = Ok (n + (length es - 1 - k)) \<and>
    count_median (node h es slack) (entry_pos h es (length es)) (entry_pos h es k) n = Ok (n + (length es - 1 - k))"
  using assms(2)
proof (induction "length es - k" arbitrary: k n)
  case (Suc d)
  note k = Suc.prems
  note facts = node_ie_end [OF assms(1) k, of slack] entry_pos_less [OF assms(1) k] entry_fields(1) [OF assms(1) k, of slack]
    entry_pos_Suc [OF k, of h]
  show ?case
  proof (cases "Suc k = length es")
    case True
    then have "length es - 1 - k = 0" by simp
    then show ?thesis using facts True
      by (subst count_entries.simps, subst count_median.simps) simp
  next
    case False
    then have "length es - 1 - k = Suc (length es - 1 - Suc k)" using k by simp
    moreover have "d = length es - Suc k" "Suc k < length es" using Suc.hyps(2) False k by simp_all
    ultimately show ?thesis using facts False Suc.hyps(1) [of "Suc k" "Suc n"]
      by (subst count_entries.simps, subst count_median.simps) simp
  qed
qed simp

lemma node_nonempty: "header_ok h es \<Longrightarrow> 0 < length es"
  by (simp add: header_ok_def entries_ok_def)

lemma node_numof: "header_ok h es \<Longrightarrow> ntfs_ih_numof_entries (node h es slack) = Ok (length es - 1)"
  using conjunct1 [OF node_count, of h es 0 slack 0] node_nonempty [of h es]
  by (simp add: ntfs_ih_numof_entries_def node_first node_end)

lemma node_median: "header_ok h es \<Longrightarrow> ntfs_ie_get_median (node h es slack) = Ok (entry_pos h es ((length es - 1) div 2))"
  using conjunct2 [OF node_count, of h es 0 slack 0] node_nonempty [of h es] node_skip [of h es 0 "(length es - 1) div 2" slack]
  by (simp add: ntfs_ie_get_median_def node_first node_end)

section \<open>Writing\<close>

lemma set_index_length_node: "16 \<le> length h \<Longrightarrow> set_index_length (node h es slack) n = node (set_index_length h n) es slack"
  by (simp add: set_index_length_def node_def put_at_append)

lemma set_index_length_fields:
  assumes "16 \<le> length h" and "n < 2 ^ 32"
  shows "length (set_index_length h n) = length h" "entries_offset (set_index_length h n) = entries_offset h"
    "index_length (set_index_length h n) = n" "allocated_size (set_index_length h n) = allocated_size h"
    "ih_flags (set_index_length h n) = ih_flags h"
  using assms by (simp_all add: set_index_length_def entries_offset_def index_length_def allocated_size_def ih_flags_def buf_simps)

lemma header_ok_update:
  assumes "header_ok h es" and "entries_ok es'" and "n = length h + length (concat es')" and "n < 2 ^ 32"
  shows "header_ok (set_index_length h n) es'"
  using assms set_index_length_fields [of h n] by (simp add: header_ok_def)

lemma shift_up:
  "length E = s \<Longrightarrow> s \<le> length S \<Longrightarrow> put_at (put_at (P @ B @ S) (length P + s) B) (length P) E = P @ E @ B @ drop s S"
  by (simp add: put_at_def)

lemma shift_down: "put_at (P @ E @ B @ S) (length P) B = P @ B @ drop (length B) (E @ B @ S)"
  by (simp add: put_at_def)

lemma entries_ok_insert:
  assumes "entries_ok es" and "k < length es" and "entry_ok e" and "\<not> is_end e"
  shows "entries_ok (take k es @ e # drop k es)"
proof -
  have "drop k es \<noteq> []" using assms(2) by simp
  moreover have "butlast (take k es @ e # drop k es) = take k es @ e # butlast (drop k es)"
    using calculation by (simp add: butlast_append)
  moreover have "list_all (\<lambda>e. \<not> is_end e) (take k es @ butlast (drop k es))"
    using assms(1,2) by (metis append_take_drop_id butlast_append calculation(1) entries_ok_def)
  moreover have "list_all entry_ok (take k es @ drop k es)" using assms(1) by (simp add: entries_ok_def)
  ultimately show ?thesis using assms by (simp add: entries_ok_def del: append_take_drop_id)
qed

lemma entries_ok_delete:
  assumes "entries_ok es" and "Suc k < length es"
  shows "entries_ok (take k es @ drop (Suc k) es)"
proof -
  have ne: "drop (Suc k) es \<noteq> []" "drop k es \<noteq> []" using assms(2) by simp_all
  have "es = take k es @ es ! k # drop (Suc k) es" using assms(2) by (simp add: id_take_nth_drop)
  then have "butlast es = take k es @ es ! k # butlast (drop (Suc k) es)" using ne(1)
    by (metis butlast.simps(2) butlast_append list.distinct(1))
  then have "list_all (\<lambda>e. \<not> is_end e) (take k es @ butlast (drop (Suc k) es))" using assms(1) by (simp add: entries_ok_def)
  moreover have "list_all entry_ok (take k es @ drop (Suc k) es)"
    using assms(1) by (auto simp: entries_ok_def list_all_iff dest: in_set_takeD in_set_dropD)
  ultimately show ?thesis using assms ne by (simp add: entries_ok_def butlast_append)
qed

lemma node_insert:
  assumes "header_ok h es" and "k < length es" and "entry_ok e" and "length e \<le> length slack"
    and "length (node h es slack) < 2 ^ 32"
  shows "ntfs_ie_insert (node h es slack) e (entry_pos h es k) =
    Ok (node (set_index_length h (entry_pos h es (length es) + length e)) (take k es @ e # drop k es) (drop (length e) slack))"
proof -
  let ?n = "entry_pos h es (length es) + length e"
  let ?h = "set_index_length h ?n"
  define P B where "P = ?h @ concat (take k es)" and "B = concat (drop k es)"
  have h: "16 \<le> length h" using assms(1) by (simp add: header_ok_def)
  have n: "?n < 2 ^ 32" using assms(4,5) by (simp add: length_node)
  have len: "length P = entry_pos h es k" "entry_pos h es (length es) = entry_pos h es k + length B"
    using set_index_length_fields(1) [OF h n] concat_halves [of es k] by (simp_all add: entry_pos_def P_def B_def)
  have size: "ie_length e 0 = length e" using assms(3) by (simp add: entry_ok_def)
  have node': "node ?h (take k es @ e # drop k es) (drop (length e) slack) = P @ e @ B @ drop (length e) slack"
    by (simp add: node_def P_def B_def)
  have ih: "set_index_length (node h es slack) ((index_length (node h es slack) + length e) mod 2 ^ 32) = P @ B @ slack"
    unfolding node_header(2) [OF assms(1)] mod_less [OF n] set_index_length_node [OF h]
    unfolding node_def P_def B_def by (simp add: concat_halves [of es k])
  have il: "index_length (P @ B @ slack) = ?n"
    using set_index_length_fields(1,3) [OF h n] h by (simp add: index_length_def P_def)
  have "move_in (P @ B @ slack) (entry_pos h es k + length e) (entry_pos h es k) (int (length B)) =
      Ok (put_at (P @ B @ slack) (length P + length e) B)"
    unfolding move_in_def len(1) [symmetric] using assms(4) by simp
  moreover have "int ?n - int (entry_pos h es k) - int (length e) = int (length B)" using len(2) by simp
  moreover have "\<not> length (put_at (P @ B @ slack) (length P + length e) B) < length P + length e"
    using assms(4) by simp
  ultimately show ?thesis
    unfolding ntfs_ie_insert_def Let_def size ih il node' using shift_up [of e "length e" slack P B] assms(4)
    by (simp add: len(1) [symmetric])
qed

lemma node_delete:
  assumes "header_ok h es" and "k < length es" and "length (node h es slack) < 2 ^ 32"
  shows "\<exists>slack'. length slack' = length slack + length (es ! k) \<and>
    ntfs_ie_delete (node h es slack) (entry_pos h es k) =
      Ok (node (set_index_length h (entry_pos h es (length es) - length (es ! k))) (take k es @ drop (Suc k) es) slack')"
proof -
  let ?n = "entry_pos h es (length es) - length (es ! k)"
  let ?h = "set_index_length h ?n"
  define P B where "P = ?h @ concat (take k es)" and "B = concat (drop (Suc k) es)"
  have h: "16 \<le> length h" using assms(1) by (simp add: header_ok_def)
  have n: "?n < 2 ^ 32" using assms(3) by (simp add: length_node)
  have sp: "concat es = concat (take k es) @ es ! k @ B" using concat_split [OF assms(2)] by (simp add: B_def)
  have len: "length P = entry_pos h es k" "entry_pos h es (length es) = entry_pos h es k + length (es ! k) + length B"
    using set_index_length_fields(1) [OF h n] by (simp_all add: entry_pos_def P_def sp)
  have il: "nat ((int (index_length (node h es slack)) - int (length (es ! k))) mod 2 ^ 32) = ?n"
    using n len(2) by (simp add: node_header(2) [OF assms(1)] flip: of_nat_diff)
  have ih: "set_index_length (node h es slack) ?n = P @ es ! k @ B @ slack"
    unfolding set_index_length_node [OF h] unfolding node_def P_def by (simp add: sp)
  have "move_in (P @ es ! k @ B @ slack) (entry_pos h es k) (entry_pos h es k + length (es ! k)) (int ?n - int (entry_pos h es k))
      = Ok (P @ B @ drop (length B) (es ! k @ B @ slack))"
    unfolding move_in_def using len shift_down [of P "es ! k" B slack] by simp
  moreover have "ie_length (P @ es ! k @ B @ slack) (entry_pos h es k) = length (es ! k)"
    using entry_okD [OF assms(1,2)] le_at_append(2) [of 2 P "es ! k @ B @ slack" 8]
    by (simp add: ie_length_def entry_ok_def len(1))
  moreover have "\<not> length (node h es slack) < entry_pos h es k + 10" using entry_fields(4) [OF assms(1,2), of slack] by simp
  ultimately have "ntfs_ie_delete (node h es slack) (entry_pos h es k) = Ok (P @ B @ drop (length B) (es ! k @ B @ slack))"
    unfolding ntfs_ie_delete_def Let_def entry_fields(1) [OF assms(1,2)] il ih by (simp only: if_False)
  moreover have "node ?h (take k es @ drop (Suc k) es) s = P @ B @ s" for s by (simp add: node_def P_def B_def)
  ultimately show ?thesis by (intro exI [of _ "drop (length B) (es ! k @ B @ slack)"]) simp
qed

section \<open>Sub-nodes of entries\<close>

definition entry_vcn :: "bytes \<Rightarrow> int" where "entry_vcn e = s64 (int (le_at 8 e (length e - 8)))"

definition with_vcn :: "int \<Rightarrow> bytes \<Rightarrow> bytes" where
  "with_vcn v e = put_at e (length e - 8) (le_bytes 8 (nat (v mod 2 ^ 64)))"

lemma length_with_vcn [simp]: "8 \<le> length e \<Longrightarrow> length (with_vcn v e) = length e"
  by (simp add: with_vcn_def)

lemma entry_vcn_with_vcn: "8 \<le> length e \<Longrightarrow> in_s64 v \<Longrightarrow> entry_vcn (with_vcn v e) = v"
proof -
  assume a: "8 \<le> length e" "in_s64 v"
  have "s64 (v mod 2 ^ 64) = s64 v" unfolding s64_def by (simp add: mod_add_left_eq)
  then show ?thesis using a by (simp add: entry_vcn_def with_vcn_def buf_simps)
qed

lemma with_vcn_field: "24 \<le> length e \<Longrightarrow> i + n \<le> 16 \<Longrightarrow> le_at n (with_vcn v e) i = le_at n e i"
  unfolding with_vcn_def by (rule le_at_put_at_other) simp_all

lemma with_vcn_entry:
  assumes "24 \<le> length e"
  shows "entry_ok (with_vcn v e) = entry_ok e" "is_end (with_vcn v e) = is_end e" "has_node (with_vcn v e) = has_node e"
  using assms with_vcn_field [OF assms, of 8 2] with_vcn_field [OF assms, of 12 2]
  by (simp_all add: entry_ok_def is_end_def has_node_def ie_length_def ie_flags_def)

lemma node_get_vcn:
  assumes "header_ok h es" and "k < length es" and "8 \<le> length (es ! k)"
  shows "ntfs_ie_get_vcn (node h es slack) (entry_pos h es k) = Ok (entry_vcn (es ! k))"
  using entry_fields [OF assms(1,2), of slack] assms(3) entry_field [OF assms(2), of "length (es ! k) - 8" 8 h slack]
  by (simp add: ntfs_ie_get_vcn_def Let_def entry_vcn_def)

lemma node_set_vcn:
  assumes "header_ok h es" and "k < length es" and "8 \<le> length (es ! k)"
  shows "ntfs_ie_set_vcn (node h es slack) (entry_pos h es k) v = Ok (node h (es[k := with_vcn v (es ! k)]) slack)"
proof -
  define P where "P = h @ concat (take k es)"
  have len: "length P = entry_pos h es k" by (simp add: entry_pos_def P_def)
  have "node h (es[k := with_vcn v (es ! k)]) slack = P @ with_vcn v (es ! k) @ concat (drop (Suc k) es) @ slack"
    using assms(2) by (simp add: node_def upd_conv_take_nth_drop P_def)
  moreover have "entry_pos h es k + length (es ! k) - 8 = length P + (length (es ! k) - 8)" using assms(3) len by simp
  ultimately have "put_at (node h es slack) (entry_pos h es k + length (es ! k) - 8) (le_bytes 8 (nat (v mod 2 ^ 64))) =
      node h (es[k := with_vcn v (es ! k)]) slack"
    unfolding node_split [OF assms(2)] with_vcn_def P_def [symmetric] using assms(3)
    by (simp only: put_at_append(2)) (simp add: put_at_append(1))
  then show ?thesis using entry_fields [OF assms(1,2), of slack] assms(3) by (simp add: ntfs_ie_set_vcn_def Let_def)
qed

end
