(* ===== verification/Index_Block.thy ===== *)
theory Index_Block
  imports Index_Node_Laws
begin

text \<open>
  Index blocks (\<open>libntfs-3g/index.c\<close>): the check of a block, new blocks, the move of the root
  entries into a block, and the two halves of a split. A block is the memory of an
  \<open>INDEX_BLOCK\<close>, a root that of an \<open>INDEX_ROOT\<close>; the header of the node is at 24 and 16.
\<close>

unbundle bit_operations_syntax

section \<open>The code\<close>

definition INDEX_ROOT_index :: nat where "INDEX_ROOT_index = 16"

abbreviation ib_index :: "bytes \<Rightarrow> bytes" where "ib_index ib \<equiv> drop INDEX_BLOCK_index ib"
abbreviation ir_index :: "bytes \<Rightarrow> bytes" where "ir_index ir \<equiv> drop INDEX_ROOT_index ir"

definition with_index :: "nat \<Rightarrow> bytes \<Rightarrow> bytes \<Rightarrow> bytes" where "with_index n b ih = take n b @ ih"

definition index_block_vcn :: "bytes \<Rightarrow> int" where "index_block_vcn ib = s64 (int (le_at 8 ib 16))"
definition index_block_size :: "bytes \<Rightarrow> nat" where "index_block_size ir = le_at 4 ir 8"
definition collation_rule :: "bytes \<Rightarrow> nat" where "collation_rule ir = le_at 4 ir 4"

definition magic_INDX :: bytes where "magic_INDX = [0x49, 0x4e, 0x44, 0x58]"

definition ntfs_ia_check :: "nat \<Rightarrow> bytes \<Rightarrow> int \<Rightarrow> bool" where
  "ntfs_ia_check block_size ib vcn =
     (let ib_size = (allocated_size (ib_index ib) + 0x18) mod 2 ^ 32
      in if take 4 ib \<noteq> magic_INDX then False
         else if index_block_vcn ib \<noteq> vcn then False
         else ib_size = block_size)"

text \<open>The size is a multiple of 512.\<close>

definition ntfs_ib_alloc :: "(nat \<Rightarrow> bool) \<Rightarrow> int \<Rightarrow> nat \<Rightarrow> nat \<Rightarrow> bytes result" where
  "ntfs_ib_alloc mem ib_vcn ib_size node_type =
     (if \<not> mem ib_size then Err ENOMEM
      else if ib_size < 42 then Fault
      else let usa_count = (ib_size div 512 + 1) mod 2 ^ 16;
               ib = put_at (replicate ib_size 0) 0 magic_INDX;
               ib = put_at ib 4 (le_bytes 2 40);
               ib = put_at ib 6 (le_bytes 2 usa_count);
               ib = put_at ib 40 (le_bytes 2 1);
               ib = put_at ib 8 (le_bytes 8 0);
               ib = put_at ib 16 (le_bytes 8 (nat (ib_vcn mod 2 ^ 64)));
               ib = put_at ib 24 (le_bytes 4 ((16 + usa_count * 2 + 7) div 8 * 8));
               ib = put_at ib 28 (le_bytes 4 0);
               ib = put_at ib 32 (le_bytes 4 (ib_size - 24))
           in Ok (put_at ib 36 (le_bytes 1 node_type)))"

text \<open>\<open>memcpy\<close> of \<open>n\<close> bytes from one node to another.\<close>

definition copy_to :: "bytes \<Rightarrow> nat \<Rightarrow> bytes \<Rightarrow> nat \<Rightarrow> int \<Rightarrow> bytes result" where
  "copy_to dst to src from n =
     (if n < 0 \<or> int (length dst) < int to + n \<or> int (length src) < int from + n then Fault
      else Ok (put_at dst to (take (nat n) (drop from src))))"

definition ntfs_ir_to_ib :: "(nat \<Rightarrow> bool) \<Rightarrow> bytes \<Rightarrow> int \<Rightarrow> bytes result" where
  "ntfs_ir_to_ib mem ir ib_vcn =
     res_bind (ntfs_ib_alloc mem ib_vcn (index_block_size ir) 0) (\<lambda>ib.
       let rih = ir_index ir; ies_start = ntfs_ie_get_first rih; ies_end = ntfs_ie_get_end rih
       in res_bind (ntfs_ie_get_last rih ies_start ies_end) (\<lambda>ie_last.
          let i = int ie_last - int ies_start + int (ie_length rih ie_last)
          in res_bind (copy_to (ib_index ib) (ntfs_ie_get_first (ib_index ib)) rih ies_start i) (\<lambda>ih.
             let ih = put_at ih 12 (le_bytes 1 (ih_flags rih));
                 ih = set_index_length ih (nat ((i + int (entries_offset ih)) mod 2 ^ 32))
             in Ok (with_index INDEX_BLOCK_index ib ih))))"

text \<open>The root without its entries but the last one.\<close>

definition ntfs_ir_nill :: "bytes \<Rightarrow> bytes result" where
  "ntfs_ir_nill ir =
     (let rih = ir_index ir; ies_start = ntfs_ie_get_first rih; ies_end = ntfs_ie_get_end rih
      in res_bind (ntfs_ie_get_last rih ies_start ies_end) (\<lambda>ie_last.
         if ies_start < ie_last
         then res_bind (move_in rih ies_start ie_last (int (ie_length rih ie_last))) (\<lambda>rih. Ok (with_index INDEX_ROOT_index ir rih))
         else Ok ir))"

text \<open>The block with the entries behind the median, as it is written, and the block that remains.\<close>

definition ib_copy_tail :: "(nat \<Rightarrow> bool) \<Rightarrow> nat \<Rightarrow> bytes \<Rightarrow> nat \<Rightarrow> int \<Rightarrow> bytes result" where
  "ib_copy_tail mem block_size src median new_vcn =
     res_bind (ntfs_ib_alloc mem new_vcn block_size (ih_flags (ib_index src) AND NODE_MASK)) (\<lambda>dst.
     res_bind (ntfs_ie_get_next (ib_index src) median) (\<lambda>ie_head.
       let ies_end = ntfs_ie_get_end (ib_index src); tail_size = int ies_end - int ie_head
       in res_bind (copy_to (ib_index dst) (ntfs_ie_get_first (ib_index dst)) (ib_index src) ie_head tail_size) (\<lambda>ih.
            Ok (with_index INDEX_BLOCK_index dst
              (set_index_length ih (nat ((tail_size + int (entries_offset ih)) mod 2 ^ 32)))))))"

definition ib_cut_tail :: "bytes \<Rightarrow> nat \<Rightarrow> bytes result" where
  "ib_cut_tail ib ie =
     (let ih = ib_index ib; ies_start = ntfs_ie_get_first ih; ies_end = ntfs_ie_get_end ih
      in res_bind (ntfs_ie_get_last ih ies_start ies_end) (\<lambda>ie_last.
         if length ih < ie_last + 14 then Fault
         else res_bind (if ie_flags ih ie_last AND INDEX_ENTRY_NODE \<noteq> 0
                        then res_bind (ntfs_ie_get_vcn ih ie) (ntfs_ie_set_vcn ih ie_last) else Ok ih) (\<lambda>ih.
              res_bind (copy_to ih ie ih ie_last (int (ie_length ih ie_last))) (\<lambda>ih.
                Ok (with_index INDEX_BLOCK_index ib
                  (set_index_length ih (nat ((int ie - int ies_start + int (ie_length ih ie) + int (entries_offset ih)) mod 2 ^ 32))))))))"

end
