(* ===== verification/Index_Lookup.thy ===== *)
theory Index_Lookup
  imports Index_Block Device
begin

text \<open>
  Lookup and traversal of an index (\<open>libntfs-3g/index.c\<close>): the context with the path from the root,
  the reading of blocks, \<open>ntfs_index_lookup\<close> and \<open>ntfs_index_next\<close>. The attributes of the inode are
  given by what their reading delivers.
\<close>

unbundle bit_operations_syntax

section \<open>The inode and the context\<close>

text \<open>An open attribute is given by what \<open>ntfs_attr_pread_i\<close> reads from it: at a position a number of bytes.
  \<open>ir_lookup\<close> is the value of the \<open>INDEX_ROOT\<close> attribute as \<open>ntfs_ir_lookup\<close> finds it,
  \<open>ia_open\<close> the \<open>INDEX_ALLOCATION\<close> attribute as \<open>ntfs_ia_open\<close> opens it.\<close>

type_synonym ntfs_attr = "int \<Rightarrow> nat \<Rightarrow> bytes result"

record index_inode =
  ir_lookup :: "bytes result"
  ia_open :: "ntfs_attr option"
  cluster_size :: nat
  cluster_size_bits :: nat

definition MAX_PARENT_VCN :: nat where "MAX_PARENT_VCN = 32"
definition VCN_INDEX_ROOT_PARENT :: int where "VCN_INDEX_ROOT_PARENT = -2"

record index_context =
  entry :: "nat option"
  icx_collate :: "collate option"
  is_in_root :: bool
  ir :: bytes
  ib :: bytes
  ia_na :: "ntfs_attr option"
  parent_pos :: "nat list"
  parent_vcn :: "int list"
  pindex :: nat
  block_size :: nat
  vcn_size_bits :: nat

definition ntfs_index_ctx_get :: index_context where
  "ntfs_index_ctx_get = \<lparr>entry = None, icx_collate = None, is_in_root = False, ir = [], ib = [], ia_na = None,
     parent_pos = replicate MAX_PARENT_VCN 0, parent_vcn = replicate MAX_PARENT_VCN 0, pindex = 0,
     block_size = 0, vcn_size_bits = 0\<rparr>"

text \<open>The node that holds the entry of the context.\<close>

definition current :: "index_context \<Rightarrow> bytes" where
  "current icx = (if is_in_root icx then ir_index (ir icx) else ib_index (ib icx))"

definition set_parent_pos :: "nat \<Rightarrow> index_context \<Rightarrow> index_context" where
  "set_parent_pos item icx = icx\<lparr>parent_pos := (parent_pos icx)[pindex icx := item]\<rparr>"

definition set_parent_vcn :: "int \<Rightarrow> index_context \<Rightarrow> index_context" where
  "set_parent_vcn vcn icx = icx\<lparr>parent_vcn := (parent_vcn icx)[pindex icx := vcn]\<rparr>"

section \<open>Reading a block\<close>

definition ntfs_ib_vcn_to_pos :: "index_context \<Rightarrow> int \<Rightarrow> int" where
  "ntfs_ib_vcn_to_pos icx vcn = s64 (vcn * 2 ^ vcn_size_bits icx)"

definition ntfs_attr_pread :: "ntfs_attr option \<Rightarrow> int \<Rightarrow> int \<Rightarrow> bytes result" where
  "ntfs_attr_pread na pos count =
     (case na of
        None \<Rightarrow> Err EINVAL
      | Some pread \<Rightarrow> if pos < 0 \<or> count < 0 then Err EINVAL else pread pos (nat count))"

definition ntfs_attr_mst_pread :: "ntfs_attr option \<Rightarrow> int \<Rightarrow> int \<Rightarrow> nat \<Rightarrow> (nat \<times> bytes) result" where
  "ntfs_attr_mst_pread na pos bk_cnt bk_size =
     (if bk_cnt < 0 \<or> bk_size mod NTFS_BLOCK_SIZE \<noteq> 0 then Err EINVAL
      else res_bind (ntfs_attr_pread na pos (bk_cnt * int bk_size)) (\<lambda>b.
        if b = [] then Ok (0, [])
        else if bk_size = 0 then Fault
        else res_bind (mst_fix_blocks bk_size (length b div bk_size) b) (\<lambda>dst. Ok (length b div bk_size, dst))))"

text \<open>The caller learns only that the reading failed.\<close>

definition ntfs_ib_read :: "index_context \<Rightarrow> int \<Rightarrow> bytes option result" where
  "ntfs_ib_read icx vcn =
     (case ntfs_attr_mst_pread (ia_na icx) (ntfs_ib_vcn_to_pos icx vcn) 1 (block_size icx) of
        Fault \<Rightarrow> Fault
      | Err e \<Rightarrow> Ok None
      | Ok (ret, dst) \<Rightarrow> Ok (if ret = 1 \<and> ntfs_ia_check (block_size icx) dst vcn then Some dst else None))"

definition ntfs_icx_parent_inc :: "index_context \<Rightarrow> index_context result" where
  "ntfs_icx_parent_inc icx =
     (if MAX_PARENT_VCN \<le> pindex icx + 1 then Err EOPNOTSUPP else Ok (icx\<lparr>pindex := pindex icx + 1\<rparr>))"

definition ntfs_icx_parent_dec :: "index_context \<Rightarrow> index_context result" where
  "ntfs_icx_parent_dec icx = (if pindex icx = 0 then Err EINVAL else Ok (icx\<lparr>pindex := pindex icx - 1\<rparr>))"

section \<open>Lookup\<close>

text \<open>Where a lookup ends: the entry is found, or the errno is \<open>ENOENT\<close> and the context is set to the
  entry in front of which the key belongs.\<close>

function descend_into_child_node ::
  "bytes \<Rightarrow> nat \<Rightarrow> index_context \<Rightarrow> int \<Rightarrow> int \<Rightarrow> (bool \<times> index_context) result" where
  "descend_into_child_node k k_len icx old_vcn vcn =
     (case ntfs_icx_parent_inc (set_parent_vcn old_vcn icx) of
        Fault \<Rightarrow> Fault
      | Err e \<Rightarrow> Err e
      | Ok icx' \<Rightarrow>
          (case ntfs_ib_read icx' vcn of
             Fault \<Rightarrow> Fault
           | Err e \<Rightarrow> Err e
           | Ok None \<Rightarrow> Err EIO
           | Ok (Some blk) \<Rightarrow>
               (case ntfs_ie_lookup (icx_collate icx') k k_len (ib_index blk) of
                  Fault \<Rightarrow> Fault
                | Err e \<Rightarrow> Err e
                | Ok (Found ie item) \<Rightarrow>
                    Ok (True, (set_parent_vcn vcn (set_parent_pos item icx'))\<lparr>is_in_root := False, ib := blk, entry := Some ie\<rparr>)
                | Ok (Not_Found ie) \<Rightarrow>
                    Ok (False, (set_parent_vcn vcn icx')\<lparr>is_in_root := False, ib := blk, entry := Some ie\<rparr>)
                | Ok (Keep_Searching sub item) \<Rightarrow>
                    if ih_flags (ib_index blk) AND NODE_MASK = 0 then Err EIO
                    else descend_into_child_node k k_len (set_parent_pos item icx') vcn sub)))"
  by pat_completeness auto
termination
  by (relation "measure (\<lambda>(k, k_len, icx, old_vcn, vcn). MAX_PARENT_VCN - pindex icx)")
    (auto simp: ntfs_icx_parent_inc_def set_parent_pos_def set_parent_vcn_def MAX_PARENT_VCN_def split: if_splits)

declare descend_into_child_node.simps [simp del]

text \<open>The size of a block that is too small is reported as \<open>EIO\<close>: \<open>err\<close> is not set on this path.\<close>

definition ntfs_index_lookup ::
  "(nat \<Rightarrow> bool) \<Rightarrow> (nat \<Rightarrow> collate result) \<Rightarrow> index_inode \<Rightarrow> bytes \<Rightarrow> int \<Rightarrow> index_context \<Rightarrow> (bool \<times> index_context) result" where
  "ntfs_index_lookup mem get_collate ni k key_len icx =
     (if key_len \<le> 0 then Err EINVAL
      else case ir_lookup ni of
        Fault \<Rightarrow> Fault
      | Err e \<Rightarrow> Err (if e = ENOENT then EIO else e)
      | Ok root \<Rightarrow>
          let icx = icx\<lparr>block_size := index_block_size root\<rparr>
          in if block_size icx < 512 then Err EIO
             else let icx = icx\<lparr>vcn_size_bits := if cluster_size ni \<le> block_size icx then cluster_size_bits ni else 9\<rparr>
                  in case get_collate (collation_rule root) of
                    Fault \<Rightarrow> Fault
                  | Err e \<Rightarrow> Err EOPNOTSUPP
                  | Ok cmp \<Rightarrow>
                      let icx = icx\<lparr>icx_collate := Some cmp\<rparr>
                      in case ntfs_ie_lookup (icx_collate icx) k (nat key_len) (ir_index root) of
                        Fault \<Rightarrow> Fault
                      | Err e \<Rightarrow> Err e
                      | Ok (Found ie item) \<Rightarrow>
                          Ok (True, (set_parent_vcn VCN_INDEX_ROOT_PARENT (set_parent_pos item (icx\<lparr>ir := root\<rparr>)))\<lparr>is_in_root := True, entry := Some ie\<rparr>)
                      | Ok (Not_Found ie) \<Rightarrow>
                          Ok (False, (set_parent_vcn VCN_INDEX_ROOT_PARENT (icx\<lparr>ir := root\<rparr>))\<lparr>is_in_root := True, entry := Some ie\<rparr>)
                      | Ok (Keep_Searching vcn item) \<Rightarrow>
                          (if ia_open ni = None then Err EIO
                           else if \<not> mem (block_size icx) then Err ENOMEM
                           else descend_into_child_node k (nat key_len) (set_parent_pos item (icx\<lparr>ir := root, ia_na := ia_open ni\<rparr>)) VCN_INDEX_ROOT_PARENT vcn))"

section \<open>Traversal\<close>

text \<open>Down to the first entry of a leaf. The code does not test the depth: behind 32 levels it would
  write outside the arrays of the context. A block that cannot be read ends the walk.\<close>

function ntfs_index_walk_down :: "(nat \<Rightarrow> bool) \<Rightarrow> index_context \<Rightarrow> nat \<Rightarrow> (nat option \<times> index_context) result" where
  "ntfs_index_walk_down mem icx ie =
     (case ntfs_ie_get_vcn (current icx) ie of
        Fault \<Rightarrow> Fault
      | Err e \<Rightarrow> Err e
      | Ok vcn \<Rightarrow>
          if \<not> is_in_root icx \<and> MAX_PARENT_VCN \<le> pindex icx + 1 then Fault
          else let icx' = set_parent_vcn vcn (set_parent_pos 0
                     (if is_in_root icx then icx\<lparr>ir := [], ib := [], pindex := 1, is_in_root := False\<rparr>
                      else icx\<lparr>pindex := pindex icx + 1\<rparr>))
               in if is_in_root icx \<and> \<not> mem (block_size icx) then Ok (None, icx')
                  else case ntfs_ib_read icx' vcn of
                    Fault \<Rightarrow> Fault
                  | Err e \<Rightarrow> Err e
                  | Ok None \<Rightarrow> Ok (None, icx')
                  | Ok (Some blk) \<Rightarrow>
                      let e = ntfs_ie_get_first (ib_index blk); icx'' = icx'\<lparr>ib := blk, entry := Some e\<rparr>
                      in if length (ib_index blk) < e + 14 then Fault
                         else if ie_flags (ib_index blk) e AND INDEX_ENTRY_NODE = 0 then Ok (Some e, icx'')
                         else ntfs_index_walk_down mem icx'' e)"
  by pat_completeness auto
termination
  by (relation "measure (\<lambda>(mem, icx, ie). if is_in_root icx then MAX_PARENT_VCN else MAX_PARENT_VCN - pindex icx)")
    (auto simp: set_parent_pos_def set_parent_vcn_def MAX_PARENT_VCN_def)

declare ntfs_index_walk_down.simps [simp del]

text \<open>Up to the first entry with data. When the path ends in the root, the root is looked up again.\<close>

function ntfs_index_walk_up :: "index_inode \<Rightarrow> index_context \<Rightarrow> (nat option \<times> index_context) result" where
  "ntfs_index_walk_up ni icx =
     (if pindex icx = 0 then Ok (None, icx)
      else let icx = icx\<lparr>pindex := pindex icx - 1\<rparr>
           in if pindex icx = 0
              then (case ir_lookup ni of
                      Fault \<Rightarrow> Fault
                    | Err e \<Rightarrow> Ok (None, icx\<lparr>ib := [], is_in_root := True, ir := [], entry := None\<rparr>)
                    | Ok root \<Rightarrow>
                        res_bind (ntfs_ie_get_by_pos (ir_index root) (parent_pos icx ! pindex icx)) (\<lambda>e.
                          Ok (Some e, icx\<lparr>ib := [], is_in_root := True, ir := root, entry := Some e\<rparr>)))
              else (case ntfs_ib_read icx (parent_vcn icx ! pindex icx) of
                      Fault \<Rightarrow> Fault
                    | Err e \<Rightarrow> Err e
                    | Ok None \<Rightarrow> Ok (None, icx\<lparr>entry := None\<rparr>)
                    | Ok (Some blk) \<Rightarrow>
                        (case ntfs_ie_get_by_pos (ib_index blk) (parent_pos icx ! pindex icx) of
                           Fault \<Rightarrow> Fault
                         | Err e \<Rightarrow> Err e
                         | Ok e \<Rightarrow>
                             if length (ib_index blk) < e + 14 then Fault
                             else if ie_flags (ib_index blk) e AND INDEX_ENTRY_END = 0 then Ok (Some e, icx\<lparr>ib := blk, entry := Some e\<rparr>)
                             else ntfs_index_walk_up ni (icx\<lparr>ib := blk, entry := Some e\<rparr>))))"
  by pat_completeness auto
termination by (relation "measure (\<lambda>(ni, icx). pindex icx)") auto

declare ntfs_index_walk_up.simps [simp del]

definition ntfs_index_next ::
  "(nat \<Rightarrow> bool) \<Rightarrow> index_inode \<Rightarrow> nat \<Rightarrow> index_context \<Rightarrow> (nat option \<times> index_context) result" where
  "ntfs_index_next mem ni ie icx =
     res_bind
       (if length (current icx) < ie + 14 then Fault
        else if ie_flags (current icx) ie AND INDEX_ENTRY_END \<noteq> 0 then ntfs_index_walk_up ni icx
        else let nxt = ie + ie_length (current icx) ie;
                 icx = set_parent_pos (parent_pos icx ! pindex icx + 1) icx
             in if length (current icx) < nxt + 14 then Fault
                else if ie_flags (current icx) nxt AND INDEX_ENTRY_NODE \<noteq> 0 then ntfs_index_walk_down mem icx nxt
                else if ie_flags (current icx) nxt AND INDEX_ENTRY_END \<noteq> 0 then ntfs_index_walk_up ni icx
                else Ok (Some nxt, icx))
       (\<lambda>(next, icx).
          case next of
            None \<Rightarrow> Ok (None, icx)
          | Some e \<Rightarrow>
              if length (current icx) < e + 14 then Fault
              else Ok (if ie_flags (current icx) e AND INDEX_ENTRY_END \<noteq> 0 then None else Some e, icx))"

end
