(* ===== verification/Index_Split.thy ===== *)
theory Index_Split
  imports Index_Block
begin

text \<open>
  What new blocks hold, and that a split distributes the entries of a block: the entries behind the
  median go to the new block, those before it stay, closed by an end entry with the sub-node of the
  median.
\<close>

unbundle bit_operations_syntax

section \<open>New blocks\<close>

lemma le_at_drop: "m \<le> length b \<Longrightarrow> le_at n (drop m b) i = le_at n b (m + i)"
  using le_at_append(2) [of n "take m b" "drop m b" i] by simp

lemma le_at_take: "i + n \<le> m \<Longrightarrow> m \<le> length b \<Longrightarrow> le_at n (take m b) i = le_at n b i"
  using le_at_append(1) [of i n "take m b" "drop m b"] by simp

definition block_entries :: "nat \<Rightarrow> nat" where
  "block_entries bs = (16 + (bs div 512 + 1) * 2 + 7) div 8 * 8"

lemma block_entries_bounds: "512 \<le> bs \<Longrightarrow> bs \<le> 65536 \<Longrightarrow> 16 \<le> block_entries bs \<and> block_entries bs \<le> bs - 24"
proof -
  assume a: "512 \<le> bs" "bs \<le> 65536"
  define q where "q = bs div 512"
  have q: "1 \<le> q" "q * 512 \<le> bs" using div_le_mono [OF a(1), of 512] by (simp_all add: q_def)
  let ?x = "16 + (q + 1) * 2 + 7"
  have "24 div 8 \<le> ?x div 8" using q(1) by (intro div_le_mono) simp
  moreover have "?x div 8 * 8 \<le> ?x" by (rule div_times_less_eq_dividend)
  moreover have "?x + 24 \<le> bs" using q by (simp add: algebra_simps)
  moreover have "block_entries bs = ?x div 8 * 8" by (simp add: block_entries_def q_def)
  ultimately show ?thesis by simp
qed

text \<open>A block that was written by the code: it passes the check and its update sequence lies
  between header and entries.\<close>

definition block_ok :: "nat \<Rightarrow> int \<Rightarrow> bytes \<Rightarrow> bool" where
  "block_ok bs vcn ib \<longleftrightarrow> length ib = bs \<and> take 4 ib = magic_INDX \<and> index_block_vcn ib = vcn \<and>
     le_at 2 ib 4 = 40 \<and> le_at 2 ib 6 = bs div 512 + 1"

lemma ib_alloc:
  assumes "mem bs" and "512 \<le> bs" and "bs \<le> 65536" and "in_s64 vcn" and "node_type < 256"
  shows "\<exists>ib. ntfs_ib_alloc mem vcn bs node_type = Ok ib \<and> block_ok bs vcn ib \<and>
    entries_offset (ib_index ib) = block_entries bs \<and> allocated_size (ib_index ib) = bs - 24 \<and>
    ih_flags (ib_index ib) = node_type"
proof -
  define usa where "usa = bs div 512 + 1"
  have usa: "usa mod 2 ^ 16 = usa" using assms(3) by (simp add: usa_def)
  define b where "b = put_at (put_at (put_at (put_at (put_at (put_at (put_at (put_at (put_at (put_at (replicate bs 0)
    0 magic_INDX) 4 (le_bytes 2 40)) 6 (le_bytes 2 usa)) 40 (le_bytes 2 1)) 8 (le_bytes 8 0)) 16 (le_bytes 8 (nat (vcn mod 2 ^ 64))))
    24 (le_bytes 4 (block_entries bs))) 28 (le_bytes 4 0)) 32 (le_bytes 4 (bs - 24))) 36 (le_bytes 1 node_type)"
  have b: "ntfs_ib_alloc mem vcn bs node_type = Ok b"
    using assms(1,2) unfolding ntfs_ib_alloc_def Let_def usa_def [symmetric] usa b_def block_entries_def by simp
  have vcn: "s64 (vcn mod 2 ^ 64) = vcn" using assms(4) unfolding s64_def in_s64_def by (simp add: mod_add_left_eq)
  have small: "block_entries bs < 2 ^ 32" 
  proof -
    have "block_entries bs \<le> 65536" using block_entries_bounds [OF assms(2,3)] assms(3) by linarith
    then show ?thesis by simp
  qed
  have len: "length b = bs" using assms(2) by (simp add: b_def magic_INDX_def)
  have "take 4 b = map (byte_at b) [0..<4]" using len assms(2) by (intro nth_equalityI) (simp_all add: byte_at_def)
  also have "map (byte_at b) [0..<4] = map (\<lambda>i. magic_INDX ! i) [0..<4]"
    using assms(2) by (intro map_cong) (simp_all add: b_def magic_INDX_def byte_at_put_at)
  finally have magic: "take 4 b = magic_INDX" by (simp add: magic_INDX_def upt_rec)
  have f: "le_at 8 b 16 = nat (vcn mod 2 ^ 64)" "le_at 2 b 4 = 40" "le_at 2 b 6 = usa" "le_at 4 b 24 = block_entries bs"
    "le_at 4 b 32 = bs - 24"
    using assms(2,3,5) small usa
    by (simp_all add: b_def magic_INDX_def le_at_put_at_other le_at_put_at_same)
  have g: "le_at 1 b 36 = node_type"
    using assms(2,5) unfolding b_def by (subst le_at_put_at_same) (simp_all add: magic_INDX_def)
  have "block_ok bs vcn b" using len magic f vcn by (simp add: block_ok_def index_block_vcn_def usa_def)
  moreover have "entries_offset (ib_index b) = block_entries bs" "allocated_size (ib_index b) = bs - 24" "ih_flags (ib_index b) = node_type"
    using f g len assms(2) by (simp_all add: entries_offset_def allocated_size_def ih_flags_def le_at_drop INDEX_BLOCK_index_def)
  ultimately show ?thesis using b by blast
qed

text \<open>Entries stored in a new node, whose length is set afterwards.\<close>

lemma fresh_node:
  assumes "16 \<le> entries_offset ih" and "entries_ok ts" and "entries_offset ih + length (concat ts) \<le> length ih"
    and "length ih < 2 ^ 32"
  defines "n \<equiv> entries_offset ih + length (concat ts)"
  shows "\<exists>h slack. set_index_length (put_at ih (entries_offset ih) (concat ts)) n = node h ts slack \<and> header_ok h ts \<and>
    length h = entries_offset ih \<and> allocated_size h = allocated_size ih \<and> ih_flags h = ih_flags ih \<and> length (node h ts slack) = length ih"
proof -
  let ?O = "entries_offset ih"
  define h slack where "h = take ?O ih" and "slack = drop n ih"
  have len: "length h = ?O" "n < 2 ^ 32" "n = length h + length (concat ts)" using assms(3,4) by (simp_all add: h_def n_def)
  have "put_at ih ?O (concat ts) = node h ts slack" by (simp add: put_at_def node_def h_def slack_def n_def)
  then have "set_index_length (put_at ih ?O (concat ts)) n = node (set_index_length h n) ts slack"
    using set_index_length_node [of h ts slack n] assms(1) len(1) by simp
  moreover have f: "entries_offset h = ?O" "allocated_size h = allocated_size ih" "ih_flags h = ih_flags ih"
    using assms(1,3) by (simp_all add: h_def entries_offset_def allocated_size_def ih_flags_def le_at_take)
  moreover have "16 \<le> length h" using assms(1) len(1) by simp
  note g = set_index_length_fields [OF this len(2)]
  moreover have "header_ok (set_index_length h n) ts" using assms(1,2) f g len by (simp add: header_ok_def)
  moreover have "length (node (set_index_length h n) ts slack) = length ih" using g(1) len assms(3) by (simp add: node_def slack_def)
  ultimately show ?thesis using len(1) by (intro exI [of _ "set_index_length h n"] exI [of _ slack]) simp
qed

lemma with_index_block: "24 \<le> length ib \<Longrightarrow> ib_index (with_index INDEX_BLOCK_index ib ih) = ih"
  by (simp add: with_index_def INDEX_BLOCK_index_def)

lemma block_ok_with_index:
  assumes "block_ok bs vcn ib" and "length ih = length (ib_index ib)" and "24 \<le> bs"
  shows "block_ok bs vcn (with_index INDEX_BLOCK_index ib ih)"
proof -
  have l: "24 \<le> length ib" using assms(1,3) by (simp add: block_ok_def)
  have "le_at n (with_index INDEX_BLOCK_index ib ih) i = le_at n ib i" if "i + n \<le> 24" for n i
    using that l le_at_append(1) [of i n "take 24 ib" ih] le_at_take [of i n 24 ib] by (simp add: with_index_def INDEX_BLOCK_index_def)
  then show ?thesis using assms l by (simp add: block_ok_def index_block_vcn_def with_index_def INDEX_BLOCK_index_def)
qed

section \<open>The two halves of a split\<close>

lemma entries_ok_drop: "entries_ok es \<Longrightarrow> k < length es \<Longrightarrow> entries_ok (drop k es)"
  by (auto simp: entries_ok_def list_all_iff butlast_drop dest: in_set_dropD)

lemma entries_ok_close:
  assumes "entries_ok es" and "m < length es" and "entry_ok e" and "is_end e"
  shows "entries_ok (take m es @ [e])"
proof -
  have "list_all (\<lambda>e. \<not> is_end e) (take m es)"
    using assms(1) unfolding take_butlast [OF assms(2), symmetric] entries_ok_def list_all_iff by (auto dest: in_set_takeD)
  moreover have "list_all entry_ok (take m es)" using assms(1) by (auto simp: entries_ok_def list_all_iff dest: in_set_takeD)
  ultimately show ?thesis using assms(3,4) by (simp add: entries_ok_def)
qed

lemma copy_tail_block:
  assumes "header_ok h es" and "ib_index src = node h es slack" and "Suc m < length es"
    and "mem bs" and "512 \<le> bs" and "bs \<le> 65536" and "in_s64 vcn" and "length (concat (drop (Suc m) es)) \<le> bs - 24 - block_entries bs"
  shows "\<exists>ib h' slack'. ib_copy_tail mem bs src (entry_pos h es m) vcn = Ok ib \<and> block_ok bs vcn ib \<and>
    ib_index ib = node h' (drop (Suc m) es) slack' \<and> header_ok h' (drop (Suc m) es) \<and>
    allocated_size h' = bs - 24 \<and> ih_flags h' = ih_flags h AND 1"
proof -
  let ?ts = "drop (Suc m) es"
  have "ih_flags (ib_index src) AND NODE_MASK < 256"
    using le_at_bound [of 1 "ib_index src" 12] by (simp add: NODE_MASK_def and_one_eq ih_flags_def)
  then obtain dst where dst: "ntfs_ib_alloc mem vcn bs (ih_flags (ib_index src) AND NODE_MASK) = Ok dst" "block_ok bs vcn dst"
    "entries_offset (ib_index dst) = block_entries bs" "allocated_size (ib_index dst) = bs - 24"
    "ih_flags (ib_index dst) = ih_flags (ib_index src) AND NODE_MASK"
    using ib_alloc [of mem, OF assms(4-7)] by blast
  have O: "16 \<le> block_entries bs" "block_entries bs \<le> bs - 24" using block_entries_bounds [OF assms(5,6)] by simp_all
  define D S where "D = ib_index dst" and "S = ib_index src"
  note D = dst(3-5) [folded D_def S_def] and S = assms(2) [folded S_def]
  have len: "length D = bs - 24" using dst(2) by (simp add: block_ok_def INDEX_BLOCK_index_def D_def)
  have next': "ntfs_ie_get_next S (entry_pos h es m) = Ok (entry_pos h es (Suc m))"
    unfolding S using node_get_next [OF assms(1), of m slack] assms(3) by simp
  have tail: "concat es = concat (take (Suc m) es) @ concat ?ts" by (rule concat_halves)
  then have size: "int (ntfs_ie_get_end S) - int (entry_pos h es (Suc m)) = int (length (concat ?ts))"
    unfolding S node_end [OF assms(1)] by (simp add: entry_pos_def)
  have piece: "take (length (concat ?ts)) (drop (entry_pos h es (Suc m)) S) = concat ?ts"
    unfolding S node_def entry_pos_def by (simp add: tail)
  have "entry_pos h es (Suc m) + length (concat ?ts) \<le> length S"
    unfolding S length_node by (simp add: entry_pos_def tail)
  then have copy: "copy_to D (ntfs_ie_get_first D) S (entry_pos h es (Suc m)) (int (length (concat ?ts)))
      = Ok (put_at D (block_entries bs) (concat ?ts))"
    using assms(8) O len by (simp add: copy_to_def ntfs_ie_get_first_def D(1) piece)
  have ok: "entries_ok ?ts" using entries_ok_drop [of es "Suc m"] assms(1,3) by (simp add: header_ok_def)
  have fits: "block_entries bs + length (concat ?ts) \<le> bs - 24" using O assms(8) by linarith
  have small: "bs - 24 < 2 ^ 32"
  proof -
    have "bs - 24 \<le> 65536" using assms(6) by simp
    then show ?thesis by simp
  qed
  have "16 \<le> entries_offset D" "entries_offset D + length (concat ?ts) \<le> length D" "length D < 2 ^ 32"
    using O fits small by (simp_all only: D len)
  then obtain h' slack' where n: "set_index_length (put_at D (block_entries bs) (concat ?ts)) (block_entries bs + length (concat ?ts))
      = node h' ?ts slack'" "header_ok h' ?ts" "length h' = block_entries bs" "allocated_size h' = bs - 24"
      "ih_flags h' = ih_flags S AND NODE_MASK" "length (node h' ?ts slack') = length D"
    using fresh_node [of D, OF _ ok] unfolding D by blast
  have off: "entries_offset (put_at D (block_entries bs) (concat ?ts)) = block_entries bs"
    using O assms(8) len D(1) unfolding entries_offset_def by (subst le_at_put_at_other) simp_all
  have N: "nat ((int (length (concat ?ts)) + int (block_entries bs)) mod 2 ^ 32) = block_entries bs + length (concat ?ts)"
    using fits small by (simp add: nat_add_distrib flip: of_nat_add)
  have "ib_copy_tail mem bs src (entry_pos h es m) vcn = Ok (with_index INDEX_BLOCK_index dst (node h' ?ts slack'))"
    unfolding ib_copy_tail_def S_def [symmetric]
    by (simp only: res_bind.simps dst(1) [folded S_def] next' Let_def size D_def [symmetric] copy off N n(1))
  moreover have "24 \<le> length dst" using dst(2) assms(5) by (simp add: block_ok_def)
  moreover have "ih_flags h' = ih_flags h AND 1" using n(5) by (simp add: S node_header [OF assms(1)] NODE_MASK_def)
  ultimately show ?thesis
    using n block_ok_with_index [OF dst(2) n(6) [unfolded D_def]] with_index_block [of dst] assms(5)
    by (intro exI [of _ "with_index INDEX_BLOCK_index dst (node h' ?ts slack')"] exI [of _ h'] exI [of _ slack']) simp
qed

lemma entry_pos_mono: "j \<le> k \<Longrightarrow> entry_pos h es j \<le> entry_pos h es k"
  by (auto simp: entry_pos_def le_iff_add take_add)

text \<open>The end entry that closes the block that remains.\<close>

definition closing :: "bytes \<Rightarrow> bytes \<Rightarrow> bytes" where
  "closing med e = (if has_node e then with_vcn (entry_vcn med) e else e)"

lemma closing_entry:
  assumes "entry_ok e"
  shows "entry_ok (closing med e)" "is_end (closing med e) = is_end e" "has_node (closing med e) = has_node e"
    "length (closing med e) = length e" "has_node e \<Longrightarrow> in_s64 (entry_vcn med) \<Longrightarrow> entry_vcn (closing med e) = entry_vcn med"
  using assms with_vcn_entry [of e "entry_vcn med"] entry_vcn_with_vcn [of e "entry_vcn med"]
  by (auto simp: closing_def entry_ok_def)

lemma entries_ok_end: "entries_ok es \<Longrightarrow> i < length es \<Longrightarrow> is_end (es ! i) \<longleftrightarrow> Suc i = length es"
  by (cases "i = length es - 1") (auto simp: entries_ok_def list_all_length nth_butlast last_conv_nth)

lemma entries_ok_update:
  assumes "entries_ok es" and "k < length es" and "entry_ok e" and "is_end e = is_end (es ! k)"
  shows "entries_ok (es[k := e])"
proof -
  have n: "is_end (es[k := e] ! i) = (Suc i = length es)" if "i < length es" for i
    using entries_ok_end [OF assms(1) that] entries_ok_end [OF assms(1,2)] assms(2,4) that by (cases "i = k") simp_all
  have ne: "es \<noteq> []" using assms(2) by auto
  have "list_all entry_ok (es[k := e])" using assms(1-3) by (auto simp: entries_ok_def list_all_length nth_list_update)
  moreover have "is_end (last (es[k := e]))" using n [of "length es - 1"] ne by (simp add: last_conv_nth)
  moreover have "list_all (\<lambda>e. \<not> is_end e) (butlast (es[k := e]))" using n by (auto simp: list_all_length nth_butlast)
  ultimately show ?thesis using ne by (simp add: entries_ok_def)
qed

lemma node_update_header: "header_ok h es \<Longrightarrow> k < length es \<Longrightarrow> entry_ok e \<Longrightarrow> is_end e = is_end (es ! k) \<Longrightarrow>
    length e = length (es ! k) \<Longrightarrow> header_ok h (es[k := e])"
  using entries_ok_update [of es k e] concat_split [of k es] by (simp add: header_ok_def upd_conv_take_nth_drop)

lemma cut_tail_block:
  assumes "header_ok h es" and "ib_index ib = node h es slack" and "Suc m < length es"
    and "has_node (es ! m) = has_node (last es)" and "24 \<le> length ib" and "length ib < 2 ^ 32"
  shows "\<exists>h' slack'. ib_cut_tail ib (entry_pos h es m) =
      Ok (with_index INDEX_BLOCK_index ib (node h' (take m es @ [closing (es ! m) (last es)]) slack')) \<and>
    header_ok h' (take m es @ [closing (es ! m) (last es)]) \<and>
    allocated_size h' = allocated_size h \<and> ih_flags h' = ih_flags h \<and>
    length (node h' (take m es @ [closing (es ! m) (last es)]) slack') = length (ib_index ib)"
proof -
  let ?k = "length es - 1" and ?e = "closing (es ! m) (last es)"
  have k: "?k < length es" "m < length es" "m \<noteq> ?k" using assms(3) by simp_all
  have last: "last es = es ! ?k" using assms(3) by (subst last_conv_nth) auto
  have ok: "entry_ok (last es)" "entry_ok (es ! m)" using entry_okD [OF assms(1) k(1)] entry_okD [OF assms(1) k(2)] last by simp_all
  note e = closing_entry [OF ok(1), of "es ! m"]
  let ?es = "es[?k := ?e]"
  have h1: "header_ok h ?es" by (rule node_update_header [OF assms(1) k(1)]) (use e ok last in auto)
  have set: "(if ie_flags (node h es slack) (entry_pos h es ?k) AND INDEX_ENTRY_NODE \<noteq> 0
      then res_bind (ntfs_ie_get_vcn (node h es slack) (entry_pos h es m)) (ntfs_ie_set_vcn (node h es slack) (entry_pos h es ?k))
      else Ok (node h es slack)) = Ok (node h ?es slack)"
  proof (cases "has_node (last es)")
    case True
    then have "24 \<le> length (es ! m)" "24 \<le> length (es ! ?k)" using ok assms(4) last by (simp_all add: entry_ok_def)
    then show ?thesis using True node_get_vcn [OF assms(1) k(2)] node_set_vcn [OF assms(1) k(1)] entry_fields(3) [OF assms(1) k(1), of slack] last
      by (simp add: has_node_def closing_def)
  next
    case False
    then show ?thesis using entry_fields(3) [OF assms(1) k(1), of slack] last by (simp add: has_node_def closing_def)
  qed
  define P R where "P = h @ concat (take m es)" and "R = drop (length ?e) (concat (drop m ?es) @ slack)"
  have lenP: "length P = entry_pos h es m" by (simp add: P_def entry_pos_def)
  have take': "take m ?es = take m es" using assms(3) by simp
  have pos: "entry_pos h ?es j = entry_pos h es j" if "j \<le> ?k" for j using that by (simp add: entry_pos_def)
  have img: "node h ?es slack = P @ concat (drop m ?es) @ slack"
    unfolding node_def P_def using concat_halves [of ?es m] take' by simp
  have last': "?es ! ?k = ?e" using k(1) by simp
  have piece: "take (length ?e) (drop (entry_pos h es ?k) (node h ?es slack)) = ?e"
    using node_split [of ?k ?es h slack] k(1) pos [of ?k] by (simp add: entry_pos_def)
  have bound: "entry_pos h es ?k + length ?e \<le> length (node h ?es slack)"
    using entry_fields(5) [OF h1, of ?k slack] k(1) last' pos [of ?k] by simp
  have mono: "entry_pos h es m \<le> entry_pos h es ?k" using k(2) by (intro entry_pos_mono) simp
  have room: "length ?e \<le> length (concat (drop m ?es) @ slack)"
    using bound mono arg_cong [OF img, of length] lenP by simp
  have out: "node h (take m es @ [?e]) R = P @ ?e @ R" by (simp add: node_def P_def)
  have len_ih: "length (ib_index ib) = length (node h ?es slack)"
    unfolding assms(2) using h1 assms(1) by (simp add: length_node header_ok_def entry_pos_def)
  have "copy_to (node h ?es slack) (entry_pos h es m) (node h ?es slack) (entry_pos h es ?k) (int (length ?e)) =
      Ok (put_at (node h ?es slack) (entry_pos h es m) ?e)"
    unfolding copy_to_def using bound mono piece by simp
  also have "put_at (node h ?es slack) (entry_pos h es m) ?e = P @ ?e @ R"
    unfolding img lenP [symmetric] using room by (simp add: put_at_def R_def)
  finally have copy: "copy_to (node h ?es slack) (entry_pos h es m) (node h ?es slack) (entry_pos h es ?k) (int (length ?e)) =
      Ok (node h (take m es @ [?e]) R)" by (simp only: out)
  have elen: "ie_length (node h ?es slack) (entry_pos h es ?k) = length ?e"
    using entry_fields(1) [OF h1, of ?k slack] k(1) last' pos [of ?k] by simp
  have mlen: "ie_length (node h (take m es @ [?e]) R) (entry_pos h es m) = length ?e"
    unfolding out lenP [symmetric] ie_length_def using le_at_append(2) [of 2 P "?e @ R" 8] e(1)
    by (simp add: entry_ok_def ie_length_def)
  have h16: "16 \<le> length h" "entries_offset h = length h" using assms(1) by (simp_all add: header_ok_def)
  have off: "entries_offset (node h (take m es @ [?e]) R) = length h"
    using h16 by (simp add: node_def entries_offset_def)
  define n where "n = length h + length (concat (take m es @ [?e]))"
  have nlen: "entry_pos h es m + length ?e = n" by (simp add: n_def entry_pos_def)
  have small: "n < 2 ^ 32"
  proof -
    have "n \<le> length (ib_index ib)" using nlen bound mono len_ih by linarith
    also have "\<dots> \<le> length ib" by simp
    finally show ?thesis using assms(6) by linarith
  qed
  have N: "nat ((int (entry_pos h es m) - int (length h) + int (length ?e) + int (length h)) mod 2 ^ 32) = n"
    using small nlen by (simp flip: of_nat_add)
  have "is_end ?e" using e(2) is_end_nth [OF assms(1) k(1)] last k(1) by simp
  then have "entries_ok (take m es @ [?e])" using assms(1) e(1) k(2) by (intro entries_ok_close) (simp_all add: header_ok_def)
  then have hdr: "header_ok (set_index_length h n) (take m es @ [?e])"
    by (rule header_ok_update [OF assms(1) _ n_def small])
  have fst': "ntfs_ie_get_last (ib_index ib) (ntfs_ie_get_first (ib_index ib)) (ntfs_ie_get_end (ib_index ib)) = Ok (entry_pos h es ?k)"
    unfolding assms(2) node_first [OF assms(1)] node_end [OF assms(1)]
    by (rule node_get_last [OF assms(1)]) (rule node_nonempty [OF assms(1)])
  have first: "ntfs_ie_get_first (node h es slack) = length h" using node_first [OF assms(1)] by simp
  have "\<not> length (node h es slack) < entry_pos h es ?k + 14" using entry_fields(4) [OF assms(1) k(1), of slack] by simp
  then have "ib_cut_tail ib (entry_pos h es m) =
      Ok (with_index INDEX_BLOCK_index ib (set_index_length (node h (take m es @ [?e]) R) n))"
    unfolding ib_cut_tail_def Let_def fst' res_bind.simps
    unfolding assms(2) set res_bind.simps
    by (simp only: if_False set res_bind.simps elen copy mlen off first N)
  moreover have "length (node h (take m es @ [?e]) R) = length (node h ?es slack)"
    unfolding out img using room by (simp add: R_def)
  ultimately show ?thesis
    using hdr set_index_length_fields [OF h16(1) small] set_index_length_node [OF h16(1), of "take m es @ [?e]" R n] len_ih
    by (intro exI [of _ "set_index_length h n"] exI [of _ R]) (simp add: node_def)
qed

end
