(* ===== verification/Index_Parent.thy ===== *)
theory Index_Parent
  imports Index_Split
begin

text \<open>
  The other side of a split: the median moves up to the parent, takes over the sub-node of the
  entry it is put in front of, and that entry gets the new block.
\<close>

unbundle bit_operations_syntax

section \<open>Room for a sub-node\<close>

definition added :: "(nat \<Rightarrow> u8) \<Rightarrow> bytes \<Rightarrow> bytes" where
  "added fresh e = set_ie_flags (set_ie_length e 0 (length e + 8)) 0 (ie_flags e 0 OR INDEX_ENTRY_NODE) @
     map fresh [length e..<length e + 8]"

lemma set_ie_fields:
  assumes "16 \<le> length e" and "n < 2 ^ 16"
  shows "length (set_ie_length e 0 n) = length e" "ie_length (set_ie_length e 0 n) 0 = n" "ie_flags (set_ie_length e 0 n) 0 = ie_flags e 0"
    "ie_key_length (set_ie_length e 0 n) 0 = ie_key_length e 0" "drop 16 (set_ie_length e 0 n) = drop 16 e"
    "length (set_ie_flags e 0 n) = length e" "ie_length (set_ie_flags e 0 n) 0 = ie_length e 0" "ie_flags (set_ie_flags e 0 n) 0 = n"
    "ie_key_length (set_ie_flags e 0 n) 0 = ie_key_length e 0" "drop 16 (set_ie_flags e 0 n) = drop 16 e"
  using assms by (simp_all add: set_ie_length_def set_ie_flags_def ie_length_def ie_flags_def ie_key_length_def
    le_at_put_at_same le_at_put_at_other) (simp_all add: put_at_def)

lemma ie_fields_append:
  assumes "16 \<le> length e"
  shows "ie_length (e @ x) 0 = ie_length e 0" "ie_flags (e @ x) 0 = ie_flags e 0" "ie_key_length (e @ x) 0 = ie_key_length e 0"
  using assms by (simp_all add: ie_length_def ie_flags_def ie_key_length_def)

lemma flags_or_node:
  fixes f :: nat
  assumes "f < 2 ^ 16"
  shows "f OR INDEX_ENTRY_NODE < 2 ^ 16" "(f OR INDEX_ENTRY_NODE) AND INDEX_ENTRY_NODE \<noteq> 0"
    "(f OR INDEX_ENTRY_NODE) AND INDEX_ENTRY_END = f AND INDEX_ENTRY_END"
proof -
  have "take_bit 16 (f OR 1) = f OR 1" using assms by (simp add: take_bit_or take_bit_nat_eq_self)
  then show "f OR INDEX_ENTRY_NODE < 2 ^ 16" unfolding INDEX_ENTRY_NODE_def by (metis take_bit_nat_less_exp)
  show "(f OR INDEX_ENTRY_NODE) AND INDEX_ENTRY_NODE \<noteq> 0"
    unfolding INDEX_ENTRY_NODE_def and_one_eq by (simp add: even_or_iff mod2_eq_if)
  have "bit (2 :: nat) n \<Longrightarrow> n = 1" for n by (metis bit_2_iff)
  then show "(f OR INDEX_ENTRY_NODE) AND INDEX_ENTRY_END = f AND INDEX_ENTRY_END"
    unfolding INDEX_ENTRY_NODE_def INDEX_ENTRY_END_def by (auto simp: bit_eq_iff bit_simps)
qed

lemma added_entry:
  assumes "entry_ok e" and "length e + 8 < 2 ^ 16"
  shows "length (added fresh e) = length e + 8" "entry_ok (added fresh e)" "has_node (added fresh e)"
    "is_end (added fresh e) = is_end e" "ie_key_length (added fresh e) 0 = ie_key_length e 0"
    "drop 16 (added fresh e) = drop 16 e @ map fresh [length e..<length e + 8]"
proof -
  let ?a = "set_ie_length e 0 (length e + 8)"
  let ?b = "set_ie_flags ?a 0 (ie_flags e 0 OR INDEX_ENTRY_NODE)"
  have l: "16 \<le> length e" using assms(1) by (simp add: entry_ok_def)
  have f: "ie_flags e 0 < 2 ^ 16" using le_at_bound [of 2 e 12] by (simp add: ie_flags_def)
  note a = set_ie_fields [OF l assms(2)]
  have l': "16 \<le> length ?a" using a(1) l by simp
  note b = set_ie_fields [OF l' flags_or_node(1) [OF f]]
  have l'': "16 \<le> length ?b" using a(1) b(6) l by simp
  note c = ie_fields_append [OF l'', of "map fresh [length e..<length e + 8]", folded added_def]
  show len: "length (added fresh e) = length e + 8" using a(1) b(6) by (simp add: added_def)
  show "has_node (added fresh e)" "is_end (added fresh e) = is_end e"
    using c(2) b(8) flags_or_node [OF f] by (simp_all add: has_node_def is_end_def)
  then show "entry_ok (added fresh e)" using len c(1) a(2) b(7) l by (simp add: entry_ok_def)
  show "ie_key_length (added fresh e) 0 = ie_key_length e 0" using c(3) a(4) b(9) by simp
  have "drop 16 (added fresh e) = drop 16 ?b @ map fresh [length e..<length e + 8]" using l'' by (simp add: added_def)
  then show "drop 16 (added fresh e) = drop 16 e @ map fresh [length e..<length e + 8]" using a(5) b(10) by simp
qed

lemma ie_add_vcn_added:
  assumes "entry_ok e" and "length e + 8 < 2 ^ 16" and "mem (length e + 8)"
  shows "ntfs_ie_add_vcn mem fresh e = Ok (added fresh e)"
proof -
  let ?a = "set_ie_length e 0 (length e + 8)"
  have l: "16 \<le> length e" "ie_length e 0 = length e" using assms(1) by (simp_all add: entry_ok_def)
  note a = set_ie_fields [OF l(1) assms(2)]
  have l': "16 \<le> length ?a" using a(1) l by simp
  have p: "take (length e + 8) (?a @ map fresh [length e..<length e + 8]) = ?a @ map fresh [length e..<length e + 8]"
    using a(1) by simp
  have "set_ie_flags (?a @ x) 0 f = set_ie_flags ?a 0 f @ x" for x f
    using l' by (simp add: set_ie_flags_def put_at_append)
  then show ?thesis using assms(2,3) l a(3) ie_fields_append(2) [OF l']
    unfolding ntfs_ie_add_vcn_def Let_def l(2) mod_less [OF assms(2)] p by (simp add: added_def)
qed

section \<open>The median in the parent\<close>

definition with_room :: "(nat \<Rightarrow> u8) \<Rightarrow> bytes \<Rightarrow> bytes" where
  "with_room fresh e = (if has_node e then e else added fresh e)"

lemma with_room_entry:
  assumes "entry_ok e" and "length e + 8 < 2 ^ 16"
  shows "entry_ok (with_room fresh e)" "has_node (with_room fresh e)" "is_end (with_room fresh e) = is_end e"
    "length (with_room fresh e) \<le> length e + 8"
  using added_entry [OF assms, of fresh] assms by (auto simp: with_room_def)

lemma ih_insert_node:
  fixes fresh :: "nat \<Rightarrow> u8" and new :: int
  assumes "header_ok h es" and "k < length es" and "has_node (es ! k)"
    and "entry_ok e" and "\<not> is_end e" and "length e + 8 < 2 ^ 16" and "length e + 8 \<le> length slack"
    and "length (node h es slack) < 2 ^ 32" and "\<forall>n. mem n"
  defines "es' \<equiv> take k es @ with_vcn (entry_vcn (es ! k)) (with_room fresh e) # with_vcn new (es ! k) # drop (Suc k) es"
  shows "\<exists>h' slack'. ntfs_ih_insert mem fresh (node h es slack) e new k = Ok (node h' es' slack') \<and> header_ok h' es' \<and>
    allocated_size h' = allocated_size h \<and> ih_flags h' = ih_flags h \<and> length (node h' es' slack') = length (node h es slack)"
proof -
  let ?r = "with_room fresh e" and ?u = "es[k := with_vcn new (es ! k)]"
  note r = with_room_entry [OF assms(4,6), of fresh]
  have l8: "24 \<le> length (es ! k)" "24 \<le> length ?r"
    using entry_okD [OF assms(1,2)] assms(3) r(1,2) by (simp_all add: entry_ok_def)
  have e: "16 \<le> length e" "ie_length e 0 = length e" using assms(4) by (simp_all add: entry_ok_def)
  have dup: "ntfs_ie_dup mem e 0 = Ok e" using e assms(9) by (simp add: ntfs_ie_dup_def)
  have room: "(if ie_flags e 0 AND INDEX_ENTRY_NODE = 0 then ntfs_ie_add_vcn mem fresh e else Ok e) = Ok ?r"
    using ie_add_vcn_added [OF assms(4,6)] assms(9) by (simp add: with_room_def has_node_def)
  have u: "header_ok h ?u" using node_update_header [OF assms(1,2)] with_vcn_entry [OF l8(1), of new] entry_okD [OF assms(1,2)] l8(1) by simp
  have k: "k < length ?u" using assms(2) by simp
  have pos: "entry_pos h ?u k = entry_pos h es k" by (simp add: entry_pos_def)
  have "length (concat ?u) = length (concat es)" using u assms(1) by (simp add: header_ok_def)
  then have lu: "length (node h ?u slack) = length (node h es slack)" by (simp add: node_def)
  have fit: "length ?r \<le> length slack" using r(4) assms(7) by simp
  let ?n = "entry_pos h ?u (length ?u) + length ?r" and ?es = "take k ?u @ ?r # drop k ?u"
  have ins: "ntfs_ie_insert (node h ?u slack) ?r (entry_pos h es k) = Ok (node (set_index_length h ?n) ?es (drop (length ?r) slack))"
    using node_insert [OF u k r(1) fit] lu assms(8) pos by simp
  have h16: "16 \<le> length h" using assms(1) by (simp add: header_ok_def)
  have n: "?n = length h + length (concat ?es)" "?n < 2 ^ 32"
    using concat_halves [of ?u k] fit lu assms(8) by (simp_all add: entry_pos_def length_node)
  have "entries_ok ?es" using entries_ok_insert [of ?u k ?r] u k r(1,3) assms(5) by (simp add: header_ok_def)
  then have h1: "header_ok (set_index_length h ?n) ?es" using header_ok_update [OF u] n by blast
  have es: "?es = take k es @ ?r # with_vcn new (es ! k) # drop (Suc k) es"
    using assms(2) by (simp add: drop_update_swap Cons_nth_drop_Suc [OF assms(2), symmetric])
  have at: "?es ! k = ?r" "k < length ?es" "take k ?es = take k es" "drop (Suc k) ?es = with_vcn new (es ! k) # drop (Suc k) es"
    using assms(2) unfolding es by (simp_all add: nth_append)
  have upd: "?es[k := with_vcn (entry_vcn (es ! k)) ?r] = es'"
    using upd_conv_take_nth_drop [OF at(2)] at(3,4) by (simp add: es'_def)
  have pos': "entry_pos (set_index_length h ?n) ?es k = entry_pos h es k"
    using set_index_length_fields(1) [OF h16 n(2)] at(3) by (simp add: entry_pos_def)
  have set': "ntfs_ie_set_vcn (node (set_index_length h ?n) ?es (drop (length ?r) slack)) (entry_pos h es k) (entry_vcn (es ! k)) =
      Ok (node (set_index_length h ?n) es' (drop (length ?r) slack))"
    using node_set_vcn [OF h1 at(2), of "drop (length ?r) slack" "entry_vcn (es ! k)"] at(1) l8(2) pos' upd by simp
  have hdr: "header_ok (set_index_length h ?n) es'"
    using node_update_header [OF h1 at(2), of "with_vcn (entry_vcn (es ! k)) ?r"] with_vcn_entry [OF l8(2)] r(1) at(1) l8(2) upd by simp
  have "ntfs_ih_insert mem fresh (node h es slack) e new k = Ok (node (set_index_length h ?n) es' (drop (length ?r) slack))"
  proof -
    have "ntfs_ie_get_by_pos (node h es slack) k = Ok (entry_pos h es k)" using node_get_by_pos [OF assms(1)] assms(2) by simp
    moreover have "ntfs_ie_get_vcn (node h es slack) (entry_pos h es k) = Ok (entry_vcn (es ! k))"
      "ntfs_ie_set_vcn (node h es slack) (entry_pos h es k) new = Ok (node h ?u slack)"
      using node_get_vcn [OF assms(1,2)] node_set_vcn [OF assms(1,2)] l8(1) by simp_all
    ultimately show ?thesis unfolding ntfs_ih_insert_def by (simp only: dup room res_bind.simps ins set')
  qed
  moreover have "length (node (set_index_length h ?n) es' (drop (length ?r) slack)) = length (node h es slack)"
  proof -
    have "length (concat es') = length (concat ?es)" using hdr h1 by (simp add: header_ok_def)
    then show ?thesis using set_index_length_fields(1) [OF h16 n(2)] n(1) fit lu by (simp add: node_def entry_pos_def)
  qed
  ultimately show ?thesis using hdr set_index_length_fields [OF h16 n(2)]
    by (intro exI [of _ "set_index_length h ?n"] exI [of _ "drop (length ?r) slack"]) simp
qed

end
