(* ===== verification/Index_Search.thy ===== *)
theory Index_Search
  imports Index_Node_Laws
begin

text \<open>
  Lookup in a node: over any comparison that orders the keys, as a locale, the search of the entries finds
  the key or the point where it belongs. The comparisons of \<open>collate.c\<close> satisfy the locale.
\<close>

section \<open>Keys of a node\<close>

definition entry_key :: "(bytes \<Rightarrow> nat \<Rightarrow> 'k option) \<Rightarrow> bytes \<Rightarrow> 'k option" where
  "entry_key key e = key (drop 16 e) (ie_key_length e 0)"

definition keys :: "(bytes \<Rightarrow> nat \<Rightarrow> 'k option) \<Rightarrow> bytes list \<Rightarrow> 'k list" where
  "keys key es = map (\<lambda>e. the (entry_key key e)) (butlast es)"

definition sorted_node :: "(bytes \<Rightarrow> nat \<Rightarrow> 'k option) \<Rightarrow> ('k \<Rightarrow> 'k \<Rightarrow> bool) \<Rightarrow> bytes list \<Rightarrow> bool" where
  "sorted_node key lt es \<longleftrightarrow> list_all (\<lambda>e. entry_key key e \<noteq> None) (butlast es) \<and> sorted_wrt lt (keys key es)"

text \<open>The number of the first key that is not less.\<close>

definition place :: "('k \<Rightarrow> 'k \<Rightarrow> bool) \<Rightarrow> 'k \<Rightarrow> 'k list \<Rightarrow> nat" where
  "place lt x ks = length (takeWhile (\<lambda>k. lt k x) ks)"

lemma place_less: "es \<noteq> [] \<Longrightarrow> place lt x (keys key es) < length es"
  using length_takeWhile_le [of "\<lambda>k. lt k x" "keys key es"]
  by (cases es rule: rev_cases) (simp_all add: keys_def place_def less_Suc_eq_le)

text \<open>What the search answers at an entry without going further.\<close>

definition stop_at :: "bytes \<Rightarrow> bytes list \<Rightarrow> nat \<Rightarrow> ie_search result" where
  "stop_at h es j =
     (if \<not> has_node (es ! j) then Ok (Not_Found (entry_pos h es j))
      else if entry_vcn (es ! j) < 0 then Err EINVAL else Ok (Keep_Searching (entry_vcn (es ! j)) j))"

section \<open>The contract of a comparison\<close>

locale key_order =
  fixes collate :: collate
    and key :: "bytes \<Rightarrow> nat \<Rightarrow> 'k option"
    and lt :: "'k \<Rightarrow> 'k \<Rightarrow> bool"
  assumes collate_keys: "key d1 l1 = Some a \<Longrightarrow> key d2 l2 = Some b \<Longrightarrow>
      collate d1 l1 d2 l2 = Ok (if lt a b then -1 else if a = b then 0 else 1)"
    and key_append: "key d l = Some a \<Longrightarrow> key (d @ rest) l = Some a"
    and less_irrefl: "\<not> lt a a"
    and less_trans: "lt a b \<Longrightarrow> lt b c \<Longrightarrow> lt a c"
    and less_total: "a \<noteq> b \<Longrightarrow> lt a b \<or> lt b a"
begin

lemma place_le: "place lt x ks \<le> length ks"
  by (simp add: place_def length_takeWhile_le)

lemma before_place: "i < place lt x ks \<Longrightarrow> lt (ks ! i) x"
  unfolding place_def by (metis nth_mem set_takeWhileD takeWhile_nth)

lemma at_place: "place lt x ks < length ks \<Longrightarrow> \<not> lt (ks ! place lt x ks) x"
  unfolding place_def by (rule nth_length_takeWhile)

lemma after_place:
  assumes "sorted_wrt lt ks" and "place lt x ks \<le> i" and "i < length ks"
  shows "ks ! i = x \<and> i = place lt x ks \<or> lt x (ks ! i)"
proof -
  have p: "place lt x ks < length ks" using assms by simp
  have first: "ks ! place lt x ks = x \<or> lt x (ks ! place lt x ks)" using at_place [OF p] less_total by blast
  show ?thesis
  proof (cases "i = place lt x ks")
    case False
    then have "lt (ks ! place lt x ks) (ks ! i)" using sorted_wrt_nth_less [OF assms(1)] assms(2,3) by simp
    then show ?thesis using first less_trans by metis
  qed (use first in blast)
qed

lemma member_place: "sorted_wrt lt ks \<Longrightarrow> x \<in> set ks \<longleftrightarrow> place lt x ks < length ks \<and> ks ! place lt x ks = x"
proof
  assume s: "sorted_wrt lt ks" and "x \<in> set ks"
  then obtain i where i: "i < length ks" "ks ! i = x" by (metis in_set_conv_nth)
  then have "place lt x ks \<le> i" using before_place [of i x ks] less_irrefl by (metis not_less)
  then show "place lt x ks < length ks \<and> ks ! place lt x ks = x" using after_place [OF s _ i(1)] i less_irrefl by metis
qed (metis nth_mem)

lemma insert_at_place:
  assumes "sorted_wrt lt ks" and "x \<notin> set ks"
  shows "sorted_wrt lt (take (place lt x ks) ks @ x # drop (place lt x ks) ks)"
proof -
  let ?j = "place lt x ks"
  have "lt y x" if "y \<in> set (take ?j ks)" for y
    using that before_place [of _ x ks] by (metis in_set_conv_nth length_take min_less_iff_conj nth_take)
  moreover have after: "lt x y" if y: "y \<in> set (drop ?j ks)" for y
  proof -
    obtain i where i: "i < length ks - ?j" "y = ks ! (?j + i)" using y by (auto simp: in_set_conv_nth)
    then show ?thesis using after_place [OF assms(1), of x "?j + i"] assms(2) by (metis add_diff_inverse_nat le_add1 less_diff_conv2 nth_mem nat_add_left_cancel_less not_less place_le)
  qed
  moreover have "sorted_wrt lt (take ?j ks @ drop ?j ks)" using assms(1) by simp
  ultimately show ?thesis using less_trans by (auto simp: sorted_wrt_append simp del: append_take_drop_id)
qed

section \<open>The search\<close>

lemma node_key:
  assumes "header_ok h es" and "k < length es" and "entry_key key (es ! k) = Some x"
  shows "key (drop (entry_pos h es k + 16) (node h es slack)) (ie_key_length (node h es slack) (entry_pos h es k)) = Some x"
proof -
  have len: "length (h @ concat (take k es)) = entry_pos h es k" by (simp add: entry_pos_def)
  have "drop (entry_pos h es k + 16) (node h es slack) = drop 16 (es ! k) @ concat (drop (Suc k) es) @ slack"
    unfolding node_split [OF assms(2)] len [symmetric] using entry_okD [OF assms(1,2)] by (simp add: entry_ok_def)
  then show ?thesis using assms(3) entry_fields(2) [OF assms(1,2), of slack] key_append by (simp add: entry_key_def)
qed

lemma node_search_end:
  assumes "header_ok h es" and "k < length es"
  shows "ie_search_end (node h es slack) (entry_pos h es k) k = stop_at h es k"
proof -
  have "has_node (es ! k) \<Longrightarrow> 8 \<le> length (es ! k)" using entry_okD [OF assms] by (simp add: entry_ok_def)
  then show ?thesis
    using entry_fields [OF assms, of slack] node_get_vcn [OF assms, of slack]
    by (simp add: ie_search_end_def stop_at_def has_node_def)
qed

lemma search_from:
  assumes "header_ok h es" and "sorted_node key lt es" and "key xd xl = Some x" and "k < length es" and "k \<le> place lt x (keys key es)"
  shows "ie_lookup_loop (Some collate) xd xl (node h es slack) (entry_pos h es (length es)) (entry_pos h es k) k =
    (let j = place lt x (keys key es)
     in if j < length (keys key es) \<and> keys key es ! j = x then Ok (Found (entry_pos h es j) j) else stop_at h es j)"
  using assms(4,5)
proof (induction "length es - k" arbitrary: k)
  case (Suc d)
  note k = Suc.prems(1)
  note f = entry_fields [OF assms(1) k, of slack]
  have len: "length (keys key es) = length es - 1" by (simp add: keys_def)
  have bound: "entry_pos h es k + length (es ! k) \<le> entry_pos h es (length es)" "16 \<le> length (es ! k)"
    using entry_pos_bound [OF k] entry_okD [OF assms(1) k] by (auto simp: entry_ok_def)
  show ?case
  proof (cases "Suc k = length es")
    case True
    then have "place lt x (keys key es) = k" using Suc.prems(2) place_le [of x "keys key es"] len by simp
    moreover have "\<not> k < length (keys key es)" using True len by simp
    ultimately show ?thesis using True f bound node_ie_end [OF assms(1) k, of slack] node_search_end [OF assms(1) k, of slack]
      by (subst ie_lookup_loop.simps) (simp add: sizeof_INDEX_ENTRY_HEADER_def)
  next
    case False
    then have kl: "k < length (keys key es)" using k len by simp
    then obtain y where y: "entry_key key (es ! k) = Some y" "keys key es ! k = y"
      using assms(2) by (fastforce simp: sorted_node_def keys_def list_all_length nth_butlast)
    have cmp: "collate xd xl (drop (entry_pos h es k + 16) (node h es slack)) (ie_key_length (node h es slack) (entry_pos h es k))
        = Ok (if lt x y then -1 else if x = y then 0 else 1)"
      by (rule collate_keys [OF assms(3) node_key [OF assms(1) k y(1)]])
    show ?thesis
    proof (cases "lt y x")
      case True
      then have "k \<noteq> place lt x (keys key es)" using at_place [of x "keys key es"] kl y(2) by metis
      then have "Suc k \<le> place lt x (keys key es)" using Suc.prems(2) by simp
      moreover have "\<not> lt x y" "x \<noteq> y" using True less_trans less_irrefl by blast+
      ultimately show ?thesis
        using False f bound node_ie_end [OF assms(1) k, of slack] cmp Suc.hyps(1) [of "Suc k"] Suc.hyps(2) k
        by (subst ie_lookup_loop.simps) (simp add: sizeof_INDEX_ENTRY_HEADER_def NTFS_COLLATION_ERROR_def entry_pos_Suc [OF k])
    next
      case nless: False
      then have p: "place lt x (keys key es) = k"
        using Suc.prems(2) before_place [of k x "keys key es"] y(2) by (metis le_neq_implies_less)
      have "lt x y \<or> x = y" using nless less_total by blast
      then show ?thesis
        using False f bound node_ie_end [OF assms(1) k, of slack] cmp node_search_end [OF assms(1) k, of slack] kl y(2) less_irrefl p
        by (subst ie_lookup_loop.simps) (auto simp: sizeof_INDEX_ENTRY_HEADER_def NTFS_COLLATION_ERROR_def)
    qed
  qed
qed simp

lemma node_lookup:
  assumes "header_ok h es" and "sorted_node key lt es" and "key xd xl = Some x"
  shows "ntfs_ie_lookup (Some collate) xd xl (node h es slack) =
    (let j = place lt x (keys key es)
     in if x \<in> set (keys key es) then Ok (Found (entry_pos h es j) j) else stop_at h es j)"
  using search_from [OF assms, of 0 slack] node_nonempty [OF assms(1)] member_place [of "keys key es" x] assms(2)
  by (simp add: ntfs_ie_lookup_def node_first [OF assms(1)] node_end [OF assms(1)] sorted_node_def)

text \<open>Insertion where the search ended, and deletion: what they do to the keys.\<close>

lemma keys_insert:
  assumes "sorted_node key lt es" and "es \<noteq> []" and "entry_key key e = Some x" and "x \<notin> set (keys key es)"
  defines "j \<equiv> place lt x (keys key es)"
  shows "keys key (take j es @ e # drop j es) = take j (keys key es) @ x # drop j (keys key es)"
    and "sorted_node key lt (take j es @ e # drop j es)"
proof -
  have j: "j < length es" using place_less [OF assms(2)] by (simp add: j_def)
  then have b: "butlast (take j es @ e # drop j es) = take j (butlast es) @ e # drop j (butlast es)"
    by (simp add: butlast_append butlast_drop take_butlast)
  then show k: "keys key (take j es @ e # drop j es) = take j (keys key es) @ x # drop j (keys key es)"
    using assms(3) by (simp add: keys_def take_map drop_map)
  have "list_all (\<lambda>e. entry_key key e \<noteq> None) (take j (butlast es) @ drop j (butlast es))"
    using assms(1) by (simp add: sorted_node_def)
  then show "sorted_node key lt (take j es @ e # drop j es)"
    using assms(1,3,4) insert_at_place [of "keys key es" x]
    unfolding sorted_node_def k b j_def [symmetric] by (simp del: append_take_drop_id)
qed

lemma lookup_insert:
  assumes "header_ok h es" and "sorted_node key lt es" and "entry_key key e = Some x" and "x \<notin> set (keys key es)"
    and "entry_ok e" and "\<not> is_end e" and "length e \<le> length slack" and "length (node h es slack) < 2 ^ 32"
  defines "j \<equiv> place lt x (keys key es)"
  shows "\<exists>h' slack'. ntfs_ie_insert (node h es slack) e (entry_pos h es j) = Ok (node h' (take j es @ e # drop j es) slack') \<and>
    header_ok h' (take j es @ e # drop j es) \<and> sorted_node key lt (take j es @ e # drop j es) \<and>
    keys key (take j es @ e # drop j es) = take j (keys key es) @ x # drop j (keys key es)"
proof -
  have ne: "es \<noteq> []" and ok: "entries_ok es" using assms(1) by (simp_all add: header_ok_def entries_ok_def)
  have j: "j < length es" using place_less [OF ne] by (simp add: j_def)
  let ?es = "take j es @ e # drop j es" and ?n = "entry_pos h es (length es) + length e"
  have "length (concat ?es) = length (concat es) + length e" using concat_halves [of es j] by simp
  then have "?n = length h + length (concat ?es)" "?n < 2 ^ 32" using assms(7,8) by (simp_all add: entry_pos_def length_node)
  then have "header_ok (set_index_length h ?n) ?es"
    using header_ok_update [OF assms(1) entries_ok_insert [OF ok j assms(5,6)]] by blast
  then show ?thesis
    using node_insert [OF assms(1) j assms(5,7,8)] keys_insert [OF assms(2) ne assms(3,4)] unfolding j_def by blast
qed

lemma lookup_delete:
  assumes "header_ok h es" and "sorted_node key lt es" and "Suc j < length es" and "length (node h es slack) < 2 ^ 32"
  shows "\<exists>h' slack'. ntfs_ie_delete (node h es slack) (entry_pos h es j) = Ok (node h' (take j es @ drop (Suc j) es) slack') \<and>
    header_ok h' (take j es @ drop (Suc j) es) \<and> sorted_node key lt (take j es @ drop (Suc j) es) \<and>
    keys key (take j es @ drop (Suc j) es) = take j (keys key es) @ drop (Suc j) (keys key es)"
proof -
  let ?es = "take j es @ drop (Suc j) es" and ?n = "entry_pos h es (length es) - length (es ! j)"
  have j: "j < length es" using assms(3) by simp
  have ok: "entries_ok es" using assms(1) by (simp add: header_ok_def)
  have "length (concat es) = length (concat ?es) + length (es ! j)" using concat_split [OF j] by simp
  then have "?n = length h + length (concat ?es)" "?n < 2 ^ 32" using assms(4) by (simp_all add: entry_pos_def length_node)
  then have h: "header_ok (set_index_length h ?n) ?es"
    using header_ok_update [OF assms(1) entries_ok_delete [OF ok assms(3)]] by blast
  have b: "butlast ?es = take j (butlast es) @ drop (Suc j) (butlast es)"
    using assms(3) by (simp add: butlast_append butlast_drop take_butlast)
  then have k: "keys key ?es = take j (keys key es) @ drop (Suc j) (keys key es)" by (simp add: keys_def take_map drop_map)
  have "sorted_wrt lt (take j (keys key es) @ drop j (keys key es))" using assms(2) by (simp add: sorted_node_def)
  moreover have "set (drop (Suc j) (keys key es)) \<subseteq> set (drop j (keys key es))" by (rule set_drop_subset_set_drop) simp
  moreover have "sorted_wrt lt (drop (Suc j) (keys key es))" using assms(2) by (simp add: sorted_node_def sorted_wrt_drop)
  ultimately have "sorted_wrt lt (take j (keys key es) @ drop (Suc j) (keys key es))"
    by (auto simp: sorted_wrt_append simp del: append_take_drop_id)
  moreover have "list_all (\<lambda>e. entry_key key e \<noteq> None) (butlast ?es)"
    unfolding b using assms(2) by (auto simp: sorted_node_def list_all_iff dest: in_set_takeD in_set_dropD)
  ultimately have "sorted_node key lt ?es" by (simp add: sorted_node_def k)
  then show ?thesis using node_delete [OF assms(1) j assms(4)] h k by blast
qed

end

end
