(* ===== verification/Index_Tree.thy ===== *)
theory Index_Tree
  imports Index_Parent Index_Search
begin

text \<open>
  The tree of an index: the entries of its blocks, the keys in order, and that a split of
  a block with the insertion of its median in the parent keeps the keys in order.
\<close>

unbundle bit_operations_syntax

section \<open>Trees of blocks\<close>

text \<open>\<open>st\<close> gives the entries of the block with a number. All leaves have the depth \<open>d\<close>.\<close>

fun tree_ok :: "(int \<Rightarrow> bytes list) \<Rightarrow> nat \<Rightarrow> bytes list \<Rightarrow> bool" where
  "tree_ok st 0 es \<longleftrightarrow> entries_ok es \<and> list_all (\<lambda>e. \<not> has_node e) es"
| "tree_ok st (Suc d) es \<longleftrightarrow> entries_ok es \<and>
     list_all (\<lambda>e. has_node e \<and> 0 \<le> entry_vcn e \<and> tree_ok st d (st (entry_vcn e))) es"

fun reach :: "(int \<Rightarrow> bytes list) \<Rightarrow> nat \<Rightarrow> bytes list \<Rightarrow> int list" where
  "reach st 0 es = []"
| "reach st (Suc d) es = concat (map (\<lambda>e. entry_vcn e # reach st d (st (entry_vcn e))) es)"

text \<open>The key of an entry, which the number of its sub-node follows.\<close>

definition own_key :: "(bytes \<Rightarrow> nat \<Rightarrow> 'k option) \<Rightarrow> bytes \<Rightarrow> 'k option" where
  "own_key key e = key (drop 16 (if has_node e then take (length e - 8) e else e)) (ie_key_length e 0)"

definition own :: "(bytes \<Rightarrow> nat \<Rightarrow> 'k option) \<Rightarrow> bytes \<Rightarrow> 'k option list" where
  "own key e = (if is_end e then [] else [own_key key e])"

fun inorder :: "(bytes \<Rightarrow> nat \<Rightarrow> 'k option) \<Rightarrow> (int \<Rightarrow> bytes list) \<Rightarrow> nat \<Rightarrow> bytes list \<Rightarrow> 'k option list" where
  "inorder key st 0 es = concat (map (own key) es)"
| "inorder key st (Suc d) es = concat (map (\<lambda>e. inorder key st d (st (entry_vcn e)) @ own key e) es)"

lemma inorder_reach_cong:
  "(\<And>v. v \<in> set (reach st d es) \<Longrightarrow> st' v = st v) \<Longrightarrow>
     inorder key st' d es = inorder key st d es \<and> reach st' d es = reach st d es \<and> (tree_ok st d es \<longrightarrow> tree_ok st' d es)"
proof (induction d arbitrary: es)
  case (Suc d)
  have sub: "st' (entry_vcn e) = st (entry_vcn e)" "inorder key st' d (st (entry_vcn e)) = inorder key st d (st (entry_vcn e))"
    "reach st' d (st (entry_vcn e)) = reach st d (st (entry_vcn e))"
    "tree_ok st d (st (entry_vcn e)) \<Longrightarrow> tree_ok st' d (st (entry_vcn e))" if "e \<in> set es" for e
  proof -
    show "st' (entry_vcn e) = st (entry_vcn e)" using Suc.prems that by auto
    have "\<And>v. v \<in> set (reach st d (st (entry_vcn e))) \<Longrightarrow> st' v = st v" using Suc.prems that by auto
    from Suc.IH [OF this] show "inorder key st' d (st (entry_vcn e)) = inorder key st d (st (entry_vcn e))"
      "reach st' d (st (entry_vcn e)) = reach st d (st (entry_vcn e))"
      "tree_ok st d (st (entry_vcn e)) \<Longrightarrow> tree_ok st' d (st (entry_vcn e))" by simp_all
  qed
  have "inorder key st' (Suc d) es = inorder key st (Suc d) es" "reach st' (Suc d) es = reach st (Suc d) es"
    by (simp_all add: sub cong: map_cong)
  then show ?case using sub(1,4) by (auto simp: list_all_iff)
qed simp

section \<open>Keys of changed entries\<close>

lemma own_with_vcn:
  assumes "entry_ok e" and "has_node e"
  shows "own key (with_vcn v e) = own key e"
proof -
  have l: "24 \<le> length e" using assms by (simp add: entry_ok_def)
  have "take (length e - 8) (with_vcn v e) = take (length e - 8) e" using l by (simp add: with_vcn_def put_at_def)
  moreover have "ie_key_length (with_vcn v e) 0 = ie_key_length e 0" using with_vcn_field [OF l, of 10 2] by (simp add: ie_key_length_def)
  ultimately show ?thesis using assms(2) l with_vcn_entry [OF l, of v] by (simp add: own_def own_key_def)
qed

lemma own_added:
  assumes "entry_ok e" and "\<not> has_node e" and "length e + 8 < 2 ^ 16"
  shows "own key (added fresh e) = own key e"
proof -
  note a = added_entry [OF assms(1,3), of fresh]
  have "drop 16 (take (length e) (added fresh e)) = take (length e - 16) (drop 16 (added fresh e))" by (simp add: drop_take)
  also have "\<dots> = drop 16 e" by (simp add: a(6))
  finally show ?thesis using assms(2) a by (simp add: own_def own_key_def)
qed

lemma own_with_room:
  assumes "entry_ok e" and "length e + 8 < 2 ^ 16"
  shows "own key (with_vcn v (with_room fresh e)) = own key e"
  using own_with_vcn [OF with_room_entry(1,2) [OF assms], of key v fresh] own_added [OF assms(1) _ assms(2)]
  by (simp add: with_room_def split: if_splits)

section \<open>A split keeps the keys in order\<close>

lemma concat_map_split:
  "m < length es \<Longrightarrow> concat (map f es) = concat (map f (take m es)) @ f (es ! m) @ concat (map f (drop (Suc m) es))"
  by (subst id_take_nth_drop [of m es]) simp_all

lemma split_block_inorder:
  assumes "tree_ok st d es" and "Suc m < length es" and "in_s64 (entry_vcn (es ! m))" and "length (es ! m) + 8 < 2 ^ 16"
  shows "inorder key st d (take m es @ [closing (es ! m) (last es)]) @ own key (with_vcn v (with_room fresh (es ! m))) @
      inorder key st d (drop (Suc m) es) = inorder key st d es"
    and "tree_ok st d (take m es @ [closing (es ! m) (last es)])" and "tree_ok st d (drop (Suc m) es)"
    and "reach st d (take m es @ [closing (es ! m) (last es)]) @ reach st d (drop (Suc m) es) = reach st d es"
proof -
  have m: "m < length es" using assms(2) by simp
  have eok: "entries_ok es" using assms(1) by (cases d) simp_all
  have ok: "entry_ok (es ! m)" "entry_ok (last es)" "is_end (last es)" "\<not> is_end (es ! m)"
  proof -
    have "es \<noteq> []" using m by auto
    then show "entry_ok (es ! m)" "entry_ok (last es)" "is_end (last es)"
      using eok m by (simp_all add: entries_ok_def list_all_iff)
    have "m < length (butlast es)" using assms(2) by simp
    then show "\<not> is_end (es ! m)" using eok by (auto simp: entries_ok_def list_all_length nth_butlast)
  qed
  note c = closing_entry [OF ok(2), of "es ! m"]
  have own_c: "own key (closing (es ! m) (last es)) = []" using c(2) ok(3) by (simp add: own_def)
  have own_m: "own key (with_vcn v (with_room fresh (es ! m))) = own key (es ! m)" by (rule own_with_room [OF ok(1) assms(4)])
  have parts: "entries_ok (take m es @ [closing (es ! m) (last es)])" "entries_ok (drop (Suc m) es)"
    using entries_ok_close [OF eok m c(1)] c(2) ok(3) entries_ok_drop [OF eok assms(2)] by simp_all
  have "inorder key st d (take m es @ [closing (es ! m) (last es)]) @ own key (es ! m) @ inorder key st d (drop (Suc m) es) = inorder key st d es \<and>
    tree_ok st d (take m es @ [closing (es ! m) (last es)]) \<and> tree_ok st d (drop (Suc m) es) \<and>
    reach st d (take m es @ [closing (es ! m) (last es)]) @ reach st d (drop (Suc m) es) = reach st d es"
  proof (cases d)
    case 0
    have "list_all (\<lambda>e. \<not> has_node e) es" using assms(1) 0 by simp
    moreover have "last es \<in> set es" using m by (intro last_in_set) auto
    ultimately have "list_all (\<lambda>e. \<not> has_node e) (take m es @ [closing (es ! m) (last es)])" "list_all (\<lambda>e. \<not> has_node e) (drop (Suc m) es)"
      using c(3) by (auto simp: list_all_iff dest: in_set_takeD in_set_dropD)
    then show ?thesis using 0 parts own_c concat_map_split [OF m, of "own key"] by simp
  next
    case (Suc d')
    have all: "list_all (\<lambda>e. has_node e \<and> 0 \<le> entry_vcn e \<and> tree_ok st d' (st (entry_vcn e))) es" using assms(1) Suc by simp
    have "last es \<in> set es" using m by (intro last_in_set) auto
    then have "has_node (last es)" using all by (auto simp: list_all_iff)
    then have v: "entry_vcn (closing (es ! m) (last es)) = entry_vcn (es ! m)" "has_node (closing (es ! m) (last es))"
      using c(3,5) assms(3) by simp_all
    have "es ! m \<in> set es" using m by simp
    then have "list_all (\<lambda>e. has_node e \<and> 0 \<le> entry_vcn e \<and> tree_ok st d' (st (entry_vcn e))) (take m es @ [closing (es ! m) (last es)])"
      "list_all (\<lambda>e. has_node e \<and> 0 \<le> entry_vcn e \<and> tree_ok st d' (st (entry_vcn e))) (drop (Suc m) es)"
      using all v by (auto simp: list_all_iff dest: in_set_takeD in_set_dropD)
    then show ?thesis using Suc parts own_c v(1)
      concat_map_split [OF m, of "\<lambda>e. inorder key st d' (st (entry_vcn e)) @ own key e"]
      concat_map_split [OF m, of "\<lambda>e. entry_vcn e # reach st d' (st (entry_vcn e))"] by simp
  qed
  then show "inorder key st d (take m es @ [closing (es ! m) (last es)]) @ own key (with_vcn v (with_room fresh (es ! m))) @
      inorder key st d (drop (Suc m) es) = inorder key st d es"
    "tree_ok st d (take m es @ [closing (es ! m) (last es)])" "tree_ok st d (drop (Suc m) es)"
    "reach st d (take m es @ [closing (es ! m) (last es)]) @ reach st d (drop (Suc m) es) = reach st d es"
    using own_m by simp_all
qed

lemma parent_inorder:
  assumes "tree_ok st (Suc d) ps" and "k < length ps" and "distinct (reach st (Suc d) ps)" and "w \<notin> set (reach st (Suc d) ps)"
    and "0 \<le> w" and "in_s64 w" and "in_s64 (entry_vcn (ps ! k))"
    and "entry_ok med" and "length med + 8 < 2 ^ 16" and "\<not> is_end med"
    and halves: "inorder key st d L @ own key (with_vcn (entry_vcn (ps ! k)) (with_room fresh med)) @ inorder key st d R =
      inorder key st d (st (entry_vcn (ps ! k)))"
    and "tree_ok st d L" and "tree_ok st d R" and "reach st d L @ reach st d R = reach st d (st (entry_vcn (ps ! k)))"
  defines "v \<equiv> entry_vcn (ps ! k)"
  defines "st' \<equiv> st(v := L, w := R)"
    and "ps' \<equiv> take k ps @ with_vcn v (with_room fresh med) # with_vcn w (ps ! k) # drop (Suc k) ps"
  shows "inorder key st' (Suc d) ps' = inorder key st (Suc d) ps \<and> tree_ok st' (Suc d) ps' \<and> distinct (reach st' (Suc d) ps')"
proof -
  let ?m = "with_vcn v (with_room fresh med)" and ?p = "with_vcn w (ps ! k)"
  let ?part = "\<lambda>st e. inorder key st d (st (entry_vcn e)) @ own key e" and ?sub = "\<lambda>st e. entry_vcn e # reach st d (st (entry_vcn e))"
  have all: "has_node e" "0 \<le> entry_vcn e" "tree_ok st d (st (entry_vcn e))" "entry_ok e" if "e \<in> set ps" for e
    using assms(1) that by (auto simp: list_all_iff entries_ok_def)
  have pk: "ps ! k \<in> set ps" using assms(2) by simp
  have r: "entry_ok (with_room fresh med)" "has_node (with_room fresh med)" "is_end (with_room fresh med) = is_end med"
    using with_room_entry [OF assms(8,9)] by simp_all
  have l: "24 \<le> length (ps ! k)" "24 \<le> length (with_room fresh med)"
    using all(1,4) [OF pk] r(1,2) by (simp_all add: entry_ok_def)
  have vcn: "entry_vcn ?m = v" "entry_vcn ?p = w"
    using entry_vcn_with_vcn [of _ v] entry_vcn_with_vcn [of _ w] l assms(6,7) by (simp_all add: v_def)
  have vw: "v \<noteq> w" using assms(2,4) pk by (auto simp: v_def)
  have dist: "distinct (concat (map (?sub st) (take k ps)) @ (v # reach st d L @ reach st d R) @ concat (map (?sub st) (drop (Suc k) ps)))"
    using assms(3) concat_map_split [OF assms(2), of "?sub st"] assms(14) by (simp add: v_def)
  have wn: "w \<notin> set (concat (map (?sub st) (take k ps)) @ (v # reach st d L @ reach st d R) @ concat (map (?sub st) (drop (Suc k) ps)))"
    using assms(4) concat_map_split [OF assms(2), of "?sub st"] assms(14) by (simp add: v_def)
  have other: "st' u = st u" if "u \<noteq> v" "u \<noteq> w" for u using that by (simp add: st'_def)
  have rest: "st' (entry_vcn e) = st (entry_vcn e)" "inorder key st' d (st (entry_vcn e)) = inorder key st d (st (entry_vcn e))"
    "reach st' d (st (entry_vcn e)) = reach st d (st (entry_vcn e))" "tree_ok st' d (st (entry_vcn e))"
    if e: "e \<in> set (take k ps) \<union> set (drop (Suc k) ps)" for e
  proof -
    have sub: "set (?sub st e) \<subseteq> set (concat (map (?sub st) (take k ps))) \<union> set (concat (map (?sub st) (drop (Suc k) ps)))" using e by auto
    have no: "u \<noteq> v \<and> u \<noteq> w" if "u \<in> set (?sub st e)" for u using sub that dist wn by auto
    then show "st' (entry_vcn e) = st (entry_vcn e)" using other by auto
    have c: "\<And>u. u \<in> set (reach st d (st (entry_vcn e))) \<Longrightarrow> st' u = st u" using no other by auto
    have "e \<in> set ps" using e by (auto dest: in_set_takeD in_set_dropD)
    then show "inorder key st' d (st (entry_vcn e)) = inorder key st d (st (entry_vcn e))"
      "reach st' d (st (entry_vcn e)) = reach st d (st (entry_vcn e))" "tree_ok st' d (st (entry_vcn e))"
      using inorder_reach_cong [OF c, where key = key] all(3) by auto
  qed
  have half: "inorder key st' d X = inorder key st d X \<and> reach st' d X = reach st d X \<and> tree_ok st' d X"
    if "X = L \<or> X = R" for X
  proof -
    have "v \<notin> set (reach st d X)" "w \<notin> set (reach st d X)" using that dist wn by auto
    then have "\<And>u. u \<in> set (reach st d X) \<Longrightarrow> st' u = st u" using other by metis
    then show ?thesis using inorder_reach_cong [where st = st and d = d and es = X and st' = st' and key = key] assms(12,13) that by auto
  qed
  have st': "st' v = L" "st' w = R" using vw by (simp_all add: st'_def)
  have own: "own key ?p = own key (ps ! k)" by (rule own_with_vcn [OF all(4) [OF pk] all(1) [OF pk]])
  have parts: "map (?part st') (take k ps) = map (?part st) (take k ps)" "map (?part st') (drop (Suc k) ps) = map (?part st) (drop (Suc k) ps)"
    "map (?sub st') (take k ps) = map (?sub st) (take k ps)" "map (?sub st') (drop (Suc k) ps) = map (?sub st) (drop (Suc k) ps)"
    by (auto simp: rest)
  have "concat (map (?part st') ps') = concat (map (?part st) (take k ps)) @ ?part st (ps ! k) @ concat (map (?part st) (drop (Suc k) ps))"
    unfolding ps'_def map_append list.map parts concat_append concat.simps vcn st' own using half [of L] half [of R] halves
    by (simp add: v_def)
  then have in_order: "inorder key st' (Suc d) ps' = inorder key st (Suc d) ps"
    using concat_map_split [OF assms(2), of "?part st"] by simp
  have reach': "reach st' (Suc d) ps' = concat (map (?sub st) (take k ps)) @ (v # reach st d L) @ (w # reach st d R) @ concat (map (?sub st) (drop (Suc k) ps))"
    unfolding reach.simps ps'_def map_append list.map parts concat_append concat.simps vcn st' using half [of L] half [of R] by simp
  have "distinct (reach st' (Suc d) ps')" unfolding reach' using dist wn by auto
  moreover have "tree_ok st' (Suc d) ps'"
  proof -
    have "entries_ok ps" using assms(1) by simp
    have pos: "0 \<le> v" using all(2) [OF pk] by (simp add: v_def)
    have upd: "entries_ok (ps[k := ?p])"
      using with_vcn_entry [OF l(1), of w] all(4) [OF pk] by (intro entries_ok_update [OF \<open>entries_ok ps\<close> assms(2)]) simp_all
    have "ps' = take k (ps[k := ?p]) @ ?m # drop k (ps[k := ?p])"
      using assms(2) by (simp add: ps'_def drop_update_swap Cons_nth_drop_Suc [OF assms(2), symmetric])
    then have "entries_ok ps'" using entries_ok_insert [OF upd, of k ?m] assms(2,10) with_vcn_entry [OF l(2), of v] r by simp
    moreover have "has_node ?m" "has_node ?p" using with_vcn_entry(3) l r(2) all(1) [OF pk] by simp_all
    moreover have "e \<in> set (take k ps) \<union> set (drop (Suc k) ps) \<Longrightarrow> has_node e \<and> 0 \<le> entry_vcn e \<and> tree_ok st' d (st' (entry_vcn e))" for e
      using rest [of e] all [of e] by (auto dest: in_set_takeD in_set_dropD)
    ultimately show ?thesis using half [of L] half [of R] vcn st' pos assms(5) by (auto simp: ps'_def list_all_iff)
  qed
  ultimately show ?thesis using in_order by simp
qed

end
