(* ===== verification/Index_Order.thy ===== *)
theory Index_Order
  imports Index_Search
begin

text \<open>
  The comparisons of \<open>collate.c\<close> keep the contract of ordered keys, so the nodes of directories
  and of the other indexes are searched and changed correctly; \<open>memcmp\<close> alone does not suffice for
  binary keys.
\<close>

section \<open>Keys\<close>

definition name_key :: "bytes \<Rightarrow> nat \<Rightarrow> ucs option" where
  "name_key data len = (case file_name_at data of Ok name \<Rightarrow> Some name | Err e \<Rightarrow> None | Fault \<Rightarrow> None)"

definition name_less :: "ucs \<Rightarrow> ucs \<Rightarrow> ucs \<Rightarrow> bool" where
  "name_less upcase a b \<longleftrightarrow> ntfs_names_full_collate True upcase a b = -1"

definition list_less :: "nat list \<Rightarrow> nat list \<Rightarrow> bool" where "list_less a b \<longleftrightarrow> list_cmp a b = -1"

definition numbers_at :: "nat \<Rightarrow> bytes \<Rightarrow> nat list" where "numbers_at n data = map (\<lambda>i. le_at 4 data (4 * i)) [0..<n]"

text \<open>Keys of \<open>n\<close> little-endian numbers.\<close>

definition ulongs_key :: "nat \<Rightarrow> bytes \<Rightarrow> nat \<Rightarrow> nat list option" where
  "ulongs_key n data len = (if 0 < n \<and> len = 4 * n \<and> len \<le> length data then Some (numbers_at n data) else None)"

lemma name_key_Some: "name_key data len = Some name \<longleftrightarrow> file_name_at data = Ok name"
  by (simp add: name_key_def split: result.splits)

lemma numbers_at_append: "4 * n \<le> length data \<Longrightarrow> numbers_at n (data @ rest) = numbers_at n data"
  by (simp add: numbers_at_def)

lemma ulongs_key_append: "ulongs_key n data len = Some a \<Longrightarrow> ulongs_key n (data @ rest) len = Some a"
  by (auto simp: ulongs_key_def numbers_at_append split: if_splits)

lemma file_name_at_append: "file_name_at data = Ok name \<Longrightarrow> file_name_at (data @ rest) = Ok name"
  by (auto simp: file_name_at_def Let_def split: if_splits)

section \<open>The orders\<close>

lemma list_cmp_self [simp]: "list_cmp a a = 0"
  by simp

lemma full_collate_range: "ntfs_names_full_collate cs upcase a b \<in> {-1, 0, 1}"
  using list_cmp_range [of "ntfs_name_upcase upcase a" "ntfs_name_upcase upcase b"] list_cmp_range [of a b]
  by (auto simp: full_collate_spec Let_def)

lemma full_collate_flip: "ntfs_names_full_collate True upcase b a = - ntfs_names_full_collate True upcase a b"
  unfolding full_collate_spec Let_def list_cmp_flip [of b a] list_cmp_flip [of "ntfs_name_upcase upcase b" "ntfs_name_upcase upcase a"]
  by auto

lemma full_collate_0: "ntfs_names_full_collate True upcase a b = 0 \<longleftrightarrow> a = b"
  by (auto simp: full_collate_spec)

lemma name_less_trans: "name_less upcase a b \<Longrightarrow> name_less upcase b c \<Longrightarrow> name_less upcase a c"
  using list_cmp_trans [of "ntfs_name_upcase upcase a" "ntfs_name_upcase upcase b" "ntfs_name_upcase upcase c"]
    list_cmp_trans [of a b c]
    list_cmp_flip [of "ntfs_name_upcase upcase b" "ntfs_name_upcase upcase c"]
  by (auto simp: name_less_def full_collate_spec Let_def split: if_splits)

interpretation names: key_order "ntfs_collate_file_name upcase" name_key "name_less upcase" for upcase
proof
  fix d1 l1 a d2 l2 b
  assume "name_key d1 l1 = Some a" and "name_key d2 l2 = Some b"
  then show "ntfs_collate_file_name upcase d1 l1 d2 l2 = Ok (if name_less upcase a b then -1 else if a = b then 0 else 1)"
    using full_collate_range [of True upcase a b] full_collate_0 [of upcase a b]
    by (auto simp: ntfs_collate_file_name_def name_key_Some name_less_def)
next
  fix a b :: ucs
  assume "a \<noteq> b"
  then show "name_less upcase a b \<or> name_less upcase b a"
    using full_collate_range [of True upcase a b] full_collate_0 [of upcase a b] full_collate_flip [of upcase b a]
    by (auto simp: name_less_def)
qed (auto simp: name_key_Some file_name_at_append name_less_def full_collate_0 [THEN iffD2] intro: name_less_trans [unfolded name_less_def])

lemma ulongs_loop_cmp:
  "0 < n \<Longrightarrow> 4 * n \<le> length d1 \<Longrightarrow> 4 * n \<le> length d2 \<Longrightarrow>
     ulongs_loop d1 d2 (4 * n) = Ok (list_cmp (numbers_at n d1) (numbers_at n d2))"
proof (induction n arbitrary: d1 d2)
  case (Suc n)
  have at: "numbers_at (Suc n) d = le_at 4 d 0 # numbers_at n (drop 4 d)" if "4 * Suc n \<le> length d" for d
  proof -
    have "le_at 4 d (4 * Suc i) = le_at 4 (drop 4 d) (4 * i)" for i
      using le_at_append(2) [of 4 "take 4 d" "drop 4 d" "4 * i"] that by simp
    then show ?thesis by (simp add: numbers_at_def upt_conv_Cons map_Suc_upt [symmetric] del: upt_Suc)
  qed
  show ?case
  proof (cases "n = 0")
    case True
    then show ?thesis using Suc.prems by (subst ulongs_loop.simps) (simp add: numbers_at_def Let_def)
  next
    case False
    then show ?thesis using Suc.prems Suc.IH [of "drop 4 d1" "drop 4 d2"]
      by (subst ulongs_loop.simps) (simp add: at Let_def)
  qed
qed simp

lemma list_less_order:
  "\<not> list_less a a" "list_less a b \<Longrightarrow> list_less b c \<Longrightarrow> list_less a c" "a \<noteq> b \<Longrightarrow> list_less a b \<or> list_less b a"
  using list_cmp_range [of a b] list_cmp_flip [of b a] list_cmp_eq_0 [of a b] list_cmp_trans [of a b c]
  by (auto simp: list_less_def)

lemma list_cmp_less: "list_cmp a b = (if list_less a b then -1 else if a = b then 0 else 1)"
  using list_cmp_range [of a b] list_cmp_eq_0 [of a b] by (auto simp: list_less_def)

interpretation ulongs: key_order ntfs_collate_ntofs_ulongs "ulongs_key n" list_less for n
proof
  fix d1 l1 a d2 l2 b
  assume "ulongs_key n d1 l1 = Some a" and "ulongs_key n d2 l2 = Some b"
  then show "ntfs_collate_ntofs_ulongs d1 l1 d2 l2 = Ok (if list_less a b then -1 else if a = b then 0 else 1)"
    unfolding list_cmp_less [symmetric] using ulongs_loop_cmp [of n d1 d2]
    by (auto simp: ntfs_collate_ntofs_ulongs_def ulongs_key_def split: if_splits)
qed (use ulongs_key_append list_less_order in blast)+

interpretation ulong: key_order ntfs_collate_ntofs_ulong "ulongs_key 1" list_less
proof
  fix d1 l1 a d2 l2 b
  assume "ulongs_key 1 d1 l1 = Some a" and "ulongs_key 1 d2 l2 = Some b"
  then show "ntfs_collate_ntofs_ulong d1 l1 d2 l2 = Ok (if list_less a b then -1 else if a = b then 0 else 1)"
    by (auto simp: ntfs_collate_ntofs_ulong_def ulongs_key_def list_less_def numbers_at_def Let_def split: if_splits)
qed (use ulongs_key_append list_less_order in blast)+

interpretation security_hash: key_order ntfs_collate_ntofs_security_hash "ulongs_key 2" list_less
proof
  fix d1 l1 a d2 l2 b
  assume "ulongs_key 2 d1 l1 = Some a" and "ulongs_key 2 d2 l2 = Some b"
  then show "ntfs_collate_ntofs_security_hash d1 l1 d2 l2 = Ok (if list_less a b then -1 else if a = b then 0 else 1)"
    by (auto simp: ntfs_collate_ntofs_security_hash_def ulongs_key_def list_less_def numbers_at_def Let_def numeral_2_eq_2 split: if_splits)
qed (use ulongs_key_append list_less_order in blast)+

end
