(* ===== verification/Index_Lookup_Laws.thy ===== *)
theory Index_Lookup_Laws
  imports Index_Lookup Index_Tree Index_Order
begin

text \<open>
  Lookup in a tree: over a contract of ordered keys, the descent finds a key exactly if it is
  one of the keys in order.
\<close>

unbundle bit_operations_syntax

section \<open>One node of a tree\<close>

text \<open>\<open>f\<close> gives the keys below an entry.\<close>

definition flat :: "(bytes \<Rightarrow> nat \<Rightarrow> 'k option) \<Rightarrow> (bytes \<Rightarrow> 'k option list) \<Rightarrow> bytes list \<Rightarrow> 'k option list" where
  "flat key f es = concat (map (\<lambda>e. f e @ own key e) es)"

definition ordered :: "('k \<Rightarrow> 'k \<Rightarrow> bool) \<Rightarrow> 'k option list \<Rightarrow> bool" where
  "ordered lt ks \<longleftrightarrow> None \<notin> set ks \<and> sorted_wrt lt (map the ks)"

lemma ordered_append:
  "ordered lt (a @ b) \<longleftrightarrow> ordered lt a \<and> ordered lt b \<and> (\<forall>x \<in> set a. \<forall>y \<in> set b. lt (the x) (the y))"
  by (auto simp: ordered_def sorted_wrt_append)

lemma ordered_mid: "ordered lt (a @ b @ c) \<Longrightarrow> ordered lt b"
  by (simp add: ordered_append)

lemma ordered_pair: "ordered lt (a @ b @ c) \<Longrightarrow> Some x \<in> set b \<Longrightarrow> Some y \<in> set c \<Longrightarrow> lt x y"
  by (auto simp: ordered_append) (metis option.sel)

lemma flat_split:
  "j < length es \<Longrightarrow> flat key f es = flat key f (take j es) @ (f (es ! j) @ own key (es ! j)) @ flat key f (drop (Suc j) es)"
  by (simp add: flat_def concat_map_split [of j es "\<lambda>e. f e @ own key e"])

lemma ordered_own: "ordered lt (flat key f es) \<Longrightarrow> ordered lt (concat (map (own key) es))"
  by (induction es) (auto simp: flat_def ordered_append)

lemma own_concat:
  assumes "entries_ok es"
  shows "concat (map (own key) es) = map (own_key key) (butlast es)"
proof -
  have es: "es = butlast es @ [last es]" "is_end (last es)" "list_all (\<lambda>e. \<not> is_end e) (butlast es)"
    using assms by (simp_all add: entries_ok_def)
  have "concat (map (own key) xs) = map (own_key key) xs" if "list_all (\<lambda>e. \<not> is_end e) xs" for xs
    using that by (induction xs) (simp_all add: own_def)
  then have "concat (map (own key) (butlast es @ [last es])) = map (own_key key) (butlast es)"
    using es(2,3) by (simp add: own_def)
  then show ?thesis using es(1) by simp
qed

context key_order
begin

lemma own_entry_key:
  assumes "entry_ok e" and "own_key key e = Some a"
  shows "entry_key key e = Some a"
proof (cases "has_node e")
  case True
  then have "24 \<le> length e" using assms(1) by (simp add: entry_ok_def)
  then have "16 \<le> length e - 8" by linarith
  then have "drop 16 e = drop 16 (take (length e - 8) e) @ drop (length e - 8) e"
    by (metis append_take_drop_id drop_append drop_take le_add_diff_inverse2 length_take min.absorb2 diff_le_self diff_is_0_eq drop_0)
  then show ?thesis using assms(2) True key_append by (simp add: own_key_def entry_key_def)
qed (use assms in \<open>simp add: own_key_def entry_key_def\<close>)

lemma node_keys:
  assumes "entries_ok es" and "ordered lt (flat key f es)"
  shows "sorted_node key lt es" and "map Some (keys key es) = map (own_key key) (butlast es)"
proof -
  have o: "ordered lt (map (own_key key) (butlast es))" using ordered_own [OF assms(2)] unfolding own_concat [OF assms(1)] .
  have each: "\<exists>a. own_key key e = Some a \<and> entry_key key e = Some a" if "e \<in> set (butlast es)" for e
  proof -
    have "own_key key e \<in> set (map (own_key key) (butlast es))" using that by simp
    then have "own_key key e \<noteq> None" using o unfolding ordered_def by metis
    moreover have "entry_ok e" using assms(1) that by (auto simp: entries_ok_def list_all_iff dest: in_set_butlastD)
    ultimately show ?thesis using own_entry_key by blast
  qed
  then have k: "keys key es = map (the \<circ> own_key key) (butlast es)" by (force simp: keys_def)
  show "map Some (keys key es) = map (own_key key) (butlast es)" unfolding k using each by force
  show "sorted_node key lt es" using o each by (force simp: sorted_node_def k ordered_def list_all_iff)
qed

lemma own_nth:
  assumes "entries_ok es" and "ordered lt (flat key f es)" and "Suc i < length es"
  shows "own key (es ! i) = [Some (keys key es ! i)]"
proof -
  have i: "i < length (butlast es)" "i < length (keys key es)" using assms(3) by (simp_all add: keys_def)
  have "map Some (keys key es) ! i = map (own_key key) (butlast es) ! i" using node_keys(2) [OF assms(1,2)] by simp
  then have "Some (keys key es ! i) = own_key key (es ! i)" using i by (simp add: nth_butlast)
  moreover have "\<not> is_end (es ! i)" using entries_ok_end [OF assms(1), of i] assms(3) by simp
  ultimately show ?thesis by (simp add: own_def)
qed

text \<open>Whether a key is among those of a node and below is decided at the place of the key.\<close>

lemma at_the_place:
  fixes x
  assumes "entries_ok es" and "ordered lt (flat key f es)"
  defines "j \<equiv> place lt x (keys key es)"
  shows "j < length es" and "ordered lt (f (es ! j))"
    and "Some x \<in> set (flat key f es) \<longleftrightarrow> x \<in> set (keys key es) \<or> Some x \<in> set (f (es ! j))"
proof -
  have ne: "es \<noteq> []" using assms(1) by (simp add: entries_ok_def)
  show j: "j < length es" using place_less [OF ne] by (simp add: j_def)
  note sp = flat_split [of _ es key f]
  show "ordered lt (f (es ! j))" using assms(2) unfolding sp [OF j] by (simp add: ordered_append)
  have keys_in: "set (map Some (keys key es)) \<subseteq> set (flat key f es)"
    unfolding node_keys(2) [OF assms(1,2)] own_concat [OF assms(1), symmetric] by (auto simp: flat_def)
  have "x \<in> set (keys key es) \<or> Some x \<in> set (f (es ! j))" if x: "Some x \<in> set (flat key f es)"
  proof -
    obtain e where e: "e \<in> set es" "Some x \<in> set (f e @ own key e)" using x by (auto simp: flat_def)
    then obtain i where i: "i < length es" "e = es ! i" by (metis in_set_conv_nth)
    show ?thesis
    proof (cases "Some x \<in> set (own key e)")
      case True
      then have "Some x \<in> set (concat (map (own key) es))" using e(1) by auto
      then have "Some x \<in> set (map Some (keys key es))" unfolding own_concat [OF assms(1)] node_keys(2) [OF assms(1,2)] .
      then show ?thesis by auto
    next
      case False
      then have f: "Some x \<in> set (f (es ! i))" using e(2) i(2) by simp
      consider "i = j" | "i < j" | "j < i" by linarith
      then show ?thesis
      proof cases
        case 2
        have "lt x (keys key es ! i)"
        proof -
          have o: "ordered lt ([] @ f (es ! i) @ own key (es ! i))" using assms(2) unfolding sp [OF i(1)] by (simp add: ordered_append)
          have "Some (keys key es ! i) \<in> set (own key (es ! i))" using own_nth [OF assms(1,2), of i] 2 j by simp
          then show ?thesis using ordered_pair [OF o f] by simp
        qed
        moreover have "lt (keys key es ! i) x" using before_place [of i x "keys key es"] 2 by (simp add: j_def)
        ultimately show ?thesis using less_trans less_irrefl by blast
      next
        case 3
        have sj: "Suc j < length es" using 3 i(1) by simp
        have "es ! i \<in> set (drop (Suc j) es)" 
          using 3 i(1) by (auto simp: in_set_conv_nth intro!: exI [of _ "i - Suc j"])
        then have r: "Some x \<in> set (flat key f (drop (Suc j) es))" using f by (force simp: flat_def)
        have "Some (keys key es ! j) \<in> set (f (es ! j) @ own key (es ! j))" using own_nth [OF assms(1,2) sj] by simp
        then have "lt (keys key es ! j) x" using ordered_pair [OF assms(2) [unfolded sp [OF j]] _ r] by simp
        moreover have "\<not> lt (keys key es ! j) x" using at_place [of x "keys key es"] sj by (simp add: j_def keys_def)
        ultimately show ?thesis by simp
      qed (use f in simp)
    qed
  qed
  moreover have "Some x \<in> set (f (es ! j)) \<Longrightarrow> Some x \<in> set (flat key f es)" unfolding sp [OF j] by simp
  ultimately show "Some x \<in> set (flat key f es) \<longleftrightarrow> x \<in> set (keys key es) \<or> Some x \<in> set (f (es ! j))"
    using keys_in by auto
qed

end

section \<open>The descent\<close>

text \<open>The node fills the memory the header says it has.\<close>

definition sized :: "bytes \<Rightarrow> bytes list \<Rightarrow> bytes \<Rightarrow> bool" where
  "sized h es slack \<longleftrightarrow> allocated_size h = length (node h es slack) \<and> length (node h es slack) < 2 ^ 30"

definition stored :: "index_context \<Rightarrow> (int \<Rightarrow> bytes list) \<Rightarrow> int \<Rightarrow> bool" where
  "stored icx st v \<longleftrightarrow> (\<exists>blk h slack. ntfs_ib_read icx v = Ok (Some blk) \<and> ib_index blk = node h (st v) slack \<and>
     header_ok h (st v) \<and> sized h (st v) slack \<and> (list_ex has_node (st v) \<longrightarrow> ih_flags (ib_index blk) AND NODE_MASK \<noteq> 0))"

lemma read_cong:
  assumes "ia_na icx' = ia_na icx" and "block_size icx' = block_size icx" and "vcn_size_bits icx' = vcn_size_bits icx"
  shows "ntfs_ib_read icx' v = ntfs_ib_read icx v"
  unfolding ntfs_ib_read_def ntfs_ib_vcn_to_pos_def assms ..

lemma icx_simps [simp]:
  "ia_na (set_parent_pos i icx) = ia_na icx" "block_size (set_parent_pos i icx) = block_size icx"
  "vcn_size_bits (set_parent_pos i icx) = vcn_size_bits icx" "pindex (set_parent_pos i icx) = pindex icx"
  "icx_collate (set_parent_pos i icx) = icx_collate icx" "parent_vcn (set_parent_pos i icx) = parent_vcn icx"
  "ia_na (set_parent_vcn w icx) = ia_na icx" "block_size (set_parent_vcn w icx) = block_size icx"
  "vcn_size_bits (set_parent_vcn w icx) = vcn_size_bits icx" "pindex (set_parent_vcn w icx) = pindex icx"
  "icx_collate (set_parent_vcn w icx) = icx_collate icx" "parent_pos (set_parent_vcn w icx) = parent_pos icx"
  by (simp_all add: set_parent_pos_def set_parent_vcn_def)

lemma descend_step:
  assumes "ntfs_icx_parent_inc (set_parent_vcn old icx) = Ok icx'" and "ntfs_ib_read icx' v = Ok (Some blk)"
    and "ntfs_ie_lookup (icx_collate icx') k k_len (ib_index blk) = Ok r"
  shows "r = Found ie item \<Longrightarrow> descend_into_child_node k k_len icx old v =
      Ok (True, (set_parent_vcn v (set_parent_pos item icx'))\<lparr>is_in_root := False, ib := blk, entry := Some ie\<rparr>)"
    and "r = Not_Found ie \<Longrightarrow> descend_into_child_node k k_len icx old v =
      Ok (False, (set_parent_vcn v icx')\<lparr>is_in_root := False, ib := blk, entry := Some ie\<rparr>)"
    and "r = Keep_Searching sub item \<Longrightarrow> ih_flags (ib_index blk) AND NODE_MASK \<noteq> 0 \<Longrightarrow>
      descend_into_child_node k k_len icx old v = descend_into_child_node k k_len (set_parent_pos item icx') v sub"
  by (subst descend_into_child_node.simps, simp add: assms)+

lemma inorder_flat:
  "inorder key st 0 es = flat key (\<lambda>_. []) es"
  "inorder key st (Suc d) es = flat key (\<lambda>e. inorder key st d (st (entry_vcn e))) es"
  by (simp_all add: flat_def)

text \<open>The entry of the context has the key, or it is the place of the key in a leaf.\<close>

definition entry_has :: "(bytes \<Rightarrow> nat \<Rightarrow> 'k option) \<Rightarrow> index_context \<Rightarrow> 'k \<Rightarrow> bool" where
  "entry_has key icx x \<longleftrightarrow> (\<exists>e. entry icx = Some e \<and>
     key (drop (e + 16) (current icx)) (ie_key_length (current icx) e) = Some x)"

definition at_leaf :: "(bytes \<Rightarrow> nat \<Rightarrow> 'k option) \<Rightarrow> ('k \<Rightarrow> 'k \<Rightarrow> bool) \<Rightarrow> index_context \<Rightarrow> 'k \<Rightarrow> bytes list \<Rightarrow> bool" where
  "at_leaf key lt icx x es \<longleftrightarrow> (\<exists>h slack. current icx = node h es slack \<and> header_ok h es \<and> sized h es slack \<and>
     list_all (\<lambda>e. \<not> has_node e) es \<and> entry icx = Some (entry_pos h es (place lt x (keys key es))))"

text \<open>The leaf where a key belongs.\<close>

fun leaf_of :: "(bytes \<Rightarrow> nat \<Rightarrow> 'k option) \<Rightarrow> ('k \<Rightarrow> 'k \<Rightarrow> bool) \<Rightarrow> (int \<Rightarrow> bytes list) \<Rightarrow> 'k \<Rightarrow> nat \<Rightarrow> int \<Rightarrow> int" where
  "leaf_of key lt st x 0 v = v"
| "leaf_of key lt st x (Suc d) v = leaf_of key lt st x d (entry_vcn (st v ! place lt x (keys key (st v))))"

lemma read_vcn: "ntfs_ib_read icx v = Ok (Some blk) \<Longrightarrow> index_block_vcn blk = v"
  by (auto simp: ntfs_ib_read_def ntfs_ia_check_def Let_def split: result.splits if_splits prod.splits)

context key_order
begin

lemma entry_has_nth:
  assumes "header_ok h es" and "ordered lt (flat key f es)" and "j < length (keys key es)"
    and "current icx = node h es slack" and "entry icx = Some (entry_pos h es j)"
  shows "entry_has key icx (keys key es ! j)"
proof -
  have ok: "entries_ok es" using assms(1) by (simp add: header_ok_def)
  have "list_all (\<lambda>e. entry_key key e \<noteq> None) (butlast es)" using node_keys(1) [OF ok assms(2)] by (simp add: sorted_node_def)
  then have "entry_key key (es ! j) = Some (keys key es ! j)" using assms(3) by (fastforce simp: keys_def list_all_length nth_butlast)
  moreover have "j < length es" using assms(3) by (simp add: keys_def)
  ultimately show ?thesis using node_key [OF assms(1), of j "keys key es ! j" slack] assms(4,5) by (simp add: entry_has_def)
qed

lemma descent:
  assumes "tree_ok st d (st v)" and "ordered lt (inorder key st d (st v))" and "\<forall>u \<in> set (v # reach st d (st v)). stored icx st u"
    and "key xd xl = Some x" and "pindex icx + d + 1 < MAX_PARENT_VCN" and "icx_collate icx = Some collate"
  shows "\<exists>icx'. descend_into_child_node xd xl icx old v = Ok (Some x \<in> set (inorder key st d (st v)), icx') \<and>
    (if Some x \<in> set (inorder key st d (st v)) then entry_has key icx' x else \<not> is_in_root icx' \<and> index_block_vcn (ib icx') = leaf_of key lt st x d v \<and> at_leaf key lt icx' x (st (leaf_of key lt st x d v)))"
  using assms
proof (induction d arbitrary: icx old v)
  case (0 icx old v)
  let ?icx = "(set_parent_vcn old icx)\<lparr>pindex := pindex icx + 1\<rparr>" and ?j = "place lt x (keys key (st v))"
  have ord: "ordered lt (flat key (\<lambda>_. []) (st v))" using "0.prems"(2) by (simp only: inorder_flat)
  obtain blk h slack where b: "ntfs_ib_read icx v = Ok (Some blk)" "ib_index blk = node h (st v) slack" "header_ok h (st v)" "sized h (st v) slack"
    using "0.prems"(3) by (auto simp: stored_def)
  have inc: "ntfs_icx_parent_inc (set_parent_vcn old icx) = Ok ?icx" using "0.prems"(5) by (simp add: ntfs_icx_parent_inc_def)
  have read: "ntfs_ib_read ?icx v = Ok (Some blk)" using b(1) read_cong [of ?icx icx] by simp
  have ok: "entries_ok (st v)" using b(3) by (simp add: header_ok_def)
  note place = at_the_place(1) [OF ok ord, where x = x] and in_node = at_the_place(3) [OF ok ord, where x = x] and nk = node_keys [OF ok ord]
  have look: "ntfs_ie_lookup (icx_collate ?icx) xd xl (ib_index blk) =
      (if x \<in> set (keys key (st v)) then Ok (Found (entry_pos h (st v) ?j) ?j) else stop_at h (st v) ?j)"
    using node_lookup [OF b(3) nk(1) "0.prems"(4), of slack] b(2) "0.prems"(6) by (simp add: Let_def)
  have leaf: "list_all (\<lambda>e. \<not> has_node e) (st v)" using "0.prems"(1) by simp
  then have stop: "stop_at h (st v) ?j = Ok (Not_Found (entry_pos h (st v) ?j))" using place by (simp add: stop_at_def list_all_length)
  have mem: "Some x \<in> set (inorder key st 0 (st v)) \<longleftrightarrow> x \<in> set (keys key (st v))" using in_node by (simp only: inorder_flat) simp
  show ?case
  proof (cases "x \<in> set (keys key (st v))")
    case True
    have "sorted_wrt lt (keys key (st v))" using nk(1) by (simp add: sorted_node_def)
    then have j: "?j < length (keys key (st v))" "keys key (st v) ! ?j = x" using member_place True by blast+
    let ?r = "(set_parent_vcn v (set_parent_pos ?j ?icx))\<lparr>is_in_root := False, ib := blk, entry := Some (entry_pos h (st v) ?j)\<rparr>"
    have "entry_has key ?r x" using entry_has_nth [OF b(3) ord j(1), of ?r slack] b(2) j(2) by (simp add: current_def)
    then show ?thesis unfolding mem using True descend_step(1) [OF inc read] look by simp
  next
    case False
    let ?r = "(set_parent_vcn v ?icx)\<lparr>is_in_root := False, ib := blk, entry := Some (entry_pos h (st v) ?j)\<rparr>"
    have "index_block_vcn blk = v" by (rule read_vcn [OF b(1)])
    moreover have "at_leaf key lt ?r x (st v)" unfolding at_leaf_def using b leaf by (auto simp: current_def)
    ultimately show ?thesis unfolding mem using False descend_step(2) [OF inc read] look stop by auto
  qed
next
  case (Suc d icx old v)
  let ?icx = "(set_parent_vcn old icx)\<lparr>pindex := pindex icx + 1\<rparr>" and ?j = "place lt x (keys key (st v))"
  let ?f = "\<lambda>e. inorder key st d (st (entry_vcn e))"
  have ord: "ordered lt (flat key ?f (st v))" using "Suc.prems"(2) by (simp only: inorder_flat)
  obtain blk h slack where b: "ntfs_ib_read icx v = Ok (Some blk)" "ib_index blk = node h (st v) slack" "header_ok h (st v)"
      "list_ex has_node (st v) \<longrightarrow> ih_flags (ib_index blk) AND NODE_MASK \<noteq> 0"
    using "Suc.prems"(3) by (auto simp: stored_def)
  have inc: "ntfs_icx_parent_inc (set_parent_vcn old icx) = Ok ?icx" using "Suc.prems"(5) by (simp add: ntfs_icx_parent_inc_def)
  have read: "ntfs_ib_read ?icx v = Ok (Some blk)" using b(1) read_cong [of ?icx icx] by simp
  have ok: "entries_ok (st v)" using b(3) by (simp add: header_ok_def)
  note place = at_the_place [OF ok ord, where x = x] and nk = node_keys [OF ok ord]
  have look: "ntfs_ie_lookup (icx_collate ?icx) xd xl (ib_index blk) =
      (if x \<in> set (keys key (st v)) then Ok (Found (entry_pos h (st v) ?j) ?j) else stop_at h (st v) ?j)"
    using node_lookup [OF b(3) nk(1) "Suc.prems"(4), of slack] b(2) "Suc.prems"(6) by (simp add: Let_def)
  let ?w = "entry_vcn (st v ! ?j)"
  have at: "has_node (st v ! ?j)" "0 \<le> ?w" "tree_ok st d (st ?w)" "st v ! ?j \<in> set (st v)"
    using "Suc.prems"(1) place(1) by (auto simp: list_all_length)
  have stop: "stop_at h (st v) ?j = Ok (Keep_Searching ?w ?j)" using at(1,2) by (simp add: stop_at_def)
  have mem: "Some x \<in> set (inorder key st (Suc d) (st v)) \<longleftrightarrow> x \<in> set (keys key (st v)) \<or> Some x \<in> set (?f (st v ! ?j))"
    using place(3) by (simp only: inorder_flat)
  show ?case
  proof (cases "x \<in> set (keys key (st v))")
    case True
    have "sorted_wrt lt (keys key (st v))" using nk(1) by (simp add: sorted_node_def)
    then have j: "?j < length (keys key (st v))" "keys key (st v) ! ?j = x" using member_place True by blast+
    let ?r = "(set_parent_vcn v (set_parent_pos ?j ?icx))\<lparr>is_in_root := False, ib := blk, entry := Some (entry_pos h (st v) ?j)\<rparr>"
    have "entry_has key ?r x" using entry_has_nth [OF b(3) ord j(1), of ?r slack] b(2) j(2) by (simp add: current_def)
    then show ?thesis unfolding mem using True descend_step(1) [OF inc read] look by simp
  next
    case False
    let ?next = "set_parent_pos ?j ?icx"
    have sub: "set (?w # reach st d (st ?w)) \<subseteq> set (reach st (Suc d) (st v))" using at(4) by auto
    have "stored ?next st u" if "u \<in> set (?w # reach st d (st ?w))" for u
    proof -
      have "stored icx st u" using "Suc.prems"(3) sub that by auto
      then show ?thesis using read_cong [of ?next icx u] by (simp add: stored_def)
    qed
    then obtain icx' where r: "descend_into_child_node xd xl ?next v ?w = Ok (Some x \<in> set (?f (st v ! ?j)), icx')"
      "if Some x \<in> set (?f (st v ! ?j)) then entry_has key icx' x else \<not> is_in_root icx' \<and> index_block_vcn (ib icx') = leaf_of key lt st x d ?w \<and> at_leaf key lt icx' x (st (leaf_of key lt st x d ?w))"
      using "Suc.IH" [of ?w ?next v] at(3) place(2) "Suc.prems"(4-6) by auto
    have "ih_flags (ib_index blk) AND NODE_MASK \<noteq> 0" using b(4) at(1,4) by (auto simp: list_ex_iff)
    then have "descend_into_child_node xd xl icx old v = Ok (Some x \<in> set (inorder key st (Suc d) (st v)), icx')"
      unfolding mem using False descend_step(3) [OF inc read] look stop r(1) by simp
    then show ?thesis using r(2) sub mem False by (auto split: if_splits)
  qed
qed

end

section \<open>The whole lookup\<close>

definition root_context :: "index_inode \<Rightarrow> bytes \<Rightarrow> index_context" where
  "root_context ni root = ntfs_index_ctx_get\<lparr>block_size := index_block_size root,
     vcn_size_bits := if cluster_size ni \<le> index_block_size root then cluster_size_bits ni else 9, ia_na := ia_open ni\<rparr>"

text \<open>The index of an inode: a tree of depth \<open>d\<close> over the entries \<open>es\<close> of the root, with its blocks on disk.\<close>

definition index_tree :: "index_inode \<Rightarrow> bytes \<Rightarrow> (int \<Rightarrow> bytes list) \<Rightarrow> nat \<Rightarrow> bytes list \<Rightarrow> bool" where
  "index_tree ni root st d es \<longleftrightarrow> ir_lookup ni = Ok root \<and> 512 \<le> index_block_size root \<and>
     (\<exists>h slack. ir_index root = node h es slack \<and> header_ok h es \<and> sized h es slack) \<and> tree_ok st d es \<and> d < MAX_PARENT_VCN \<and>
     (0 < d \<longrightarrow> ia_open ni \<noteq> None) \<and> (\<forall>v \<in> set (reach st d es). stored (root_context ni root) st v)"

context key_order
begin

lemma index_lookup:
  assumes "index_tree ni root st d es" and "ordered lt (inorder key st d es)" and "get_collate (collation_rule root) = Ok collate"
    and "key xd (nat xl) = Some x" and "0 < xl" and "mem (index_block_size root)"
  shows "\<exists>icx. ntfs_index_lookup mem get_collate ni xd xl ntfs_index_ctx_get = Ok (Some x \<in> set (inorder key st d es), icx) \<and>
    (if Some x \<in> set (inorder key st d es) then entry_has key icx x
     else case d of
       0 \<Rightarrow> is_in_root icx \<and> at_leaf key lt icx x es
     | Suc d' \<Rightarrow> let u = leaf_of key lt st x d' (entry_vcn (es ! place lt x (keys key es)))
                 in \<not> is_in_root icx \<and> index_block_vcn (ib icx) = u \<and> at_leaf key lt icx x (st u))"
proof -
  obtain h slack where r: "ir_lookup ni = Ok root" "\<not> index_block_size root < 512" "ir_index root = node h es slack" "header_ok h es" "sized h es slack"
    using assms(1) by (auto simp: index_tree_def)
  let ?f = "\<lambda>e. case d of 0 \<Rightarrow> [] | Suc d' \<Rightarrow> inorder key st d' (st (entry_vcn e))"
  let ?bits = "if cluster_size ni \<le> index_block_size root then cluster_size_bits ni else 9" and ?j = "place lt x (keys key es)"
  define icx0 where "icx0 = ntfs_index_ctx_get\<lparr>block_size := index_block_size root, vcn_size_bits := ?bits, icx_collate := Some collate\<rparr>"
  have flat: "inorder key st d es = flat key ?f es" by (cases d) (simp_all add: flat_def)
  have ord: "ordered lt (flat key ?f es)" using assms(2) unfolding flat .
  have ok: "entries_ok es" using r(4) by (simp add: header_ok_def)
  note place = at_the_place(1) [OF ok ord, where x = x] and nk = node_keys [OF ok ord]
  have mem: "Some x \<in> set (inorder key st d es) \<longleftrightarrow> x \<in> set (keys key es) \<or> Some x \<in> set (?f (es ! ?j))"
    unfolding flat by (rule at_the_place(3) [OF ok ord])
  have look: "ntfs_ie_lookup (Some collate) xd (nat xl) (node h es slack) =
      (if x \<in> set (keys key es) then Ok (Found (entry_pos h es ?j) ?j) else stop_at h es ?j)"
    using node_lookup [OF r(4) nk(1) assms(4), of slack] by (simp add: Let_def)
  have run: "ntfs_index_lookup mem get_collate ni xd xl ntfs_index_ctx_get =
      (case ntfs_ie_lookup (Some collate) xd (nat xl) (node h es slack) of
         Fault \<Rightarrow> Fault
       | Err e \<Rightarrow> Err e
       | Ok (Found ie item) \<Rightarrow>
           Ok (True, (set_parent_vcn VCN_INDEX_ROOT_PARENT (set_parent_pos item (icx0\<lparr>ir := root\<rparr>)))\<lparr>is_in_root := True, entry := Some ie\<rparr>)
       | Ok (Not_Found ie) \<Rightarrow>
           Ok (False, (set_parent_vcn VCN_INDEX_ROOT_PARENT (icx0\<lparr>ir := root\<rparr>))\<lparr>is_in_root := True, entry := Some ie\<rparr>)
       | Ok (Keep_Searching vcn item) \<Rightarrow>
           if ia_open ni = None then Err EIO
           else descend_into_child_node xd (nat xl) (set_parent_pos item (icx0\<lparr>ir := root, ia_na := ia_open ni\<rparr>)) VCN_INDEX_ROOT_PARENT vcn)"
    using assms(3,5,6) r(1-3) by (auto simp: ntfs_index_lookup_def icx0_def Let_def split: result.split ie_search.split)
  show ?thesis
  proof (cases "x \<in> set (keys key es)")
    case True
    have "sorted_wrt lt (keys key es)" using nk(1) by (simp add: sorted_node_def)
    then have j: "?j < length (keys key es)" "keys key es ! ?j = x" using member_place True by blast+
    let ?r = "(set_parent_vcn VCN_INDEX_ROOT_PARENT (set_parent_pos ?j (icx0\<lparr>ir := root\<rparr>)))\<lparr>is_in_root := True, entry := Some (entry_pos h es ?j)\<rparr>"
    have "current ?r = node h es slack" using r(3) by (simp add: current_def set_parent_vcn_def set_parent_pos_def)
    then have "entry_has key ?r x" using entry_has_nth [OF r(4) ord j(1), of ?r slack] j(2) by simp
    then show ?thesis unfolding run look mem using True by simp
  next
    case False
    show ?thesis
    proof (cases d)
      case 0
      have leaf: "list_all (\<lambda>e. \<not> has_node e) es" using assms(1) 0 by (simp add: index_tree_def)
      then have stop: "stop_at h es ?j = Ok (Not_Found (entry_pos h es ?j))" using place by (simp add: stop_at_def list_all_length)
      let ?r = "(set_parent_vcn VCN_INDEX_ROOT_PARENT (icx0\<lparr>ir := root\<rparr>))\<lparr>is_in_root := True, entry := Some (entry_pos h es ?j)\<rparr>"
      have "current ?r = node h es slack" using r(3) by (simp add: current_def set_parent_vcn_def)
      then have "at_leaf key lt ?r x es" unfolding at_leaf_def using r(4,5) leaf by auto
      then show ?thesis unfolding run look mem using False stop 0 by simp
    next
      case (Suc d')
      let ?w = "entry_vcn (es ! ?j)"
      have at: "has_node (es ! ?j)" "0 \<le> ?w" "tree_ok st d' (st ?w)" "es ! ?j \<in> set es"
        using assms(1) Suc place by (auto simp: index_tree_def list_all_length)
      have stop: "stop_at h es ?j = Ok (Keep_Searching ?w ?j)" using at(1,2) by (simp add: stop_at_def)
      let ?next = "set_parent_pos ?j (icx0\<lparr>ir := root, ia_na := ia_open ni\<rparr>)"
      have sub: "set (?w # reach st d' (st ?w)) \<subseteq> set (reach st d es)" using at(4) Suc by auto
      have "stored ?next st u" if "u \<in> set (?w # reach st d' (st ?w))" for u
      proof -
        have "stored (root_context ni root) st u" using assms(1) sub that by (auto simp: index_tree_def)
        then show ?thesis using read_cong [of ?next "root_context ni root" u] by (simp add: stored_def root_context_def icx0_def)
      qed
      moreover have "ordered lt (inorder key st d' (st ?w))" using at_the_place(2) [OF ok ord, of x] Suc by simp
      moreover have "pindex ?next + d' + 1 < MAX_PARENT_VCN" "icx_collate ?next = Some collate"
        using assms(1) Suc by (simp_all add: icx0_def index_tree_def ntfs_index_ctx_get_def)
      ultimately obtain icx' where c: "descend_into_child_node xd (nat xl) ?next VCN_INDEX_ROOT_PARENT ?w = Ok (Some x \<in> set (inorder key st d' (st ?w)), icx')"
        "if Some x \<in> set (inorder key st d' (st ?w)) then entry_has key icx' x else \<not> is_in_root icx' \<and> index_block_vcn (ib icx') = leaf_of key lt st x d' ?w \<and> at_leaf key lt icx' x (st (leaf_of key lt st x d' ?w))"
        using descent [OF at(3)] assms(4) by blast
      have "ia_open ni \<noteq> None" using assms(1) Suc by (simp add: index_tree_def)
      then have "ntfs_index_lookup mem get_collate ni xd xl ntfs_index_ctx_get = Ok (Some x \<in> set (inorder key st d es), icx')"
        unfolding run look mem using False stop c(1) Suc by simp
      then show ?thesis using c(2) mem False Suc by (auto simp: Let_def)
    qed
  qed
qed

end

end
