(* ===== verification/Index_Insert.thy ===== *)
theory Index_Insert
  imports Index_Lookup_Laws
begin

text \<open>
  Insertion in a tree: a new entry in the leaf where its key belongs gives the keys in order with
  the new one in its place.
\<close>

unbundle bit_operations_syntax

section \<open>A key in its place\<close>

definition inserted :: "('k \<Rightarrow> 'k \<Rightarrow> bool) \<Rightarrow> 'k \<Rightarrow> 'k option list \<Rightarrow> 'k option list \<Rightarrow> bool" where
  "inserted lt x ks ks' \<longleftrightarrow> (\<exists>A B. ks = A @ B \<and> ks' = A @ Some x # B \<and>
     (\<forall>y. Some y \<in> set A \<longrightarrow> lt y x) \<and> (\<forall>y. Some y \<in> set B \<longrightarrow> lt x y))"

lemma inserted_set: "inserted lt x ks ks' \<Longrightarrow> set ks' = insert (Some x) (set ks) \<and> length ks' = length ks + 1"
  by (auto simp: inserted_def)

lemma inserted_ordered:
  assumes "inserted lt x ks ks'" and "ordered lt ks"
  shows "ordered lt ks'"
proof -
  obtain A B where s: "ks = A @ B" "ks' = A @ Some x # B" "\<forall>y. Some y \<in> set A \<longrightarrow> lt y x" "\<forall>y. Some y \<in> set B \<longrightarrow> lt x y"
    using assms(1) by (auto simp: inserted_def)
  have n: "None \<notin> set A" "None \<notin> set B" using assms(2) by (auto simp: s(1) ordered_def)
  then have "\<forall>z \<in> set A. lt (the z) x" "\<forall>z \<in> set B. lt x (the z)" using s(3,4) by (metis option.collapse)+
  then show ?thesis using assms(2) n unfolding s(1,2) ordered_def by (auto simp: sorted_wrt_append)
qed

lemma distinct_mid: "distinct (v # a @ b @ c) \<Longrightarrow> u \<in> set b \<Longrightarrow> u \<noteq> v \<and> u \<notin> set a \<and> u \<notin> set c"
  by auto

lemma flat_append: "flat key f (a @ b) = flat key f a @ flat key f b"
  by (simp add: flat_def)

context key_order
begin

lemma left_of_place:
  assumes "entries_ok es" and "ordered lt (flat key f es)" and "Some y \<in> set (flat key f (take (place lt x (keys key es)) es))"
  shows "lt y x"
proof -
  let ?j = "place lt x (keys key es)"
  have j: "?j < length es" using at_the_place(1) [OF assms(1,2)] .
  obtain b where b: "b \<in> set (take ?j es)" "Some y \<in> set (f b @ own key b)" using assms(3) by (auto simp: flat_def)
  then obtain i where i: "i < ?j" "i < length es" "Some y \<in> set (f (es ! i) @ own key (es ! i))"
    by (auto simp: in_set_conv_nth [of b])
  have own: "own key (es ! i) = [Some (keys key es ! i)]" using own_nth [OF assms(1,2), of i] i(1) j by simp
  have less: "lt (keys key es ! i) x" using before_place [OF i(1)] .
  show ?thesis
  proof (cases "Some y \<in> set (own key (es ! i))")
    case False
    have o: "ordered lt ([] @ f (es ! i) @ own key (es ! i))" using assms(2) unfolding flat_split [OF i(2)] by (simp add: ordered_append)
    have "lt y (keys key es ! i)" using ordered_pair [OF o, of y "keys key es ! i"] False i(3) own by simp
    then show ?thesis using less less_trans by blast
  qed (use own less in simp)
qed

lemma right_of_place:
  assumes "entries_ok es" and "ordered lt (flat key f es)" and "x \<notin> set (keys key es)"
    and "Some y \<in> set (own key (es ! place lt x (keys key es)) @ flat key f (drop (Suc (place lt x (keys key es))) es))"
  shows "lt x y"
proof -
  let ?j = "place lt x (keys key es)"
  have j: "?j < length es" using at_the_place(1) [OF assms(1,2)] .
  have sj: "Suc ?j < length es"
  proof (rule ccontr)
    assume "\<not> Suc ?j < length es"
    then have "Suc ?j = length es" using j by simp
    moreover have "is_end (es ! ?j)" using entries_ok_end [OF assms(1) j] calculation by simp
    ultimately show False using assms(4) by (simp add: own_def flat_def)
  qed
  then have k: "?j < length (keys key es)" by (simp add: keys_def)
  have own: "own key (es ! ?j) = [Some (keys key es ! ?j)]" using own_nth [OF assms(1,2) sj] .
  have "keys key es ! ?j \<noteq> x" using k assms(3) nth_mem by metis
  then have less: "lt x (keys key es ! ?j)" using at_place [OF k] less_total by blast
  show ?thesis
  proof (cases "Some y \<in> set (own key (es ! ?j))")
    case False
    have "ordered lt (flat key f (take ?j es) @ (f (es ! ?j) @ own key (es ! ?j)) @ flat key f (drop (Suc ?j) es))"
      using assms(2) unfolding flat_split [OF j] .
    then have "lt (keys key es ! ?j) y" using ordered_pair [of lt _ "f (es ! ?j) @ own key (es ! ?j)" _ "keys key es ! ?j" y] False assms(4) own by simp
    then show ?thesis using less less_trans by blast
  qed (use own less in simp)
qed

text \<open>The keys below the entry at the place take the new key.\<close>

lemma inserted_flat:
  assumes "entries_ok es" and "ordered lt (flat key f es)" and "x \<notin> set (keys key es)"
    and "inserted lt x (f (es ! place lt x (keys key es))) S"
  shows "inserted lt x (flat key f es) (flat key f (take (place lt x (keys key es)) es) @ S @
    own key (es ! place lt x (keys key es)) @ flat key f (drop (Suc (place lt x (keys key es))) es))"
proof -
  let ?j = "place lt x (keys key es)"
  obtain A B where s: "f (es ! ?j) = A @ B" "S = A @ Some x # B" "\<forall>y. Some y \<in> set A \<longrightarrow> lt y x" "\<forall>y. Some y \<in> set B \<longrightarrow> lt x y"
    using assms(4) by (auto simp: inserted_def)
  have sp: "flat key f es = (flat key f (take ?j es) @ A) @ (B @ own key (es ! ?j) @ flat key f (drop (Suc ?j) es))"
    using flat_split [OF at_the_place(1) [OF assms(1,2), of x], of key f] unfolding s(1) by (simp only: append_assoc)
  show ?thesis unfolding inserted_def
    using sp s left_of_place [OF assms(1,2)] right_of_place [OF assms(1-3)]
    by (intro exI [of _ "flat key f (take ?j es) @ A"] exI [of _ "B @ own key (es ! ?j) @ flat key f (drop (Suc ?j) es)"]) auto
qed

lemma inserted_node:
  assumes "entries_ok es" and "ordered lt (flat key (\<lambda>_. []) es)" and "x \<notin> set (keys key es)" and "own key e = [Some x]"
  shows "inserted lt x (flat key (\<lambda>_. []) es) (flat key (\<lambda>_. []) (take (place lt x (keys key es)) es @ e # drop (place lt x (keys key es)) es))"
proof -
  let ?j = "place lt x (keys key es)"
  have j: "?j < length es" using at_the_place(1) [OF assms(1,2)] .
  have "inserted lt x [] [Some x]" by (simp add: inserted_def)
  from inserted_flat [OF assms(1-3), OF this] show ?thesis
    using assms(4) by (simp add: flat_append Cons_nth_drop_Suc [OF j, symmetric]) (simp add: flat_def)
qed

section \<open>The leaf of a tree\<close>

lemma insert_leaf:
  assumes "tree_ok st d (st v)" and "ordered lt (inorder key st d (st v))" and "Some x \<notin> set (inorder key st d (st v))"
    and "distinct (v # reach st d (st v))" and "own key e = [Some x]" and "entry_ok e" and "\<not> is_end e" and "\<not> has_node e"
  defines "u \<equiv> leaf_of key lt st x d v"
  defines "st' \<equiv> st(u := take (place lt x (keys key (st u))) (st u) @ e # drop (place lt x (keys key (st u))) (st u))"
  shows "u \<in> set (v # reach st d (st v)) \<and> reach st' d (st' v) = reach st d (st v) \<and> tree_ok st' d (st' v) \<and>
    inserted lt x (inorder key st d (st v)) (inorder key st' d (st' v))"
  using assms(1-4) unfolding st'_def u_def
proof (induction d arbitrary: v)
  case (0 v)
  let ?j = "place lt x (keys key (st v))"
  have ok: "entries_ok (st v)" and leaf: "list_all (\<lambda>e. \<not> has_node e) (st v)" using "0.prems"(1) by simp_all
  have ord: "ordered lt (flat key (\<lambda>_. []) (st v))" using "0.prems"(2) by (simp only: inorder_flat)
  have new: "x \<notin> set (keys key (st v))"
    using at_the_place(3) [OF ok ord, of x] "0.prems"(3) by (simp only: inorder_flat) simp
  have "entries_ok (take ?j (st v) @ e # drop ?j (st v))"
    using entries_ok_insert [OF ok at_the_place(1) [OF ok ord] assms(6,7)] .
  moreover have "list_all (\<lambda>e. \<not> has_node e) (take ?j (st v) @ e # drop ?j (st v))"
    using leaf assms(8) by (auto simp: list_all_iff dest: in_set_takeD in_set_dropD)
  moreover have "inserted lt x (inorder key st 0 (st v)) (inorder key st' 0 (take ?j (st v) @ e # drop ?j (st v)))" for st'
    unfolding inorder_flat by (rule inserted_node [OF ok ord new assms(5)])
  ultimately show ?case by simp
next
  case (Suc d v)
  let ?j = "place lt x (keys key (st v))" and ?f = "\<lambda>st e. inorder key st d (st (entry_vcn e))"
  let ?sub = "\<lambda>e. entry_vcn e # reach st d (st (entry_vcn e))" and ?w = "entry_vcn (st v ! place lt x (keys key (st v)))"
  let ?u = "leaf_of key lt st x d ?w"
  define st' where "st' = st(?u := take (place lt x (keys key (st ?u))) (st ?u) @ e # drop (place lt x (keys key (st ?u))) (st ?u))"
  have ok: "entries_ok (st v)" using "Suc.prems"(1) by simp
  have ord: "ordered lt (flat key (?f st) (st v))" using "Suc.prems"(2) by (simp only: inorder_flat)
  note place = at_the_place [OF ok ord, where x = x]
  have new: "x \<notin> set (keys key (st v))" "Some x \<notin> set (?f st (st v ! ?j))"
    using place(3) "Suc.prems"(3) unfolding inorder_flat by blast+
  have tree: "has_node b \<and> 0 \<le> entry_vcn b \<and> tree_ok st d (st (entry_vcn b))" if "b \<in> set (st v)" for b
    using "Suc.prems"(1) that by (auto simp: list_all_iff)
  have split: "reach st (Suc d) (st v) = concat (map ?sub (take ?j (st v))) @ ?sub (st v ! ?j) @ concat (map ?sub (drop (Suc ?j) (st v)))"
    using concat_map_split [OF place(1), of ?sub] by simp
  have dist: "distinct (v # concat (map ?sub (take ?j (st v))) @ ?sub (st v ! ?j) @ concat (map ?sub (drop (Suc ?j) (st v))))"
    using "Suc.prems"(4) unfolding split .
  have "distinct (?w # reach st d (st ?w))" using dist by simp
  then have IH: "?u \<in> set (?w # reach st d (st ?w))" "reach st' d (st' ?w) = reach st d (st ?w)" "tree_ok st' d (st' ?w)"
      "inserted lt x (?f st (st v ! ?j)) (inorder key st' d (st' ?w))"
    using "Suc.IH" [of ?w] tree [OF nth_mem [OF place(1)]] place(2) new(2) unfolding st'_def by blast+
  note apart = distinct_mid [OF dist IH(1)]
  have v: "st' v = st v" using apart by (simp add: st'_def)
  have same: "st' (entry_vcn b) = st (entry_vcn b) \<and> ?f st' b = ?f st b \<and> reach st' d (st' (entry_vcn b)) = reach st d (st (entry_vcn b)) \<and>
      tree_ok st' d (st' (entry_vcn b))" if b: "b \<in> set (take ?j (st v)) \<union> set (drop (Suc ?j) (st v))" for b
  proof -
    have "set (?sub b) \<subseteq> set (concat (map ?sub (take ?j (st v)))) \<union> set (concat (map ?sub (drop (Suc ?j) (st v))))" using b by auto
    then have no: "?u \<notin> set (?sub b)" using apart by blast
    have c: "st' a = st a" if "a \<in> set (?sub b)" for a
    proof -
      have "a \<noteq> ?u" using no that by metis
      then show ?thesis by (simp add: st'_def)
    qed
    then have eq: "st' (entry_vcn b) = st (entry_vcn b)" by simp
    have "b \<in> set (st v)" using b by (auto dest: in_set_takeD in_set_dropD)
    then show ?thesis
      using inorder_reach_cong [of st d "st (entry_vcn b)" st' key] c tree unfolding eq by (simp del: reach.simps tree_ok.simps inorder.simps)
  qed
  have halves: "map (\<lambda>b. ?f st' b @ own key b) (take ?j (st v)) = map (\<lambda>b. ?f st b @ own key b) (take ?j (st v))"
    "map (\<lambda>b. ?f st' b @ own key b) (drop (Suc ?j) (st v)) = map (\<lambda>b. ?f st b @ own key b) (drop (Suc ?j) (st v))"
    using same by (intro map_cong refl; metis (no_types, lifting) UnI1 UnI2)+
  have "inorder key st' (Suc d) (st v) = flat key (?f st) (take ?j (st v)) @ inorder key st' d (st' ?w) @ own key (st v ! ?j) @
      flat key (?f st) (drop (Suc ?j) (st v))"
    unfolding inorder_flat(2) flat_split [OF place(1)] unfolding flat_def halves by simp
  then have ins: "inserted lt x (inorder key st (Suc d) (st v)) (inorder key st' (Suc d) (st v))"
    using inserted_flat [OF ok ord new(1) IH(4)] by (simp only: inorder_flat)
  let ?sub' = "\<lambda>e. entry_vcn e # reach st' d (st' (entry_vcn e))"
  have "map ?sub' (take ?j (st v)) = map ?sub (take ?j (st v))" "map ?sub' (drop (Suc ?j) (st v)) = map ?sub (drop (Suc ?j) (st v))"
    using same by (intro map_cong refl; metis (no_types, lifting) UnI1 UnI2)+
  then have "reach st' (Suc d) (st v) = reach st (Suc d) (st v)"
    unfolding reach.simps concat_map_split [OF place(1), of ?sub'] concat_map_split [OF place(1), of ?sub] IH(2) by (simp only:)
  moreover have "tree_ok st' (Suc d) (st v)"
  proof -
    have "tree_ok st' d (st' (entry_vcn b))" if "b \<in> set (st v)" for b
    proof -
      have "set (st v) = set (take ?j (st v)) \<union> {st v ! ?j} \<union> set (drop (Suc ?j) (st v))"
        by (subst id_take_nth_drop [OF place(1)]) auto
      then show ?thesis using that same IH(3) by blast
    qed
    then show ?thesis using ok tree by (auto simp: list_all_iff)
  qed
  moreover have "?u \<in> set (v # reach st (Suc d) (st v))" using IH(1) unfolding split by auto
  ultimately show ?case using ins v by (simp only: leaf_of.simps st'_def)
qed

end

end
