(* ===== verification/Index_Directory.thy ===== *)
theory Index_Directory
  imports Index_Order
begin

text \<open>
  Nodes of a directory: names are found, added and removed, and the node stays sorted.
\<close>

unbundle bit_operations_syntax

section \<open>The entry for a file name\<close>

text \<open>The entry that \<open>ntfs_index_add_filename\<close> builds from a \<open>FILE_NAME_ATTR\<close>.\<close>

definition filename_entry :: "bytes \<Rightarrow> nat \<Rightarrow> bytes" where
  "filename_entry fn mref =
     (let fn_size = 2 * unat (byte_at fn 0x40) + 0x42; ie_size = (16 + fn_size + 7) div 8 * 8
      in le_bytes 8 mref @ le_bytes 2 ie_size @ le_bytes 2 fn_size @ replicate 4 0 @ take fn_size fn @
         replicate (ie_size - 16 - fn_size) 0)"

lemma filename_entry_shape:
  assumes "file_name_at fn = Ok name"
  defines "n \<equiv> 2 * unat (byte_at fn 0x40) + 0x42" and "s \<equiv> (16 + (2 * unat (byte_at fn 0x40) + 0x42) + 7) div 8 * 8"
  shows "n \<le> length fn" and "16 + n \<le> s" and "s \<le> 624" and "length (filename_entry fn mref) = s"
    and "filename_entry fn mref = (le_bytes 8 mref @ le_bytes 2 s @ le_bytes 2 n @ replicate 4 0) @ take n fn @ replicate (s - 16 - n) 0"
proof -
  have u: "unat (byte_at fn 0x40) < 256" by simp
  show n: "n \<le> length fn" using assms(1) by (auto simp: file_name_at_def n_def Let_def split: if_splits)
  show s: "16 + n \<le> s" unfolding s_def n_def by presburger
  show "s \<le> 624" using u unfolding s_def by presburger
  show "length (filename_entry fn mref) = s" using n s by (simp add: filename_entry_def Let_def n_def s_def min_def)
  show "filename_entry fn mref = (le_bytes 8 mref @ le_bytes 2 s @ le_bytes 2 n @ replicate 4 0) @ take n fn @ replicate (s - 16 - n) 0"
    by (simp add: filename_entry_def Let_def n_def s_def)
qed

lemma le_at_le_bytes: "le_at n (le_bytes n v @ rest) 0 = v mod 256 ^ n"
proof -
  have "map (byte_at (le_bytes n v)) [0..<n] = le_bytes n v" by (intro nth_equalityI) (simp_all add: byte_at_def)
  then show ?thesis by (simp add: le_at_def [of n "le_bytes n v"] le_val_le_bytes)
qed

lemma file_name_at_take:
  assumes "file_name_at fn = Ok name"
  shows "file_name_at (take (2 * unat (byte_at fn 0x40) + 0x42) fn) = Ok name"
proof -
  let ?n = "2 * unat (byte_at fn 0x40) + 0x42"
  have n: "?n \<le> length fn" using filename_entry_shape(1) [OF assms] by simp
  have b: "byte_at (take ?n fn) 0x40 = byte_at fn 0x40" using n by (simp add: byte_at_def)
  have l: "le_at 2 fn i = le_at 2 (take ?n fn) i" if "i + 2 \<le> ?n" for i
    using le_at_append(1) [of i 2 "take ?n fn" "drop ?n fn"] that n by simp
  have m: "map (\<lambda>i. word_of_nat (le_at 2 (take ?n fn) (0x42 + 2 * i))) [0..<unat (byte_at fn 0x40)] =
    (map (\<lambda>i. word_of_nat (le_at 2 fn (0x42 + 2 * i))) [0..<unat (byte_at fn 0x40)] :: ucs)"
    by (intro map_cong) (simp_all add: l)
  show ?thesis using assms n unfolding file_name_at_def Let_def b m by (simp split: if_splits)
qed

lemma filename_entry_ok:
  assumes "file_name_at fn = Ok name"
  shows "entry_ok (filename_entry fn mref)" and "\<not> is_end (filename_entry fn mref)" and "\<not> has_node (filename_entry fn mref)"
    and "entry_key name_key (filename_entry fn mref) = Some name" and "0 < ie_key_length (filename_entry fn mref) 0"
proof -
  define n s where "n = 2 * unat (byte_at fn 0x40) + 0x42" and "s = (16 + (2 * unat (byte_at fn 0x40) + 0x42) + 7) div 8 * 8"
  note shape = filename_entry_shape [OF assms, folded n_def s_def]
  define rest where "rest = take n fn @ replicate (s - 16 - n) (0 :: u8)"
  have e: "filename_entry fn mref = le_bytes 8 mref @ (le_bytes 2 s @ le_bytes 2 n @ replicate 4 0 @ rest)"
    using shape(5) by (simp add: rest_def)
  have at: "le_at 2 (filename_entry fn mref) (8 + i) = le_at 2 (le_bytes 2 s @ le_bytes 2 n @ replicate 4 0 @ rest) i" for i
    using le_at_append(2) [of 2 "le_bytes 8 mref" _ i] unfolding e by simp
  have len: "ie_length (filename_entry fn mref) 0 = s"
    using at [of 0] shape(3) le_at_le_bytes [of 2 s] by (simp add: ie_length_def)
  have fl: "ie_flags (filename_entry fn mref) 0 = 0"
  proof -
    have "le_at 2 (filename_entry fn mref) 12 = le_at 2 ((le_bytes 2 s @ le_bytes 2 n) @ replicate 4 0 @ rest) (length (le_bytes 2 s @ le_bytes 2 n) + 0)"
      using at [of 4] by simp
    also have "\<dots> = le_at 2 (replicate 4 0 @ rest) 0" by (rule le_at_append(2))
    also have "\<dots> = le_at 2 (replicate 4 0) 0" by (rule le_at_append(1)) simp
    finally show ?thesis by (simp add: ie_flags_def le_at_def byte_at_def numeral_2_eq_2 upt_rec)
  qed
  show "entry_ok (filename_entry fn mref)" "\<not> is_end (filename_entry fn mref)" "\<not> has_node (filename_entry fn mref)"
    using shape(2,4) len fl by (simp_all add: entry_ok_def is_end_def has_node_def)
  have "le_at 2 (filename_entry fn mref) 10 = le_at 2 (le_bytes 2 n @ replicate 4 0 @ rest) 0"
    using at [of 2] le_at_append(2) [of 2 "le_bytes 2 s" "le_bytes 2 n @ replicate 4 0 @ rest" 0] by simp
  moreover have "n mod 256 ^ 2 = n" using shape(2,3) by simp
  ultimately show "0 < ie_key_length (filename_entry fn mref) 0" using le_at_le_bytes [of 2 n] by (simp add: ie_key_length_def n_def)
  have "drop 16 (filename_entry fn mref) = rest" unfolding e by simp
  then show "entry_key name_key (filename_entry fn mref) = Some name"
    using file_name_at_append [OF file_name_at_take [OF assms, folded n_def]] by (simp add: entry_key_def name_key_Some rest_def)
qed

section \<open>Lookup, insertion and deletion of names\<close>

abbreviation dir_names :: "bytes list \<Rightarrow> ucs list" where "dir_names es \<equiv> keys name_key es"
abbreviation sorted_dir :: "ucs \<Rightarrow> bytes list \<Rightarrow> bool" where "sorted_dir upcase es \<equiv> sorted_node name_key (name_less upcase) es"
abbreviation dir_lookup :: "ucs \<Rightarrow> bytes \<Rightarrow> nat \<Rightarrow> bytes \<Rightarrow> ie_search result" where
  "dir_lookup upcase fn len ih \<equiv> ntfs_ie_lookup (Some (ntfs_collate_file_name upcase)) fn len ih"

lemma dir_lookup_node:
  assumes "header_ok h es" and "sorted_dir upcase es" and "file_name_at fn = Ok name"
  shows "dir_lookup upcase fn len (node h es slack) =
    (let j = place (name_less upcase) name (dir_names es)
     in if name \<in> set (dir_names es) then Ok (Found (entry_pos h es j) j) else stop_at h es j)"
  using names.node_lookup [OF assms(1,2), of fn len name slack] assms(3) by (simp add: name_key_Some)

section \<open>Concrete nodes\<close>

definition end_entry :: bytes where "end_entry = replicate 8 0 @ [16, 0, 0, 0, 2, 0, 0, 0]"

definition demo_header :: "nat \<Rightarrow> bytes" where "demo_header n = le_bytes 4 16 @ le_bytes 4 n @ le_bytes 4 200 @ [0, 0, 0, 0]"

text \<open>A \<open>FILE_NAME_ATTR\<close> with a name of one unit.\<close>

definition demo_name :: "u8 \<Rightarrow> bytes" where "demo_name c = replicate 64 0 @ [1, 0, c, 0]"

text \<open>Adding a name to a node of a directory where the search for it ended: the node stays well
  formed and sorted, holds exactly one name more, and the name is found from then on.\<close>

theorem directory_node_insert:
  assumes "header_ok h es" and "sorted_dir upcase es" and "file_name_at fn = Ok name"
    and "dir_lookup upcase fn len (node h es slack) = Ok (Not_Found p)"
    and "length (filename_entry fn mref) \<le> length slack" and "length (node h es slack) < 2 ^ 32"
  shows "\<exists>h' es' slack'. ntfs_ie_insert (node h es slack) (filename_entry fn mref) p = Ok (node h' es' slack') \<and>
    header_ok h' es' \<and> sorted_dir upcase es' \<and> set (dir_names es') = insert name (set (dir_names es)) \<and>
    length (dir_names es') = length (dir_names es) + 1 \<and>
    (\<exists>q i. dir_lookup upcase fn len (node h' es' slack') = Ok (Found q i))"
proof -
  let ?j = "place (name_less upcase) name (dir_names es)"
  note entry = filename_entry_ok [OF assms(3)]
  have new: "name \<notin> set (dir_names es)" using assms(4) dir_lookup_node [OF assms(1-3), of len slack] by (auto simp: Let_def)
  then have p: "p = entry_pos h es ?j"
    using assms(4) dir_lookup_node [OF assms(1-3), of len slack] by (auto simp: Let_def stop_at_def split: if_splits)
  obtain h' slack' where r: "ntfs_ie_insert (node h es slack) (filename_entry fn mref) p =
      Ok (node h' (take ?j es @ filename_entry fn mref # drop ?j es) slack')"
    "header_ok h' (take ?j es @ filename_entry fn mref # drop ?j es)" "sorted_dir upcase (take ?j es @ filename_entry fn mref # drop ?j es)"
    "dir_names (take ?j es @ filename_entry fn mref # drop ?j es) = take ?j (dir_names es) @ name # drop ?j (dir_names es)"
    using names.lookup_insert [OF assms(1,2) entry(4) new entry(1,2) assms(5,6)] unfolding p by blast
  have "set (take ?j (dir_names es) @ name # drop ?j (dir_names es)) = insert name (set (dir_names es))"
    using set_append [of "take ?j (dir_names es)" "drop ?j (dir_names es)"] by (simp only: append_take_drop_id set_append list.set) blast
  moreover have "length (take ?j (dir_names es) @ name # drop ?j (dir_names es)) = length (dir_names es) + 1" by simp
  ultimately show ?thesis using r dir_lookup_node [OF r(2,3) assms(3), of len slack']
    by (intro exI [of _ h'] exI [of _ "take ?j es @ filename_entry fn mref # drop ?j es"] exI [of _ slack']) (simp add: Let_def)
qed

theorem directory_node_insert_witness:
  "\<exists>h' es' slack'. ntfs_ie_insert (node (demo_header 120) [filename_entry (demo_name 0x61) 5, end_entry] (replicate 80 0 @ replicate 20 0))
      (filename_entry (demo_name 0x62) 6) 104 = Ok (node h' es' slack') \<and>
    set (dir_names es') = {[0x61], [0x62]}"
proof -
  have a1: "header_ok (demo_header 120) [filename_entry (demo_name 0x61) 5, end_entry]" by code_simp
  have a2: "sorted_dir [] [filename_entry (demo_name 0x61) 5, end_entry]" by code_simp
  have a3: "file_name_at (demo_name 0x62) = Ok [0x62]" by code_simp
  have a4: "dir_lookup [] (demo_name 0x62) 68 (node (demo_header 120) [filename_entry (demo_name 0x61) 5, end_entry] (replicate 80 0 @ replicate 20 0))
      = Ok (Not_Found 104)" by code_simp
  have a5: "length (filename_entry (demo_name 0x62) 6) \<le> length (replicate 80 0 @ replicate 20 (0 :: u8))" by code_simp
  have a6: "length (node (demo_header 120) [filename_entry (demo_name 0x61) 5, end_entry] (replicate 80 0 @ replicate 20 0)) < 2 ^ 32"
  proof -
    have "length (node (demo_header 120) [filename_entry (demo_name 0x61) 5, end_entry] (replicate 80 0 @ replicate 20 0)) = 220" by code_simp
    then show ?thesis by simp
  qed
  have d: "dir_names [filename_entry (demo_name 0x61) 5, end_entry] = [[0x61]]" by code_simp
  have "insert [0x62] (set [[0x61]]) = {[0x61], [0x62] :: ucs}" by auto
  then show ?thesis using directory_node_insert [OF a1 a2 a3 a4 a5 a6] unfolding d by (elim exE conjE) (intro exI conjI, assumption, simp)
qed

text \<open>(C39) Removing the entry the search found: the node stays well formed and sorted, holds exactly the other
  names, and the name is not found any more.\<close>

theorem directory_node_delete:
  assumes "header_ok h es" and "sorted_dir upcase es" and "file_name_at fn = Ok name"
    and "dir_lookup upcase fn len (node h es slack) = Ok (Found p i)" and "length (node h es slack) < 2 ^ 32"
  shows "\<exists>h' es' slack'. ntfs_ie_delete (node h es slack) p = Ok (node h' es' slack') \<and>
    header_ok h' es' \<and> sorted_dir upcase es' \<and> set (dir_names es') = set (dir_names es) - {name} \<and>
    (\<forall>q k. dir_lookup upcase fn len (node h' es' slack') \<noteq> Ok (Found q k))"
proof -
  let ?j = "place (name_less upcase) name (dir_names es)"
  have s: "sorted_wrt (name_less upcase) (dir_names es)" using assms(2) by (simp add: sorted_node_def)
  have there: "name \<in> set (dir_names es)" and p: "p = entry_pos h es ?j"
    using assms(4) dir_lookup_node [OF assms(1-3), of len slack] by (auto simp: Let_def stop_at_def split: if_splits)
  then have at: "?j < length (dir_names es)" "dir_names es ! ?j = name" using names.member_place [OF s, of name] by simp_all
  then have j: "Suc ?j < length es" by (simp add: keys_def)
  obtain h' slack' where r: "ntfs_ie_delete (node h es slack) p = Ok (node h' (take ?j es @ drop (Suc ?j) es) slack')"
    "header_ok h' (take ?j es @ drop (Suc ?j) es)" "sorted_dir upcase (take ?j es @ drop (Suc ?j) es)"
    "dir_names (take ?j es @ drop (Suc ?j) es) = take ?j (dir_names es) @ drop (Suc ?j) (dir_names es)"
    using names.lookup_delete [OF assms(1,2) j assms(5)] unfolding p by blast
  have split: "dir_names es = take ?j (dir_names es) @ name # drop (Suc ?j) (dir_names es)"
    using at id_take_nth_drop [of ?j "dir_names es"] by simp
  then have "sorted_wrt (name_less upcase) (take ?j (dir_names es) @ name # drop (Suc ?j) (dir_names es))" using s by simp
  then have "name \<notin> set (take ?j (dir_names es)) \<union> set (drop (Suc ?j) (dir_names es))"
    using names.less_irrefl [of upcase name] by (auto simp: sorted_wrt_append)
  then have set': "set (dir_names (take ?j es @ drop (Suc ?j) es)) = set (dir_names es) - {name}"
    unfolding r(4) by (subst (3) split) auto
  then have "dir_lookup upcase fn len (node h' (take ?j es @ drop (Suc ?j) es) slack') \<noteq> Ok (Found q k)" for q k
    using dir_lookup_node [OF r(2,3) assms(3), of len slack'] by (simp add: Let_def stop_at_def)
  then show ?thesis using r(1-3) set' by blast
qed

theorem directory_node_delete_witness:
  "\<exists>h' es' slack'. ntfs_ie_delete (node (demo_header 120) [filename_entry (demo_name 0x61) 5, end_entry] []) 16 = Ok (node h' es' slack') \<and>
    header_ok h' es' \<and> set (dir_names es') = {}"
proof -
  have "header_ok (demo_header 120) [filename_entry (demo_name 0x61) 5, end_entry]" by code_simp
  moreover have "sorted_dir [] [filename_entry (demo_name 0x61) 5, end_entry]" by code_simp
  moreover have "file_name_at (demo_name 0x61) = Ok [0x61]" by code_simp
  moreover have "dir_lookup [] (demo_name 0x61) 68 (node (demo_header 120) [filename_entry (demo_name 0x61) 5, end_entry] [])
      = Ok (Found 16 0)" by code_simp
  moreover have "length (node (demo_header 120) [filename_entry (demo_name 0x61) 5, end_entry] []) < 2 ^ 32"
  proof -
    have "length (node (demo_header 120) [filename_entry (demo_name 0x61) 5, end_entry] []) = 120" by code_simp
    then show ?thesis by simp
  qed
  moreover have "dir_names [filename_entry (demo_name 0x61) 5, end_entry] = [[0x61]]" by code_simp
  ultimately show ?thesis
    using directory_node_delete [of "demo_header 120" "[filename_entry (demo_name 0x61) 5, end_entry]" "[]" "demo_name 0x61" "[0x61]" 68 "[]" 16 0]
    by (metis Diff_cancel list.set(1) list.simps(15))
qed

section \<open>Binary keys\<close>

text \<open>A \<open>memcmp\<close> as the C standard allows it: the difference of the first bytes that differ.\<close>

fun memcmp_difference :: "bytes \<Rightarrow> bytes \<Rightarrow> int" where
  "memcmp_difference (a # as) (b # bs) = (if a = b then memcmp_difference as bs else int (unat a) - int (unat b))"
| "memcmp_difference as bs = list_cmp as bs"

lemma memcmp_difference_sign: "sgn (memcmp_difference as bs) = list_cmp as bs"
proof (induction as bs rule: memcmp_difference.induct)
  case (1 a as b bs)
  show ?case
  proof (cases a b rule: linorder_cases)
    case less
    then have "uint a < uint b" by (simp only: word_less_def)
    then show ?thesis using less by (auto simp: sgn_if)
  next
    case greater
    then have "uint b < uint a" by (simp only: word_less_def)
    then show ?thesis using greater by (auto simp: sgn_if)
  qed (use 1 in simp)
qed (use list_cmp_range in \<open>force simp: sgn_if\<close>)+

definition binary_entry :: "u8 \<Rightarrow> bytes" where
  "binary_entry b = replicate 8 0 @ [24, 0, 1, 0, 0, 0, 0, 0, b, 0, 0, 0, 0, 0, 0, 0]"

text \<open>The value of \<open>memcmp\<close> for a key and the key of an entry.\<close>

definition key_difference :: "(bytes \<Rightarrow> bytes \<Rightarrow> int) \<Rightarrow> bytes \<Rightarrow> nat \<Rightarrow> bytes \<Rightarrow> int" where
  "key_difference memcmp xd xl e =
     (let n = min xl (ie_key_length e 0) in memcmp (take n xd) (take n (drop 16 e)))"

definition keys_inside :: "bytes list \<Rightarrow> bool" where
  "keys_inside es \<longleftrightarrow> (\<forall>e \<in> set (butlast es). 16 + ie_key_length e 0 \<le> length e)"

lemma binary_collate_entry:
  assumes "header_ok h es" and "keys_inside es" and "xl \<le> length xd" and "Suc k < length es"
    and "key_difference memcmp xd xl (es ! k) \<noteq> 0"
  shows "ntfs_collate_binary memcmp xd xl (drop (entry_pos h es k + 16) (node h es slack))
      (ie_key_length (node h es slack) (entry_pos h es k)) = Ok (key_difference memcmp xd xl (es ! k))"
proof -
  have k: "k < length es" using assms(4) by simp
  have len: "length (h @ concat (take k es)) = entry_pos h es k" by (simp add: entry_pos_def)
  have d: "drop (entry_pos h es k + 16) (node h es slack) = drop 16 (es ! k) @ concat (drop (Suc k) es) @ slack"
    unfolding node_split [OF k] len [symmetric] using entry_okD [OF assms(1) k] by (simp add: entry_ok_def)
  have "es ! k \<in> set (butlast es)" using assms(4) by (auto simp: in_set_conv_nth nth_butlast intro: exI [of _ k])
  then have i: "16 + ie_key_length (es ! k) 0 \<le> length (es ! k)" using assms(2) by (simp add: keys_inside_def)
  show ?thesis
    unfolding d entry_fields(2) [OF assms(1) k, of slack] ntfs_collate_binary_def
    using i assms(3,5) by (auto simp: key_difference_def Let_def)
qed

text \<open>The loop passes over an entry whose comparison gives neither -2, -1 nor 0.\<close>

lemma binary_lookup_step:
  fixes memcmp :: "bytes \<Rightarrow> bytes \<Rightarrow> int" and slack :: bytes
  assumes "header_ok h es" and "keys_inside es" and "xl \<le> length xd" and "Suc k < length es"
  defines "c \<equiv> key_difference memcmp xd xl (es ! k)"
  defines "look \<equiv> \<lambda>k. ie_lookup_loop (Some (ntfs_collate_binary memcmp)) xd xl (node h es slack)
    (entry_pos h es (length es)) (entry_pos h es k) k"
  shows "c < -2 \<Longrightarrow> look k = look (Suc k)" and "c = -2 \<Longrightarrow> look k = Err ERANGE" and "c = -1 \<Longrightarrow> look k = stop_at h es k"
proof -
  have k: "k < length es" using assms(4) by simp
  note f = entry_fields [OF assms(1) k, of slack]
  have bound: "entry_pos h es k + length (es ! k) \<le> entry_pos h es (length es)" "16 \<le> length (es ! k)"
    using entry_pos_bound [OF k] entry_okD [OF assms(1) k] by (auto simp: entry_ok_def)
  note e = node_ie_end [OF assms(1) k, of slack] names.node_search_end [OF assms(1) k, of slack]
  note col = binary_collate_entry [OF assms(1-4), of memcmp slack, folded c_def]
  show "look k = look (Suc k)" if "c < -2"
    using f bound e col that assms(4) unfolding look_def
    by (subst ie_lookup_loop.simps) (simp add: sizeof_INDEX_ENTRY_HEADER_def NTFS_COLLATION_ERROR_def entry_pos_Suc [OF k])
  show "look k = Err ERANGE" if "c = -2"
    using f bound e col that assms(4) unfolding look_def
    by (subst ie_lookup_loop.simps) (simp add: sizeof_INDEX_ENTRY_HEADER_def NTFS_COLLATION_ERROR_def)
  show "look k = stop_at h es k" if "c = -1"
    using f bound e col that assms(4) unfolding look_def
    by (subst ie_lookup_loop.simps) (simp add: sizeof_INDEX_ENTRY_HEADER_def NTFS_COLLATION_ERROR_def)
qed

lemma binary_lookup_end:
  assumes "header_ok h es" and "keys_inside es" and "xl \<le> length xd"
    and "\<forall>e \<in> set (butlast es). key_difference memcmp xd xl e < -2" and "k < length es"
  shows "ie_lookup_loop (Some (ntfs_collate_binary memcmp)) xd xl (node h es slack)
    (entry_pos h es (length es)) (entry_pos h es k) k = stop_at h es (length es - 1)"
  using assms(5)
proof (induction "length es - k" arbitrary: k)
  case (Suc d)
  show ?case
  proof (cases "Suc k = length es")
    case True
    note f = entry_fields [OF assms(1) Suc.prems, of slack]
    have "entry_pos h es k + length (es ! k) \<le> entry_pos h es (length es)" "16 \<le> length (es ! k)"
      using entry_pos_bound [OF Suc.prems] entry_okD [OF assms(1) Suc.prems] by (auto simp: entry_ok_def)
    moreover have last: "length es - 1 = k" using True by simp
    ultimately show ?thesis unfolding last
      using True f node_ie_end [OF assms(1) Suc.prems, of slack] names.node_search_end [OF assms(1) Suc.prems, of slack]
      by (subst ie_lookup_loop.simps) (simp add: sizeof_INDEX_ENTRY_HEADER_def)
  next
    case False
    then have k: "Suc k < length es" using Suc.prems by simp
    then have "es ! k \<in> set (butlast es)" by (auto simp: in_set_conv_nth nth_butlast intro: exI [of _ k])
    then have "key_difference memcmp xd xl (es ! k) < -2" using assms(4) by blast
    from binary_lookup_step(1) [OF assms(1-3) k this] show ?thesis using Suc.hyps k by simp
  qed
qed simp

text \<open>(C40) \<open>ntfs_collate_binary\<close> passes on the value of \<open>memcmp\<close>, of which the C standard specifies only the
  sign, and the search of a node looks for exactly -1. Hence, for every such \<open>memcmp\<close> and every leaf, a
  key that is less than the keys of all entries is placed correctly, in front of the first one, if
  \<open>memcmp\<close> gives -1 for that; it fails with \<open>ERANGE\<close> if that is -2; and it is placed behind all of
  them if \<open>memcmp\<close> gives smaller values for all entries.\<close>

theorem binary_lookup_misplaces:
  fixes memcmp :: "bytes \<Rightarrow> bytes \<Rightarrow> int" and slack :: bytes
  assumes "header_ok h es" and "keys_inside es" and "xl \<le> length xd" and "1 < length es" and "\<forall>e \<in> set es. \<not> has_node e"
    and "\<And>a b. sgn (memcmp a b) = list_cmp a b"
  defines "look \<equiv> ntfs_ie_lookup (Some (ntfs_collate_binary memcmp)) xd xl (node h es slack)"
  shows "(key_difference memcmp xd xl (es ! 0) = -1 \<longrightarrow> look = Ok (Not_Found (entry_pos h es 0))) \<and>
    (key_difference memcmp xd xl (es ! 0) = -2 \<longrightarrow> look = Err ERANGE) \<and>
    ((\<forall>e \<in> set (butlast es). key_difference memcmp xd xl e < -2) \<longrightarrow>
      look = Ok (Not_Found (entry_pos h es (length es - 1))) \<and>
      (\<forall>e \<in> set (butlast es). key_difference list_cmp xd xl e = -1))"
proof -
  have s: "stop_at h es j = Ok (Not_Found (entry_pos h es j))" if "j < length es" for j
    using assms(5) that by (simp add: stop_at_def)
  have look: "look = ie_lookup_loop (Some (ntfs_collate_binary memcmp)) xd xl (node h es slack)
      (entry_pos h es (length es)) (entry_pos h es 0) 0"
    unfolding look_def by (simp add: ntfs_ie_lookup_def node_first [OF assms(1)] node_end [OF assms(1)])
  have k: "Suc 0 < length es" "0 < length es" using assms(4) by linarith+
  have sgn: "key_difference list_cmp xd xl e = sgn (key_difference memcmp xd xl e)" for e
    by (simp add: key_difference_def Let_def assms(6))
  show ?thesis
    using binary_lookup_step(2,3) [OF assms(1-3) k(1), of memcmp slack] binary_lookup_end [OF assms(1-3) _ k(2), of memcmp slack]
      s k unfolding look sgn by auto
qed

text \<open>A leaf with the only entry 5, and the keys 4, 3 and 1.\<close>

theorem binary_lookup_misplaces_witness:
  "ntfs_ie_lookup (Some (ntfs_collate_binary memcmp_difference)) [4] 1 (node (demo_header 56) [binary_entry 5, end_entry] []) = Ok (Not_Found 16) \<and>
   ntfs_ie_lookup (Some (ntfs_collate_binary memcmp_difference)) [3] 1 (node (demo_header 56) [binary_entry 5, end_entry] []) = Err ERANGE \<and>
   ntfs_ie_lookup (Some (ntfs_collate_binary memcmp_difference)) [1] 1 (node (demo_header 56) [binary_entry 5, end_entry] []) = Ok (Not_Found 40)"
proof -
  let ?es = "[binary_entry 5, end_entry]"
  have ok: "header_ok (demo_header 56) ?es" "keys_inside ?es" "\<forall>e \<in> set ?es. \<not> has_node e"
    by code_simp+
  have d: "key_difference memcmp_difference [4] 1 (?es ! 0) = -1" "key_difference memcmp_difference [3] 1 (?es ! 0) = -2"
    "\<forall>e \<in> set (butlast ?es). key_difference memcmp_difference [1] 1 e < -2" by code_simp+
  have p: "entry_pos (demo_header 56) ?es 0 = 16" "entry_pos (demo_header 56) ?es (length ?es - 1) = 40" by code_simp+
  note m = binary_lookup_misplaces [OF ok(1,2) _ _ ok(3) memcmp_difference_sign, of 1 _ "[]"]
  show ?thesis using m [of "[4]"] m [of "[3]"] m [of "[1]"] d p by simp
qed

end
