(* ===== verification/Index_Add.thy ===== *)
theory Index_Add
  imports Index_Insert Index_Directory
begin

text \<open>
  Adding an entry to an index whose leaf has room (\<open>ntfs_ie_add\<close>), and the lookup and insertion of names
  in a directory of any depth.
\<close>

unbundle bit_operations_syntax

section \<open>The code\<close>

text \<open>One round of the loop of \<open>ntfs_ie_add\<close>: the entry is inserted where the lookup ended, or the node
  has no room for it. Sizes are \<open>int\<close>.\<close>

datatype add_step = Added index_context | No_Room index_context int

definition with_current :: "bytes \<Rightarrow> index_context \<Rightarrow> index_context" where
  "with_current ih icx =
     (if is_in_root icx then icx\<lparr>ir := with_index INDEX_ROOT_index (ir icx) ih\<rparr>
      else icx\<lparr>ib := with_index INDEX_BLOCK_index (ib icx) ih\<rparr>)"

definition ie_add_step ::
  "(nat \<Rightarrow> bool) \<Rightarrow> (nat \<Rightarrow> collate result) \<Rightarrow> index_inode \<Rightarrow> bytes \<Rightarrow> index_context \<Rightarrow> add_step result" where
  "ie_add_step mem get_collate ni ie icx =
     res_bind (ntfs_index_lookup mem get_collate ni (drop 16 ie) (int (ie_key_length ie 0)) icx) (\<lambda>(found, icx).
       if found then Err EEXIST
       else let ih = current icx; allocated = s32 (int (allocated_size ih));
                new_size = s32 (int (index_length ih) + int (ie_length ie 0))
            in case entry icx of
                 None \<Rightarrow> Fault
               | Some pos \<Rightarrow>
                   if new_size \<le> allocated
                   then res_bind (ntfs_ie_insert ih ie pos) (\<lambda>ih. Ok (Added (with_current ih icx)))
                   else Ok (No_Room icx new_size))"

section \<open>Keys after a change of a node\<close>

definition changed_keys ::
  "(bytes \<Rightarrow> nat \<Rightarrow> 'k option) \<Rightarrow> index_context \<Rightarrow> (int \<Rightarrow> bytes list) \<Rightarrow> nat \<Rightarrow> bytes list \<Rightarrow> bytes list \<Rightarrow> 'k option list" where
  "changed_keys key icx st d es n =
     (if is_in_root icx then inorder key st d n else inorder key (st(index_block_vcn (ib icx) := n)) d es)"

text \<open>The entries of the node where a key that is not in the tree belongs.\<close>

definition leaf_entries ::
  "(bytes \<Rightarrow> nat \<Rightarrow> 'k option) \<Rightarrow> ('k \<Rightarrow> 'k \<Rightarrow> bool) \<Rightarrow> (int \<Rightarrow> bytes list) \<Rightarrow> 'k \<Rightarrow> nat \<Rightarrow> bytes list \<Rightarrow> bytes list" where
  "leaf_entries key lt st x d es =
     (if d = 0 then es else st (leaf_of key lt st x (d - 1) (entry_vcn (es ! place lt x (keys key es)))))"

text \<open>A node with these entries that has less unused space than the new entry needs.\<close>

definition lacks_room :: "bytes \<Rightarrow> bytes list \<Rightarrow> bytes \<Rightarrow> bool" where
  "lacks_room ih es e \<longleftrightarrow>
     (\<exists>h slack. ih = node h es slack \<and> header_ok h es \<and> sized h es slack \<and> length slack < length e)"

lemma reach_nonneg: "tree_ok st d es \<Longrightarrow> a \<in> set (reach st d es) \<Longrightarrow> 0 \<le> a"
proof (induction d arbitrary: es)
  case (Suc d)
  then obtain e where e: "e \<in> set es" "a = entry_vcn e \<or> a \<in> set (reach st d (st (entry_vcn e)))" by auto
  then have "0 \<le> entry_vcn e" "tree_ok st d (st (entry_vcn e))" using Suc.prems(1) by (auto simp: list_all_iff)
  then show ?case using e(2) Suc.IH by blast
qed simp

lemma leaf_of_cong:
  "tree_ok st d (st v) \<Longrightarrow> entries_ok (st v) \<Longrightarrow> (\<And>a. a \<in> set (v # reach st d (st v)) \<Longrightarrow> st' a = st a) \<Longrightarrow>
     leaf_of key lt st' x d v = leaf_of key lt st x d v"
proof (induction d arbitrary: v)
  case (Suc d v)
  let ?b = "st v ! place lt x (keys key (st v))"
  have "st v \<noteq> []" using Suc.prems(2) by (simp add: entries_ok_def)
  then have b: "?b \<in> set (st v)" by (intro nth_mem place_less)
  then have t: "tree_ok st d (st (entry_vcn ?b))" using Suc.prems(1) by (auto simp: list_all_iff)
  moreover have "entries_ok (st (entry_vcn ?b))" using t by (cases d) simp_all
  moreover have "st' a = st a" if "a \<in> set (entry_vcn ?b # reach st d (st (entry_vcn ?b)))" for a
    using Suc.prems(3) [of a] b that by auto
  moreover have "st' v = st v" using Suc.prems(3) by simp
  ultimately show ?case using Suc.IH by simp
qed simp

lemma leaf_in_reach:
  "tree_ok st d (st v) \<Longrightarrow> leaf_of key lt st x d v \<in> set (v # reach st d (st v))"
proof (induction d arbitrary: v)
  case (Suc d v)
  let ?b = "st v ! place lt x (keys key (st v))"
  have "st v \<noteq> []" using Suc.prems by (auto simp: entries_ok_def)
  then have b: "?b \<in> set (st v)" by (intro nth_mem place_less)
  then have "tree_ok st d (st (entry_vcn ?b))" using Suc.prems by (auto simp: list_all_iff)
  then have "leaf_of key lt st x (Suc d) v \<in> set (entry_vcn ?b # reach st d (st (entry_vcn ?b)))" using Suc.IH by simp
  moreover have "set (entry_vcn ?b # reach st d (st (entry_vcn ?b))) \<subseteq> set (reach st (Suc d) (st v))" using b by auto
  ultimately show ?case by auto
qed simp

lemma leaf_insert:
  assumes "header_ok h es" and "j < length es" and "entry_ok e" and "\<not> is_end e" and "length e \<le> length slack"
    and "length (node h es slack) < 2 ^ 32"
  shows "\<exists>h' slack'. ntfs_ie_insert (node h es slack) e (entry_pos h es j) = Ok (node h' (take j es @ e # drop j es) slack') \<and>
    header_ok h' (take j es @ e # drop j es)"
proof -
  let ?es = "take j es @ e # drop j es" and ?n = "entry_pos h es (length es) + length e"
  have ok: "entries_ok es" using assms(1) by (simp add: header_ok_def)
  have "length (concat ?es) = length (concat es) + length e" using concat_halves [of es j] by simp
  then have "?n = length h + length (concat ?es)" "?n < 2 ^ 32" using assms(5,6) by (simp_all add: entry_pos_def length_node)
  then have "header_ok (set_index_length h ?n) ?es"
    using header_ok_update [OF assms(1) entries_ok_insert [OF ok assms(2-4)]] by blast
  then show ?thesis using node_insert [OF assms(1-3,5,6)] by blast
qed

lemma with_current_fields:
  assumes "current icx \<noteq> []"
  shows "current (with_current ih icx) = ih" "is_in_root (with_current ih icx) = is_in_root icx"
    "\<not> is_in_root icx \<Longrightarrow> index_block_vcn (ib (with_current ih icx)) = index_block_vcn (ib icx)"
proof -
  show "current (with_current ih icx) = ih" "is_in_root (with_current ih icx) = is_in_root icx"
    using assms by (auto simp: current_def with_current_def with_index_def INDEX_ROOT_index_def INDEX_BLOCK_index_def)
  assume i: "\<not> is_in_root icx"
  then have "24 \<le> length (ib icx)" using assms by (simp add: current_def INDEX_BLOCK_index_def)
  then show "index_block_vcn (ib (with_current ih icx)) = index_block_vcn (ib icx)"
    using i le_at_append(1) [of 16 8 "take 24 (ib icx)" ih] le_at_take [of 16 8 24 "ib icx"]
    by (simp add: with_current_def with_index_def INDEX_BLOCK_index_def index_block_vcn_def)
qed

context key_order
begin

text \<open>Seen from the root, which has no number of its own.\<close>

lemma insert_below_root:
  assumes "tree_ok st d es" and "entries_ok es" and "ordered lt (inorder key st d es)" and "Some x \<notin> set (inorder key st d es)"
    and "distinct (reach st d es)" and "own key e = [Some x]" and "entry_ok e" and "\<not> is_end e" and "\<not> has_node e"
  defines "j \<equiv> place lt x (keys key es)"
  defines "u \<equiv> leaf_of key lt st x (d - 1) (entry_vcn (es ! j))"
  shows "d = 0 \<Longrightarrow> inserted lt x (inorder key st d es) (inorder key st d (take j es @ e # drop j es))"
    and "0 < d \<Longrightarrow> inserted lt x (inorder key st d es)
      (inorder key (st(u := take (place lt x (keys key (st u))) (st u) @ e # drop (place lt x (keys key (st u))) (st u))) d es)"
proof -
  define st0 where "st0 = st(-1 := es)"
  have no: "-1 \<notin> set (reach st d es)" using reach_nonneg [OF assms(1), of "-1"] by auto
  have same: "st0 a = st a" if "a \<in> set (reach st d es)" for a
  proof -
    have "a \<noteq> -1" using no that by metis
    then show ?thesis by (simp add: st0_def)
  qed
  have eq: "inorder key st0 d es = inorder key st d es" "reach st0 d es = reach st d es" "tree_ok st0 d es"
    using inorder_reach_cong [of st d es st0 key, OF same] assms(1) by blast+
  have root: "st0 (-1) = es" by (simp add: st0_def)
  define u0 where "u0 = leaf_of key lt st0 x d (-1)"
  let ?n = "take (place lt x (keys key (st0 u0))) (st0 u0) @ e # drop (place lt x (keys key (st0 u0))) (st0 u0)"
  have "distinct (-1 # reach st d es)" using no assms(5) by simp
  note ins = insert_leaf [of st0 d "-1" x e, unfolded root eq, folded u0_def, OF eq(3) assms(3,4) this assms(6-9)]
  show "inserted lt x (inorder key st d es) (inorder key st d (take j es @ e # drop j es))" if "d = 0"
    using ins that by (simp add: u0_def root j_def)
  show "inserted lt x (inorder key st d es)
      (inorder key (st(u := take (place lt x (keys key (st u))) (st u) @ e # drop (place lt x (keys key (st u))) (st u))) d es)" if "0 < d"
  proof -
    obtain d' where d: "d = Suc d'" using \<open>0 < d\<close> by (cases d) auto
    let ?w = "entry_vcn (es ! j)"
    have b: "es ! j \<in> set es" unfolding j_def using assms(2) by (intro nth_mem place_less) (simp add: entries_ok_def)
    then have sub: "set (?w # reach st d' (st ?w)) \<subseteq> set (reach st d es)" by (auto simp: d)
    have t: "tree_ok st d' (st ?w)" using assms(1) b by (auto simp: d list_all_iff)
    moreover have "entries_ok (st ?w)" using t by (cases d') simp_all
    ultimately have u: "u0 = u" "st0 ?w = st ?w"
      using leaf_of_cong [of st d' ?w st0 key lt x] same sub by (auto simp: u0_def u_def d root j_def)
    have t0: "tree_ok st0 d' (st0 ?w)" using eq(3) b by (auto simp: d list_all_iff)
    have "u \<in> set (reach st d es)" using leaf_in_reach [OF t, of key lt x] sub d by (auto simp: u_def)
    then have u1: "u \<noteq> -1" "st0 u = st u" using no same by metis+
    let ?n = "take (place lt x (keys key (st u))) (st u) @ e # drop (place lt x (keys key (st u))) (st u)"
    have new: "reach (st0(u := ?n)) d es = reach st d es" "inserted lt x (inorder key st d es) (inorder key (st0(u := ?n)) d es)"
      using ins u(1) u1 root by simp_all
    have "(st(u := ?n)) a = (st0(u := ?n)) a" if "a \<in> set (reach (st0(u := ?n)) d es)" for a
      using same [of a] that unfolding new(1) by simp
    then have "inorder key (st(u := ?n)) d es = inorder key (st0(u := ?n)) d es"
      using inorder_reach_cong [of "st0(u := ?n)" d es "st(u := ?n)" key] by blast
    then show ?thesis using new(2) by simp
  qed
qed

lemma ie_add:
  assumes "index_tree ni root st d es" and "distinct (reach st d es)" and "ordered lt (inorder key st d es)"
    and "get_collate (collation_rule root) = Ok collate" and "mem (index_block_size root)"
    and "entry_ok e" and "\<not> is_end e" and "\<not> has_node e" and "entry_key key e = Some x" and "0 < ie_key_length e 0"
  shows "Some x \<in> set (inorder key st d es) \<Longrightarrow> ie_add_step mem get_collate ni e ntfs_index_ctx_get = Err EEXIST"
    and "Some x \<notin> set (inorder key st d es) \<Longrightarrow> \<exists>icx.
      ie_add_step mem get_collate ni e ntfs_index_ctx_get =
        Ok (No_Room icx (int (index_length (current icx)) + int (length e))) \<and>
        lacks_room (current icx) (leaf_entries key lt st x d es) e \<or>
      ie_add_step mem get_collate ni e ntfs_index_ctx_get = Ok (Added icx) \<and>
        (\<exists>h n slack. current icx = node h n slack \<and> header_ok h n \<and> inserted lt x (inorder key st d es) (changed_keys key icx st d es n))"
proof -
  have own: "own key e = [Some x]" using assms(7-9) by (simp add: own_def own_key_def entry_key_def)
  have xk: "key (drop 16 e) (nat (int (ie_key_length e 0))) = Some x" "0 < int (ie_key_length e 0)" using assms(9,10) by (simp_all add: entry_key_def)
  obtain icx where look: "ntfs_index_lookup mem get_collate ni (drop 16 e) (int (ie_key_length e 0)) ntfs_index_ctx_get =
      Ok (Some x \<in> set (inorder key st d es), icx)"
    "if Some x \<in> set (inorder key st d es) then entry_has key icx x
     else case d of
       0 \<Rightarrow> is_in_root icx \<and> at_leaf key lt icx x es
     | Suc d' \<Rightarrow> let u = leaf_of key lt st x d' (entry_vcn (es ! place lt x (keys key es)))
                 in \<not> is_in_root icx \<and> index_block_vcn (ib icx) = u \<and> at_leaf key lt icx x (st u)"
    using index_lookup [where mem = mem and get_collate = get_collate and xd = "drop 16 e" and xl = "int (ie_key_length e 0)",
        OF assms(1,3,4) xk assms(5)] that by (elim exE conjE)
  show "ie_add_step mem get_collate ni e ntfs_index_ctx_get = Err EEXIST" if "Some x \<in> set (inorder key st d es)"
    using look(1) that by (simp add: ie_add_step_def)
  assume new: "Some x \<notin> set (inorder key st d es)"
  define u where "u = leaf_of key lt st x (d - 1) (entry_vcn (es ! place lt x (keys key es)))"
  define n where "n = (if d = 0 then es else st u)"
  let ?j = "place lt x (keys key n)"
  have at: "is_in_root icx = (d = 0)" "0 < d \<Longrightarrow> index_block_vcn (ib icx) = u" "at_leaf key lt icx x n"
    using look(2) new by (auto simp: u_def n_def Let_def split: nat.splits)
  obtain h slack where l: "current icx = node h n slack" "header_ok h n" "sized h n slack" "entry icx = Some (entry_pos h n ?j)"
    using at(3) by (auto simp: at_leaf_def)
  have j: "?j < length n" using node_nonempty [OF l(2)] by (intro place_less) auto
  have f: "allocated_size (current icx) = length (node h n slack)" "index_length (current icx) = length h + length (concat n)"
    using l(1-3) node_header [OF l(2)] by (simp_all add: sized_def entry_pos_def)
  have e: "ie_length e 0 = length e" "length e < 2 ^ 16" using assms(6) le_at_bound [of 2 e 8] by (auto simp: entry_ok_def ie_length_def)
  have small: "length (node h n slack) < 2 ^ 30" using l(3) by (simp add: sized_def)
  have sum: "length h + length (concat n) + length slack = length (node h n slack)" by (simp add: node_def)
  have s: "s32 (int (allocated_size (current icx))) = int (length (node h n slack))"
    "s32 (int (index_length (current icx)) + int (ie_length e 0)) = int (length h + length (concat n) + length e)"
    using f e small sum by (simp_all add: s32_def)
  show "\<exists>icx. ie_add_step mem get_collate ni e ntfs_index_ctx_get =
        Ok (No_Room icx (int (index_length (current icx)) + int (length e))) \<and>
        lacks_room (current icx) (leaf_entries key lt st x d es) e \<or>
      ie_add_step mem get_collate ni e ntfs_index_ctx_get = Ok (Added icx) \<and>
        (\<exists>h n slack. current icx = node h n slack \<and> header_ok h n \<and> inserted lt x (inorder key st d es) (changed_keys key icx st d es n))"
  proof (cases "length h + length (concat n) + length e \<le> length (node h n slack)")
    case False
    have "ie_add_step mem get_collate ni e ntfs_index_ctx_get =
        Ok (No_Room icx (int (length h + length (concat n) + length e)))"
      using False look(1) new l(4) s f(1) unfolding ie_add_step_def by (simp add: Let_def)
    moreover have "leaf_entries key lt st x d es = n" by (simp add: leaf_entries_def n_def u_def)
    moreover have "lacks_room (current icx) n e" unfolding lacks_room_def using l(1-3) False sum by (intro exI [of _ h] exI [of _ slack]) simp
    ultimately show ?thesis using f(2) by auto
  next
    case True
    then have fit: "length e \<le> length slack" "length (node h n slack) < 2 ^ 32" using sum small by simp_all
    obtain h' slack' where ins: "ntfs_ie_insert (node h n slack) e (entry_pos h n ?j) = Ok (node h' (take ?j n @ e # drop ?j n) slack')"
      "header_ok h' (take ?j n @ e # drop ?j n)"
      using leaf_insert [OF l(2) j assms(6,7) fit] by blast
    let ?icx = "with_current (node h' (take ?j n @ e # drop ?j n) slack') icx"
    have step: "ie_add_step mem get_collate ni e ntfs_index_ctx_get = Ok (Added ?icx)"
      using look(1) new l(1,4) s f(1) True ins(1) unfolding ie_add_step_def by (simp add: Let_def)
    have "current icx \<noteq> []" using l(1,2) by (auto simp: node_def header_ok_def)
    note w = with_current_fields [OF this]
    have tree: "tree_ok st d es" "entries_ok es" using assms(1) by (auto simp: index_tree_def header_ok_def)
    note ins' = insert_below_root [OF tree assms(3) new assms(2) own assms(6-8), folded u_def]
    have "inserted lt x (inorder key st d es) (changed_keys key ?icx st d es (take ?j n @ e # drop ?j n))"
      using ins' w(2,3) at(1,2) by (cases "d = 0") (simp_all add: changed_keys_def n_def)
    then show ?thesis using step w(1) ins(2) by blast
  qed
qed

end

section \<open>Directories\<close>

text \<open>The names of a directory in order.\<close>

abbreviation tree_names :: "(int \<Rightarrow> bytes list) \<Rightarrow> nat \<Rightarrow> bytes list \<Rightarrow> ucs option list" where
  "tree_names st d es \<equiv> inorder name_key st d es"

definition directory_tree :: "ucs \<Rightarrow> index_inode \<Rightarrow> (int \<Rightarrow> bytes list) \<Rightarrow> nat \<Rightarrow> bytes list \<Rightarrow> bool" where
  "directory_tree upcase ni st d es \<longleftrightarrow> (\<exists>root. index_tree ni root st d es \<and> collation_rule root = 1) \<and>
     distinct (reach st d es) \<and> ordered (name_less upcase) (tree_names st d es)"

lemma collate_names: "ntfs_get_collate_function memcmp upcase 1 = Ok (ntfs_collate_file_name upcase)"
  by (simp add: ntfs_get_collate_function_def)

text \<open>(C32) Lookup in a directory tree of any depth: a name is found exactly if it is in the directory, and then the
  context is at an entry with that name.\<close>

theorem directory_tree_lookup:
  assumes "directory_tree upcase ni st d es" and "file_name_at fn = Ok name" and "0 < len" and "\<forall>n. mem n"
  shows "\<exists>icx. ntfs_index_lookup mem (ntfs_get_collate_function memcmp upcase) ni fn len ntfs_index_ctx_get =
      Ok (Some name \<in> set (tree_names st d es), icx) \<and>
    (Some name \<in> set (tree_names st d es) \<longrightarrow> entry_has name_key icx name)"
proof -
  obtain root where r: "index_tree ni root st d es" "collation_rule root = 1" "ordered (name_less upcase) (tree_names st d es)"
    using assms(1) by (auto simp: directory_tree_def)
  have "ntfs_get_collate_function memcmp upcase (collation_rule root) = Ok (ntfs_collate_file_name upcase)"
    unfolding r(2) by (rule collate_names)
  from names.index_lookup [where mem = mem and get_collate = "ntfs_get_collate_function memcmp upcase" and xd = fn and xl = len and x = name, OF r(1,3) this _ assms(3)]
  show ?thesis using assms(2,4) by (auto simp: name_key_Some)
qed

text \<open>(C33) Adding a name to a directory tree: a name that exists is refused with \<open>EEXIST\<close>; a name that does not is refused
  for lack of room only if the leaf where it belongs has less unused space than its entry needs, and then the size that the node
  would have is reported; otherwise only this node is changed and the names in order are the old ones with the new name.\<close>

theorem directory_tree_add:
  assumes "directory_tree upcase ni st d es" and "file_name_at fn = Ok name" and "\<forall>n. mem n"
  shows "case ie_add_step mem (ntfs_get_collate_function memcmp upcase) ni (filename_entry fn mref) ntfs_index_ctx_get of
      Fault \<Rightarrow> False
    | Err e \<Rightarrow> e = EEXIST \<and> Some name \<in> set (tree_names st d es)
    | Ok (No_Room icx n) \<Rightarrow> Some name \<notin> set (tree_names st d es) \<and>
        n = int (index_length (current icx)) + int (length (filename_entry fn mref)) \<and>
        lacks_room (current icx) (leaf_entries name_key (name_less upcase) st name d es) (filename_entry fn mref)
    | Ok (Added icx) \<Rightarrow> Some name \<notin> set (tree_names st d es) \<and>
        (\<exists>h n slack. current icx = node h n slack \<and> header_ok h n \<and>
           ordered (name_less upcase) (changed_keys name_key icx st d es n) \<and>
           set (changed_keys name_key icx st d es n) = insert (Some name) (set (tree_names st d es)) \<and>
           length (changed_keys name_key icx st d es n) = length (tree_names st d es) + 1)"
proof -
  obtain root where r: "index_tree ni root st d es" "collation_rule root = 1" "distinct (reach st d es)"
      "ordered (name_less upcase) (tree_names st d es)"
    using assms(1) by (auto simp: directory_tree_def)
  have c: "ntfs_get_collate_function memcmp upcase (collation_rule root) = Ok (ntfs_collate_file_name upcase)"
    unfolding r(2) by (rule collate_names)
  have m: "mem (index_block_size root)" using assms(3) by simp
  note add = names.ie_add [where mem = mem and get_collate = "ntfs_get_collate_function memcmp upcase" and e = "filename_entry fn mref" and x = name,
    OF r(1,3,4) c m filename_entry_ok [OF assms(2)]]
  show ?thesis
  proof (cases "Some name \<in> set (tree_names st d es)")
    case False
    then show ?thesis using add(2) inserted_set inserted_ordered [OF _ r(4)] by fastforce
  qed (use add(1) in simp)
qed

section \<open>A directory of two levels\<close>

definition demo_end_node :: bytes where "demo_end_node = replicate 8 0 @ [24, 0, 0, 0, 3, 0, 0, 0] @ replicate 8 0"

definition demo_root :: bytes where
  "demo_root = le_bytes 4 48 @ le_bytes 4 1 @ le_bytes 4 512 @ [1, 0, 0, 0] @
     le_bytes 4 16 @ le_bytes 4 40 @ le_bytes 4 40 @ [1, 0, 0, 0] @ demo_end_node"

definition demo_leaf :: "bytes list" where "demo_leaf = [filename_entry (demo_name 0x61) 5, end_entry]"

definition demo_block_header :: bytes where
  "demo_block_header = le_bytes 4 24 @ le_bytes 4 128 @ le_bytes 4 488 @ replicate 4 0 @ [1, 0, 0, 0, 0, 0, 0, 0]"

text \<open>The block on disk, whose last two bytes are the update sequence number.\<close>

definition demo_sector :: "bytes \<Rightarrow> bytes" where
  "demo_sector tail = magic_INDX @ le_bytes 2 40 @ le_bytes 2 2 @ replicate 16 0 @ demo_block_header @ concat demo_leaf @ replicate 358 0 @ tail"

definition demo_inode :: index_inode where
  "demo_inode = \<lparr>ir_lookup = Ok demo_root,
     ia_open = Some (\<lambda>pos n. if pos = 0 \<and> n = 512 then Ok (demo_sector [1, 0]) else Err EIO),
     cluster_size = 4096, cluster_size_bits = 12\<rparr>"

lemma demo_read:
  "ntfs_attr_mst_pread (ia_open demo_inode) 0 1 512 = Ok (1, demo_sector [0, 0])" "ntfs_ia_check 512 (demo_sector [0, 0]) 0"
proof -
  have rec: "rec_usa_ofs (demo_sector [1, 0]) = 40" "rec_usa_count (demo_sector [1, 0]) = 2" "length (demo_sector [1, 0]) = 512"
    "rd16 (demo_sector [1, 0]) 40 = 1" "rd16 (demo_sector [1, 0]) 510 = 1" by code_simp+
  have "mst_record 512 (demo_sector [1, 0])" by (simp add: mst_record_def rec is_valid_record_def NTFS_BLOCK_SIZE_def)
  moreover have "mst_restore (demo_sector [1, 0]) 40 510 1 = Ok (demo_sector [0, 0])" by code_simp
  ultimately have "ntfs_mst_post_read_fixup (demo_sector [1, 0]) 512 = Ok (None, demo_sector [0, 0])"
    by (simp add: post_read_spec rec)
  moreover have "demo_sector [1, 0] \<noteq> []" by (simp add: demo_sector_def)
  ultimately show "ntfs_attr_mst_pread (ia_open demo_inode) 0 1 512 = Ok (1, demo_sector [0, 0])"
    using rec(3) by (simp add: ntfs_attr_mst_pread_def ntfs_attr_pread_def demo_inode_def NTFS_BLOCK_SIZE_def)
  have "allocated_size (ib_index (demo_sector [0, 0])) = 488" "take 4 (demo_sector [0, 0]) = magic_INDX"
    "index_block_vcn (demo_sector [0, 0]) = 0" by code_simp+
  then show "ntfs_ia_check 512 (demo_sector [0, 0]) 0" by (simp add: ntfs_ia_check_def)
qed

lemma demo_directory: "directory_tree [] demo_inode (\<lambda>_. demo_leaf) 1 [demo_end_node]"
proof -
  have root: "ir_lookup demo_inode = Ok demo_root" "ia_open demo_inode \<noteq> None" by (simp_all add: demo_inode_def)
  have size: "index_block_size demo_root = 512" by code_simp
  have h: "ir_index demo_root = node (take 16 (ir_index demo_root)) [demo_end_node] []" "header_ok (take 16 (ir_index demo_root)) [demo_end_node]"
    by code_simp+
  have "allocated_size (take 16 (ir_index demo_root)) = 40" "length (node (take 16 (ir_index demo_root)) [demo_end_node] []) = 40" by code_simp+
  then have hs: "sized (take 16 (ir_index demo_root)) [demo_end_node] []" by (simp add: sized_def)
  have t: "tree_ok (\<lambda>_. demo_leaf) 1 [demo_end_node]" by code_simp
  have r: "reach (\<lambda>_. demo_leaf) 1 [demo_end_node] = [0]" by code_simp
  have "ntfs_ia_check 512 (demo_sector [0, 0]) 0" by (rule demo_read(2))
  moreover have "ia_na (root_context demo_inode demo_root) = ia_open demo_inode" "block_size (root_context demo_inode demo_root) = 512"
    using size by (simp_all add: root_context_def)
  ultimately have b: "ntfs_ib_read (root_context demo_inode demo_root) 0 = Ok (Some (demo_sector [0, 0]))"
    using demo_read by (simp add: ntfs_ib_read_def ntfs_ib_vcn_to_pos_def s64_def)
  have l: "ib_index (demo_sector [0, 0]) = node demo_block_header demo_leaf (replicate 360 0)" "header_ok demo_block_header demo_leaf"
    "allocated_size demo_block_header = 488" "length (node demo_block_header demo_leaf (replicate 360 0)) = 488" "\<not> list_ex has_node demo_leaf" by code_simp+
  have "stored (root_context demo_inode demo_root) (\<lambda>_. demo_leaf) 0" 
    unfolding stored_def sized_def using b l
    by (intro exI [of _ "demo_sector [0, 0]"] exI [of _ demo_block_header] exI [of _ "replicate 360 0"]) simp
  then have "index_tree demo_inode demo_root (\<lambda>_. demo_leaf) 1 [demo_end_node]"
    unfolding index_tree_def using root size h hs t r by (auto simp: MAX_PARENT_VCN_def)
  moreover have "collation_rule demo_root = 1" by code_simp
  moreover have "ordered (name_less []) (tree_names (\<lambda>_. demo_leaf) 1 [demo_end_node])" by code_simp
  ultimately show ?thesis unfolding directory_tree_def r by auto
qed

lemma demo_names: "tree_names (\<lambda>_. demo_leaf) 1 [demo_end_node] = [Some [0x61]]"
  by code_simp

theorem directory_tree_lookup_witness:
  "\<exists>icx. ntfs_index_lookup (\<lambda>_. True) (ntfs_get_collate_function (\<lambda>_ _. 0) []) demo_inode (demo_name 0x61) 68 ntfs_index_ctx_get = Ok (True, icx) \<and>
     entry_has name_key icx [0x61]"
proof -
  have "file_name_at (demo_name 0x61) = Ok [0x61]" by code_simp
  then show ?thesis
    using directory_tree_lookup [OF demo_directory, of "demo_name 0x61" "[0x61]" 68 "\<lambda>_. True" "\<lambda>_ _. 0"]
    unfolding demo_names by simp
qed

lemma demo_place:
  "\<exists>icx. ntfs_index_lookup (\<lambda>_. True) (ntfs_get_collate_function (\<lambda>_ _. 0) []) demo_inode
      (drop 16 (filename_entry (demo_name 0x62) 6)) (int (ie_key_length (filename_entry (demo_name 0x62) 6) 0)) ntfs_index_ctx_get = Ok (False, icx) \<and>
     current icx = ib_index (demo_sector [0, 0]) \<and> entry icx = Some 112"
proof -
  let ?k = "drop 16 (filename_entry (demo_name 0x62) 6)" and ?cmp = "Some (ntfs_collate_file_name [])"
  have len: "int (ie_key_length (filename_entry (demo_name 0x62) 6) 0) = 68" by code_simp
  have root: "index_block_size demo_root = 512" "collation_rule demo_root = 1" by code_simp+
  have look: "ntfs_ie_lookup ?cmp ?k 68 (ir_index demo_root) = Ok (Keep_Searching 0 0)"
    "ntfs_ie_lookup ?cmp ?k 68 (ib_index (demo_sector [0, 0])) = Ok (Not_Found 112)" by code_simp+
  have ni: "ir_lookup demo_inode = Ok demo_root" "ia_open demo_inode \<noteq> None" "cluster_size demo_inode = 4096" by (simp_all add: demo_inode_def)
  define icx where "icx = ntfs_index_ctx_get\<lparr>block_size := 512, vcn_size_bits := 9, icx_collate := ?cmp, ir := demo_root, ia_na := ia_open demo_inode\<rparr>"
  have run: "ntfs_index_lookup (\<lambda>_. True) (ntfs_get_collate_function (\<lambda>_ _. 0) []) demo_inode ?k 68 ntfs_index_ctx_get =
      descend_into_child_node ?k 68 (set_parent_pos 0 icx) VCN_INDEX_ROOT_PARENT 0"
    using root ni look(1) by (auto simp: ntfs_index_lookup_def Let_def ntfs_get_collate_function_def icx_def)
  let ?next = "(set_parent_vcn VCN_INDEX_ROOT_PARENT (set_parent_pos 0 icx))\<lparr>pindex := 1\<rparr>"
  have inc: "ntfs_icx_parent_inc (set_parent_vcn VCN_INDEX_ROOT_PARENT (set_parent_pos 0 icx)) = Ok ?next"
    by (simp add: ntfs_icx_parent_inc_def icx_def ntfs_index_ctx_get_def MAX_PARENT_VCN_def)
  have read: "ntfs_ib_read ?next 0 = Ok (Some (demo_sector [0, 0]))"
    using demo_read by (simp add: ntfs_ib_read_def ntfs_ib_vcn_to_pos_def s64_def icx_def)
  have "ntfs_ie_lookup (icx_collate ?next) ?k 68 (ib_index (demo_sector [0, 0])) = Ok (Not_Found 112)"
    using look(2) by (simp add: icx_def)
  from descend_step(2) [OF inc read this refl] show ?thesis unfolding len run by (simp add: current_def)
qed

theorem directory_tree_add_witness:
  "\<exists>icx n. ie_add_step (\<lambda>_. True) (ntfs_get_collate_function (\<lambda>_ _. 0) []) demo_inode (filename_entry (demo_name 0x62) 6) ntfs_index_ctx_get =
      Ok (Added icx) \<and> set (changed_keys name_key icx (\<lambda>_. demo_leaf) 1 [demo_end_node] n) = {Some [0x61], Some [0x62]}"
proof -
  have "file_name_at (demo_name 0x62) = Ok [0x62]" by code_simp
  note add = directory_tree_add [OF demo_directory this, where mem = "\<lambda>_. True" and memcmp = "\<lambda>_ _. 0" and mref = 6]
  have f: "allocated_size (ib_index (demo_sector [0, 0])) = 488" "index_length (ib_index (demo_sector [0, 0])) = 128"
    "ie_length (filename_entry (demo_name 0x62) 6) 0 = 88" by code_simp+
  obtain icx where "ntfs_index_lookup (\<lambda>_. True) (ntfs_get_collate_function (\<lambda>_ _. 0) []) demo_inode
      (drop 16 (filename_entry (demo_name 0x62) 6)) (int (ie_key_length (filename_entry (demo_name 0x62) 6) 0)) ntfs_index_ctx_get = Ok (False, icx)"
    "current icx = ib_index (demo_sector [0, 0])" "entry icx = Some 112"
    using demo_place by blast
  then have "ie_add_step (\<lambda>_. True) (ntfs_get_collate_function (\<lambda>_ _. 0) []) demo_inode (filename_entry (demo_name 0x62) 6) ntfs_index_ctx_get \<noteq> Ok (No_Room i n)" for i n
    using f by (auto simp: ie_add_step_def Let_def s32_def res_bind_Ok_conv)
  then show ?thesis using add unfolding demo_names by (auto split: result.splits add_step.splits)
qed

end
