(* ===== verification/Index_Divide.thy ===== *)
theory Index_Divide
  imports Index_Add
begin

text \<open>
  The split of a block (\<open>ntfs_ib_split\<close>), from the code on the blocks to the keys of the tree.
\<close>

unbundle bit_operations_syntax

section \<open>The code\<close>

text \<open>What \<open>ntfs_ib_split\<close> makes of a block, a free block number and the node of the parent, when the parent has
  room for the median: the new block, the parent, and the block that remains.\<close>

definition ib_split ::
  "(nat \<Rightarrow> bool) \<Rightarrow> (nat \<Rightarrow> u8) \<Rightarrow> nat \<Rightarrow> bytes \<Rightarrow> bytes \<Rightarrow> nat \<Rightarrow> int \<Rightarrow> (bytes \<times> bytes \<times> bytes) result" where
  "ib_split mem fresh bs blk parent pos new_vcn =
     res_bind (ntfs_ie_get_median (ib_index blk)) (\<lambda>median.
     res_bind (ib_copy_tail mem bs blk median new_vcn) (\<lambda>new_ib.
     res_bind (ntfs_ih_insert mem fresh parent (drop median (ib_index blk)) new_vcn pos) (\<lambda>parent.
     res_bind (ib_cut_tail blk median) (\<lambda>blk. Ok (new_ib, parent, blk)))))"

section \<open>The split and the tree\<close>

lemma ih_insert_prefix:
  assumes "entry_ok e"
  shows "ntfs_ih_insert mem fresh ih (e @ rest) new pos = ntfs_ih_insert mem fresh ih e new pos"
proof -
  have "16 \<le> length e" "ie_length (e @ rest) 0 = length e" "ie_length e 0 = length e"
    using assms ie_fields_append(1) [of e rest] by (simp_all add: entry_ok_def)
  then have "ntfs_ie_dup mem (e @ rest) 0 = ntfs_ie_dup mem e 0" by (simp add: ntfs_ie_dup_def Let_def)
  then show ?thesis unfolding ntfs_ih_insert_def by (simp only:)
qed

lemma in_s64_entry_vcn: "in_s64 (entry_vcn e)"
  by (simp add: entry_vcn_def)

text \<open>A block that holds a node.\<close>

definition holds :: "nat \<Rightarrow> int \<Rightarrow> bytes \<Rightarrow> bytes list \<Rightarrow> bool" where
  "holds bs v blk es \<longleftrightarrow> block_ok bs v blk \<and> (\<exists>h slack. ib_index blk = node h es slack \<and> header_ok h es)"

text \<open>(C34) A split keeps the index: the new block, the parent and the block that remains are well formed, and the tree with these
  nodes has the keys of the old one in the same order, whatever the order of the keys is.\<close>

theorem index_split_keeps_keys:
  fixes fresh :: "nat \<Rightarrow> u8" and key :: "bytes \<Rightarrow> nat \<Rightarrow> 'k option"
  assumes "tree_ok st (Suc d) ps" and "distinct (reach st (Suc d) ps)" and "k < length ps"
    and "header_ok hp ps" and "length (node hp ps pslack) < 2 ^ 32"
    and "holds bs (entry_vcn (ps ! k)) blk (st (entry_vcn (ps ! k)))" and "512 \<le> bs" and "bs \<le> 65536"
    and "es = st (entry_vcn (ps ! k))" and "m = (length es - 1) div 2" and "2 \<le> length es"
    and "length (concat (drop (Suc m) es)) \<le> bs - 24 - block_entries bs"
    and "length (es ! m) + 8 \<le> length pslack" and "length (es ! m) + 8 < 2 ^ 16"
    and "w \<notin> set (reach st (Suc d) ps)" and "0 \<le> w" and "in_s64 w" and "\<forall>n. mem n"
  shows "\<exists>new left L R h' ps' slack'. ib_split mem fresh bs blk (node hp ps pslack) k w = Ok (new, node h' ps' slack', left) \<and>
    holds bs w new R \<and> header_ok h' ps' \<and> holds bs (entry_vcn (ps ! k)) left L \<and>
    (let st' = st(entry_vcn (ps ! k) := L, w := R)
     in tree_ok st' (Suc d) ps' \<and> distinct (reach st' (Suc d) ps') \<and> inorder key st' (Suc d) ps' = inorder key st (Suc d) ps)"
proof -
  let ?v = "entry_vcn (ps ! k)" and ?L = "take m es @ [closing (es ! m) (last es)]" and ?R = "drop (Suc m) es"
  let ?med = "with_vcn ?v (with_room fresh (es ! m))"
  let ?ps = "take k ps @ ?med # with_vcn w (ps ! k) # drop (Suc k) ps"
  obtain h slack where b: "block_ok bs ?v blk" "ib_index blk = node h es slack" "header_ok h es"
    using assms(6,9) by (auto simp: holds_def)
  have m: "Suc m < length es" "m < length es" using assms(10,11) by linarith+
  have pk: "ps ! k \<in> set ps" using assms(3) by simp
  have sub: "has_node (ps ! k)" "tree_ok st d es" using assms(1,9) pk by (auto simp: list_all_iff)
  have med: "entry_ok (es ! m)" "\<not> is_end (es ! m)" using entry_okD [OF b(3) m(2)] is_end_nth [OF b(3) m(2)] m(1) by simp_all
  have len: "length blk = bs" using b(1) by (simp add: block_ok_def)
  then have small: "24 \<le> length blk" "length blk < 2 ^ 32" using assms(7,8) by simp_all
  have mem: "mem bs" using assms(18) by simp
  have "last es \<in> set es" using m by (intro last_in_set) auto
  then have kind: "has_node (es ! m) = has_node (last es)" using sub(2) m(2) by (cases d) (auto simp: list_all_iff)
  have at: "ntfs_ie_get_median (ib_index blk) = Ok (entry_pos h es m)" unfolding b(2) assms(10) by (rule node_median [OF b(3)])
  obtain new hr sr where new: "ib_copy_tail mem bs blk (entry_pos h es m) w = Ok new" "block_ok bs w new" "ib_index new = node hr ?R sr" "header_ok hr ?R"
    using copy_tail_block [where mem = mem, OF b(3,2) m(1) mem assms(7,8,17,12)] by blast
  obtain hl sl where cut: "ib_cut_tail blk (entry_pos h es m) = Ok (with_index INDEX_BLOCK_index blk (node hl ?L sl))" "header_ok hl ?L"
      "length (node hl ?L sl) = length (ib_index blk)"
    using cut_tail_block [OF b(3,2) m(1) kind small] by blast
  let ?left = "with_index INDEX_BLOCK_index blk (node hl ?L sl)"
  have left: "holds bs ?v ?left ?L" unfolding holds_def
    using block_ok_with_index [OF b(1) cut(3)] with_index_block [OF small(1)] cut(2) assms(7) by auto
  have right: "holds bs w new ?R" unfolding holds_def using new(2-4) by blast
  have "drop (entry_pos h es m) (ib_index blk) = es ! m @ concat ?R @ slack"
    unfolding b(2) using node_split [OF m(2), of h slack] by (simp add: entry_pos_def)
  then have dup: "ntfs_ih_insert mem fresh (node hp ps pslack) (drop (entry_pos h es m) (ib_index blk)) w k =
      ntfs_ih_insert mem fresh (node hp ps pslack) (es ! m) w k" using ih_insert_prefix [OF med(1)] by simp
  obtain h' slack' where par: "ntfs_ih_insert mem fresh (node hp ps pslack) (es ! m) w k = Ok (node h' ?ps slack')" "header_ok h' ?ps"
    using ih_insert_node [OF assms(4,3) sub(1) med assms(14,13,5,18), of fresh w] by blast
  have "ib_split mem fresh bs blk (node hp ps pslack) k w = Ok (new, node h' ?ps slack', ?left)"
    unfolding ib_split_def by (simp only: at new(1) dup par(1) cut(1) res_bind.simps)
  moreover note split = split_block_inorder [OF sub(2) m(1) in_s64_entry_vcn assms(14)]
  have "inorder key (st(?v := ?L, w := ?R)) (Suc d) ?ps = inorder key st (Suc d) ps \<and> tree_ok (st(?v := ?L, w := ?R)) (Suc d) ?ps \<and>
      distinct (reach (st(?v := ?L, w := ?R)) (Suc d) ?ps)"
    by (rule parent_inorder [OF assms(1,3,2,15,16,17) in_s64_entry_vcn med(1) assms(14) med(2)])
      (use split(1) [where key = key and v = ?v and fresh = fresh] split(2-4) assms(9) in simp_all)
  ultimately show ?thesis using right left par(2) unfolding Let_def by blast
qed

section \<open>A split of a directory block\<close>

definition full_leaf :: "bytes list" where
  "full_leaf = [filename_entry (demo_name 0x61) 5, filename_entry (demo_name 0x62) 6, end_entry]"

definition full_header :: bytes where
  "full_header = le_bytes 4 24 @ le_bytes 4 216 @ le_bytes 4 488 @ replicate 4 0 @ [1, 0, 0, 0, 0, 0, 0, 0]"

definition full_block :: bytes where
  "full_block = magic_INDX @ le_bytes 2 40 @ le_bytes 2 2 @ replicate 16 0 @ full_header @ concat full_leaf @ replicate 272 0"

definition parent_header :: bytes where "parent_header = le_bytes 4 16 @ le_bytes 4 40 @ le_bytes 4 240 @ [1, 0, 0, 0]"

theorem index_split_keeps_keys_witness:
  "\<exists>new left L R h' ps' slack'. ib_split (\<lambda>_. True) (\<lambda>_. 0) 512 full_block (node parent_header [demo_end_node] (replicate 200 0)) 0 1 =
      Ok (new, node h' ps' slack', left) \<and> holds 512 1 new R \<and> holds 512 0 left L \<and>
    inorder name_key ((\<lambda>_. full_leaf)(0 := L, 1 := R)) (Suc 0) ps' = [Some [0x61], Some [0x62]]"
proof -
  have v: "entry_vcn ([demo_end_node] ! 0) = 0" by code_simp
  have a1: "tree_ok (\<lambda>_. full_leaf) (Suc 0) [demo_end_node]" by code_simp
  have r: "reach (\<lambda>_. full_leaf) (Suc 0) [demo_end_node] = [0]" by code_simp
  then have a2: "distinct (reach (\<lambda>_. full_leaf) (Suc 0) [demo_end_node])" "1 \<notin> set (reach (\<lambda>_. full_leaf) (Suc 0) [demo_end_node])" by simp_all
  have a4: "header_ok parent_header [demo_end_node]" by code_simp
  have "length (node parent_header [demo_end_node] (replicate 200 0)) = 240" by code_simp
  then have a5: "length (node parent_header [demo_end_node] (replicate 200 0)) < 2 ^ 32" by simp
  have "block_ok 512 0 full_block" "ib_index full_block = node full_header full_leaf (replicate 272 0)" "header_ok full_header full_leaf" by code_simp+
  then have a6: "holds 512 (entry_vcn ([demo_end_node] ! 0)) full_block full_leaf" unfolding holds_def v by blast
  have a7: "(1 :: nat) = (length full_leaf - 1) div 2" "2 \<le> length full_leaf" by (simp_all add: full_leaf_def)
  have a8: "length (concat (drop (Suc 1) full_leaf)) \<le> 512 - 24 - block_entries 512" by code_simp
  have l: "length (full_leaf ! 1) = 88" by code_simp
  have a9: "length (full_leaf ! 1) + 8 \<le> length (replicate 200 (0 :: u8))" "length (full_leaf ! 1) + 8 < 2 ^ 16" unfolding l by simp_all
  have a10: "in_s64 1" by (simp add: in_s64_def)
  have names: "inorder name_key (\<lambda>_. full_leaf) (Suc 0) [demo_end_node] = [Some [0x61], Some [0x62]]" by code_simp
  note split = index_split_keeps_keys [OF a1 a2(1) _ a4 a5 a6 _ _ refl a7 a8 a9 a2(2) _ a10, where key = name_key and mem = "\<lambda>_. True" and fresh = "\<lambda>_. 0"]
  show ?thesis using split unfolding v names Let_def by simp blast
qed

end
