(* ===== verification/Index_Next.thy ===== *)
theory Index_Next
  imports Index_Divide
begin

text \<open>
  Traversal of an index with \<open>ntfs_index_next\<close>: inside a leaf it steps from entry to entry; started from an entry
  of the root it cannot go down, because the lookup has not opened the attribute of the blocks.
\<close>

unbundle bit_operations_syntax

lemma descend_not_root:
  "descend_into_child_node k l icx old v = Ok (b, icx') \<Longrightarrow> \<not> is_in_root icx'"
proof (induction k l icx old v rule: descend_into_child_node.induct)
  case (1 k l icx old v)
  from "1.prems" show ?case
    by (subst (asm) descend_into_child_node.simps)
      (auto split: result.splits option.splits ie_search.splits if_splits dest: "1.IH")
qed

lemma lookup_in_root:
  assumes "ntfs_index_lookup mem get_collate ni k len ntfs_index_ctx_get = Ok (b, icx)" and "is_in_root icx"
  shows "ia_na icx = None \<and> pindex icx = 0"
  using assms
  by (auto simp: ntfs_index_lookup_def Let_def ntfs_index_ctx_get_def set_parent_vcn_def set_parent_pos_def
      split: result.splits if_splits ie_search.splits dest: descend_not_root)

lemma read_closed: "ia_na icx = None \<Longrightarrow> ntfs_ib_read icx v = Ok None"
  by (simp add: ntfs_ib_read_def ntfs_attr_mst_pread_def ntfs_attr_pread_def)

text \<open>In a leaf the next entry is the one behind, and the position in the path moves with it.\<close>

lemma index_next_in_leaf:
  assumes "current icx = node h es slack" and "header_ok h es" and "Suc (Suc j) < length es" and "\<not> has_node (es ! Suc j)"
  shows "ntfs_index_next mem ni (entry_pos h es j) icx =
    Ok (Some (entry_pos h es (Suc j)), set_parent_pos (parent_pos icx ! pindex icx + 1) icx)"
proof -
  have j: "j < length es" "Suc j < length es" using assms(3) by simp_all
  have "\<not> is_end (es ! j)" "\<not> is_end (es ! Suc j)" using is_end_nth [OF assms(2) j(1)] is_end_nth [OF assms(2) j(2)] assms(3) by simp_all
  moreover have "current (set_parent_pos (parent_pos icx ! pindex icx + 1) icx) = node h es slack"
    using assms(1) by (auto simp: current_def set_parent_pos_def)
  ultimately show ?thesis
    using entry_fields [OF assms(2) j(1), of slack] entry_fields [OF assms(2) j(2), of slack] assms(1,4)
    by (simp add: ntfs_index_next_def Let_def entry_pos_Suc [OF j(1)] has_node_def is_end_def)
qed

text \<open>(C35) The entry behind one that the lookup found in the root is lost: if it has a sub-node, \<open>ntfs_index_next\<close> reports the end
  of the index, whatever the blocks hold. Only the descent of \<open>ntfs_index_lookup\<close> opens the index allocation.\<close>

theorem index_next_from_root:
  assumes "ntfs_index_lookup mem get_collate ni k len ntfs_index_ctx_get = Ok (True, icx)" and "is_in_root icx"
    and "current icx = node h es slack" and "header_ok h es" and "Suc j < length es" and "has_node (es ! Suc j)"
  shows "\<exists>icx'. ntfs_index_next mem ni (entry_pos h es j) icx = Ok (None, icx')"
proof -
  have j: "j < length es" using assms(5) by simp
  have closed: "ia_na icx = None" using lookup_in_root [OF assms(1,2)] by simp
  note f = entry_fields [OF assms(4) j, of slack] and g = entry_fields [OF assms(4,5), of slack]
  let ?icx = "set_parent_pos (parent_pos icx ! pindex icx + 1) icx"
  have cur: "current ?icx = node h es slack" "is_in_root ?icx" "ia_na ?icx = None"
    using assms(2,3) closed by (simp_all add: current_def set_parent_pos_def)
  have "8 \<le> length (es ! Suc j)" using entry_okD [OF assms(4,5)] by (simp add: entry_ok_def)
  then have vcn: "ntfs_ie_get_vcn (node h es slack) (entry_pos h es (Suc j)) = Ok (entry_vcn (es ! Suc j))"
    by (rule node_get_vcn [OF assms(4,5)])
  have "\<exists>icx'. ntfs_index_walk_down mem ?icx (entry_pos h es (Suc j)) = Ok (None, icx')"
    using cur by (subst ntfs_index_walk_down.simps) (simp add: vcn Let_def read_closed)
  moreover have "\<not> is_end (es ! j)" using is_end_nth [OF assms(4) j] assms(5) by simp
  ultimately show ?thesis
    using f g assms(3,6) cur by (auto simp: ntfs_index_next_def Let_def entry_pos_Suc [OF j] has_node_def is_end_def)
qed

definition next_entries :: "bytes list" where "next_entries = [added (\<lambda>_. 0) (filename_entry (demo_name 0x61) 5), demo_end_node]"
definition next_header :: bytes where "next_header = le_bytes 4 16 @ le_bytes 4 136 @ le_bytes 4 136 @ [1, 0, 0, 0]"

definition next_root :: bytes where
  "next_root = le_bytes 4 48 @ le_bytes 4 1 @ le_bytes 4 512 @ [1, 0, 0, 0] @ node next_header next_entries []"

definition next_inode :: index_inode where
  "next_inode = \<lparr>ir_lookup = Ok next_root,
     ia_open = ia_open demo_inode, cluster_size = 4096, cluster_size_bits = 12\<rparr>"

theorem index_next_from_root_witness:
  "\<exists>icx icx'. ntfs_index_lookup (\<lambda>_. True) (ntfs_get_collate_function (\<lambda>_ _. 0) []) next_inode (demo_name 0x61) 68 ntfs_index_ctx_get = Ok (True, icx) \<and>
     ntfs_index_next (\<lambda>_. True) next_inode 16 icx = Ok (None, icx')"
proof -
  have root: "index_block_size next_root = 512" "collation_rule next_root = 1" "ir_index next_root = node next_header next_entries []" by code_simp+
  have look: "ntfs_ie_lookup (Some (ntfs_collate_file_name [])) (demo_name 0x61) 68 (node next_header next_entries []) = Ok (Found 16 0)" by code_simp
  have ni: "ir_lookup next_inode = Ok next_root" "cluster_size next_inode = 4096" by (simp_all add: next_inode_def)
  have "\<exists>icx. ntfs_index_lookup (\<lambda>_. True) (ntfs_get_collate_function (\<lambda>_ _. 0) []) next_inode (demo_name 0x61) 68 ntfs_index_ctx_get = Ok (True, icx) \<and>
      is_in_root icx \<and> current icx = node next_header next_entries []"
    unfolding ntfs_index_lookup_def ni(1)
    by (simp only: root look result.case) (simp add: Let_def ntfs_get_collate_function_def look root ni current_def set_parent_vcn_def set_parent_pos_def)
  then obtain icx where l: "ntfs_index_lookup (\<lambda>_. True) (ntfs_get_collate_function (\<lambda>_ _. 0) []) next_inode (demo_name 0x61) 68 ntfs_index_ctx_get = Ok (True, icx)"
    "is_in_root icx" "current icx = node next_header next_entries []" by blast
  have h: "header_ok next_header next_entries" "Suc 0 < length next_entries" "has_node (next_entries ! Suc 0)" "entry_pos next_header next_entries 0 = 16"
    by code_simp+
  show ?thesis using index_next_from_root [OF l h(1-3)] l(1) h(4) by auto
qed

end
