(* ===== verification/Index_Bitmap.thy ===== *)
theory Index_Bitmap
  imports Index_Lookup Bitmap_Disk
begin

text \<open>
  The bitmap of the blocks of an index (\<open>libntfs-3g/index.c\<close>): the search for a free block and
  the change of a bit, on an attribute, and their effect on a bitmap on disk.
\<close>

unbundle bit_operations_syntax

section \<open>The code\<close>

text \<open>The attribute is opened anew by each operation; \<open>na_open\<close> tells whether that succeeds.\<close>

record 'a ibm_ops =
  na_ops :: "'a attr_ops"
  na_open :: "'a \<Rightarrow> bool"
  na_data_size :: "'a \<Rightarrow> int"
  na_truncate :: "'a \<Rightarrow> int \<Rightarrow> 'a \<times> errno option"

definition ntfs_attr_readall :: "(nat \<Rightarrow> bool) \<Rightarrow> 'a ibm_ops \<Rightarrow> 'a \<Rightarrow> 'a \<times> bytes option" where
  "ntfs_attr_readall mem ops na =
     (if \<not> na_open ops na \<or> \<not> mem (nat (na_data_size ops na)) then (na, None)
      else case na_pread (na_ops ops) na 0 (na_data_size ops na) of
        (na', Inl e) \<Rightarrow> (na', None)
      | (na', Inr b) \<Rightarrow> (na', if int (length b) = na_data_size ops na then Some b else None))"

definition ntfs_ib_pos_to_vcn :: "index_context \<Rightarrow> int \<Rightarrow> int" where
  "ntfs_ib_pos_to_vcn icx pos = pos div 2 ^ vcn_size_bits icx"

text \<open>The position of a block in the index and in the bitmap, for numbers that are not negative.\<close>

definition ntfs_ibm_vcn_to_pos :: "index_context \<Rightarrow> int \<Rightarrow> int" where
  "ntfs_ibm_vcn_to_pos icx vcn = ntfs_ib_vcn_to_pos icx vcn div int (block_size icx)"

definition ntfs_ibm_pos_to_vcn :: "index_context \<Rightarrow> int \<Rightarrow> int" where
  "ntfs_ibm_pos_to_vcn icx pos = ntfs_ib_pos_to_vcn icx (s64 (pos * int (block_size icx)))"

definition ibm_grow :: "'a ibm_ops \<Rightarrow> 'a \<Rightarrow> int \<Rightarrow> 'a \<times> bool" where
  "ibm_grow ops na bpos =
     (if na_data_size ops na < (bpos + 1) mod 2 ^ 32
      then case na_truncate ops na ((na_data_size ops na + 8) div 8 * 8) of (na, err) \<Rightarrow> (na, err = None)
      else (na, True))"

definition ntfs_ibm_modify :: "'a ibm_ops \<Rightarrow> index_context \<Rightarrow> 'a \<Rightarrow> int \<Rightarrow> bool \<Rightarrow> 'a \<times> bool" where
  "ntfs_ibm_modify ops icx na vcn v =
     (let pos = ntfs_ibm_vcn_to_pos icx vcn; bpos = pos div 8 mod 2 ^ 32
      in if \<not> na_open ops na then (na, False)
         else case (if v then ibm_grow ops na bpos else (na, True)) of
           (na, False) \<Rightarrow> (na, False)
         | (na, True) \<Rightarrow>
             (case na_pread (na_ops ops) na bpos 1 of
                (na, Inl e) \<Rightarrow> (na, False)
              | (na, Inr b) \<Rightarrow>
                  if length b \<noteq> 1 then (na, False)
                  else (case na_pwrite (na_ops ops) na bpos [bit_put v (nat (pos mod 8)) (hd b)] of
                          (na, Inl e) \<Rightarrow> (na, False)
                        | (na, Inr n) \<Rightarrow> (na, n = 1))))"

definition ntfs_ibm_set :: "'a ibm_ops \<Rightarrow> index_context \<Rightarrow> 'a \<Rightarrow> int \<Rightarrow> 'a \<times> bool" where
  "ntfs_ibm_set ops icx na vcn = ntfs_ibm_modify ops icx na vcn True"

definition ntfs_ibm_clear :: "'a ibm_ops \<Rightarrow> index_context \<Rightarrow> 'a \<Rightarrow> int \<Rightarrow> 'a \<times> bool" where
  "ntfs_ibm_clear ops icx na vcn = ntfs_ibm_modify ops icx na vcn False"

text \<open>The number of the first clear bit; behind the last one if there is none.\<close>

fun first_free :: "nat \<Rightarrow> bytes \<Rightarrow> nat" where
  "first_free n [] = n * 8"
| "first_free n (b # bm) =
     (if b = 255 then first_free (n + 1) bm
      else case find (\<lambda>i. \<not> bit b i) [0..<8] of Some i \<Rightarrow> n * 8 + i | None \<Rightarrow> first_free (n + 1) bm)"

definition ntfs_ibm_get_free :: "(nat \<Rightarrow> bool) \<Rightarrow> 'a ibm_ops \<Rightarrow> index_context \<Rightarrow> 'a \<Rightarrow> 'a \<times> int" where
  "ntfs_ibm_get_free mem ops icx na =
     (case ntfs_attr_readall mem ops na of
        (na, None) \<Rightarrow> (na, -1)
      | (na, Some bm) \<Rightarrow>
          let vcn = ntfs_ibm_pos_to_vcn icx (int (first_free 0 bm))
          in case ntfs_ibm_set ops icx na vcn of (na, ok) \<Rightarrow> (na, if ok then vcn else -1))"

section \<open>The search\<close>

lemma first_free_spec:
  "n * 8 \<le> first_free n bm \<and> first_free n bm \<le> (n + length bm) * 8 \<and>
   (\<forall>k < first_free n bm - n * 8. bm_bit bm k) \<and>
   (first_free n bm < (n + length bm) * 8 \<longrightarrow> \<not> bm_bit bm (first_free n bm - n * 8))"
proof (induction bm arbitrary: n)
  case (Cons b bm)
  have at: "bm_bit (b # bm) k = (if k < 8 then bit b k else bm_bit bm (k - 8))" for k
  proof (cases "k < 8")
    case False
    then have "k div 8 = Suc ((k - 8) div 8)" "k mod 8 = (k - 8) mod 8" by (simp_all add: le_div_geq le_mod_geq)
    then show ?thesis using False by (simp add: bm_bit_def)
  qed (simp add: bm_bit_def)
  show ?case
  proof (cases "find (\<lambda>i. \<not> bit b i) [0..<8]")
    case None
    then have all: "bit b k" if "k < 8" for k using that by (auto simp: find_None_iff)
    have step: "first_free n (b # bm) = first_free (n + 1) bm" using None by simp
    show ?thesis unfolding step
    proof (intro conjI allI impI)
      note IH = Cons.IH [of "n + 1"]
      show "n * 8 \<le> first_free (n + 1) bm" "first_free (n + 1) bm \<le> (n + length (b # bm)) * 8" using IH by simp_all
      fix k assume k: "k < first_free (n + 1) bm - n * 8"
      show "bm_bit (b # bm) k"
      proof (cases "k < 8")
        case False
        then have "k - 8 < first_free (n + 1) bm - (n + 1) * 8" using k by simp
        then show ?thesis using IH at False by simp
      qed (use all at in simp)
    next
      note IH = Cons.IH [of "n + 1"]
      assume "first_free (n + 1) bm < (n + length (b # bm)) * 8"
      moreover have "first_free (n + 1) bm - n * 8 - 8 = first_free (n + 1) bm - (n + 1) * 8" by simp
      moreover have "\<not> first_free (n + 1) bm - n * 8 < 8" using conjunct1 [OF IH] by simp
      ultimately show "\<not> bm_bit (b # bm) (first_free (n + 1) bm - n * 8)" using IH at [of "first_free (n + 1) bm - n * 8"] by simp
    qed
  next
    case (Some i)
    then have i: "i < 8" "\<not> bit b i" "\<And>k. k < i \<Longrightarrow> bit b k"
      by (auto simp: find_Some_iff)
    have "b \<noteq> 255" 
    proof
      assume b: "b = 255"
      have m: "(mask 8 :: u8) = 255" by (simp add: mask_eq_exp_minus_1)
      have "bit (mask 8 :: u8) i" unfolding bit_mask_iff using i(1) by simp
      then show False using i(2) unfolding b m by simp
    qed
    then show ?thesis using Some i at by (auto simp: algebra_simps)
  qed
qed simp

section \<open>The change of a bit\<close>

context byte_attr
begin

lemma ibm_modify_exact:
  assumes "ok na" and "na_ops ops = aops" and "na_open ops na" and "na_data_size ops na = int (length (content na))"
    and "ntfs_ibm_vcn_to_pos icx vcn = int k" and "k < 8 * length (content na)" and "k < 2 ^ 35 - 8"
  shows "\<exists>na'. ntfs_ibm_modify ops icx na vcn v = (na', True) \<and> ok na' \<and> bits_put v k (k + 1) (content na) (content na')"
proof -
  have q: "k div 8 < length (content na)" using assms(6) by (simp add: less_mult_imp_div_less mult.commute)
  have small: "int (k div 8) + 1 < 2 ^ 32"
  proof -
    have "k div 8 < 2 ^ 32 - 1" using assms(7) by (simp add: div_less_iff_less_mult)
    then show ?thesis by simp
  qed
  have bpos: "int k div 8 mod 2 ^ 32 = int (k div 8)" "(int (k div 8) + 1) mod 2 ^ 32 = int (k div 8) + 1"
    using small by (simp_all add: zdiv_int)
  have grow: "ibm_grow ops na (int (k div 8)) = (na, True)" using q unfolding ibm_grow_def bpos(2) assms(4) by simp
  obtain na1 where r: "na_pread aops na (int (k div 8)) 1 = (na1, Inr (take 1 (drop (k div 8) (content na))))" "content na1 = content na" "ok na1"
    using na_pread_law [OF assms(1), of "int (k div 8)" 1] by auto
  have one: "take 1 (drop (k div 8) (content na)) = [content na ! (k div 8)]" using q by (simp add: take_Suc_conv_app_nth [of 0] hd_drop_conv_nth)
  let ?b = "[bit_put v (k mod 8) (content na ! (k div 8))]"
  obtain na2 where w: "na_pwrite aops na1 (int (k div 8)) ?b = (na2, Inr 1)" "content na2 = put_at (content na) (k div 8) ?b" "ok na2"
    using na_pwrite_law [OF r(3), of "int (k div 8)" ?b] r(2) q by auto
  have m: "nat (int k mod 8) = k mod 8" by (simp add: nat_mod_distrib)
  have run: "ntfs_ibm_modify ops icx na vcn v = (na2, True)"
    using assms(2,3) r(1) w(1) grow unfolding ntfs_ibm_modify_def Let_def assms(5) bpos(1) m one by (cases v) simp_all
  have "bits_put v k (k + 1) (content na) (put_at (content na) (k div 8) ?b)"
  proof (rule bits_put_put_at)
    fix j i :: nat assume ji: "j < length ?b" "i < 8"
    have "(k \<le> 8 * (k div 8) + i \<and> 8 * (k div 8) + i < k + 1) = (i = k mod 8)" using mult_div_mod_eq [of 8 k] by linarith
    then show "bit (?b ! j) i = (if k \<le> 8 * (k div 8 + j) + i \<and> 8 * (k div 8 + j) + i < k + 1 then v else bit (content na ! (k div 8 + j)) i)"
      using ji by simp
  next
    show "k div 8 + length ?b \<le> length (content na)" using q by simp
    show "8 * (k div 8) \<le> k" by simp
    have "k mod 8 < 8" by simp
    then have "k + 1 \<le> 8 * (k div 8) + 8" using mult_div_mod_eq [of 8 k] by linarith
    then show "k + 1 \<le> 8 * (k div 8 + length ?b)" by simp
  qed
  then show ?thesis using run w(2,3) by simp
qed

lemma ibm_get_free_exact:
  assumes "ok na" and "na_ops ops = aops" and "\<And>na. na_open ops na" and "\<And>na. ok na \<Longrightarrow> na_data_size ops na = int (length (content na))"
    and "\<exists>k < 8 * length (content na). \<not> bm_bit (content na) k" and "mem (length (content na))"
    and "block_size icx = c * 2 ^ vcn_size_bits icx" and "0 < block_size icx"
    and "8 * length (content na) * block_size icx < 2 ^ 63" and "8 * length (content na) \<le> 2 ^ 35 - 8"
  defines "k \<equiv> first_free 0 (content na)"
  shows "\<exists>na'. ntfs_ibm_get_free mem ops icx na = (na', int (k * c)) \<and> ok na' \<and> ntfs_ibm_vcn_to_pos icx (int (k * c)) = int k \<and>
    k < 8 * length (content na) \<and> \<not> bm_bit (content na) k \<and> (\<forall>i < k. bm_bit (content na) i) \<and>
    bits_put True k (k + 1) (content na) (content na')"
proof -
  obtain f where f: "f < 8 * length (content na)" "\<not> bm_bit (content na) f" using assms(5) by blast
  note spec = first_free_spec [of 0 "content na", folded k_def, simplified]
  have "\<not> f < k" using spec f(2) by blast
  then have k: "k < 8 * length (content na)" using f(1) by simp
  have free: "\<not> bm_bit (content na) k" "\<forall>i < k. bm_bit (content na) i" using spec k by (simp_all add: mult.commute)
  obtain na1 where r: "na_pread aops na 0 (int (length (content na))) = (na1, Inr (content na))" "content na1 = content na" "ok na1"
    using na_pread_law [OF assms(1), of 0 "int (length (content na))"] by auto
  have all: "ntfs_attr_readall mem ops na = (na1, Some (content na))"
    using assms(2,3,6) assms(4) [OF assms(1)] r(1) by (simp add: ntfs_attr_readall_def)
  have bound: "k * block_size icx < 2 ^ 63" using mult_strict_right_mono [OF k assms(8)] assms(9) by linarith
  then have pos: "s64 (int k * int (block_size icx)) = int (k * block_size icx)" by (simp add: s64_def flip: of_nat_mult)
  have vcn: "ntfs_ibm_pos_to_vcn icx (int k) = int (k * c)"
    unfolding ntfs_ibm_pos_to_vcn_def ntfs_ib_pos_to_vcn_def pos by (simp add: assms(7))
  have e: "int (k * c) * 2 ^ vcn_size_bits icx = int k * int (block_size icx)" using assms(7) by simp
  have "ntfs_ib_vcn_to_pos icx (int (k * c)) = int (k * block_size icx)"
    unfolding ntfs_ib_vcn_to_pos_def e pos ..
  then have again: "ntfs_ibm_vcn_to_pos icx (int (k * c)) = int k"
    unfolding ntfs_ibm_vcn_to_pos_def using assms(8) by simp
  have "k < 2 ^ 35 - 8" using k assms(10) by linarith
  then obtain na2 where "ntfs_ibm_modify ops icx na1 (int (k * c)) True = (na2, True)" "ok na2" "bits_put True k (k + 1) (content na) (content na2)"
    using ibm_modify_exact [OF r(3) assms(2,3) assms(4) [OF r(3)] again, of True] k r(2) by auto
  then show ?thesis using all vcn k free again by (simp add: ntfs_ibm_get_free_def ntfs_ibm_set_def Let_def k_def)
qed

end

section \<open>The bitmap of an index on disk\<close>

definition disk_ibm :: "(rl_attr \<Rightarrow> int \<Rightarrow> rl_attr \<times> errno option) \<Rightarrow> rl_attr ibm_ops" where
  "disk_ibm trunc = \<lparr>na_ops = rl_attr_ops, na_open = (\<lambda>_. True), na_data_size = (\<lambda>na. int (length (rl_content na))), na_truncate = trunc\<rparr>"

text \<open>The search for a free block on a bitmap stored on disk takes the first block whose bit is clear, sets exactly this bit
  and returns the number of the block; clearing that block again gives the old bitmap again. A block is a multiple
  of the unit of block numbers, as the lookup sets it.\<close>

theorem index_block_alloc_free:
  assumes "rl_ok na" and "\<exists>k < 8 * length (rl_content na). \<not> bm_bit (rl_content na) k" and "mem (length (rl_content na))"
    and "block_size icx = c * 2 ^ vcn_size_bits icx" and "0 < block_size icx"
    and "8 * length (rl_content na) * block_size icx < 2 ^ 63" and "8 * length (rl_content na) \<le> 2 ^ 35 - 8"
  shows "\<exists>na' na'' k. ntfs_ibm_get_free mem (disk_ibm trunc) icx na = (na', int (k * c)) \<and>
    k < 8 * length (rl_content na) \<and> \<not> bm_bit (rl_content na) k \<and> (\<forall>i < k. bm_bit (rl_content na) i) \<and>
    (\<forall>i < 8 * length (rl_content na). bm_bit (rl_content na') i = (i = k \<or> bm_bit (rl_content na) i)) \<and>
    ntfs_ibm_clear (disk_ibm trunc) icx na' (int (k * c)) = (na'', True) \<and> rl_content na'' = rl_content na"
proof -
  let ?k = "first_free 0 (rl_content na)"
  have o: "na_ops (disk_ibm trunc) = rl_attr_ops" "\<And>na. na_open (disk_ibm trunc) na"
    "\<And>na. na_data_size (disk_ibm trunc) na = int (length (rl_content na))" by (simp_all add: disk_ibm_def)
  obtain na' where a: "ntfs_ibm_get_free mem (disk_ibm trunc) icx na = (na', int (?k * c))" "rl_ok na'"
    "ntfs_ibm_vcn_to_pos icx (int (?k * c)) = int ?k" "?k < 8 * length (rl_content na)" "\<not> bm_bit (rl_content na) ?k"
    "\<forall>i < ?k. bm_bit (rl_content na) i" "bits_put True ?k (?k + 1) (rl_content na) (rl_content na')"
    using disk_attr.ibm_get_free_exact [where mem = mem, OF assms(1) o assms(2-7)] by blast
  have len: "length (rl_content na') = length (rl_content na)" using bits_put_length [OF a(7)] .
  have "?k < 2 ^ 35 - 8" using a(4) assms(7) by linarith
  then obtain na'' where b: "ntfs_ibm_modify (disk_ibm trunc) icx na' (int (?k * c)) False = (na'', True)"
    "bits_put False ?k (?k + 1) (rl_content na') (rl_content na'')"
    using disk_attr.ibm_modify_exact [OF a(2) o(1,2) o(3) a(3), of False] a(4) len by auto
  have "rl_content na'' = rl_content na"
  proof (rule bytes_eq_bits)
    show "length (rl_content na'') = length (rl_content na)" using bits_put_length [OF b(2)] len by simp
    fix i assume "i < 8 * length (rl_content na'')"
    then have i: "i < 8 * length (rl_content na)" using bits_put_length [OF b(2)] len by simp
    show "bm_bit (rl_content na'') i = bm_bit (rl_content na) i"
      using a(5,7) b(2) i len by (cases "i = ?k") (auto simp: bits_put_def)
  qed
  moreover have "\<forall>i < 8 * length (rl_content na). bm_bit (rl_content na') i = (i = ?k \<or> bm_bit (rl_content na) i)"
    using a(7) by (auto simp: bits_put_def)
  ultimately show ?thesis using a(1,4-6) b(1) unfolding ntfs_ibm_clear_def by blast
qed

definition demo_icx :: index_context where
  "demo_icx = ntfs_index_ctx_get\<lparr>block_size := 4096, vcn_size_bits := 12\<rparr>"

theorem index_block_alloc_free_witness:
  "\<exists>na' k. ntfs_ibm_get_free (\<lambda>_. True) (disk_ibm (\<lambda>na _. (na, Some ENOSPC))) demo_icx demo_bitmap = (na', int k) \<and>
     \<not> bm_bit (rl_content demo_bitmap) k \<and> bm_bit (rl_content na') k"
proof -
  have "\<not> bm_bit (rl_content demo_bitmap) 0" by code_simp
  then have free: "\<exists>k < 8 * length (rl_content demo_bitmap). \<not> bm_bit (rl_content demo_bitmap) k" using demo_bitmap_ok(2) by (intro exI [of _ 0]) simp
  have "block_size demo_icx = 1 * 2 ^ vcn_size_bits demo_icx" "0 < block_size demo_icx" "8 * length (rl_content demo_bitmap) * block_size demo_icx < 2 ^ 63"
    "8 * length (rl_content demo_bitmap) \<le> 2 ^ 35 - 8"
    using demo_bitmap_ok(2) by (simp_all add: demo_icx_def)
  from index_block_alloc_free [where mem = "\<lambda>_. True" and trunc = "\<lambda>na _. (na, Some ENOSPC)", OF demo_bitmap_ok(1) free _ this]
  show ?thesis by fastforce
qed

end
