(* ===== verification/Spec2Isabelle.thy ===== *)
theory Spec2Isabelle
  imports Vdfuse_Callbacks Mapping_Pairs_Safety Runlist_Merge Runlist_Faults Device_Lifecycle Bootsect Lcnalloc_Disk
    Decompress_Safety Compress_Set_Laws Unistr_Codec Index_Next Index_Bitmap
begin

text \<open>
  VHD-Boot starts an operating system from a virtual disk on an NTFS volume. The C code of its own
  work is \<open>vdfuse\<close> (a FUSE file system that shows the partitions of a virtual disk image as
  files) and the fixed \<open>ntfs-3g\<close> library, which reads and writes the NTFS volume that holds the image.
  Paths below are relative to \<open>src/kloop/ntfs-3g_ntfsprogs-2017.3.23-fixed/libntfs-3g\<close> unless
  they name \<open>vdfuse.c\<close> (\<open>src/vdfuseloop/vdfuse/src\<close>).

  How the parts work together. A file on the volume is an attribute; its clusters are listed by
  mapping pairs, which \<open>runlist.c\<close> turns into a runlist. Reads and writes of the attribute go along the
  runlist to the device. Records on disk are protected against torn writes (\<open>mst.c\<close>).
  New clusters come from \<open>lcnalloc.c\<close>, which searches and sets the bitmap of the volume through
  \<open>bitmap.c\<close>; that bitmap is itself an attribute, so the development composes the allocator, the bitmap,
  the runlist and the device down to the bytes of a disk. Compressed attributes go through \<open>compress.c\<close>.
  Names are compared and converted by \<open>unistr.c\<close>; directories are B-trees (\<open>index.c\<close>) whose entries are
  ordered by the functions of \<open>collate.c\<close>. \<open>bootsect.c\<close> supplies the geometry all of this uses.

  Modelling. A record or structure is a \<open>record\<close> or, where the code works on packed bytes, the list
  of those bytes with the fields read at their offsets (\<open>le_at\<close>, \<open>put_at\<close>); a pointer into a buffer is
  an offset. An operation that can fail returns a \<open>result\<close>: \<open>Ok\<close>, \<open>Err\<close> with the \<open>errno\<close>, or \<open>Fault\<close>
  for an access outside the memory the code was given. Machine integers are words, or integers with the
  wrap-around written out (\<open>s64\<close>, \<open>s32\<close>, \<open>mod\<close>). Memory can run out: \<open>mem n\<close> tells whether an
  allocation of \<open>n\<close> bytes succeeds. What the code calls but does not contain is a parameter: the
  VirtualBox disk library, the system calls, \<open>memcmp\<close>.

  \<open>NTFS_Prelude\<close>: types, results, little-endian fields and buffers; the locales \<open>codec\<close> (an encoder
  with its decoder) and \<open>invariant_system\<close> (a transition system with an invariant).

  vdfuse. \<open>Vdfuse\<close> models \<open>vdfuse.c\<close>: the partition table parser (\<open>initialisePartitionTable\<close>, with
  the loops over the MBR and the chain of EBRs), the lookup of a path, and all callbacks. The theory
  \<open>Vdfuse_Table\<close> shows that the table is well formed whatever the image holds, that paths are found again,
  and the two defects of the parser; \<open>Vdfuse_Callbacks\<close> that reads and writes reach exactly
  their slice of the image, that the exclusion of whole disk and partitions is an invariant of
  sequential use and that concurrent openings break it.

  Runlists. \<open>Runlist\<close> has the operations of \<open>runlist.c\<close> on arrays of elements: merging (\<open>rl_merge\<close>,
  \<open>ntfs_rl_append\<close>, \<open>ntfs_rl_insert\<close>, \<open>ntfs_rl_replace\<close>, \<open>ntfs_rl_split\<close>, \<open>ntfs_runlists_merge\<close>), lookup and truncation.
  \<open>Runlist_Cells\<close> gives a runlist its meaning, the list of cells (one per virtual cluster), and
  characterises lookup, truncation and sizes; \<open>Runlist_Merge\<close> shows that merging splices cells.
  \<open>Mapping_Pairs\<close> has the decompressor, the size computation and the builder;
  \<open>Mapping_Pairs_Codec\<close>, \<open>Mapping_Pairs_Roundtrip\<close> and \<open>Mapping_Pairs_Safety\<close> show that building and
  reading are inverse, also over several extents, that the size is exact, and what arbitrary bytes can do.
  The fields of the header of an attribute record are read from its bytes, with a \<open>Fault\<close> where the bytes end before.

  Devices. \<open>Device\<close> models \<open>device.c\<close> and \<open>unix_io.c\<close> (opening with its lock, transfers, protected
  transfers, the search for the size), \<open>Device_Laws\<close> states the contract of a device as a locale and
  interprets it on files and block devices. The operating system of that interpretation is a file whose transfers
  move any number of bytes from one on (\<open>f_cut\<close>); in \<open>Device_Lifecycle\<close> any of its system calls may fail
  (\<open>faulty_file\<close>), in \<open>Runlist_Faults\<close> the bytes of a given set cannot be read (\<open>bad_file\<close>). \<open>Device_Transfer\<close> proves
  the transfers exact, \<open>Device_Lifecycle\<close> that nothing is written without the lock and what a failing \<open>close\<close>
  leaves behind. A loop over short transfers may not end: it is
  a \<open>partial_function\<close>, and the theorems prove that it returns. \<open>Runlist_IO\<close> has the gather
  read and scatter write along a runlist, and \<open>Runlist_Faults\<close> shows what a gather read makes of bytes that cannot be read. \<open>Mst\<close> models \<open>mst.c\<close> and shows the round trip of the
  protection and the detection of torn writes, whatever sectors arrive. \<open>Bootsect\<close> models \<open>bootsect.c\<close>; a shift that C
  leaves undefined is a \<open>Fault\<close>, and the theorem says which boot sectors reach one.

  Allocation. \<open>Bitmap\<close> models \<open>bitmap.c\<close>; \<open>Bitmap_Runs\<close> states what an attribute must provide (locale
  \<open>byte_attr\<close>) and shows the buffered loop exact; \<open>Bitmap_Disk\<close> interprets the locale on an attribute stored
  along a runlist on a device. \<open>Lcnalloc\<close> models \<open>lcnalloc.c\<close>; \<open>Lcnalloc_Range\<close> proves the search for a
  free range against its specification, \<open>Lcnalloc_Alloc\<close> and \<open>Lcnalloc_Free\<close> that exactly free
  clusters are taken and exactly the given ones freed, \<open>Lcnalloc_Disk\<close> composes them on a disk and
  shows that the allocator returns; \<open>Lcnalloc_Fragment\<close> has the bitmap on which it fails although clusters are free.

  Compression. \<open>Decompress\<close>, \<open>Compress\<close> and \<open>Compress_Set\<close> model \<open>ntfs_decompress\<close>, \<open>ntfs_compress_block\<close>
  with its match finder, and \<open>ntfs_comp_set\<close> with the tests of the runlist of a compressed attribute.
  \<open>Compress_Match\<close>, \<open>Compress_Tokens\<close>, \<open>Compress_Parser\<close> and \<open>Compress_Roundtrip\<close> show that a compressed
  block expands to its data, through an intermediate list of tokens; \<open>Compress_Set_Exact\<close> and
  \<open>Compress_Set_Laws\<close> the same for a set, and that its output buffer, beyond which \<open>ntfs_comp_set\<close> would \<open>Fault\<close>, suffices; \<open>Decompress_Safety\<close> what
  arbitrary compressed bytes can access.

  Names and indexes. \<open>Unistr\<close> models \<open>unistr.c\<close>; \<open>Unistr_Utf\<close>, \<open>Unistr_Pair\<close> and \<open>Unistr_Codec\<close> show that
  the sizes of the conversions are exact or sufficient and that names come back. \<open>Collate\<close> models
  \<open>collate.c\<close> and shows that names are ordered totally, by upper case first.
  \<open>Index_Node\<close> models the operations of \<open>index.c\<close> on the entries of one node, \<open>Index_Node_Laws\<close> what they
  do to the list of the entries. \<open>Index_Search\<close> states the contract of a comparison of keys as the locale
  \<open>key_order\<close> and proves the search, insertion and deletion in a sorted node in it; \<open>Index_Order\<close>
  interprets it on the comparisons of \<open>collate.c\<close>, and \<open>Index_Directory\<close> draws the consequences for names
  and shows what the search makes of a binary key with any \<open>memcmp\<close> that obeys the C standard. \<open>Index_Block\<close> has the
  operations on blocks and on the root, \<open>Index_Split\<close>, \<open>Index_Parent\<close> and \<open>Index_Tree\<close> show that the halves
  of a split are well formed and that the keys of the tree stay, in order, the same; \<open>Index_Divide\<close> composes the
  split (\<open>ib_split\<close>). \<open>Index_Lookup\<close> models the context, the reading of blocks, \<open>ntfs_index_lookup\<close> and the
  traversal (\<open>ntfs_index_next\<close>); \<open>Index_Lookup_Laws\<close> shows that the descent finds exactly the keys of
  the tree, \<open>Index_Insert\<close> and \<open>Index_Add\<close> that an entry added where the lookup ended comes to its place in
  order, and \<open>Index_Next\<close> what the traversal does in a leaf and in the root. \<open>Index_Bitmap\<close> has the bitmap of the
  blocks of an index (\<open>ntfs_ibm_get_free\<close>, \<open>ntfs_ibm_set\<close>, \<open>ntfs_ibm_clear\<close>) and shows that the block taken was free. An index is a root and blocks by
  number: \<open>tree_ok st d es\<close> says that the entries \<open>es\<close> are the root of a tree of depth \<open>d\<close> whose block \<open>v\<close> has
  the entries \<open>st v\<close>, \<open>inorder\<close> gives its keys, and \<open>stored\<close> that reading block \<open>v\<close> delivers these entries.

  Fuel and bounds. \<open>sb_tokens\<close> runs with the fuel of the bytes of a sub-block, which each token
  uses up by at least one; the descent in an index ends because the context has room for 32 levels; the loops of the allocator and of the device are partial functions and are
  proved to return; every other loop is a function with a measure. The search for the size of a device works on
  unbounded offsets, which is what the \<open>s64\<close> of the code does below \<open>2^62\<close> bytes. The attribute of the volume bitmap is read and
  written along its runlist (\<open>rl_attr_ops\<close>), which stands for \<open>ntfs_attr_pread\<close> and \<open>ntfs_attr_pwrite\<close> inside an attribute
  that is not compressed, encrypted or extended.

  Not modelled. Of \<open>attrib.c\<close> only the lookup of a virtual cluster and protected reads over a given \<open>ntfs_attr_pread_i\<close> are modelled. Of \<open>index.c\<close>
  adding the bitmap attribute, the writing of blocks, the resizing of the root and the
  removal of entries from inner nodes are missing, so the loops of \<open>ntfs_ie_add\<close> and \<open>ntfs_index_remove\<close> are not composed. The functions that need a whole open inode (\<open>attrib.c\<close>,
  \<open>inode.c\<close>, \<open>mft.c\<close>, \<open>dir.c\<close>, \<open>attrlist.c\<close>, \<open>security.c\<close>, \<open>acls.c\<close>, \<open>reparse.c\<close>, \<open>efs.c\<close>, \<open>ea.c\<close>,
  \<open>object_id.c\<close>, \<open>volume.c\<close>) are left out, as is the journal (\<open>logfile.c\<close>). Of \<open>compress.c\<close> the
  reading and writing of a whole attribute is missing, of \<open>unistr.c\<close> the upcase table (data), the
  multibyte functions of the C library and \<open>ntfs_uppercase_mbs\<close>. \<open>libfuse-lite\<close> is
  third-party code; the command line programs (\<open>ntfsprogs\<close>, \<open>ntfs-3g.c\<close>, the \<open>main\<close> of \<open>vdfuse.c\<close>) and the
  layers for logging and portability do input and output only.
\<close>

end
